(* ===== verification/Bytes.thy ===== *)
theory Bytes
  imports Prelude
begin

unbundle bit_operations_syntax

text \<open>
  Fixed-width little-endian integers and the checked input cursor.

  \<open>le_bytes n\<close> is \<open>to_le_bytes\<close> for an integer of \<open>n\<close> bytes, \<open>of_le\<close> is \<open>from_le_bytes\<close>.
  The \<open>reader\<close> record is the \<open>Reader\<close> struct that \<open>passman-vault\<close> and \<open>passman-recovery\<close>
  both declare: a buffer and a position.  The two crates differ in their error type only,
  so the laws of a cursor and of the readers built on it are stated once, as the locales
  \<open>byte_cursor\<close>, \<open>int_reader\<close> and \<open>vec_reader\<close>, and discharged by each crate's own operations.
\<close>

named_theorems rd_simps \<open>reading back what an encoder wrote\<close>
named_theorems rd_iffs \<open>inversion of a successful read\<close>

section \<open>Little-endian integers\<close>

definition le_bytes :: "nat \<Rightarrow> 'a::len word \<Rightarrow> bytes" where
  "le_bytes n w = map (\<lambda>i. ucast (drop_bit (8 * i) w)) [0..<n]"

fun of_le :: "bytes \<Rightarrow> 'a::len word" where
  "of_le [] = 0"
| "of_le (b # bs) = ucast b OR push_bit 8 (of_le bs)"

lemma length_le_bytes [simp]: "length (le_bytes n w) = n"
  by (simp add: le_bytes_def)

lemma bit_of_le:
  "bit (of_le bs :: 'a::len word) k \<longleftrightarrow>
     k < LENGTH('a) \<and> k div 8 < length bs \<and> bit (bs ! (k div 8)) (k mod 8)"
proof (induction bs arbitrary: k)
  case Nil
  then show ?case by simp
next
  case (Cons b bs)
  show ?case
  proof (cases "k < 8")
    case True
    then show ?thesis
      by (auto simp: bit_or_iff bit_push_bit_iff bit_ucast_iff)
  next
    case False
    then obtain j where j: "k = j + 8" by (metis add.commute le_Suc_ex not_less)
    have nb: "\<not> bit b (j + 8)"
      using bit_imp_le_length [of b "j + 8"] by auto
    have "bit (of_le (b # bs) :: 'a word) k \<longleftrightarrow>
        k < LENGTH('a) \<and> bit (of_le bs :: 'a word) j"
      using False j nb by (auto simp: bit_or_iff bit_push_bit_iff bit_ucast_iff)
    also have "\<dots> \<longleftrightarrow> k < LENGTH('a) \<and> j div 8 < length bs \<and> bit (bs ! (j div 8)) (j mod 8)"
      using j by (auto simp: Cons.IH)
    finally show ?thesis
      using j by (simp add: div_add_self2 nth_Cons' del: of_le.simps)
  qed
qed

declare of_le.simps [simp del]

lemma bit_le_bytes:
  "i < n \<Longrightarrow> bit (le_bytes n (w :: 'a::len word) ! i) k \<longleftrightarrow> k < 8 \<and> bit w (8 * i + k)"
  by (auto simp: le_bytes_def bit_ucast_iff bit_drop_bit_eq add.commute)

lemma of_le_le_bytes:
  assumes "LENGTH('a) = 8 * n"
  shows "of_le (le_bytes n w) = (w :: 'a::len word)"
proof (rule bit_word_eqI)
  fix k assume k: "k < LENGTH('a)"
  then have "k div 8 < n" using assms by (simp add: less_mult_imp_div_less mult.commute)
  then show "bit (of_le (le_bytes n w) :: 'a word) k = bit w k"
    using k by (simp add: bit_of_le bit_le_bytes)
qed

lemma le_bytes_of_le:
  assumes "LENGTH('a) = 8 * n" and "length bs = n"
  shows "le_bytes n (of_le bs :: 'a::len word) = bs"
proof (rule nth_equalityI)
  show "length (le_bytes n (of_le bs :: 'a word)) = length bs" using assms by simp
next
  fix i assume "i < length (le_bytes n (of_le bs :: 'a word))"
  then have i: "i < n" by simp
  show "le_bytes n (of_le bs :: 'a word) ! i = bs ! i"
  proof (rule bit_word_eqI)
    fix k assume k: "k < LENGTH(8)"
    then have "8 * i + k < LENGTH('a)" using i assms(1) by simp
    moreover have "(8 * i + k) div 8 = i" "(8 * i + k) mod 8 = k" using k by auto
    ultimately show "bit (le_bytes n (of_le bs :: 'a word) ! i) k = bit (bs ! i) k"
      using i k assms(2) by (simp add: bit_of_le bit_le_bytes)
  qed
qed

lemma unat_lt: "unat (w :: 'a::len word) < 2 ^ LENGTH('a)"
  by (rule unsigned_less)

lemma unat8: "unat (w :: 8 word) < 256"
  and unat16: "unat (v :: 16 word) < 65536"
  and unat32: "unat (u :: 32 word) < 4294967296"
  using unat_lt [of w] unat_lt [of v] unat_lt [of u] by simp_all

text \<open>Widening casts (\<open>u32::from(u8)\<close> and the like) keep the value.\<close>

lemma unat_ucast_up:
  "LENGTH('a) \<le> LENGTH('b) \<Longrightarrow> unat (ucast (w :: 'a::len word) :: 'b::len word) = unat w"
proof -
  assume "LENGTH('a) \<le> LENGTH('b)"
  then have "(2::nat) ^ LENGTH('a) \<le> 2 ^ LENGTH('b)" by (rule power_increasing) simp
  then have "unat w < 2 ^ LENGTH('b)" using unat_lt [of w] by linarith
  then show ?thesis by (simp add: unsigned_ucast_eq take_bit_nat_eq_self)
qed

text \<open>\<open>uN::try_from(len).unwrap_or(uN::MAX)\<close>.\<close>

definition u32_sat :: "nat \<Rightarrow> 32 word" where
  "u32_sat k = (if k < 2 ^ 32 then of_nat k else -1)"

definition u16_sat :: "nat \<Rightarrow> 16 word" where
  "u16_sat k = (if k < 2 ^ 16 then of_nat k else -1)"

lemma unat_max32: "unat (-1 :: 32 word) = 4294967295"
  by (simp add: unsigned_minus_1_eq_mask mask_eq_exp_minus_1)

lemma unat_max16: "unat (-1 :: 16 word) = 65535"
  by (simp add: unsigned_minus_1_eq_mask mask_eq_exp_minus_1)

lemma u32_sat_unat: "k < 2 ^ 32 \<Longrightarrow> unat (u32_sat k) = k"
  by (simp add: u32_sat_def unat_of_nat)

lemma u16_sat_unat: "k < 2 ^ 16 \<Longrightarrow> unat (u16_sat k) = k"
  by (simp add: u16_sat_def unat_of_nat)

lemma u32_sat_of_unat: "u32_sat (unat w) = w"
  using unat32 [of w] by (simp add: u32_sat_def)

lemma u16_sat_of_unat: "u16_sat (unat w) = w"
  using unat16 [of w] by (simp add: u16_sat_def)

lemma u32_sat_not_zero: "0 < k \<Longrightarrow> u32_sat k \<noteq> 0"
  by (auto simp: u32_sat_def word_unat_eq_iff unat_of_nat unat_max32)

lemma u32_sat_le: "unat (u32_sat k) \<le> k"
  by (auto simp: u32_sat_def unat_of_nat unat_max32)

section \<open>Cursors\<close>

record reader =
  buf :: bytes
  pos :: nat

definition reader_new :: "bytes \<Rightarrow> reader" where
  "reader_new b = \<lparr>buf = b, pos = 0\<rparr>"

text \<open>The cursor that has consumed \<open>pre\<close> and still has \<open>post\<close> to read.\<close>

definition cur :: "bytes \<Rightarrow> bytes \<Rightarrow> reader" where
  "cur pre post = \<lparr>buf = pre @ post, pos = length pre\<rparr>"

lemma reader_new_cur: "reader_new b = cur [] b"
  by (simp add: reader_new_def cur_def)

lemma cur_eq_iff [simp]: "cur p q = cur p' q' \<longleftrightarrow> p = p' \<and> q = q'"
  by (auto simp: cur_def append_eq_append_conv)

locale byte_cursor =
  fixes tk :: "nat \<Rightarrow> string \<Rightarrow> reader \<Rightarrow> 'e + bytes \<times> reader"
    and short :: "string \<Rightarrow> nat \<Rightarrow> 'e"
  assumes tk_enough: "n \<le> length post \<Longrightarrow>
      tk n f (cur pre post) = Inr (take n post, cur (pre @ take n post) (drop n post))"
    and tk_short: "length post < n \<Longrightarrow> tk n f (cur pre post) = Inl (short f (length pre))"
begin

lemma tk_append: "length a = n \<Longrightarrow> tk n f (cur pre (a @ post)) = Inr (a, cur (pre @ a) post)"
  by (simp add: tk_enough)

lemma tk_Inr_iff:
  "tk n f (cur pre post) = Inr (a, r) \<longleftrightarrow>
     length a = n \<and> (\<exists>post'. post = a @ post' \<and> r = cur (pre @ a) post')"
proof (cases "n \<le> length post")
  case True
  then show ?thesis
    by (auto simp: tk_enough intro!: exI [of _ "drop n post"])
next
  case False
  then show ?thesis by (auto simp: tk_short)
qed

lemma tk_Inl_iff:
  "tk n f (cur pre post) = Inl e \<longleftrightarrow> length post < n \<and> e = short f (length pre)"
  by (cases "n \<le> length post") (auto simp: tk_enough tk_short)

end

text \<open>An integer read through a cursor: \<open>w\<close> bytes decoded by the inverse of an encoder.\<close>

locale int_reader = byte_cursor tk short
  for tk :: "nat \<Rightarrow> string \<Rightarrow> reader \<Rightarrow> 'e + bytes \<times> reader" and short +
  fixes rd :: "string \<Rightarrow> reader \<Rightarrow> 'e + 'v \<times> reader"
    and enc :: "'v \<Rightarrow> bytes" and dec :: "bytes \<Rightarrow> 'v" and w :: nat
  assumes rd_eq: "rd f r = and_then (tk w f r) (\<lambda>(b, r'). Inr (dec b, r'))"
    and enc_len: "length (enc v) = w"
    and dec_enc: "dec (enc v) = v"
    and enc_dec: "length b = w \<Longrightarrow> enc (dec b) = b"
begin

lemma rd_append: "rd f (cur pre (enc v @ post)) = Inr (v, cur (pre @ enc v) post)"
  by (simp add: rd_eq tk_append enc_len dec_enc)

lemma rd_Inr_iff:
  "rd f (cur pre post) = Inr (v, r) \<longleftrightarrow>
     (\<exists>post'. post = enc v @ post' \<and> r = cur (pre @ enc v) post')"
  by (auto simp: rd_eq and_then_Inr_iff tk_Inr_iff enc_len dec_enc enc_dec)

lemma rd_Inl_iff:
  "rd f (cur pre post) = Inl e \<longleftrightarrow> length post < w \<and> e = short f (length pre)"
  by (auto simp: rd_eq and_then_Inl_iff tk_Inl_iff)

end

text \<open>A length-prefixed vector: the length first, then that many bytes.\<close>

locale vec_reader = int_reader tk short rd enc dec w
  for tk :: "nat \<Rightarrow> string \<Rightarrow> reader \<Rightarrow> 'e + bytes \<times> reader" and short
    and rd :: "string \<Rightarrow> reader \<Rightarrow> 'e + 'v \<times> reader" and enc dec and w :: nat +
  fixes rdv :: "string \<Rightarrow> reader \<Rightarrow> 'e + bytes \<times> reader"
    and num :: "'v \<Rightarrow> nat" and mk :: "nat \<Rightarrow> 'v" and top :: nat
  assumes rdv_eq: "rdv f r = and_then (rd f r) (\<lambda>(v, r'). tk (num v) f r')"
    and num_mk: "k \<le> top \<Longrightarrow> num (mk k) = k"
    and mk_num: "mk (num v) = v"
    and num_le: "num v \<le> top"
begin

lemma rdv_append:
  "length b \<le> top \<Longrightarrow>
   rdv f (cur pre (enc (mk (length b)) @ b @ post)) =
     Inr (b, cur (pre @ enc (mk (length b)) @ b) post)"
  by (simp add: rdv_eq rd_append tk_append num_mk)

lemma rdv_Inr_iff:
  "rdv f (cur pre post) = Inr (b, r) \<longleftrightarrow>
     length b \<le> top \<and> (\<exists>post'. post = enc (mk (length b)) @ b @ post' \<and>
        r = cur (pre @ enc (mk (length b)) @ b) post')"
proof
  assume "rdv f (cur pre post) = Inr (b, r)"
  then show "length b \<le> top \<and> (\<exists>post'. post = enc (mk (length b)) @ b @ post' \<and>
        r = cur (pre @ enc (mk (length b)) @ b) post')"
    by (auto simp: rdv_eq and_then_Inr_iff rd_Inr_iff tk_Inr_iff mk_num num_le)
next
  assume "length b \<le> top \<and> (\<exists>post'. post = enc (mk (length b)) @ b @ post' \<and>
        r = cur (pre @ enc (mk (length b)) @ b) post')"
  then show "rdv f (cur pre post) = Inr (b, r)" by (auto simp: rdv_append)
qed

text \<open>A hostile length can only fail: the error names the field, nothing is allocated.\<close>

lemma rdv_Inl: "rdv f (cur pre post) = Inl e \<Longrightarrow> \<exists>k. e = short f k \<and> k \<le> length pre + w"
  by (auto simp: rdv_eq and_then_Inl_iff rd_Inl_iff rd_Inr_iff tk_Inl_iff enc_len)

end

end
