(* ===== verification/Utf8.thy ===== *)
theory Utf8
  imports Bytes
begin

text \<open>
  Rust strings.  A \<open>String\<close> is a list of Unicode scalar values (\<open>ustring\<close>); \<open>as_bytes\<close> is
  \<open>utf8_enc\<close> and \<open>std::str::from_utf8\<close> is \<open>from_utf8\<close>, which rejects truncated and overlong
  sequences, surrogates and values above U+10FFFF, as the standard library does.
\<close>

type_synonym uchar = nat
type_synonym ustring = "uchar list"

definition is_scalar :: "uchar \<Rightarrow> bool" where
  "is_scalar c \<longleftrightarrow> c < 0xD800 \<or> (0xDFFF < c \<and> c < 0x110000)"

definition str_ok :: "ustring \<Rightarrow> bool" where
  "str_ok s = list_all is_scalar s"

text \<open>An ASCII literal as a Rust string.\<close>

definition ustr :: "string \<Rightarrow> ustring" where
  "ustr s = map of_char s"

definition is_ascii :: "uchar \<Rightarrow> bool" where
  "is_ascii c \<longleftrightarrow> c < 0x80"

definition b8 :: "nat \<Rightarrow> byte" where
  "b8 n = of_nat n"

definition enc1 :: "uchar \<Rightarrow> bytes" where
  "enc1 c =
     (if c < 0x80 then [b8 c]
      else if c < 0x800 then [b8 (0xC0 + c div 64), b8 (0x80 + c mod 64)]
      else if c < 0x10000 then
        [b8 (0xE0 + c div 4096), b8 (0x80 + c div 64 mod 64), b8 (0x80 + c mod 64)]
      else
        [b8 (0xF0 + c div 262144), b8 (0x80 + c div 4096 mod 64),
         b8 (0x80 + c div 64 mod 64), b8 (0x80 + c mod 64)])"

definition utf8_enc :: "ustring \<Rightarrow> bytes" where
  "utf8_enc s = concat (map enc1 s)"

definition is_cont :: "byte \<Rightarrow> bool" where
  "is_cont b \<longleftrightarrow> 0x80 \<le> unat b \<and> unat b < 0xC0"

text \<open>Decode one scalar value and return it with the unread rest.\<close>

definition dec1 :: "bytes \<Rightarrow> (uchar \<times> bytes) option" where
  "dec1 bs = (case bs of
     [] \<Rightarrow> None
   | b0 # r0 \<Rightarrow>
      (let n0 = unat b0 in
       if n0 < 0x80 then Some (n0, r0)
       else if n0 < 0xC0 then None
       else if n0 < 0xE0 then
         (case r0 of b1 # r1 \<Rightarrow>
            (let c = (n0 - 0xC0) * 64 + (unat b1 - 0x80) in
             if is_cont b1 \<and> 0x80 \<le> c then Some (c, r1) else None)
          | _ \<Rightarrow> None)
       else if n0 < 0xF0 then
         (case r0 of b1 # b2 # r2 \<Rightarrow>
            (let c = (n0 - 0xE0) * 4096 + (unat b1 - 0x80) * 64 + (unat b2 - 0x80) in
             if is_cont b1 \<and> is_cont b2 \<and> 0x800 \<le> c \<and> is_scalar c then Some (c, r2) else None)
          | _ \<Rightarrow> None)
       else if n0 < 0xF8 then
         (case r0 of b1 # b2 # b3 # r3 \<Rightarrow>
            (let c = (n0 - 0xF0) * 262144 + (unat b1 - 0x80) * 4096 + (unat b2 - 0x80) * 64 +
                     (unat b3 - 0x80) in
             if is_cont b1 \<and> is_cont b2 \<and> is_cont b3 \<and> 0x10000 \<le> c \<and> is_scalar c
             then Some (c, r3) else None)
          | _ \<Rightarrow> None)
       else None))"

lemma dec1_shorter: "dec1 bs = Some (c, r) \<Longrightarrow> length r < length bs"
  by (auto simp: dec1_def Let_def split: list.splits if_splits)

function from_utf8 :: "bytes \<Rightarrow> ustring option" where
  "from_utf8 bs = (if bs = [] then Some [] else
     (case dec1 bs of
        None \<Rightarrow> None
      | Some (c, r) \<Rightarrow> map_option (Cons c) (from_utf8 r)))"
  by auto
termination
  by (relation "measure length") (auto dest: dec1_shorter)

declare from_utf8.simps [simp del]

lemma from_utf8_Nil [simp]: "from_utf8 [] = Some []"
  by (simp add: from_utf8.simps)

lemma from_utf8_step:
  "bs \<noteq> [] \<Longrightarrow> from_utf8 bs =
     (case dec1 bs of None \<Rightarrow> None | Some (c, r) \<Rightarrow> map_option (Cons c) (from_utf8 r))"
  by (subst from_utf8.simps) simp

lemma unat_b8: "n < 256 \<Longrightarrow> unat (b8 n) = n"
  by (simp add: b8_def unat_of_nat)

lemma b8_unat [simp]: "b8 (unat b) = b"
  by (simp add: b8_def)

lemma digit64: "y < 64 \<Longrightarrow> (x * 64 + y) div 64 = x" "y < 64 \<Longrightarrow> (x * 64 + y) mod 64 = (y::nat)"
  by simp_all

lemma div64: "c div 4096 = c div 64 div 64" "c div 262144 = c div 64 div 64 div (64::nat)"
  by (simp_all add: div_mult2_eq [symmetric])

lemma enc1_not_Nil [simp]: "enc1 c \<noteq> []"
  by (simp add: enc1_def)

lemma dec1_enc1: "is_scalar c \<Longrightarrow> dec1 (enc1 c @ r) = Some (c, r)"
proof -
  assume s: "is_scalar c"
  then have top: "c < 0x110000" by (auto simp: is_scalar_def)
  consider "c < 0x80" | "0x80 \<le> c" "c < 0x800" | "0x800 \<le> c" "c < 0x10000" | "0x10000 \<le> c"
    by linarith
  then show ?thesis
  proof cases
    case 1
    then show ?thesis by (simp add: enc1_def dec1_def unat_b8)
  next
    case 2
    then have d: "c div 64 < 32" by (simp add: less_mult_imp_div_less)
    have m: "c mod 64 < 64" by simp
    have e: "c div 64 * 64 + c mod 64 = c" by simp
    show ?thesis using 2 d m
      by (simp add: enc1_def dec1_def is_cont_def unat_b8 e Let_def del: mod_less_divisor)
  next
    case 3
    then have d: "c div 4096 < 16" by (simp add: less_mult_imp_div_less)
    have m: "c mod 64 < 64" "c div 64 mod 64 < 64" by simp_all
    have "c div 4096 = c div 64 div 64" by (simp add: div_mult2_eq [symmetric])
    then have e: "c div 4096 * 4096 + c div 64 mod 64 * 64 + c mod 64 = c"
      using div_mult_mod_eq [of c 64] div_mult_mod_eq [of "c div 64" 64] by linarith
    show ?thesis using 3 d m s
      by (simp add: enc1_def dec1_def is_cont_def unat_b8 e Let_def del: mod_less_divisor)
  next
    case 4
    then have d: "c div 262144 < 8" using top by (simp add: less_mult_imp_div_less)
    have m: "c mod 64 < 64" "c div 64 mod 64 < 64" "c div 4096 mod 64 < 64" by simp_all
    have "c div 4096 = c div 64 div 64" "c div 262144 = c div 4096 div 64"
      by (simp_all add: div_mult2_eq [symmetric])
    then have e: "c div 262144 * 262144 + c div 4096 mod 64 * 4096 + c div 64 mod 64 * 64 + c mod 64 = c"
      using div_mult_mod_eq [of c 64] div_mult_mod_eq [of "c div 64" 64]
        div_mult_mod_eq [of "c div 4096" 64] by linarith
    show ?thesis using 4 d m s
      by (simp add: enc1_def dec1_def is_cont_def unat_b8 e Let_def del: mod_less_divisor)
  qed
qed

lemma from_utf8_enc: "str_ok s \<Longrightarrow> from_utf8 (utf8_enc s) = Some s"
  by (induction s) (simp_all add: str_ok_def utf8_enc_def from_utf8_step dec1_enc1)

lemma dec1_Some: "dec1 bs = Some (c, r) \<Longrightarrow> is_scalar c \<and> bs = enc1 c @ r"
proof -
  assume a: "dec1 bs = Some (c, r)"
  then obtain b0 r0 where bs: "bs = b0 # r0" by (auto simp: dec1_def split: list.splits)
  consider "unat b0 < 0x80" | "0xC0 \<le> unat b0" "unat b0 < 0xE0" |
     "0xE0 \<le> unat b0" "unat b0 < 0xF0" | "0xF0 \<le> unat b0" "unat b0 < 0xF8"
    using a bs by (auto simp: dec1_def Let_def split: if_splits)
  then show ?thesis
  proof cases
    case 1
    then show ?thesis using a bs by (auto simp: dec1_def enc1_def is_scalar_def Let_def)
  next
    case 2
    then obtain b1 where r0: "r0 = b1 # r" and k: "is_cont b1"
      and c: "c = (unat b0 - 0xC0) * 64 + (unat b1 - 0x80)" "0x80 \<le> c"
      using a bs by (auto simp: dec1_def Let_def split: list.splits if_splits)
    define x y where "x = unat b0 - 0xC0" and "y = unat b1 - 0x80"
    have xy: "x < 32" "y < 64" "unat b0 = 0xC0 + x" "unat b1 = 0x80 + y"
      using 2 k by (auto simp: x_def y_def is_cont_def)
    have cx: "c = x * 64 + y" using c(1) by (simp add: x_def y_def)
    have d: "c div 64 = x" "c mod 64 = y" "c < 0x800" using cx xy by auto
    have "enc1 c = [b8 (unat b0), b8 (unat b1)]"
      using c(2) d xy by (simp add: enc1_def)
    then show ?thesis using bs r0 d(3) by (simp add: is_scalar_def)
  next
    case 3
    then obtain b1 b2 where r0: "r0 = b1 # b2 # r" and k: "is_cont b1" "is_cont b2"
      and c: "c = (unat b0 - 0xE0) * 4096 + (unat b1 - 0x80) * 64 + (unat b2 - 0x80)"
        "0x800 \<le> c" "is_scalar c"
      using a bs by (auto simp: dec1_def Let_def split: list.splits if_splits)
    define x y z where "x = unat b0 - 0xE0" and "y = unat b1 - 0x80" and "z = unat b2 - 0x80"
    have xy: "x < 16" "y < 64" "z < 64"
        "unat b0 = 0xE0 + x" "unat b1 = 0x80 + y" "unat b2 = 0x80 + z"
      using 3 k by (auto simp: x_def y_def z_def is_cont_def)
    have cx: "c = (x * 64 + y) * 64 + z" using c(1) by (simp add: x_def y_def z_def)
    have d: "c div 64 = x * 64 + y" "c mod 64 = z" "c < 0x10000"
      using xy by (simp_all only: cx digit64) simp
    have "c div 4096 = x" "c div 64 mod 64 = y"
      using xy by (simp_all only: div64 d digit64)
    then have "enc1 c = [b8 (unat b0), b8 (unat b1), b8 (unat b2)]"
      using c(2) d xy by (simp add: enc1_def)
    then show ?thesis using bs r0 c(3) by simp
  next
    case 4
    then obtain b1 b2 b3 where r0: "r0 = b1 # b2 # b3 # r"
      and k: "is_cont b1" "is_cont b2" "is_cont b3"
      and c: "c = (unat b0 - 0xF0) * 262144 + (unat b1 - 0x80) * 4096 + (unat b2 - 0x80) * 64 +
          (unat b3 - 0x80)" "0x10000 \<le> c" "is_scalar c"
      using a bs by (auto simp: dec1_def Let_def split: list.splits if_splits)
    define x y z u where "x = unat b0 - 0xF0" and "y = unat b1 - 0x80" and "z = unat b2 - 0x80"
      and "u = unat b3 - 0x80"
    have xy: "x < 8" "y < 64" "z < 64" "u < 64"
        "unat b0 = 0xF0 + x" "unat b1 = 0x80 + y" "unat b2 = 0x80 + z" "unat b3 = 0x80 + u"
      using 4 k by (auto simp: x_def y_def z_def u_def is_cont_def)
    have cx: "c = ((x * 64 + y) * 64 + z) * 64 + u"
      using c(1) by (simp add: x_def y_def z_def u_def)
    have d: "c div 64 = (x * 64 + y) * 64 + z" "c mod 64 = u"
      using xy by (simp_all only: cx digit64)
    have "c div 262144 = x" "c div 4096 mod 64 = y" "c div 64 mod 64 = z"
      using xy by (simp_all only: div64 d digit64)
    then have "enc1 c = [b8 (unat b0), b8 (unat b1), b8 (unat b2), b8 (unat b3)]"
      using c(2) d xy by (simp add: enc1_def)
    then show ?thesis using bs r0 c(3) by simp
  qed
qed

lemma from_utf8_Some: "from_utf8 bs = Some s \<Longrightarrow> str_ok s \<and> utf8_enc s = bs"
proof (induction bs arbitrary: s rule: from_utf8.induct)
  case (1 bs)
  show ?case
  proof (cases "bs = []")
    case True
    then show ?thesis using 1(2) by (auto simp: str_ok_def utf8_enc_def)
  next
    case False
    then obtain c r t where d: "dec1 bs = Some (c, r)" "from_utf8 r = Some t" "s = c # t"
      using 1(2) by (auto simp: from_utf8_step split: option.splits)
    have "str_ok t \<and> utf8_enc t = r" using 1(1) [OF False d(1) refl d(2)] .
    then show ?thesis using dec1_Some [OF d(1)] d(3) by (simp add: str_ok_def utf8_enc_def)
  qed
qed

lemma utf8_enc_inj: "str_ok s \<Longrightarrow> str_ok t \<Longrightarrow> utf8_enc s = utf8_enc t \<longleftrightarrow> s = t"
  by (metis from_utf8_enc option.inject)

lemma str_ok_Nil [simp]: "str_ok []" by (simp add: str_ok_def)
lemma str_ok_Cons [simp]: "str_ok (c # s) \<longleftrightarrow> is_scalar c \<and> str_ok s" by (simp add: str_ok_def)
lemma str_ok_append [simp]: "str_ok (s @ t) \<longleftrightarrow> str_ok s \<and> str_ok t" by (simp add: str_ok_def)

end
