(* ===== verification/Crypto.thy ===== *)
theory Crypto
  imports Utf8
begin

text \<open>
  \<open>passman-crypto\<close>: Argon2id parameters and their limits, the AEAD wrapper, constant-time
  comparison, HKDF and the operating-system random source.

  The primitives live in third-party crates (\<open>argon2\<close>, \<open>hkdf\<close>, \<open>chacha20poly1305\<close>, the OS
  generator); they are the fields of the record \<open>crypto\<close>, which every function that uses
  them takes as an argument.  \<open>aead_ok\<close>, \<open>aead_total\<close> and \<open>kdf_ok\<close> state their documented
  behaviour; \<open>toy_crypto\<close> is an instance that satisfies all of them.

  The random source is a stream indexed by a position of type \<open>rng\<close>; an operation that draws
  \<open>n\<close> bytes returns them with the position advanced by \<open>n\<close>; \<open>os_next_u32\<close> is the value
  \<open>OsRng.next_u32()\<close> returns at a position, and a draw advances the position by one.
\<close>

section \<open>Errors and secrets\<close>

datatype crypto_error =
    Kdf string
  | AeadAuth
  | InvalidLength string nat nat

text \<open>\<open>SecretString\<close>, \<open>SecretArray\<close> and \<open>SecretBytes\<close> are their contents; \<open>expose_bytes\<close>
  of a string is its UTF-8 encoding.\<close>

type_synonym secret_string = ustring
type_synonym rng = nat

definition expose_bytes :: "secret_string \<Rightarrow> bytes" where
  "expose_bytes s = utf8_enc s"

section \<open>Third-party primitives\<close>

record crypto =
  argon2_hash :: "bytes \<Rightarrow> bytes \<Rightarrow> 32 word \<Rightarrow> 32 word \<Rightarrow> 32 word \<Rightarrow> string + bytes"
  hkdf_extract_expand :: "bytes \<Rightarrow> bytes \<Rightarrow> bytes \<Rightarrow> bytes"
  hkdf_prk_expand :: "bytes \<Rightarrow> bytes \<Rightarrow> bytes"
  xchacha_enc :: "bytes \<Rightarrow> bytes \<Rightarrow> bytes \<Rightarrow> bytes \<Rightarrow> bytes option"
  xchacha_dec :: "bytes \<Rightarrow> bytes \<Rightarrow> bytes \<Rightarrow> bytes \<Rightarrow> bytes option"
  os_random :: "nat \<Rightarrow> byte"
  os_next_u32 :: "nat \<Rightarrow> 32 word"

definition aead_ok :: "'m crypto_scheme \<Rightarrow> bool" where
  "aead_ok C \<longleftrightarrow> (\<forall>k n a m c. xchacha_enc C k n a m = Some c \<longrightarrow>
      length c = length m + 16 \<and> xchacha_dec C k n a c = Some m)"

text \<open>The cipher accepts every message below its documented length bound.\<close>

definition aead_total :: "'m crypto_scheme \<Rightarrow> bool" where
  "aead_total C \<longleftrightarrow> (\<forall>k n a m. length m < 2 ^ 37 \<longrightarrow> xchacha_enc C k n a m \<noteq> None)"

definition kdf_ok :: "'m crypto_scheme \<Rightarrow> bool" where
  "kdf_ok C \<longleftrightarrow> (\<forall>pw s m t p k. argon2_hash C pw s m t p = Inr k \<longrightarrow> length k = 32) \<and>
     (\<forall>s i f. length (hkdf_extract_expand C s i f) = 32) \<and>
     (\<forall>k f. length (hkdf_prk_expand C k f) = 32)"

lemma aead_okD:
  "aead_ok C \<Longrightarrow> xchacha_enc C k n a m = Some c \<Longrightarrow> xchacha_dec C k n a c = Some m"
  "aead_ok C \<Longrightarrow> xchacha_enc C k n a m = Some c \<Longrightarrow> length c = length m + 16"
  by (auto simp: aead_ok_def)

section \<open>Random source\<close>

definition fill_random :: "'m crypto_scheme \<Rightarrow> nat \<Rightarrow> rng \<Rightarrow> bytes \<times> rng" where
  "fill_random C n g = (map (os_random C) [g..<g + n], g + n)"

definition random_nonce :: "'m crypto_scheme \<Rightarrow> rng \<Rightarrow> bytes \<times> rng" where
  "random_nonce C g = fill_random C 24 g"

definition random_secret :: "'m crypto_scheme \<Rightarrow> nat \<Rightarrow> rng \<Rightarrow> bytes \<times> rng" where
  "random_secret C n g = fill_random C n g"

lemma fill_random_length [simp]: "length (fst (fill_random C n g)) = n"
  by (simp add: fill_random_def)

lemma random_length:
  "random_nonce C g = (b, g') \<Longrightarrow> length b = 24"
  "random_secret C n g = (b, g') \<Longrightarrow> length b = n"
  by (auto simp: random_nonce_def random_secret_def fill_random_def)

lemma fst_random_length [simp]:
  "length (fst (random_nonce C g)) = 24"
  "length (fst (random_secret C n g)) = n"
  by (simp_all add: random_nonce_def random_secret_def)

section \<open>Constant-time comparison\<close>

definition ct_eq :: "bytes \<Rightarrow> bytes \<Rightarrow> bool" where
  "ct_eq a b = (if length a \<noteq> length b then False else list_all2 (=) a b)"

lemma ct_eq_iff [simp]: "ct_eq a b \<longleftrightarrow> a = b"
  by (auto simp: ct_eq_def list.rel_eq)

section \<open>Argon2id parameters\<close>

record kdf_params =
  m_kib :: "32 word"
  t_cost :: "32 word"
  p_lanes :: "8 word"

definition MAX_M_KIB :: "32 word" where "MAX_M_KIB = 8 * 1024 * 1024"
definition MAX_T :: "32 word" where "MAX_T = 24"
definition MAX_P :: "8 word" where "MAX_P = 16"

definition KDF_LOW :: kdf_params where
  "KDF_LOW = \<lparr>m_kib = 262144, t_cost = 4, p_lanes = 1\<rparr>"
definition KDF_MEDIUM :: kdf_params where
  "KDF_MEDIUM = \<lparr>m_kib = 1048576, t_cost = 4, p_lanes = 1\<rparr>"
definition KDF_HIGH :: kdf_params where
  "KDF_HIGH = \<lparr>m_kib = 4194304, t_cost = 6, p_lanes = 1\<rparr>"

definition kdf_to_bytes :: "kdf_params \<Rightarrow> bytes" where
  "kdf_to_bytes P = le_bytes 4 (m_kib P) @ le_bytes 4 (t_cost P) @ [p_lanes P]"

definition kdf_from_bytes :: "bytes \<Rightarrow> kdf_params" where
  "kdf_from_bytes b =
     \<lparr>m_kib = of_le [b ! 0, b ! 1, b ! 2, b ! 3],
      t_cost = of_le [b ! 4, b ! 5, b ! 6, b ! 7],
      p_lanes = b ! 8\<rparr>"

definition sat_mul32 :: "32 word \<Rightarrow> 32 word \<Rightarrow> 32 word" where
  "sat_mul32 a b = (if unat a * unat b < 2 ^ 32 then a * b else -1)"

definition within_limits :: "kdf_params \<Rightarrow> bool" where
  "within_limits P \<longleftrightarrow>
     p_lanes P \<ge> 1 \<and> p_lanes P \<le> MAX_P \<and> t_cost P \<ge> 1 \<and> t_cost P \<le> MAX_T \<and>
     m_kib P \<le> MAX_M_KIB \<and> m_kib P \<ge> sat_mul32 8 (ucast (p_lanes P))"

definition memory_cost_fits :: "32 word \<Rightarrow> 64 word \<Rightarrow> bool" where
  "memory_cost_fits m avail \<longleftrightarrow> ucast m \<le> avail div 5 * 4"

definition argon2id_within_memory ::
  "'m crypto_scheme \<Rightarrow> secret_string \<Rightarrow> bytes \<Rightarrow> kdf_params \<Rightarrow> 64 word option \<Rightarrow> crypto_error + bytes"
where
  "argon2id_within_memory C pw salt P avail =
     (if \<not> within_limits P then Inl (Kdf ''Argon2id parameters are outside the permitted range'')
      else if (case avail of Some a \<Rightarrow> \<not> memory_cost_fits (m_kib P) a | None \<Rightarrow> False) then
        Inl (Kdf (''Argon2id memory cost ('' @ show_nat (unat (m_kib P)) @
          '' KiB) exceeds the safe budget for this host ('' @
          show_nat (unat (the avail)) @ '' KiB available)''))
      else map_err Kdf
        (argon2_hash C (expose_bytes pw) salt (m_kib P) (t_cost P) (ucast (p_lanes P))))"

definition argon2id :: "'m crypto_scheme \<Rightarrow> secret_string \<Rightarrow> bytes \<Rightarrow> kdf_params \<Rightarrow> crypto_error + bytes" where
  "argon2id C pw salt P = argon2id_within_memory C pw salt P None"

lemma kdf_to_bytes_length [simp]: "length (kdf_to_bytes P) = 9"
  by (simp add: kdf_to_bytes_def)

lemma le_bytes4_split:
  "le_bytes 4 w = [le_bytes 4 w ! 0, le_bytes 4 w ! 1, le_bytes 4 w ! 2, le_bytes 4 w ! 3]"
  by (rule nth_equalityI) (auto simp: less_Suc_eq numeral_eq_Suc)

lemma kdf_from_to_bytes: "kdf_from_bytes (kdf_to_bytes P) = P"
proof -
  have r: "of_le (le_bytes 4 w) = (w :: 32 word)" for w by (rule of_le_le_bytes) simp
  have n: "of_le [le_bytes 4 w ! 0, le_bytes 4 w ! 1, le_bytes 4 w ! 2, le_bytes 4 w ! 3] = (w :: 32 word)" for w
    using r [of w] le_bytes4_split [of w] by simp
  show ?thesis
    by (simp add: kdf_from_bytes_def kdf_to_bytes_def nth_append n n [unfolded One_nat_def])
qed

lemma list9:
  assumes "length b = 9"
  shows "b = [b!0, b!1, b!2, b!3, b!4, b!5, b!6, b!7, b!8]"
  using assms by (intro nth_equalityI) (auto simp: less_Suc_eq numeral_eq_Suc)

lemma kdf_to_from_bytes: "length b = 9 \<Longrightarrow> kdf_to_bytes (kdf_from_bytes b) = b"
proof -
  assume l: "length b = 9"
  have e: "le_bytes 4 (of_le bs :: 32 word) = bs" if "length bs = 4" for bs
    using that by (intro le_bytes_of_le) simp_all
  show ?thesis
    using list9 [OF l] by (simp add: kdf_to_bytes_def kdf_from_bytes_def e del: One_nat_def)
qed

section \<open>HKDF and AEAD wrappers\<close>

definition hkdf_master :: "'m crypto_scheme \<Rightarrow> bytes \<Rightarrow> bytes \<Rightarrow> bytes \<Rightarrow> bytes" where
  "hkdf_master C salt ikm info = hkdf_extract_expand C salt ikm info"

definition hkdf_expand :: "'m crypto_scheme \<Rightarrow> bytes \<Rightarrow> bytes \<Rightarrow> bytes" where
  "hkdf_expand C prk info = hkdf_prk_expand C prk info"

definition TAG_LEN :: nat where "TAG_LEN = 16"
definition NONCE_LEN :: nat where "NONCE_LEN = 24"

definition aead_encrypt ::
  "'m crypto_scheme \<Rightarrow> bytes \<Rightarrow> bytes \<Rightarrow> bytes \<Rightarrow> bytes \<Rightarrow> crypto_error + bytes" where
  "aead_encrypt C k n aad msg = ok_or AeadAuth (xchacha_enc C k n aad msg)"

definition aead_decrypt ::
  "'m crypto_scheme \<Rightarrow> bytes \<Rightarrow> bytes \<Rightarrow> bytes \<Rightarrow> bytes \<Rightarrow> crypto_error + bytes" where
  "aead_decrypt C k n aad ct =
     (if length ct < TAG_LEN then Inl (InvalidLength ''ciphertext_and_tag'' TAG_LEN (length ct))
      else ok_or AeadAuth (xchacha_dec C k n aad ct))"

lemma aead_decrypt_encrypt:
  "aead_ok C \<Longrightarrow> aead_encrypt C k n a m = Inr c \<Longrightarrow> aead_decrypt C k n a c = Inr m"
  by (auto simp: aead_encrypt_def aead_decrypt_def TAG_LEN_def ok_or_Inr_iff aead_ok_def)

lemma aead_encrypt_length:
  "aead_ok C \<Longrightarrow> aead_encrypt C k n a m = Inr c \<Longrightarrow> length c = length m + 16"
  by (auto simp: aead_encrypt_def ok_or_Inr_iff aead_ok_def)

lemma aead_encrypt_total:
  "aead_total C \<Longrightarrow> length m < 2 ^ 37 \<Longrightarrow> \<exists>c. aead_encrypt C k n a m = Inr c"
  by (auto simp: aead_encrypt_def aead_total_def ok_or_Inr_iff)

lemma argon2id_Inr:
  "argon2id_within_memory C pw salt P avail = Inr k \<Longrightarrow>
     within_limits P \<and> (\<forall>a. avail = Some a \<longrightarrow> memory_cost_fits (m_kib P) a)"
  by (auto simp: argon2id_within_memory_def split: if_splits option.splits)

section \<open>A concrete instance\<close>

definition toy_sum :: "bytes \<Rightarrow> byte" where
  "toy_sum b = fold (+) b 0"

definition toy_tag :: "bytes \<Rightarrow> bytes \<Rightarrow> bytes \<Rightarrow> bytes \<Rightarrow> bytes" where
  "toy_tag k n a m = replicate 8 (toy_sum (k @ n)) @ replicate 8 (toy_sum (a @ m))"

definition toy_crypto :: crypto where
  "toy_crypto =
     \<lparr>argon2_hash = (\<lambda>pw s m t p. Inr (replicate 32 (toy_sum (pw @ s)))),
      hkdf_extract_expand = (\<lambda>s i f. replicate 32 (toy_sum (s @ i @ f))),
      hkdf_prk_expand = (\<lambda>k f. replicate 32 (toy_sum (k @ f))),
      xchacha_enc = (\<lambda>k n a m. Some (m @ toy_tag k n a m)),
      xchacha_dec = (\<lambda>k n a c. let m = take (length c - 16) c in
          if 16 \<le> length c \<and> drop (length c - 16) c = toy_tag k n a m then Some m else None),
      os_random = (\<lambda>i. of_nat (7 * i + 1)),
      os_next_u32 = (\<lambda>i. of_nat ((37 * i + 5) mod 1000))\<rparr>"

lemma toy_tag_length [simp]: "length (toy_tag k n a m) = 16"
  by (simp add: toy_tag_def)

lemma toy_crypto_ok: "aead_ok toy_crypto" "aead_total toy_crypto" "kdf_ok toy_crypto"
  by (auto simp: aead_ok_def aead_total_def kdf_ok_def toy_crypto_def)

end
