(* ===== verification/Policy.thy ===== *)
theory Policy
  imports Crypto "HOL-Library.FSet"
begin

text \<open>
  \<open>passman-policy\<close>, data part: symbol sets, character sets and the effective set a password is
  drawn from, per-entry policies and their resolution over the vault default.  A \<open>BTreeSet<char>\<close>
  is a finite set; iterating over it is \<open>sorted_list_of_fset\<close>.
\<close>

section \<open>Character sets\<close>

definition LOWERCASE :: ustring where "LOWERCASE = ustr ''abcdefghijklmnopqrstuvwxyz''"
definition UPPERCASE :: ustring where "UPPERCASE = ustr ''ABCDEFGHIJKLMNOPQRSTUVWXYZ''"
definition DIGITS :: ustring where "DIGITS = ustr ''0123456789''"
definition BASIC_SYMBOLS :: ustring where "BASIC_SYMBOLS = ustr ''!@#$%^&*-_=+''"

text \<open>The 32 ASCII punctuation characters, written by their code points
  (\<open>!\<close> to \<open>/\<close>, \<open>:\<close> to \<open>@\<close>, \<open>[\<close> to the grave accent, the left brace to the tilde).\<close>

definition FULL_SYMBOLS :: ustring where
  "FULL_SYMBOLS =
     [33, 34, 35, 36, 37, 38, 39, 40, 41, 42, 43, 44, 45, 46, 47,
      58, 59, 60, 61, 62, 63, 64, 91, 92, 93, 94, 95, 96, 123, 124, 125, 126]"

datatype symbol_set = SymNone | Basic | Full | Custom "uchar fset"

fun symbol_chars :: "symbol_set \<Rightarrow> ustring" where
  "symbol_chars SymNone = []"
| "symbol_chars Basic = BASIC_SYMBOLS"
| "symbol_chars Full = FULL_SYMBOLS"
| "symbol_chars (Custom s) = sorted_list_of_fset s"

record charset =
  cs_lowercase :: bool
  cs_uppercase :: bool
  cs_digits :: bool
  cs_symbols :: symbol_set
  cs_disallow :: "uchar fset"

definition charset_default_vault :: charset where
  "charset_default_vault =
     \<lparr>cs_lowercase = True, cs_uppercase = True, cs_digits = True, cs_symbols = Full,
      cs_disallow = {||}\<rparr>"

definition filter_class :: "charset \<Rightarrow> bool \<Rightarrow> ustring \<Rightarrow> ustring" where
  "filter_class cs enabled cls =
     (if \<not> enabled then [] else filter (\<lambda>c. c |\<notin>| cs_disallow cs) cls)"

definition effective_lowercase :: "charset \<Rightarrow> ustring" where
  "effective_lowercase cs = filter_class cs (cs_lowercase cs) LOWERCASE"

definition effective_uppercase :: "charset \<Rightarrow> ustring" where
  "effective_uppercase cs = filter_class cs (cs_uppercase cs) UPPERCASE"

definition effective_digits :: "charset \<Rightarrow> ustring" where
  "effective_digits cs = filter_class cs (cs_digits cs) DIGITS"

definition effective_symbols :: "charset \<Rightarrow> ustring" where
  "effective_symbols cs = filter (\<lambda>c. c |\<notin>| cs_disallow cs) (symbol_chars (cs_symbols cs))"

text \<open>The loop that pushes each character the \<open>seen\<close> set does not hold yet.\<close>

fun push_unseen :: "uchar fset \<Rightarrow> ustring \<Rightarrow> ustring" where
  "push_unseen seen [] = []"
| "push_unseen seen (c # cs) =
     (if c |\<in>| seen then push_unseen seen cs else c # push_unseen (finsert c seen) cs)"

definition effective_set :: "charset \<Rightarrow> ustring" where
  "effective_set cs = push_unseen {||}
     (effective_lowercase cs @ effective_uppercase cs @ effective_digits cs @ effective_symbols cs)"

lemma set_push_unseen: "set (push_unseen seen cs) = set cs - fset seen"
  by (induction seen cs rule: push_unseen.induct) auto

lemma distinct_push_unseen: "distinct (push_unseen seen cs)"
  by (induction seen cs rule: push_unseen.induct) (auto simp: set_push_unseen)

lemma distinct_effective_set: "distinct (effective_set cs)"
  by (simp add: effective_set_def distinct_push_unseen)

lemma set_effective_set:
  "set (effective_set cs) = set (effective_lowercase cs) \<union> set (effective_uppercase cs) \<union>
     set (effective_digits cs) \<union> set (effective_symbols cs)"
  by (auto simp: effective_set_def set_push_unseen)

lemma class_not_disallowed:
  "c \<in> set (effective_set cs) \<Longrightarrow> c |\<notin>| cs_disallow cs"
  by (auto simp: set_effective_set effective_lowercase_def effective_uppercase_def
      effective_digits_def effective_symbols_def filter_class_def split: if_splits)

text \<open>All characters of a custom symbol set are scalar values, as \<open>char\<close> guarantees.\<close>

definition charset_ok :: "charset \<Rightarrow> bool" where
  "charset_ok cs \<longleftrightarrow> (case cs_symbols cs of Custom s \<Rightarrow> fBall s is_scalar | _ \<Rightarrow> True)"

lemma symbol_chars_scalar:
  "charset_ok cs \<Longrightarrow> c \<in> set (symbol_chars (cs_symbols cs)) \<Longrightarrow> is_scalar c"
  by (cases "cs_symbols cs")
    (auto simp: charset_ok_def BASIC_SYMBOLS_def FULL_SYMBOLS_def ustr_def is_scalar_def)

lemma effective_set_scalar: "charset_ok cs \<Longrightarrow> c \<in> set (effective_set cs) \<Longrightarrow> is_scalar c"
proof -
  assume ok: "charset_ok cs" and c: "c \<in> set (effective_set cs)"
  consider "c \<in> set LOWERCASE \<union> set UPPERCASE \<union> set DIGITS"
    | "c \<in> set (symbol_chars (cs_symbols cs))"
    using c by (auto simp: set_effective_set effective_lowercase_def effective_uppercase_def
      effective_digits_def effective_symbols_def filter_class_def split: if_splits)
  then show ?thesis
  proof cases
    case 1
    then show ?thesis
      by (auto simp: LOWERCASE_def UPPERCASE_def DIGITS_def ustr_def is_scalar_def)
  next
    case 2
    then show ?thesis by (rule symbol_chars_scalar [OF ok])
  qed
qed

section \<open>Policies\<close>

definition MIN_LENGTH :: "16 word" where "MIN_LENGTH = 16"
definition MAX_LENGTH :: "16 word" where "MAX_LENGTH = 256"
definition DEFAULT_LENGTH :: "16 word" where "DEFAULT_LENGTH = 40"

record required_classes =
  min_lowercase :: "8 word"
  min_uppercase :: "8 word"
  min_digits :: "8 word"
  min_symbols :: "8 word"

definition one_of_each :: required_classes where
  "one_of_each = \<lparr>min_lowercase = 1, min_uppercase = 1, min_digits = 1, min_symbols = 1\<rparr>"

definition rc_none :: required_classes where
  "rc_none = \<lparr>min_lowercase = 0, min_uppercase = 0, min_digits = 0, min_symbols = 0\<rparr>"

definition rc_total :: "required_classes \<Rightarrow> 32 word" where
  "rc_total rc = ucast (min_lowercase rc) + ucast (min_uppercase rc) + ucast (min_digits rc) +
     ucast (min_symbols rc)"

record generation_request =
  gr_length :: "16 word"
  gr_charset :: charset
  gr_required :: required_classes

definition request_default_vault :: generation_request where
  "request_default_vault =
     \<lparr>gr_length = DEFAULT_LENGTH, gr_charset = charset_default_vault, gr_required = one_of_each\<rparr>"

record entry_policy =
  ep_length :: "16 word option"
  charset_override :: "charset option"
  required_classes_override :: "required_classes option"
  user_note :: "ustring option"

definition policy_default :: entry_policy where
  "policy_default = \<lparr>ep_length = None, charset_override = None,
     required_classes_override = None, user_note = None\<rparr>"

definition with_length :: "16 word \<Rightarrow> entry_policy \<Rightarrow> entry_policy" where
  "with_length n p = p\<lparr>ep_length := Some n\<rparr>"
definition with_charset :: "charset \<Rightarrow> entry_policy \<Rightarrow> entry_policy" where
  "with_charset c p = p\<lparr>charset_override := Some c\<rparr>"
definition with_required_classes :: "required_classes \<Rightarrow> entry_policy \<Rightarrow> entry_policy" where
  "with_required_classes r p = p\<lparr>required_classes_override := Some r\<rparr>"
definition with_user_note :: "ustring \<Rightarrow> entry_policy \<Rightarrow> entry_policy" where
  "with_user_note s p = p\<lparr>user_note := Some s\<rparr>"

definition unwrap_or :: "'a \<Rightarrow> 'a option \<Rightarrow> 'a" where
  "unwrap_or d m = (case m of None \<Rightarrow> d | Some x \<Rightarrow> x)"

definition resolve_over :: "entry_policy \<Rightarrow> generation_request \<Rightarrow> generation_request" where
  "resolve_over p d =
     \<lparr>gr_length = unwrap_or (gr_length d) (ep_length p),
      gr_charset = unwrap_or (gr_charset d) (charset_override p),
      gr_required = unwrap_or (gr_required d) (required_classes_override p)\<rparr>"

text \<open>Four \<open>u8\<close> minimums never overflow their \<open>u32\<close> sum.\<close>

lemma rc_total_exact:
  "unat (rc_total rc) = unat (min_lowercase rc) + unat (min_uppercase rc) +
     unat (min_digits rc) + unat (min_symbols rc)"
proof -
  have b: "unat (w :: 8 word) < 256" for w by (rule unat8)
  show ?thesis
    unfolding rc_total_def
    using b [of "min_lowercase rc"] b [of "min_uppercase rc"] b [of "min_digits rc"]
      b [of "min_symbols rc"]
    by (simp add: unat_word_ariths unat_ucast_up)
qed

lemma resolve_default [simp]: "resolve_over policy_default d = d"
  by (simp add: resolve_over_def policy_default_def unwrap_or_def)

end
