(* ===== verification/Generate.thy ===== *)
theory Generate
  imports Policy "HOL-Library.Multiset"
begin

text \<open>
  \<open>passman-policy\<close>, \<open>generate.rs\<close>: rejection sampling, the Fisher-Yates shuffle and
  \<open>generate\<close>.  The sampling loops have no bound in the source, so they are partial functions:
  \<open>None\<close> is a loop that never returns.  \<open>rng_fair\<close> is what makes them return: from every
  position the source eventually yields a draw in the lower half of the \<open>u32\<close> range.
\<close>

datatype policy_error =
    EmptyCharset
  | ImpossibleConstraints "32 word" "16 word"
  | RequiredClassUnavailable string "8 word"
  | LengthOutOfRange "16 word"

section \<open>Rejection sampling\<close>

definition zone :: "32 word \<Rightarrow> 32 word" where
  "zone n = -1 - (-1 mod n)"

partial_function (option) draw_below :: "'m crypto_scheme \<Rightarrow> 32 word \<Rightarrow> rng \<Rightarrow> (nat \<times> rng) option" where
  "draw_below C n g =
     (let r = os_next_u32 C g in
      if r < zone n then Some (unat (r mod n), g + 1) else draw_below C n (g + 1))"

definition uniform_from :: "'m crypto_scheme \<Rightarrow> ustring \<Rightarrow> rng \<Rightarrow> (uchar \<times> rng) option" where
  "uniform_from C pool g =
     Option.bind (draw_below C (u32_sat (length pool)) g) (\<lambda>(j, g'). Some (pool ! j, g'))"

definition rng_fair :: "'m crypto_scheme \<Rightarrow> bool" where
  "rng_fair C \<longleftrightarrow> (\<forall>g. \<exists>k. os_next_u32 C (g + k) < 2 ^ 31)"

lemma unat_zone: "unat (zone n) = 4294967295 div unat n * unat n"
proof -
  have m: "unat (-1 mod n) = 4294967295 mod unat n"
    by (simp only: unat_mod_distrib unat_max32)
  have le: "-1 mod n \<le> (-1 :: 32 word)" by simp
  have "unat (zone n) = 4294967295 - 4294967295 mod unat n"
    unfolding zone_def by (simp only: unat_sub [OF le] m unat_max32)
  then show ?thesis by (simp add: minus_mod_eq_div_mult)
qed

lemma zone_upper_half:
  assumes "n \<noteq> 0" and "unat n \<le> 2147483648"
  shows "2 ^ 31 \<le> zone n"
proof -
  have "4294967295 mod unat n < unat n" using assms(1) by (simp add: unat_gt_0)
  moreover have "4294967295 div unat n * unat n + 4294967295 mod unat n = 4294967295"
    by (rule div_mult_mod_eq)
  ultimately have "2147483648 \<le> unat (zone n)"
    using assms(2) unfolding unat_zone by linarith
  then show ?thesis by (simp add: word_le_nat_alt)
qed

lemma draw_below_bound_aux:
  assumes a: "draw_below C n g = Some y"
  shows "n \<noteq> 0 \<longrightarrow> fst y < unat n"
proof (rule draw_below.raw_induct [OF _ a])
  fix f :: "'a crypto_scheme \<Rightarrow> 32 word \<Rightarrow> rng \<Rightarrow> (nat \<times> rng) option"
    and C :: "'a crypto_scheme" and n :: "32 word" and g y
  assume ih: "\<And>C n g y. f C n g = Some y \<Longrightarrow> n \<noteq> 0 \<longrightarrow> fst y < unat n"
    and body: "(let r = os_next_u32 C g in
       if r < zone n then Some (unat (r mod n), g + 1) else f C n (g + 1)) = Some y"
  show "n \<noteq> 0 \<longrightarrow> fst y < unat n"
  proof (cases "os_next_u32 C g < zone n")
    case True
    then show ?thesis using body by (auto simp: Let_def unat_mod_distrib unat_gt_0)
  next
    case False
    then have "f C n (g + 1) = Some y" using body by (simp add: Let_def)
    then show ?thesis by (rule ih)
  qed
qed

lemma draw_below_bound: "draw_below C n g = Some (j, g') \<Longrightarrow> n \<noteq> 0 \<Longrightarrow> j < unat n"
  using draw_below_bound_aux by fastforce

text \<open>A fair source makes the loop return.\<close>

lemma draw_below_step:
  "draw_below C n g = (let r = os_next_u32 C g in
      if r < zone n then Some (unat (r mod n), g + 1) else draw_below C n (g + 1))"
  by (rule draw_below.simps)

lemma draw_below_hit:
  "os_next_u32 C (g + k) < zone n \<Longrightarrow> \<exists>j g'. draw_below C n g = Some (j, g')"
proof (induction k arbitrary: g)
  case 0
  then show ?case by (subst draw_below_step) simp
next
  case (Suc k)
  then have "\<exists>j g'. draw_below C n (g + 1) = Some (j, g')" by (metis add_Suc_shift Suc_eq_plus1)
  then show ?case by (subst draw_below_step) (simp add: Let_def)
qed

lemma draw_below_returns:
  assumes "rng_fair C" and "n \<noteq> 0" and "unat n \<le> 2147483648"
  shows "\<exists>j g'. draw_below C n g = Some (j, g')"
proof -
  obtain k where "os_next_u32 C (g + k) < 2 ^ 31" using assms(1) by (auto simp: rng_fair_def)
  then have "os_next_u32 C (g + k) < zone n"
    using zone_upper_half [OF assms(2,3)] by (rule less_le_trans)
  then show ?thesis by (rule draw_below_hit)
qed

text \<open>No modulo bias: every residue is hit by the same number of accepted draws.\<close>

lemma card_residue:
  assumes n: "0 < n" and i: "i < n"
  shows "card {r :: nat. r < q * n \<and> r mod n = i} = q"
proof -
  have "{r. r < q * n \<and> r mod n = i} = (\<lambda>k. k * n + i) ` {..<q}"
  proof (intro set_eqI iffI)
    fix r assume "r \<in> {r. r < q * n \<and> r mod n = i}"
    then have r: "r < q * n" "r mod n = i" by auto
    have "r div n < q" using r(1) by (simp add: less_mult_imp_div_less)
    moreover have "r = r div n * n + i" using r(2) div_mult_mod_eq [of r n] by simp
    ultimately show "r \<in> (\<lambda>k. k * n + i) ` {..<q}" by blast
  next
    fix r assume "r \<in> (\<lambda>k. k * n + i) ` {..<q}"
    then obtain k where k: "k < q" "r = k * n + i" by auto
    then have "r < (k + 1) * n" using i by simp
    also have "\<dots> \<le> q * n" using k(1) by (intro mult_le_mono1) simp
    finally show "r \<in> {r. r < q * n \<and> r mod n = i}" using k i by simp
  qed
  moreover have "inj_on (\<lambda>k. k * n + i) {..<q}" using n by (auto intro: inj_onI)
  ultimately show ?thesis by (simp add: card_image)
qed

lemma accepted_draws_card:
  assumes "i < unat n"
  shows "card {r :: 32 word. r < zone n \<and> unat (r mod n) = i} = 4294967295 div unat n"
proof -
  let ?q = "4294967295 div unat n"
  have z: "unat (zone n) = ?q * unat n" by (rule unat_zone)
  have "unat ` {r :: 32 word. r < zone n \<and> unat (r mod n) = i} =
      {r. r < ?q * unat n \<and> r mod unat n = i}"
  proof (intro set_eqI iffI)
    fix k assume "k \<in> unat ` {r :: 32 word. r < zone n \<and> unat (r mod n) = i}"
    then show "k \<in> {r. r < ?q * unat n \<and> r mod unat n = i}"
      using z by (auto simp: word_less_nat_alt unat_mod_distrib)
  next
    fix k assume k: "k \<in> {r. r < ?q * unat n \<and> r mod unat n = i}"
    then have b: "k < 2 ^ LENGTH(32)" using z unat_lt [of "zone n"] by simp
    have e: "unat (word_of_nat k :: 32 word) = k" using b by (simp add: unat_of_nat)
    have "(word_of_nat k :: 32 word) \<in> {r. r < zone n \<and> unat (r mod n) = i}"
      using k by (simp add: word_less_nat_alt unat_mod_distrib e z)
    then have "unat (word_of_nat k :: 32 word) \<in> unat ` {r :: 32 word. r < zone n \<and> unat (r mod n) = i}"
      by (rule imageI)
    then show "k \<in> unat ` {r :: 32 word. r < zone n \<and> unat (r mod n) = i}" by (simp only: e)
  qed
  then have "card {r. r < ?q * unat n \<and> r mod unat n = i} =
      card (unat ` {r :: 32 word. r < zone n \<and> unat (r mod n) = i})"
    by (rule arg_cong [OF sym])
  also have "\<dots> = card {r :: 32 word. r < zone n \<and> unat (r mod n) = i}"
    by (rule card_image) (auto intro: inj_onI simp: word_unat_eq_iff)
  finally have "card {r :: 32 word. r < zone n \<and> unat (r mod n) = i} =
      card {r. r < ?q * unat n \<and> r mod unat n = i}"
    by (rule sym)
  also have "\<dots> = ?q" using assms by (intro card_residue) simp_all
  finally show ?thesis .
qed

section \<open>Shuffle\<close>

definition swap :: "nat \<Rightarrow> nat \<Rightarrow> 'a list \<Rightarrow> 'a list" where
  "swap i j xs = xs[i := xs ! j, j := xs ! i]"

text \<open>The loop \<open>for i in (1..buf.len()).rev()\<close>, by recursion on \<open>i\<close>.\<close>

fun shuffle_loop :: "'m crypto_scheme \<Rightarrow> nat \<Rightarrow> ustring \<Rightarrow> rng \<Rightarrow> (ustring \<times> rng) option" where
  "shuffle_loop C 0 xs g = Some (xs, g)"
| "shuffle_loop C (Suc k) xs g =
     Option.bind (draw_below C (u32_sat (Suc k + 1)) g)
       (\<lambda>(j, g'). shuffle_loop C k (swap (Suc k) j xs) g')"

definition shuffle :: "'m crypto_scheme \<Rightarrow> ustring \<Rightarrow> rng \<Rightarrow> (ustring \<times> rng) option" where
  "shuffle C xs g = (if length xs < 2 then Some (xs, g) else shuffle_loop C (length xs - 1) xs g)"

lemma mset_swap: "i < length xs \<Longrightarrow> j < length xs \<Longrightarrow> mset (swap i j xs) = mset xs"
  by (simp add: swap_def mset_swap)

lemma length_swap [simp]: "length (swap i j xs) = length xs"
  by (simp add: swap_def)

lemma shuffle_loop_mset:
  "shuffle_loop C k xs g = Some (ys, g') \<Longrightarrow> k < length xs \<Longrightarrow> mset ys = mset xs"
proof (induction C k xs g rule: shuffle_loop.induct)
  case (1 C xs g)
  then show ?case by simp
next
  case (2 C k xs g)
  then obtain j h where d: "draw_below C (u32_sat (Suc k + 1)) g = Some (j, h)"
    and s: "shuffle_loop C k (swap (Suc k) j xs) h = Some (ys, g')"
    by (auto simp: bind_eq_Some_conv)
  have "j < unat (u32_sat (Suc k + 1))"
    using draw_below_bound [OF d] u32_sat_not_zero by simp
  then have j: "j < Suc k + 1" using u32_sat_le [of "Suc k + 1"] by linarith
  have "mset ys = mset (swap (Suc k) j xs)"
    using 2(1) [OF d] s 2(3) by simp
  also have "\<dots> = mset xs" using j 2(3) by (intro mset_swap) simp_all
  finally show ?case .
qed

lemma shuffle_mset: "shuffle C xs g = Some (ys, g') \<Longrightarrow> mset ys = mset xs"
  by (auto simp: shuffle_def split: if_splits intro: shuffle_loop_mset)

lemma shuffle_loop_returns:
  "rng_fair C \<Longrightarrow> k < 2147483648 \<Longrightarrow> \<exists>r. shuffle_loop C k xs g = Some r"
proof (induction C k xs g rule: shuffle_loop.induct)
  case (1 C xs g)
  then show ?case by simp
next
  case (2 C k xs g)
  have u: "unat (u32_sat (Suc k + 1)) \<le> 2147483648"
    using u32_sat_le [of "Suc k + 1"] 2(3) by linarith
  obtain j h where d: "draw_below C (u32_sat (Suc k + 1)) g = Some (j, h)"
    using draw_below_returns [OF 2(2) _ u] u32_sat_not_zero by fastforce
  then show ?case using 2(1) [OF d] 2(2,3) by auto
qed

lemma shuffle_returns:
  "rng_fair C \<Longrightarrow> length xs \<le> 2147483648 \<Longrightarrow> \<exists>r. shuffle C xs g = Some r"
  using shuffle_loop_returns [of C "length xs - 1" xs g] by (simp add: shuffle_def)

section \<open>Generation\<close>

type_synonym class_pool = "string \<times> 8 word \<times> ustring"

definition class_pools :: "charset \<Rightarrow> required_classes \<Rightarrow> class_pool list" where
  "class_pools cs rc =
     [(''lowercase'', min_lowercase rc, effective_lowercase cs),
      (''uppercase'', min_uppercase rc, effective_uppercase cs),
      (''digits'', min_digits rc, effective_digits cs),
      (''symbols'', min_symbols rc, effective_symbols cs)]"

fun check_pools :: "class_pool list \<Rightarrow> policy_error + unit" where
  "check_pools [] = Inr ()"
| "check_pools ((cls, m, pool) # ps) =
     (if m > 0 \<and> pool = [] then Inl (RequiredClassUnavailable cls m) else check_pools ps)"

text \<open>\<open>k\<close> pushes of a uniform character.\<close>

fun push_uniform :: "'m crypto_scheme \<Rightarrow> ustring \<Rightarrow> nat \<Rightarrow> ustring \<Rightarrow> rng \<Rightarrow> (ustring \<times> rng) option" where
  "push_uniform C pool 0 xs g = Some (xs, g)"
| "push_uniform C pool (Suc k) xs g =
     Option.bind (uniform_from C pool g) (\<lambda>(c, g'). push_uniform C pool k (xs @ [c]) g')"

fun push_minimums :: "'m crypto_scheme \<Rightarrow> class_pool list \<Rightarrow> ustring \<Rightarrow> rng \<Rightarrow> (ustring \<times> rng) option" where
  "push_minimums C [] xs g = Some (xs, g)"
| "push_minimums C ((cls, m, pool) # ps) xs g =
     Option.bind (push_uniform C pool (unat m) xs g) (\<lambda>(ys, g'). push_minimums C ps ys g')"

definition generate ::
  "'m crypto_scheme \<Rightarrow> generation_request \<Rightarrow> rng \<Rightarrow> ((policy_error + secret_string) \<times> rng) option"
where
  "generate C req g =
     (let len = gr_length req; cs = gr_charset req; rc = gr_required req;
          eff = effective_set cs; pools = class_pools cs rc in
      if \<not> (MIN_LENGTH \<le> len \<and> len \<le> MAX_LENGTH) then Some (Inl (LengthOutOfRange len), g)
      else if length eff < 2 then Some (Inl EmptyCharset, g)
      else if rc_total rc > ucast len then Some (Inl (ImpossibleConstraints (rc_total rc) len), g)
      else (case check_pools pools of
          Inl e \<Rightarrow> Some (Inl e, g)
        | Inr _ \<Rightarrow>
            Option.bind (push_minimums C pools [] g) (\<lambda>(xs, g1).
            Option.bind (push_uniform C eff (unat len - length xs) xs g1) (\<lambda>(ys, g2).
            Option.bind (shuffle C ys g2) (\<lambda>(zs, g3). Some (Inr zs, g3))))))"

lemma uniform_from_mem:
  assumes "uniform_from C pool g = Some (c, g')" and "pool \<noteq> []"
  shows "c \<in> set pool"
proof -
  obtain j where d: "draw_below C (u32_sat (length pool)) g = Some (j, g')" and c: "c = pool ! j"
    using assms(1) by (auto simp: uniform_from_def bind_eq_Some_conv)
  have "j < unat (u32_sat (length pool))"
    using draw_below_bound [OF d] u32_sat_not_zero assms(2) by simp
  then have "j < length pool" using u32_sat_le [of "length pool"] by linarith
  then show ?thesis using c by simp
qed

lemma uniform_from_returns:
  assumes "rng_fair C" and "pool \<noteq> []" and "length pool \<le> 2147483648"
  shows "\<exists>c g'. uniform_from C pool g = Some (c, g')"
proof -
  have u: "unat (u32_sat (length pool)) \<le> 2147483648"
    using u32_sat_le [of "length pool"] assms(3) by linarith
  obtain j h where "draw_below C (u32_sat (length pool)) g = Some (j, h)"
    using draw_below_returns [OF assms(1) _ u] u32_sat_not_zero assms(2) by fastforce
  then show ?thesis by (simp add: uniform_from_def)
qed

lemma push_uniform_Some:
  "push_uniform C pool k xs g = Some (ys, g') \<Longrightarrow> pool \<noteq> [] \<or> k = 0 \<Longrightarrow>
   \<exists>zs. ys = xs @ zs \<and> length zs = k \<and> set zs \<subseteq> set pool"
proof (induction C pool k xs g rule: push_uniform.induct)
  case (1 C pool xs g)
  then show ?case by simp
next
  case (2 C pool k xs g)
  then obtain c h where u: "uniform_from C pool g = Some (c, h)"
    and p: "push_uniform C pool k (xs @ [c]) h = Some (ys, g')"
    by (auto simp: bind_eq_Some_conv)
  obtain zs where "ys = (xs @ [c]) @ zs" "length zs = k" "set zs \<subseteq> set pool"
    using 2(1) [OF u] p 2(3) by auto
  then show ?case using uniform_from_mem [OF u] 2(3)
    by (intro exI [of _ "c # zs"]) auto
qed

lemma push_uniform_returns:
  "rng_fair C \<Longrightarrow> pool \<noteq> [] \<or> k = 0 \<Longrightarrow> length pool \<le> 2147483648 \<Longrightarrow>
   \<exists>ys g'. push_uniform C pool k xs g = Some (ys, g')"
proof (induction C pool k xs g rule: push_uniform.induct)
  case (1 C pool xs g)
  then show ?case by simp
next
  case (2 C pool k xs g)
  then obtain c h where u: "uniform_from C pool g = Some (c, h)"
    using uniform_from_returns by blast
  then show ?case using 2(1) [OF u] 2(2-4) by auto
qed

lemma check_pools_ok:
  "check_pools ps = Inr u \<longleftrightarrow> (\<forall>(cls, m, pool) \<in> set ps. m = 0 \<or> pool \<noteq> [])"
  by (induction ps rule: check_pools.induct) (auto simp: word_gt_0)

lemma check_pools_Cons:
  assumes "check_pools ((cls, m, pool) # ps) = Inr ()"
  shows "pool \<noteq> [] \<or> unat m = 0" and "check_pools ps = Inr ()"
  using assms by (auto simp: word_gt_0 split: if_splits)

definition block_of :: "class_pool \<Rightarrow> ustring \<Rightarrow> bool" where
  "block_of p z = (case p of (cls, m, pool) \<Rightarrow> length z = unat m \<and> set z \<subseteq> set pool)"

lemma push_minimums_Some:
  "push_minimums C ps xs g = Some (ys, g') \<Longrightarrow> check_pools ps = Inr () \<Longrightarrow>
   \<exists>zss. ys = xs @ concat zss \<and> list_all2 block_of ps zss"
proof (induction C ps xs g rule: push_minimums.induct)
  case (1 C xs g)
  then show ?case by simp
next
  case (2 C cls m pool ps xs g)
  then obtain us h where u: "push_uniform C pool (unat m) xs g = Some (us, h)"
    and p: "push_minimums C ps us h = Some (ys, g')"
    by (auto simp: bind_eq_Some_conv)
  note ne = check_pools_Cons(1) [OF 2(3)] and rest = check_pools_Cons(2) [OF 2(3)]
  obtain zs where z: "us = xs @ zs" "length zs = unat m" "set zs \<subseteq> set pool"
    using push_uniform_Some [OF u ne] by blast
  obtain zss where "ys = us @ concat zss" "list_all2 block_of ps zss"
    using 2(1) [OF u refl p rest] by blast
  then show ?case using z
    by (intro exI [of _ "zs # zss"]) (simp add: block_of_def [of "(cls, m, pool)"])
qed

lemma push_minimums_returns:
  "rng_fair C \<Longrightarrow> check_pools ps = Inr () \<Longrightarrow>
   \<forall>(cls, m, pool) \<in> set ps. length pool \<le> 2147483648 \<Longrightarrow>
   \<exists>ys g'. push_minimums C ps xs g = Some (ys, g')"
proof (induction C ps xs g rule: push_minimums.induct)
  case (1 C xs g)
  then show ?case by simp
next
  case (2 C cls m pool ps xs g)
  note ne = check_pools_Cons(1) [OF 2(3)] and rest = check_pools_Cons(2) [OF 2(3)]
  obtain us h where u: "push_uniform C pool (unat m) xs g = Some (us, h)"
    using push_uniform_returns [OF 2(2) ne, of xs g] 2(4) by auto
  then show ?case using 2(1) [OF u refl 2(2) rest] 2(4) by auto
qed

lemma blocks_length:
  "list_all2 block_of ps zss \<Longrightarrow> length (concat zss) = sum_list (map (\<lambda>(cls, m, pool). unat m) ps)"
  by (induction rule: list_all2_induct) (auto simp: block_of_def)

lemma blocks_count:
  "list_all2 block_of ps zss \<Longrightarrow> (cls, m, pool) \<in> set ps \<Longrightarrow>
   unat m \<le> length (filter (\<lambda>c. c \<in> set pool) (concat zss))"
proof (induction rule: list_all2_induct)
  case Nil
  then show ?case by simp
next
  case (Cons p ps z zss)
  show ?case
  proof (cases "(cls, m, pool) = p")
    case True
    then have "filter (\<lambda>c. c \<in> set pool) z = z" "length z = unat m"
      using Cons(1) by (auto simp: block_of_def filter_id_conv)
    then show ?thesis by simp
  next
    case False
    then show ?thesis using Cons by auto
  qed
qed

lemma blocks_set:
  "list_all2 block_of ps zss \<Longrightarrow> set (concat zss) \<subseteq> (\<Union>(cls, m, pool) \<in> set ps. set pool)"
  by (induction rule: list_all2_induct) (fastforce simp: block_of_def)+

lemma class_pools_total:
  "sum_list (map (\<lambda>(cls, m, pool). unat m) (class_pools cs rc)) = unat (rc_total rc)"
  by (simp add: class_pools_def rc_total_exact)

lemma class_pools_set:
  "(\<Union>(cls, m, pool) \<in> set (class_pools cs rc). set pool) = set (effective_set cs)"
  by (auto simp: class_pools_def set_effective_set)

text \<open>The three passes together, from an accepted request.\<close>

lemma generate_Inr:
  assumes "generate C req g = Some (Inr pw, g')"
  obtains xs g1 ys g2 where
      "MIN_LENGTH \<le> gr_length req" "gr_length req \<le> MAX_LENGTH"
      "2 \<le> length (effective_set (gr_charset req))"
      "rc_total (gr_required req) \<le> ucast (gr_length req)"
      "check_pools (class_pools (gr_charset req) (gr_required req)) = Inr ()"
      "push_minimums C (class_pools (gr_charset req) (gr_required req)) [] g = Some (xs, g1)"
      "push_uniform C (effective_set (gr_charset req)) (unat (gr_length req) - length xs) xs g1 = Some (ys, g2)"
      "shuffle C ys g2 = Some (pw, g')"
  using assms
  by (auto simp: generate_def Let_def bind_eq_Some_conv not_less split: if_splits sum.splits)

lemma mset_eq_filter_length: "mset xs = mset ys \<Longrightarrow> length (filter P xs) = length (filter P ys)"
  by (metis mset_filter size_mset)

lemma generate_sound:
  assumes "generate C req g = Some (Inr pw, g')"
  shows "length pw = unat (gr_length req)"
    and "set pw \<subseteq> set (effective_set (gr_charset req))"
    and "(cls, m, pool) \<in> set (class_pools (gr_charset req) (gr_required req)) \<Longrightarrow>
         unat m \<le> length (filter (\<lambda>c. c \<in> set pool) pw)"
proof -
  let ?cs = "gr_charset req" let ?ps = "class_pools ?cs (gr_required req)"
  obtain xs g1 ys g2 where e: "2 \<le> length (effective_set ?cs)"
    and t: "rc_total (gr_required req) \<le> ucast (gr_length req)"
    and ok: "check_pools ?ps = Inr ()"
    and m: "push_minimums C ?ps [] g = Some (xs, g1)"
    and u: "push_uniform C (effective_set ?cs) (unat (gr_length req) - length xs) xs g1 = Some (ys, g2)"
    and s: "shuffle C ys g2 = Some (pw, g')"
    using assms by (rule generate_Inr)
  obtain zss where x: "xs = concat zss" and b: "list_all2 block_of ?ps zss"
    using push_minimums_Some [OF m ok] by auto
  obtain zs where y: "ys = xs @ zs" "length zs = unat (gr_length req) - length xs"
      "set zs \<subseteq> set (effective_set ?cs)"
    using push_uniform_Some [OF u] e by fastforce
  have l: "length xs = unat (rc_total (gr_required req))"
    using blocks_length [OF b] x by (simp add: class_pools_total)
  have "unat (rc_total (gr_required req)) \<le> unat (gr_length req)"
    using t by (simp add: word_le_nat_alt unat_ucast_up)
  then have ly: "length ys = unat (gr_length req)" using y l by simp
  have p: "mset pw = mset ys" by (rule shuffle_mset [OF s])
  show "length pw = unat (gr_length req)" using ly mset_eq_length [OF p] by simp
  show "set pw \<subseteq> set (effective_set ?cs)"
    using blocks_set [OF b] mset_eq_setD [OF p] x y by (auto simp: class_pools_set)
  assume c: "(cls, m, pool) \<in> set ?ps"
  have "unat m \<le> length (filter (\<lambda>c. c \<in> set pool) xs)"
    unfolding x by (rule blocks_count [OF b c])
  then show "unat m \<le> length (filter (\<lambda>c. c \<in> set pool) pw)"
    using y(1) mset_eq_filter_length [OF p, of "\<lambda>c. c \<in> set pool"] by simp
qed

section \<open>Generation returns\<close>

lemma class_pool_distinct:
  "distinct LOWERCASE" "distinct UPPERCASE" "distinct DIGITS" "distinct (symbol_chars sy)"
  by (simp add: LOWERCASE_def ustr_def, simp add: UPPERCASE_def ustr_def,
      simp add: DIGITS_def ustr_def,
      cases sy, simp_all add: BASIC_SYMBOLS_def FULL_SYMBOLS_def ustr_def sorted_list_of_fset.rep_eq)

lemma class_pools_distinct:
  "(cls, m, pool) \<in> set (class_pools cs rc) \<Longrightarrow> distinct pool \<and> set pool \<subseteq> set (effective_set cs)"
  by (auto simp: class_pools_def effective_lowercase_def effective_uppercase_def
      effective_digits_def effective_symbols_def filter_class_def set_effective_set
      class_pool_distinct)

lemma effective_set_bound: "charset_ok cs \<Longrightarrow> length (effective_set cs) \<le> 1114112"
proof -
  assume ok: "charset_ok cs"
  have "set (effective_set cs) \<subseteq> {..<1114112}"
    using effective_set_scalar [OF ok] by (fastforce simp: is_scalar_def)
  then have "card (set (effective_set cs)) \<le> card {..<1114112::nat}"
    by (intro card_mono) simp_all
  then show ?thesis using distinct_card [OF distinct_effective_set, of cs] by simp
qed

lemma class_pools_bound:
  "charset_ok cs \<Longrightarrow> (cls, m, pool) \<in> set (class_pools cs rc) \<Longrightarrow> length pool \<le> 1114112"
proof -
  assume ok: "charset_ok cs" and p: "(cls, m, pool) \<in> set (class_pools cs rc)"
  have "card (set pool) \<le> card (set (effective_set cs))"
    using class_pools_distinct [OF p] by (intro card_mono) simp_all
  then have "length pool \<le> length (effective_set cs)"
    using class_pools_distinct [OF p] distinct_card [OF distinct_effective_set, of cs]
    by (simp add: distinct_card)
  then show ?thesis using effective_set_bound [OF ok] by linarith
qed

definition request_ok :: "generation_request \<Rightarrow> bool" where
  "request_ok req \<longleftrightarrow>
     MIN_LENGTH \<le> gr_length req \<and> gr_length req \<le> MAX_LENGTH \<and>
     2 \<le> length (effective_set (gr_charset req)) \<and>
     rc_total (gr_required req) \<le> ucast (gr_length req) \<and>
     check_pools (class_pools (gr_charset req) (gr_required req)) = Inr ()"

lemma generate_Some_ok: "generate C req g = Some (Inr pw, g') \<Longrightarrow> request_ok req"
  by (erule generate_Inr) (simp add: request_ok_def)

lemma generate_rejects:
  "\<not> request_ok req \<Longrightarrow> \<exists>e. generate C req g = Some (Inl e, g)"
  by (auto simp: generate_def Let_def request_ok_def not_less split: sum.splits)

lemma generate_accepts:
  assumes ok: "request_ok req" and cs: "charset_ok (gr_charset req)" and fair: "rng_fair C"
  shows "\<exists>pw g'. generate C req g = Some (Inr pw, g')"
proof -
  let ?cs = "gr_charset req" let ?ps = "class_pools ?cs (gr_required req)"
  have e: "2 \<le> length (effective_set ?cs)" and t: "rc_total (gr_required req) \<le> ucast (gr_length req)"
    and c: "check_pools ?ps = Inr ()"
    using ok by (simp_all add: request_ok_def)
  have pb: "\<forall>(cls, m, pool) \<in> set ?ps. length pool \<le> 2147483648"
    using class_pools_bound [OF cs] by fastforce
  obtain xs g1 where m: "push_minimums C ?ps [] g = Some (xs, g1)"
    using push_minimums_returns [OF fair c pb] by blast
  have ne: "effective_set ?cs \<noteq> [] \<or> unat (gr_length req) - length xs = 0"
    using e by auto
  have lb: "length (effective_set ?cs) \<le> 2147483648"
    using effective_set_bound [OF cs] by linarith
  obtain ys g2 where u: "push_uniform C (effective_set ?cs) (unat (gr_length req) - length xs) xs g1 = Some (ys, g2)"
    using push_uniform_returns [OF fair ne lb] by blast
  obtain zs where "ys = xs @ zs" "length zs = unat (gr_length req) - length xs"
    using push_uniform_Some [OF u ne] by blast
  moreover obtain zss where "xs = concat zss" "list_all2 block_of ?ps zss"
    using push_minimums_Some [OF m c] by auto
  then have "length xs = unat (rc_total (gr_required req))"
    using blocks_length by (fastforce simp: class_pools_total)
  ultimately have "length ys \<le> 2147483648"
    using unat16 [of "gr_length req"] t by (simp add: word_le_nat_alt unat_ucast_up)
  then obtain r where "shuffle C ys g2 = Some r" using shuffle_returns [OF fair] by blast
  then show ?thesis
    using ok m u by (cases r) (auto simp: generate_def Let_def request_ok_def not_less)
qed

end
