(* ===== verification/Validate.thy ===== *)
theory Validate
  imports Generate
begin

text \<open>
  \<open>passman-policy\<close>, \<open>validate.rs\<close>: the advisory report on an imported password, and its
  relation to \<open>generate\<close>: what the generator produces under a policy is accepted by the
  validator under the same policy, unless the policy brings a custom symbol set that the
  validator's ASCII classification does not count.
\<close>

record validation_report =
  vr_ok :: bool
  vr_issues :: "ustring list"

definition from_issues :: "ustring list \<Rightarrow> validation_report" where
  "from_issues is = \<lparr>vr_ok = (is = []), vr_issues = is\<rparr>"

definition is_ascii_lowercase :: "uchar \<Rightarrow> bool" where
  "is_ascii_lowercase c \<longleftrightarrow> 97 \<le> c \<and> c \<le> 122"
definition is_ascii_uppercase :: "uchar \<Rightarrow> bool" where
  "is_ascii_uppercase c \<longleftrightarrow> 65 \<le> c \<and> c \<le> 90"
definition is_ascii_digit :: "uchar \<Rightarrow> bool" where
  "is_ascii_digit c \<longleftrightarrow> 48 \<le> c \<and> c \<le> 57"
definition is_ascii_punctuation :: "uchar \<Rightarrow> bool" where
  "is_ascii_punctuation c \<longleftrightarrow> (33 \<le> c \<and> c \<le> 47) \<or> (58 \<le> c \<and> c \<le> 64) \<or> (91 \<le> c \<and> c \<le> 96) \<or>
     (123 \<le> c \<and> c \<le> 126)"

record class_counts =
  n_lo :: nat
  n_up :: nat
  n_di :: nat
  n_sy :: nat

fun count_classes :: "ustring \<Rightarrow> class_counts \<Rightarrow> class_counts" where
  "count_classes [] k = k"
| "count_classes (c # cs) k = count_classes cs
     (if is_ascii_lowercase c then k\<lparr>n_lo := n_lo k + 1\<rparr>
      else if is_ascii_uppercase c then k\<lparr>n_up := n_up k + 1\<rparr>
      else if is_ascii_digit c then k\<lparr>n_di := n_di k + 1\<rparr>
      else if is_ascii_punctuation c then k\<lparr>n_sy := n_sy k + 1\<rparr>
      else k)"

definition check_class :: "string \<Rightarrow> nat \<Rightarrow> 8 word \<Rightarrow> ustring list" where
  "check_class name have want =
     (if have < unat want then
        [ustr (''password has '' @ show_nat have @ '' '' @ name @
           '' character(s); policy requires at least '' @ show_nat (unat want))]
      else [])"

definition offending :: "charset \<Rightarrow> ustring \<Rightarrow> uchar fset" where
  "offending cs pw = fset_of_list (filter (\<lambda>c. c \<notin> set (effective_set cs)) pw)"

definition length_issues :: "ustring \<Rightarrow> ustring list" where
  "length_issues pw =
     (if length pw < unat MIN_LENGTH then
        [ustr (''password length '' @ show_nat (length pw) @
           '' is below the recommended minimum of '' @ show_nat (unat MIN_LENGTH))]
      else if length pw > unat MAX_LENGTH then
        [ustr (''password length '' @ show_nat (length pw) @
           '' exceeds the maximum of '' @ show_nat (unat MAX_LENGTH))]
      else [])"

definition charset_issues :: "charset \<Rightarrow> ustring \<Rightarrow> ustring list" where
  "charset_issues cs pw =
     (if offending cs pw \<noteq> {||} then
        [ustr ''password contains characters not permitted by the policy charset: '' @
           sorted_list_of_fset (offending cs pw)]
      else [])"

definition validate :: "ustring \<Rightarrow> entry_policy \<Rightarrow> validation_report" where
  "validate pw policy =
     (let req = resolve_over policy request_default_vault;
          k = count_classes pw \<lparr>n_lo = 0, n_up = 0, n_di = 0, n_sy = 0\<rparr>;
          rc = gr_required req in
      from_issues
        (length_issues pw @ charset_issues (gr_charset req) pw @
         check_class ''lowercase'' (n_lo k) (min_lowercase rc) @
         check_class ''uppercase'' (n_up k) (min_uppercase rc) @
         check_class ''digit'' (n_di k) (min_digits rc) @
         check_class ''symbol'' (n_sy k) (min_symbols rc)))"

section \<open>What the report says\<close>

lemmas ascii_class_defs = is_ascii_lowercase_def is_ascii_uppercase_def is_ascii_digit_def
  is_ascii_punctuation_def

lemma count_classes_filter:
  "count_classes pw k =
     k\<lparr>n_lo := n_lo k + length (filter is_ascii_lowercase pw),
       n_up := n_up k + length (filter is_ascii_uppercase pw),
       n_di := n_di k + length (filter is_ascii_digit pw),
       n_sy := n_sy k + length (filter is_ascii_punctuation pw)\<rparr>"
proof (induction pw arbitrary: k)
  case Nil
  then show ?case by simp
next
  case (Cons c cs)
  have d: "is_ascii_lowercase c \<Longrightarrow> \<not> is_ascii_uppercase c \<and> \<not> is_ascii_digit c \<and> \<not> is_ascii_punctuation c"
    "is_ascii_uppercase c \<Longrightarrow> \<not> is_ascii_digit c \<and> \<not> is_ascii_punctuation c"
    "is_ascii_digit c \<Longrightarrow> \<not> is_ascii_punctuation c"
    by (auto simp: ascii_class_defs)
  show ?case using d by (auto simp: Cons.IH)
qed

definition satisfies :: "ustring \<Rightarrow> generation_request \<Rightarrow> bool" where
  "satisfies pw req \<longleftrightarrow>
     16 \<le> length pw \<and> length pw \<le> 256 \<and> set pw \<subseteq> set (effective_set (gr_charset req)) \<and>
     unat (min_lowercase (gr_required req)) \<le> length (filter is_ascii_lowercase pw) \<and>
     unat (min_uppercase (gr_required req)) \<le> length (filter is_ascii_uppercase pw) \<and>
     unat (min_digits (gr_required req)) \<le> length (filter is_ascii_digit pw) \<and>
     unat (min_symbols (gr_required req)) \<le> length (filter is_ascii_punctuation pw)"

lemma offending_empty: "offending cs pw = {||} \<longleftrightarrow> set pw \<subseteq> set (effective_set cs)"
  by (auto simp: offending_def fset_eq_iff fset_of_list_elem)

lemma check_class_Nil: "check_class nm have want = [] \<longleftrightarrow> unat want \<le> have"
  by (simp add: check_class_def not_less)

lemma length_issues_Nil: "length_issues pw = [] \<longleftrightarrow> 16 \<le> length pw \<and> length pw \<le> 256"
  by (auto simp: length_issues_def MIN_LENGTH_def MAX_LENGTH_def)

lemma charset_issues_Nil: "charset_issues cs pw = [] \<longleftrightarrow> set pw \<subseteq> set (effective_set cs)"
  by (simp add: charset_issues_def offending_empty)

lemma vr_ok_iff:
  "vr_ok (validate pw policy) \<longleftrightarrow> satisfies pw (resolve_over policy request_default_vault)"
  by (simp add: validate_def Let_def from_issues_def satisfies_def count_classes_filter
      check_class_Nil length_issues_Nil charset_issues_Nil conj_ac)

section \<open>The generator against the validator\<close>

lemma class_ranges:
  "LOWERCASE = [97..<123]" "UPPERCASE = [65..<91]" "DIGITS = [48..<58]"
  "FULL_SYMBOLS = [33..<48] @ [58..<65] @ [91..<97] @ [123..<127]"
  by (simp_all add: LOWERCASE_def UPPERCASE_def DIGITS_def FULL_SYMBOLS_def ustr_def upt_rec_numeral)

lemma basic_symbols_punct: "list_all is_ascii_punctuation BASIC_SYMBOLS"
  by (simp add: BASIC_SYMBOLS_def ustr_def is_ascii_punctuation_def)

lemma class_chars:
  "c \<in> set LOWERCASE \<longleftrightarrow> is_ascii_lowercase c"
  "c \<in> set UPPERCASE \<longleftrightarrow> is_ascii_uppercase c"
  "c \<in> set DIGITS \<longleftrightarrow> is_ascii_digit c"
  "c \<in> set FULL_SYMBOLS \<longleftrightarrow> is_ascii_punctuation c"
  "c \<in> set BASIC_SYMBOLS \<Longrightarrow> is_ascii_punctuation c"
  using basic_symbols_punct
  by (auto simp only: class_ranges ascii_class_defs set_upt set_append Un_iff atLeastLessThan_iff
      list_all_iff)

lemma filter_length_mono:
  "(\<And>x. x \<in> set xs \<Longrightarrow> P x \<Longrightarrow> Q x) \<Longrightarrow> length (filter P xs) \<le> length (filter Q xs)"
  by (induction xs) auto

lemma generate_satisfies:
  assumes g: "generate C req g = Some (Inr pw, g')"
    and sy: "\<And>s. cs_symbols (gr_charset req) = Custom s \<Longrightarrow> fBall s is_ascii_punctuation"
  shows "satisfies pw req"
proof -
  let ?cs = "gr_charset req" let ?rc = "gr_required req"
  have rq: "request_ok req" by (rule generate_Some_ok [OF g])
  have l: "length pw = unat (gr_length req)" by (rule generate_sound(1) [OF g])
  have cnt: "unat m \<le> length (filter P pw)"
    if "(nm, m, pool) \<in> set (class_pools ?cs ?rc)" and "\<And>c. c \<in> set pool \<Longrightarrow> P c" for nm m pool P
  proof -
    have "unat m \<le> length (filter (\<lambda>c. c \<in> set pool) pw)" by (rule generate_sound(3) [OF g that(1)])
    also have "\<dots> \<le> length (filter P pw)" by (rule filter_length_mono) (rule that(2))
    finally show ?thesis .
  qed
  have p: "is_ascii_punctuation c" if "c \<in> set (effective_symbols ?cs)" for c
    using that sy
    by (cases "cs_symbols ?cs")
      (auto simp: effective_symbols_def class_chars sorted_list_of_fset.rep_eq)
  have "unat (min_lowercase ?rc) \<le> length (filter is_ascii_lowercase pw)"
    "unat (min_uppercase ?rc) \<le> length (filter is_ascii_uppercase pw)"
    "unat (min_digits ?rc) \<le> length (filter is_ascii_digit pw)"
    "unat (min_symbols ?rc) \<le> length (filter is_ascii_punctuation pw)"
    by (rule cnt [of "''lowercase''" _ "effective_lowercase ?cs"],
        simp_all add: class_pools_def effective_lowercase_def filter_class_def class_chars split: if_splits)
      (rule cnt [of "''uppercase''" _ "effective_uppercase ?cs"],
        simp_all add: class_pools_def effective_uppercase_def filter_class_def class_chars split: if_splits,
       rule cnt [of "''digits''" _ "effective_digits ?cs"],
        simp_all add: class_pools_def effective_digits_def filter_class_def class_chars split: if_splits,
       rule cnt [of "''symbols''" _ "effective_symbols ?cs"],
        simp_all add: class_pools_def p)
  then show ?thesis
    using rq l generate_sound(2) [OF g]
    by (simp add: satisfies_def request_ok_def MIN_LENGTH_def MAX_LENGTH_def word_le_nat_alt)
qed

section \<open>Properties\<close>

text \<open>C3. A generated password has exactly the requested length, uses only characters of the
  effective set (so no disallowed one), and meets every class minimum.\<close>

theorem generate_meets_policy:
  assumes "generate C req g = Some (Inr pw, g')"
  shows "length pw = unat (gr_length req) \<and> 16 \<le> length pw \<and> length pw \<le> 256 \<and>
     set pw \<subseteq> set (effective_set (gr_charset req)) \<and>
     (\<forall>c \<in> set pw. c |\<notin>| cs_disallow (gr_charset req)) \<and>
     (\<forall>(cls, m, pool) \<in> set (class_pools (gr_charset req) (gr_required req)).
        unat m \<le> length (filter (\<lambda>c. c \<in> set pool) pw))"
proof -
  have r: "request_ok req" by (rule generate_Some_ok [OF assms])
  then have "16 \<le> unat (gr_length req)" "unat (gr_length req) \<le> 256"
    by (simp_all add: request_ok_def MIN_LENGTH_def MAX_LENGTH_def word_le_nat_alt)
  then show ?thesis
    using generate_sound [OF assms] class_not_disallowed by fastforce
qed

lemma toy_fair: "rng_fair toy_crypto"
proof -
  have "os_next_u32 toy_crypto (g + 0) < 2 ^ 31" for g :: nat
  proof -
    have "(37 * g + 5) mod 1000 < 1000" by simp
    then have "unat (of_nat ((37 * g + 5) mod 1000) :: 32 word) < 1000"
      by (simp add: unat_of_nat)
    then show ?thesis by (simp add: toy_crypto_def word_less_nat_alt)
  qed
  then show ?thesis unfolding rng_fair_def by blast
qed

definition demo_request :: generation_request where
  "demo_request = \<lparr>gr_length = 16,
     gr_charset = \<lparr>cs_lowercase = False, cs_uppercase = False, cs_digits = True, cs_symbols = SymNone,
       cs_disallow = {|48|}\<rparr>,
     gr_required = \<lparr>min_lowercase = 0, min_uppercase = 0, min_digits = 2, min_symbols = 0\<rparr>\<rparr>"

lemma demo_effective: "effective_set (gr_charset demo_request) = [49, 50, 51, 52, 53, 54, 55, 56, 57]"
  by (simp add: demo_request_def effective_set_def effective_lowercase_def effective_uppercase_def
      effective_digits_def effective_symbols_def filter_class_def DIGITS_def ustr_def)

lemma demo_request_ok: "request_ok demo_request" "charset_ok (gr_charset demo_request)"
proof -
  have "rc_total (gr_required demo_request) = 2" by (simp add: demo_request_def rc_total_def)
  then show "request_ok demo_request"
    by (simp add: request_ok_def demo_effective) 
      (simp add: demo_request_def MIN_LENGTH_def MAX_LENGTH_def check_pools_ok class_pools_def
        effective_digits_def filter_class_def DIGITS_def ustr_def)
  show "charset_ok (gr_charset demo_request)" by (simp add: charset_ok_def demo_request_def)
qed

lemma generate_meets_policy_witness:
  "\<exists>pw g'. generate toy_crypto demo_request 0 = Some (Inr pw, g') \<and> length pw = 16 \<and>
     (\<forall>c \<in> set pw. c \<noteq> 48)"
proof -
  obtain pw g' where g: "generate toy_crypto demo_request 0 = Some (Inr pw, g')"
    using generate_accepts [OF demo_request_ok toy_fair] by blast
  show ?thesis using g generate_meets_policy [OF g] by (auto simp: demo_request_def)
qed

text \<open>C4. On a fair random source generation always returns: with a password exactly when the
  length is in range, at least two characters survive, the minimums fit and every required
  class has a character left; with an error, and no random draw, otherwise.\<close>

theorem generate_returns:
  assumes "rng_fair C" and "charset_ok (gr_charset req)"
  shows "\<exists>out g'. generate C req g = Some (out, g') \<and> (is_ok out \<longleftrightarrow> request_ok req) \<and>
     (\<not> request_ok req \<longrightarrow> g' = g)"
proof (cases "request_ok req")
  case True
  then obtain pw g' where "generate C req g = Some (Inr pw, g')"
    using generate_accepts assms by blast
  then show ?thesis using True by auto
next
  case False
  then obtain e where "generate C req g = Some (Inl e, g)" using generate_rejects by blast
  then show ?thesis using False by auto
qed

lemma generate_returns_witness:
  "\<exists>out g'. generate toy_crypto demo_request 3 = Some (out, g') \<and> is_ok out"
  using generate_returns [OF toy_fair demo_request_ok(2), of 3] demo_request_ok(1) by blast



text \<open>C6. The validator accepts what the generator produces for the same policy, as long as a
  custom symbol set holds ASCII punctuation only.\<close>

theorem generated_validates:
  assumes "generate C (resolve_over policy request_default_vault) g = Some (Inr pw, g')"
    and "\<And>s. cs_symbols (gr_charset (resolve_over policy request_default_vault)) = Custom s \<Longrightarrow>
           fBall s is_ascii_punctuation"
  shows "vr_ok (validate pw policy)"
  using generate_satisfies [OF assms] by (simp add: vr_ok_iff)

definition demo_policy :: entry_policy where
  "demo_policy = \<lparr>ep_length = Some 16, charset_override = Some (gr_charset demo_request),
     required_classes_override = Some (gr_required demo_request), user_note = None\<rparr>"

lemma demo_policy_resolves: "resolve_over demo_policy request_default_vault = demo_request"
  by (simp add: demo_policy_def resolve_over_def unwrap_or_def demo_request_def)

lemma generated_validates_witness:
  "\<exists>pw g'. generate toy_crypto (resolve_over demo_policy request_default_vault) 0 = Some (Inr pw, g') \<and>
     vr_ok (validate pw demo_policy)"
proof -
  obtain pw g' where g: "generate toy_crypto (resolve_over demo_policy request_default_vault) 0 = Some (Inr pw, g')"
    using generate_accepts [OF demo_request_ok toy_fair, of 0] demo_policy_resolves by auto
  have "vr_ok (validate pw demo_policy)"
    by (rule generated_validates [OF g]) (simp add: demo_policy_resolves demo_request_def)
  then show ?thesis using g by blast
qed

text \<open>With a symbol minimum and symbols that are not ASCII punctuation, the generator and the
  validator disagree: every password the generator returns for the policy is reported as short
  of symbols.\<close>

lemma custom_symbols_never_validate:
  assumes "generate C (resolve_over policy request_default_vault) g = Some (Inr pw, g')"
    and "cs_symbols (gr_charset (resolve_over policy request_default_vault)) = Custom s"
    and "fBall s (\<lambda>c. \<not> is_ascii_punctuation c)"
    and "min_symbols (gr_required (resolve_over policy request_default_vault)) \<noteq> 0"
  shows "\<not> vr_ok (validate pw policy)"
proof
  let ?req = "resolve_over policy request_default_vault"
  assume "vr_ok (validate pw policy)"
  then have "unat (min_symbols (gr_required ?req)) \<le> length (filter is_ascii_punctuation pw)"
    by (simp add: vr_ok_iff satisfies_def)
  moreover have "0 < unat (min_symbols (gr_required ?req))" using assms(4) by (simp add: unat_gt_0)
  ultimately have "filter is_ascii_punctuation pw \<noteq> []" by auto
  then obtain c where c: "c \<in> set pw" "is_ascii_punctuation c" by (auto simp: filter_empty_conv)
  then have "c \<in> set (effective_set (gr_charset ?req))" using generate_sound(2) [OF assms(1)] by blast
  then consider "c \<in> set LOWERCASE \<union> set UPPERCASE \<union> set DIGITS" | "c |\<in>| s"
    using assms(2) by (auto simp: set_effective_set effective_lowercase_def effective_uppercase_def
      effective_digits_def effective_symbols_def filter_class_def sorted_list_of_fset.rep_eq split: if_splits)
  then show False
  proof cases
    case 1
    then show False using c(2) by (auto simp: class_chars ascii_class_defs)
  next
    case 2
    then show False using c(2) assms(3) by auto
  qed
qed

definition accent_policy :: entry_policy where
  "accent_policy = \<lparr>ep_length = Some 16,
     charset_override = Some \<lparr>cs_lowercase = True, cs_uppercase = False, cs_digits = False,
       cs_symbols = Custom {|233|}, cs_disallow = {||}\<rparr>,
     required_classes_override = Some \<lparr>min_lowercase = 1, min_uppercase = 0, min_digits = 0, min_symbols = 1\<rparr>,
     user_note = None\<rparr>"

lemma accent_request:
  "request_ok (resolve_over accent_policy request_default_vault)"
  "charset_ok (gr_charset (resolve_over accent_policy request_default_vault))"
proof -
  let ?req = "resolve_over accent_policy request_default_vault"
  have l: "effective_lowercase (gr_charset ?req) = LOWERCASE"
    and sy: "effective_symbols (gr_charset ?req) = [233]"
    by (simp_all add: accent_policy_def resolve_over_def unwrap_or_def effective_lowercase_def
        filter_class_def effective_symbols_def sorted_list_of_fset.rep_eq)
  have "set LOWERCASE \<subseteq> set (effective_set (gr_charset ?req))" by (auto simp: set_effective_set l)
  then have "card (set LOWERCASE) \<le> card (set (effective_set (gr_charset ?req)))"
    by (intro card_mono) simp_all
  then have "2 \<le> length (effective_set (gr_charset ?req))"
    using distinct_card [OF distinct_effective_set, of "gr_charset ?req"]
      distinct_card [OF class_pool_distinct(1)] by (simp add: class_ranges)
  moreover have "rc_total (gr_required ?req) = 2"
    by (simp add: accent_policy_def resolve_over_def unwrap_or_def rc_total_def)
  ultimately show "request_ok ?req"
    using l sy by (simp add: request_ok_def check_pools_ok class_pools_def class_ranges)
      (simp add: accent_policy_def resolve_over_def unwrap_or_def MIN_LENGTH_def MAX_LENGTH_def)
  show "charset_ok (gr_charset ?req)"
    by (simp add: charset_ok_def accent_policy_def resolve_over_def unwrap_or_def is_scalar_def)
qed

lemma custom_symbols_never_validate_witness:
  "\<exists>pw g'. generate toy_crypto (resolve_over accent_policy request_default_vault) 0 = Some (Inr pw, g') \<and>
     \<not> vr_ok (validate pw accent_policy)"
proof -
  obtain pw g' where g: "generate toy_crypto (resolve_over accent_policy request_default_vault) 0 = Some (Inr pw, g')"
    using generate_accepts [OF accent_request toy_fair, of 0] by blast
  have "\<not> vr_ok (validate pw accent_policy)"
    by (rule custom_symbols_never_validate [OF g, of "{|233|}"])
      (simp_all add: accent_policy_def resolve_over_def unwrap_or_def is_ascii_punctuation_def)
  then show ?thesis using g by blast
qed

end
