(* ===== verification/VaultReader.thy ===== *)
theory VaultReader
  imports Crypto
begin

text \<open>
  \<open>passman-vault\<close>, \<open>error.rs\<close> and \<open>reader.rs\<close>: the error taxonomy and the checked cursor of the
  vault parser, with the interpretations that discharge the cursor and reader laws for it.
\<close>

datatype vault_error =
    Truncated string nat
  | TrailingBytes nat
  | UnsupportedVersion byte byte
  | UnsupportedKdfAlgorithm byte
  | InvalidFlag string byte
  | IndexMismatch
  | MalformedRecord string
  | EntryNotFound
  | BlobTooLarge string
  | VCrypto crypto_error

definition vr_remaining :: "reader \<Rightarrow> nat" where
  "vr_remaining r = length (buf r) - pos r"

definition vr_expect_eof :: "reader \<Rightarrow> vault_error + unit" where
  "vr_expect_eof r = (if vr_remaining r = 0 then Inr () else Inl (TrailingBytes (vr_remaining r)))"

definition vr_take :: "nat \<Rightarrow> string \<Rightarrow> reader \<Rightarrow> vault_error + bytes \<times> reader" where
  "vr_take n field r =
     (if n > vr_remaining r then Inl (Truncated field (pos r))
      else Inr (take n (drop (pos r) (buf r)), r\<lparr>pos := pos r + n\<rparr>))"

definition vr_read_u8 :: "string \<Rightarrow> reader \<Rightarrow> vault_error + byte \<times> reader" where
  "vr_read_u8 field r = and_then (vr_take 1 field r) (\<lambda>(b, r'). Inr (b ! 0, r'))"

definition vr_read_u16_le :: "string \<Rightarrow> reader \<Rightarrow> vault_error + 16 word \<times> reader" where
  "vr_read_u16_le field r = and_then (vr_take 2 field r) (\<lambda>(b, r'). Inr (of_le b, r'))"

definition vr_read_u32_le :: "string \<Rightarrow> reader \<Rightarrow> vault_error + 32 word \<times> reader" where
  "vr_read_u32_le field r = and_then (vr_take 4 field r) (\<lambda>(b, r'). Inr (of_le b, r'))"

definition vr_read_u64_le :: "string \<Rightarrow> reader \<Rightarrow> vault_error + 64 word \<times> reader" where
  "vr_read_u64_le field r = and_then (vr_take 8 field r) (\<lambda>(b, r'). Inr (of_le b, r'))"

text \<open>An \<open>i64\<close> is its two's-complement bit pattern, a 64-bit word read with \<open>sint\<close>.\<close>

definition vr_read_i64_le :: "string \<Rightarrow> reader \<Rightarrow> vault_error + 64 word \<times> reader" where
  "vr_read_i64_le field r = and_then (vr_take 8 field r) (\<lambda>(b, r'). Inr (of_le b, r'))"

definition vr_read_u16_prefixed_vec :: "string \<Rightarrow> reader \<Rightarrow> vault_error + bytes \<times> reader" where
  "vr_read_u16_prefixed_vec field r =
     and_then (vr_read_u16_le field r) (\<lambda>(len, r'). vr_take (unat len) field r')"

definition vr_read_u32_prefixed_vec :: "string \<Rightarrow> reader \<Rightarrow> vault_error + bytes \<times> reader" where
  "vr_read_u32_prefixed_vec field r =
     and_then (vr_read_u32_le field r) (\<lambda>(len, r'). vr_take (unat len) field r')"

section \<open>The laws hold\<close>

lemma vr_expect_eof_cur [simp]:
  "vr_expect_eof (cur pre post) = (if post = [] then Inr () else Inl (TrailingBytes (length post)))"
  by (simp add: vr_expect_eof_def vr_remaining_def cur_def)

interpretation vr: byte_cursor vr_take Truncated
proof unfold_locales
  fix n f pre post
  show "n \<le> length post \<Longrightarrow>
      vr_take n f (cur pre post) = Inr (take n post, cur (pre @ take n post) (drop n post))"
    by (simp add: vr_take_def vr_remaining_def cur_def)
  show "length post < n \<Longrightarrow> vr_take n f (cur pre post) = Inl (Truncated f (length pre))"
    by (simp add: vr_take_def vr_remaining_def cur_def)
qed

interpretation vr8: int_reader vr_take Truncated vr_read_u8 "\<lambda>b. [b]" "\<lambda>b. b ! 0" 1
  by unfold_locales (auto simp: vr_read_u8_def length_Suc_conv)

interpretation vr16: int_reader vr_take Truncated vr_read_u16_le "le_bytes 2" of_le 2
  by unfold_locales (simp_all add: vr_read_u16_le_def of_le_le_bytes le_bytes_of_le)

interpretation vr32: int_reader vr_take Truncated vr_read_u32_le "le_bytes 4" of_le 4
  by unfold_locales (simp_all add: vr_read_u32_le_def of_le_le_bytes le_bytes_of_le)

interpretation vr64: int_reader vr_take Truncated vr_read_u64_le "le_bytes 8" of_le 8
  by unfold_locales (simp_all add: vr_read_u64_le_def of_le_le_bytes le_bytes_of_le)

interpretation vri64: int_reader vr_take Truncated vr_read_i64_le "le_bytes 8" of_le 8
  by unfold_locales (simp_all add: vr_read_i64_le_def of_le_le_bytes le_bytes_of_le)

interpretation vrv16: vec_reader vr_take Truncated vr_read_u16_le "le_bytes 2" of_le 2
  vr_read_u16_prefixed_vec unat u16_sat 65535
proof unfold_locales
  fix f r k and v :: "16 word"
  show "vr_read_u16_prefixed_vec f r = and_then (vr_read_u16_le f r) (\<lambda>(v, r'). vr_take (unat v) f r')"
    by (simp add: vr_read_u16_prefixed_vec_def)
  show "k \<le> 65535 \<Longrightarrow> unat (u16_sat k) = k" by (simp add: u16_sat_unat)
  show "u16_sat (unat v) = v" by (rule u16_sat_of_unat)
  show "unat v \<le> 65535" using unat16 [of v] by simp
qed

interpretation vrv32: vec_reader vr_take Truncated vr_read_u32_le "le_bytes 4" of_le 4
  vr_read_u32_prefixed_vec unat u32_sat 4294967295
proof unfold_locales
  fix f r k and v :: "32 word"
  show "vr_read_u32_prefixed_vec f r = and_then (vr_read_u32_le f r) (\<lambda>(v, r'). vr_take (unat v) f r')"
    by (simp add: vr_read_u32_prefixed_vec_def)
  show "k \<le> 4294967295 \<Longrightarrow> unat (u32_sat k) = k" by (simp add: u32_sat_unat)
  show "u32_sat (unat v) = v" by (rule u32_sat_of_unat)
  show "unat v \<le> 4294967295" using unat32 [of v] by simp
qed

lemmas vr_appends = vr.tk_append vr8.rd_append vr16.rd_append vr32.rd_append vr64.rd_append
  vri64.rd_append vrv16.rdv_append vrv32.rdv_append

lemmas vr_iffs = vr.tk_Inr_iff vr8.rd_Inr_iff vr16.rd_Inr_iff vr32.rd_Inr_iff vr64.rd_Inr_iff
  vri64.rd_Inr_iff vrv16.rdv_Inr_iff vrv32.rdv_Inr_iff

end
