(* ===== verification/EntryRecord.thy ===== *)
theory EntryRecord
  imports VaultReader
begin

text \<open>
  \<open>passman-vault\<close>, \<open>record.rs\<close> and the index padding of \<open>vault.rs\<close>: the two authenticated
  plaintext encodings that hide their true size.  Both are \<open>true_len (u32-LE)\<close>, the payload, and
  zeros up to a multiple of 256; the shared contract is the locale \<open>size_class\<close>.
\<close>

definition BUCKET :: nat where "BUCKET = 256"

definition zero_pad :: "bytes \<Rightarrow> bytes" where
  "zero_pad b = b @ replicate (div_ceil (length b) BUCKET * BUCKET - length b) 0"

section \<open>The contract of a bucketed encoding\<close>

locale size_class =
  fixes pad :: "bytes \<Rightarrow> bytes"
    and strip :: "bytes \<Rightarrow> 'e + bytes"
    and top :: nat
  assumes pad_length: "length (pad b) = div_ceil (4 + length b) BUCKET * BUCKET"
    and strip_pad: "length b \<le> top \<Longrightarrow> strip (pad b) = Inr b"
begin

text \<open>The length is a positive multiple of the bucket, less than a bucket above the need, and a
  function of the size class only.\<close>

lemma pad_multiple: "length (pad b) mod BUCKET = 0"
  by (simp add: pad_length)

lemma pad_bounds: "4 + length b \<le> length (pad b) \<and> length (pad b) < 4 + length b + BUCKET"
  using div_ceil_ge [of BUCKET "4 + length b"] div_ceil_tight [of BUCKET "4 + length b"]
  by (simp add: pad_length BUCKET_def)

lemma pad_hides_size:
  "div_ceil (4 + length a) BUCKET = div_ceil (4 + length b) BUCKET \<Longrightarrow> length (pad a) = length (pad b)"
  by (simp add: pad_length)

lemma pad_inj: "length a \<le> top \<Longrightarrow> length b \<le> top \<Longrightarrow> pad a = pad b \<longleftrightarrow> a = b"
  by (metis strip_pad sum.inject(2))

end

section \<open>Index padding\<close>

definition pad_index_plaintext :: "bytes \<Rightarrow> bytes" where
  "pad_index_plaintext pb = zero_pad (le_bytes 4 (u32_sat (length pb)) @ pb)"

definition strip_index_padding :: "bytes \<Rightarrow> vault_error + bytes" where
  "strip_index_padding pt =
     (if length pt < 4 then Inl (MalformedRecord ''sealed index missing true-length prefix'')
      else let true_len = of_le [pt ! 0, pt ! 1, pt ! 2, pt ! 3] :: 32 word;
               stop = 4 + unat true_len in
        if stop > length pt then Inl (MalformedRecord ''sealed index length exceeds plaintext'')
        else Inr (take (stop - 4) (drop 4 pt)))"

lemma zero_pad_length: "length (zero_pad b) = div_ceil (length b) BUCKET * BUCKET"
  using div_ceil_ge [of BUCKET "length b"] by (simp add: zero_pad_def BUCKET_def)

lemma nth4_append:
  "length a = 4 \<Longrightarrow> [(a @ b) ! 0, (a @ b) ! 1, (a @ b) ! 2, (a @ b) ! 3] = a"
  by (rule nth_equalityI) (auto simp: nth_append less_Suc_eq numeral_eq_Suc)

lemma read_len_prefix:
  "n < 2 ^ 32 \<Longrightarrow>
   (of_le [(le_bytes 4 (u32_sat n) @ b) ! 0, (le_bytes 4 (u32_sat n) @ b) ! 1,
     (le_bytes 4 (u32_sat n) @ b) ! 2, (le_bytes 4 (u32_sat n) @ b) ! 3] :: 32 word) = u32_sat n"
  by (subst nth4_append) (simp_all add: of_le_le_bytes)

lemma strip_pad_index: "length pb < 2 ^ 32 \<Longrightarrow> strip_index_padding (pad_index_plaintext pb) = Inr pb"
proof -
  assume l: "length pb < 2 ^ 32"
  obtain z where p: "pad_index_plaintext pb = le_bytes 4 (u32_sat (length pb)) @ pb @ z"
    by (simp add: pad_index_plaintext_def zero_pad_def)
  show ?thesis
    unfolding p strip_index_padding_def Let_def read_len_prefix [OF l] u32_sat_unat [OF l]
    by simp
qed

interpretation index_pad: size_class pad_index_plaintext strip_index_padding 4294967295
  by unfold_locales (simp_all add: pad_index_plaintext_def zero_pad_length strip_pad_index [unfolded pad_index_plaintext_def])

section \<open>Entry records\<close>

record entry_record =
  er_username :: secret_string
  er_password :: secret_string
  er_url :: secret_string
  er_notes :: secret_string

definition record_fields :: "entry_record \<Rightarrow> secret_string list" where
  "record_fields r = [er_username r, er_password r, er_url r, er_notes r]"

definition record_ok :: "entry_record \<Rightarrow> bool" where
  "record_ok r \<longleftrightarrow> list_all str_ok (record_fields r)"

definition FIELD_COUNT :: nat where "FIELD_COUNT = 4"

definition encode_field :: "bytes \<Rightarrow> bytes" where
  "encode_field b = le_bytes 4 (u32_sat (length b)) @ b"

definition record_len :: "entry_record \<Rightarrow> nat" where
  "record_len r = sum_list (map (\<lambda>f. 4 + length (expose_bytes f)) (record_fields r))"

definition encode_padded :: "entry_record \<Rightarrow> bytes" where
  "encode_padded r = zero_pad
     (le_bytes 4 (u32_sat (record_len r)) @
      concat (map (\<lambda>f. encode_field (expose_bytes f)) (record_fields r)))"

definition read_u32_at :: "bytes \<Rightarrow> nat \<Rightarrow> 32 word" where
  "read_u32_at b off = of_le [b ! off, b ! (off + 1), b ! (off + 2), b ! (off + 3)]"

text \<open>The loop over the fields: \<open>region_end\<close> is fixed, \<open>k\<close> fields are left, \<open>cursor\<close> moves.\<close>

fun decode_fields :: "bytes \<Rightarrow> nat \<Rightarrow> nat \<Rightarrow> nat \<Rightarrow> vault_error + secret_string list \<times> nat" where
  "decode_fields b region_end 0 cursor = Inr ([], cursor)"
| "decode_fields b region_end (Suc k) cursor =
     (if cursor + 4 > region_end then
        Inl (MalformedRecord ''field length prefix overruns record'')
      else let flen = unat (read_u32_at b cursor);
               start = cursor + 4;
               field_end = start + flen in
        if field_end > region_end then Inl (MalformedRecord ''field body overruns record'')
        else and_then
          (ok_or (MalformedRecord ''field is not valid UTF-8'') (from_utf8 (take flen (drop start b))))
          (\<lambda>s. and_then (decode_fields b region_end k field_end)
            (\<lambda>(ss, c). Inr (s # ss, c))))"

definition decode :: "bytes \<Rightarrow> vault_error + entry_record" where
  "decode b =
     (if length b < 4 then Inl (MalformedRecord ''missing true-length prefix'')
      else let region_end = 4 + unat (read_u32_at b 0) in
        if region_end > length b then Inl (MalformedRecord ''record length exceeds plaintext'')
        else and_then (decode_fields b region_end FIELD_COUNT 4) (\<lambda>(fs, cursor).
          if cursor \<noteq> region_end then Inl (MalformedRecord ''record region not fully consumed'')
          else (case fs of
              [u, p, l, n] \<Rightarrow> Inr \<lparr>er_username = u, er_password = p, er_url = l, er_notes = n\<rparr>
            | _ \<Rightarrow> Inl (MalformedRecord ''fewer fields than expected''))))"

section \<open>Round trip\<close>

lemma read_u32_at_append:
  "length pre = off \<Longrightarrow> read_u32_at (pre @ le_bytes 4 w @ post) off = w"
proof -
  assume l: "length pre = off"
  have "[(pre @ le_bytes 4 w @ post) ! off, (pre @ le_bytes 4 w @ post) ! (off + 1),
      (pre @ le_bytes 4 w @ post) ! (off + 2), (pre @ le_bytes 4 w @ post) ! (off + 3)] = le_bytes 4 w"
    using l by (intro nth_equalityI) (auto simp: nth_append less_Suc_eq numeral_eq_Suc)
  then show ?thesis by (simp add: read_u32_at_def of_le_le_bytes)
qed

lemma length_encode_field [simp]: "length (encode_field b) = 4 + length b"
  by (simp add: encode_field_def)

lemma decode_fields_encode:
  "list_all str_ok ss \<Longrightarrow> (\<forall>s \<in> set ss. length (utf8_enc s) < 2 ^ 32) \<Longrightarrow> length pre = c \<Longrightarrow>
   e = c + length (concat (map (\<lambda>s. encode_field (utf8_enc s)) ss)) \<Longrightarrow>
   decode_fields (pre @ concat (map (\<lambda>s. encode_field (utf8_enc s)) ss) @ post) e (length ss) c =
     Inr (ss, e)"
proof (induction ss arbitrary: pre c)
  case Nil
  then show ?case by simp
next
  case (Cons s ss)
  define R where "R = concat (map (\<lambda>s. encode_field (utf8_enc s)) ss)"
  define B where "B = pre @ encode_field (utf8_enc s) @ R @ post"
  let ?l = "length (utf8_enc s)"
  have l: "?l < 2 ^ 32" "str_ok s" using Cons.prems by auto
  have B: "B = pre @ le_bytes 4 (u32_sat ?l) @ (utf8_enc s @ R @ post)"
    by (simp add: B_def encode_field_def)
  have r: "unat (read_u32_at B c) = ?l"
    unfolding B using Cons.prems(3) l(1) by (simp add: read_u32_at_append u32_sat_unat)
  have t: "take ?l (drop (c + 4) B) = utf8_enc s"
    unfolding B using Cons.prems(3) by simp
  have e: "e = c + 4 + ?l + length R" using Cons.prems(4) by (simp add: R_def)
  have "decode_fields ((pre @ encode_field (utf8_enc s)) @ R @ post) e (length ss) (c + 4 + ?l) = Inr (ss, e)"
    unfolding R_def using Cons.prems by (intro Cons.IH) auto
  then have ih: "decode_fields B e (length ss) (c + 4 + ?l) = Inr (ss, e)"
    by (simp add: B_def)
  have "decode_fields B e (length (s # ss)) c = Inr (s # ss, e)"
    using ih l(2) e by (simp add: r t Let_def from_utf8_enc)
  then show ?case by (simp add: B_def R_def)
qed

definition record_region :: "entry_record \<Rightarrow> bytes" where
  "record_region r = concat (map (\<lambda>f. encode_field (expose_bytes f)) (record_fields r))"

lemma length_record_region [simp]: "length (record_region r) = record_len r"
  by (simp add: record_region_def record_len_def record_fields_def)

lemma encode_padded_region: "encode_padded r = pad_index_plaintext (record_region r)"
  by (simp add: encode_padded_def pad_index_plaintext_def record_region_def [symmetric])

lemma encode_padded_length:
  "length (encode_padded r) = div_ceil (4 + record_len r) BUCKET * BUCKET"
  using index_pad.pad_length [of "record_region r"] by (simp add: encode_padded_region)

lemma decode_encode_padded:
  assumes "record_ok r" and "record_len r < 2 ^ 32"
  shows "decode (encode_padded r) = Inr r"
proof -
  obtain z where e: "encode_padded r = le_bytes 4 (u32_sat (record_len r)) @ record_region r @ z"
    by (simp add: encode_padded_def zero_pad_def record_region_def)
  have p: "unat (read_u32_at (le_bytes 4 (u32_sat (record_len r)) @ record_region r @ z) 0) = record_len r"
    using read_u32_at_append [of "[]" 0] assms(2) by (simp add: u32_sat_unat)
  have s: "\<forall>s \<in> set (record_fields r). length (utf8_enc s) < 2 ^ 32"
    using assms(2) by (auto simp: record_len_def record_fields_def expose_bytes_def)
  have f: "FIELD_COUNT = length (record_fields r)" by (simp add: FIELD_COUNT_def record_fields_def)
  have rr: "record_region r = concat (map (\<lambda>s. encode_field (utf8_enc s)) (record_fields r))"
    by (simp add: record_region_def expose_bytes_def)
  have "decode_fields (le_bytes 4 (u32_sat (record_len r)) @
      concat (map (\<lambda>s. encode_field (utf8_enc s)) (record_fields r)) @ z)
      (4 + record_len r) (length (record_fields r)) 4 = Inr (record_fields r, 4 + record_len r)"
    using assms(1) s length_record_region [of r]
    by (intro decode_fields_encode) (simp_all add: record_ok_def rr)
  then have d: "decode_fields (le_bytes 4 (u32_sat (record_len r)) @ record_region r @ z)
      (4 + record_len r) FIELD_COUNT 4 = Inr (record_fields r, 4 + record_len r)"
    by (simp only: f rr)
  show ?thesis
    unfolding e decode_def p Let_def by (simp add: d) (simp add: record_fields_def)
qed

end
