(* ===== verification/VaultIndex.thy ===== *)
theory VaultIndex
  imports EntryRecord Policy "HOL-Library.List_Lexorder"
begin

text \<open>
  \<open>passman-vault\<close>, \<open>id.rs\<close> and \<open>index.rs\<close>: entry identifiers with their byte order, the rows of the
  sealed index and its operations, and the domain-separation strings.  \<open>postcard\<close> (third party)
  and the UUID builder are fields of \<open>vault_env\<close>, which extends the crypto parameters.
\<close>

section \<open>Identifiers\<close>

definition ENTRY_ID_LEN :: nat where "ENTRY_ID_LEN = 16"

datatype entry_id = EntryId (id_bytes: bytes)

definition id_ok :: "entry_id \<Rightarrow> bool" where
  "id_ok i \<longleftrightarrow> length (id_bytes i) = ENTRY_ID_LEN"

text \<open>The derived \<open>Ord\<close> of \<open>[u8; 16]\<close>: lexicographic on the bytes.\<close>

instantiation entry_id :: linorder
begin

definition less_eq_entry_id :: "entry_id \<Rightarrow> entry_id \<Rightarrow> bool" where
  "less_eq_entry_id a b \<longleftrightarrow> id_bytes a \<le> id_bytes b"

definition less_entry_id :: "entry_id \<Rightarrow> entry_id \<Rightarrow> bool" where
  "less_entry_id a b \<longleftrightarrow> id_bytes a < id_bytes b"

instance
  by standard
    (auto simp: less_eq_entry_id_def less_entry_id_def less_le_not_le entry_id.expand)

end

section \<open>Rows and index\<close>

record index_entry =
  ie_id :: entry_id
  ie_label :: ustring
  ie_policy :: entry_policy

type_synonym index = "index_entry list"

definition index_new :: index where "index_new = []"

definition index_get :: "index \<Rightarrow> entry_id \<Rightarrow> index_entry option" where
  "index_get ix i = List.find (\<lambda>e. ie_id e = i) ix"

definition index_upsert :: "index_entry \<Rightarrow> index \<Rightarrow> bool \<times> index" where
  "index_upsert e ix =
     (case List.find (\<lambda>x. ie_id x = ie_id e) ix of
        Some _ \<Rightarrow> (True, replace_first (\<lambda>x. ie_id x = ie_id e) e ix)
      | None \<Rightarrow> (False, ix @ [e]))"

definition index_remove :: "entry_id \<Rightarrow> index \<Rightarrow> bool \<times> index" where
  "index_remove i ix =
     (let ix' = filter (\<lambda>e. ie_id e \<noteq> i) ix in (length ix' \<noteq> length ix, ix'))"

definition INDEX_INFO :: bytes where "INDEX_INFO = ascii ''index-v0''"
definition ENTRY_INFO_PREFIX :: bytes where "ENTRY_INFO_PREFIX = ascii ''entry-v0:''"

definition entry_info :: "entry_id \<Rightarrow> bytes" where
  "entry_info i = ENTRY_INFO_PREFIX @ id_bytes i"

lemma entry_info_inj: "entry_info i = entry_info j \<longleftrightarrow> i = j"
  by (auto simp: entry_info_def entry_id.expand)

text \<open>The key-derivation labels of the index and of any entry differ.\<close>

lemma entry_info_not_index: "entry_info i \<noteq> INDEX_INFO"
  by (simp add: entry_info_def INDEX_INFO_def ENTRY_INFO_PREFIX_def ascii_def)

lemma index_get_upsert:
  "index_get (snd (index_upsert e ix)) i = (if i = ie_id e then Some e else index_get ix i)"
proof (cases "List.find (\<lambda>x. ie_id x = ie_id e) ix")
  case None
  then show ?thesis
    by (auto simp: index_upsert_def index_get_def find_append split: option.splits)
next
  case (Some r)
  show ?thesis
  proof (cases "i = ie_id e")
    case True
    then show ?thesis using Some
      by (simp add: index_upsert_def index_get_def find_replace_first_same)
  next
    case False
    then show ?thesis using Some
      by (simp add: index_upsert_def index_get_def find_replace_first_other)
  qed
qed

lemma index_get_remove:
  "index_get (snd (index_remove i ix)) j = (if j = i then None else index_get ix j)"
proof -
  have "List.find (\<lambda>e. ie_id e = j) (filter (\<lambda>e. ie_id e \<noteq> i) ix) =
      (if j = i then None else List.find (\<lambda>e. ie_id e = j) ix)"
    by (induction ix) auto
  then show ?thesis by (simp add: index_remove_def index_get_def Let_def)
qed

lemma index_ids_upsert:
  "map ie_id (snd (index_upsert e ix)) =
     (if ie_id e \<in> ie_id ` set ix then map ie_id ix else map ie_id ix @ [ie_id e])"
proof (cases "List.find (\<lambda>x. ie_id x = ie_id e) ix")
  case None
  then have "ie_id e \<notin> ie_id ` set ix" by (auto simp: find_None_all)
  then show ?thesis using None by (simp add: index_upsert_def)
next
  case (Some r)
  then have "ie_id e \<in> ie_id ` set ix" using find_Some_mem [OF Some] by (metis imageI)
  then show ?thesis using Some by (simp add: index_upsert_def map_replace_first)
qed

lemma index_ids_remove:
  "map ie_id (snd (index_remove i ix)) = filter (\<lambda>j. j \<noteq> i) (map ie_id ix)"
  by (simp add: index_remove_def Let_def filter_map comp_def)

section \<open>Third-party environment\<close>

record vault_env = crypto +
  postcard_ser :: "index_entry list \<Rightarrow> bytes option"
  postcard_de :: "bytes \<Rightarrow> index_entry list option"
  uuid_v4 :: "bytes \<Rightarrow> bytes"

text \<open>What \<open>postcard\<close> documents: deserializing what was serialized returns it.\<close>

definition postcard_ok :: "'m vault_env_scheme \<Rightarrow> bool" where
  "postcard_ok E \<longleftrightarrow> (\<forall>rows b. postcard_ser E rows = Some b \<longrightarrow> postcard_de E b = Some rows)"

definition uuid_ok :: "'m vault_env_scheme \<Rightarrow> bool" where
  "uuid_ok E \<longleftrightarrow> (\<forall>b. length b = 16 \<longrightarrow> length (uuid_v4 E b) = 16)"

definition entry_id_generate :: "'m vault_env_scheme \<Rightarrow> rng \<Rightarrow> entry_id \<times> rng" where
  "entry_id_generate E g = (let (b, g') = fill_random E 16 g in (EntryId (uuid_v4 E b), g'))"

lemma entry_id_generate_ok: "uuid_ok E \<Longrightarrow> id_ok (fst (entry_id_generate E g))"
  by (simp add: entry_id_generate_def uuid_ok_def id_ok_def ENTRY_ID_LEN_def split_def Let_def)

text \<open>A concrete environment: the serializer knows a table of row lists and writes positions.\<close>

fun table_pos :: "'a list \<Rightarrow> 'a \<Rightarrow> nat option" where
  "table_pos [] x = None"
| "table_pos (y # ys) x = (if y = x then Some 0 else map_option Suc (table_pos ys x))"

lemma table_pos_nth: "table_pos ys x = Some k \<Longrightarrow> k < length ys \<and> ys ! k = x"
  by (induction ys arbitrary: k) (auto split: if_splits)

definition toy_env :: "index_entry list list \<Rightarrow> vault_env" where
  "toy_env table = crypto.extend toy_crypto
     \<lparr>postcard_ser = (\<lambda>rows. case table_pos table rows of
          Some k \<Rightarrow> if k < 256 then Some [of_nat k] else None | None \<Rightarrow> None),
      postcard_de = (\<lambda>b. case b of [k] \<Rightarrow>
          if unat k < length table then Some (table ! unat k) else None | _ \<Rightarrow> None),
      uuid_v4 = (\<lambda>b. replicate 16 7)\<rparr>"

lemma toy_env_ok:
  "aead_ok (toy_env t)" "aead_total (toy_env t)" "kdf_ok (toy_env t)"
  "postcard_ok (toy_env t)" "uuid_ok (toy_env t)"
proof -
  show "aead_ok (toy_env t)" "aead_total (toy_env t)" "kdf_ok (toy_env t)"
    using toy_crypto_ok
    by (simp_all add: aead_ok_def aead_total_def kdf_ok_def toy_env_def crypto.defs)
  show "postcard_ok (toy_env t)"
    by (auto simp: postcard_ok_def toy_env_def crypto.defs unat_of_nat dest: table_pos_nth
        split: option.splits if_splits)
  show "uuid_ok (toy_env t)" by (simp add: uuid_ok_def toy_env_def crypto.defs)
qed

end
