(* ===== verification/Vault.thy ===== *)
theory Vault
  imports VaultIndex
begin

text \<open>
  \<open>passman-vault\<close>, \<open>vault.rs\<close>: the vault record, probe, sealed index and per-entry envelopes,
  and the mutation API.  A mutating operation returns its result, the vault it leaves behind
  (also on the error paths, where the source has already changed a field) and the position of
  the random source.
\<close>

definition FORMAT_VERSION :: byte where "FORMAT_VERSION = 2"
definition FORMAT_VERSION_LEGACY_V1 :: byte where "FORMAT_VERSION_LEGACY_V1 = 1"
definition KDF_ALGORITHM_ARGON2ID :: byte where "KDF_ALGORITHM_ARGON2ID = 0"
definition PROBE_PLAINTEXT :: bytes where "PROBE_PLAINTEXT = ascii ''PASSMAN_VAULT_v0''"
definition PROBE_AD_TAG :: bytes where "PROBE_AD_TAG = ascii ''probe-v0''"
definition PROBE_CT_LEN :: nat where "PROBE_CT_LEN = 32"
definition SALT_LEN :: nat where "SALT_LEN = 32"
definition MAX_HSM_BLOB_LEN :: nat where "MAX_HSM_BLOB_LEN = 65535"

record vault_metadata =
  last_password_change :: "64 word"
  last_export_at :: "64 word option"

definition metadata_new :: "64 word \<Rightarrow> vault_metadata" where
  "metadata_new t = \<lparr>last_password_change = t, last_export_at = None\<rparr>"

record entry_envelope =
  ev_id :: entry_id
  ev_nonce :: bytes
  ev_ct_len :: "32 word"
  ev_ct :: bytes

record vault =
  format_version :: byte
  kdf_algorithm_id :: byte
  kdf_params_of :: kdf_params
  vault_salt :: bytes
  probe_nonce :: bytes
  probe_ct :: bytes
  k_hsm_wrap_blob :: bytes
  totp_seed_wrap_blob :: bytes
  rl_counter :: "64 word"
  rl_last_failure :: "64 word"
  vmetadata :: vault_metadata
  sealed_index_nonce :: bytes
  sealed_index_ct :: bytes
  envelopes :: "entry_envelope list"

section \<open>Associated data and helpers\<close>

definition probe_associated_data :: "byte \<Rightarrow> byte \<Rightarrow> kdf_params \<Rightarrow> bytes \<Rightarrow> bytes" where
  "probe_associated_data fv alg P salt =
     [fv] @ [alg] @ kdf_to_bytes P @ salt @ PROBE_AD_TAG"

definition entry_associated_data :: "byte \<Rightarrow> entry_id \<Rightarrow> bytes" where
  "entry_associated_data fv i = fv # id_bytes i"

definition auth_failure :: "crypto_error \<Rightarrow> vault_error" where
  "auth_failure e = (case e of InvalidLength _ _ _ \<Rightarrow> VCrypto AeadAuth | other \<Rightarrow> VCrypto other)"

definition check_blob_len :: "bytes \<Rightarrow> string \<Rightarrow> vault_error + unit" where
  "check_blob_len blob which =
     (if length blob > MAX_HSM_BLOB_LEN then Inl (BlobTooLarge which) else Inr ())"

definition into_fixed :: "nat \<Rightarrow> bytes \<Rightarrow> bytes option" where
  "into_fixed n b = (if length b = n then Some b else None)"

text \<open>The probe associated data determines every header field it binds.\<close>

lemma probe_ad_inj:
  assumes "probe_associated_data fv alg P salt = probe_associated_data fv' alg' P' salt'"
    and "length salt = length salt'"
  shows "fv = fv' \<and> alg = alg' \<and> P = P' \<and> salt = salt'"
proof -
  have "kdf_to_bytes P = kdf_to_bytes P'" "fv = fv'" "alg = alg'" "salt = salt'"
    using assms by (auto simp: probe_associated_data_def)
  then show ?thesis by (metis kdf_from_to_bytes)
qed

section \<open>Sealing the index and the entries\<close>

definition seal_index ::
  "'m vault_env_scheme \<Rightarrow> index \<Rightarrow> byte \<Rightarrow> bytes \<Rightarrow> rng \<Rightarrow> (vault_error + bytes \<times> bytes) \<times> rng"
where
  "seal_index E ix fv km g =
     (let key = hkdf_expand E km INDEX_INFO in
      case postcard_ser E ix of
        None \<Rightarrow> (Inl (MalformedRecord ''failed to serialize sealed index''), g)
      | Some pb \<Rightarrow>
          (let plaintext = (if fv = FORMAT_VERSION_LEGACY_V1 then pb else pad_index_plaintext pb);
               (nonce, g') = random_nonce E g in
           case aead_encrypt E key nonce [fv] plaintext of
             Inl e \<Rightarrow> (Inl (VCrypto e), g')
           | Inr ct \<Rightarrow> (Inr (nonce, ct), g')))"

definition encrypt_entry ::
  "'m vault_env_scheme \<Rightarrow> bytes \<Rightarrow> byte \<Rightarrow> entry_id \<Rightarrow> entry_record \<Rightarrow> rng \<Rightarrow>
     (vault_error + entry_envelope) \<times> rng"
where
  "encrypt_entry E km fv i r g =
     (let key = hkdf_expand E km (entry_info i);
          padded = encode_padded r;
          (nonce, g') = random_nonce E g in
      case aead_encrypt E key nonce (entry_associated_data fv i) padded of
        Inl e \<Rightarrow> (Inl (VCrypto e), g')
      | Inr ct \<Rightarrow> (Inr \<lparr>ev_id = i, ev_nonce = nonce, ev_ct_len = u32_sat (length ct), ev_ct = ct\<rparr>, g'))"

definition vault_create ::
  "'m vault_env_scheme \<Rightarrow> kdf_params \<Rightarrow> bytes \<Rightarrow> bytes \<Rightarrow> bytes \<Rightarrow> vault_metadata \<Rightarrow> bytes \<Rightarrow> rng \<Rightarrow>
     (vault_error + vault) \<times> rng"
where
  "vault_create E P salt kblob sblob meta km g =
     (case and_then (check_blob_len kblob ''k_hsm_wrap_blob'')
             (\<lambda>_. check_blob_len sblob ''totp_seed_wrap_blob'') of
        Inl e \<Rightarrow> (Inl e, g)
      | Inr _ \<Rightarrow>
        (let (pn, g1) = random_nonce E g;
             ad = probe_associated_data FORMAT_VERSION KDF_ALGORITHM_ARGON2ID P salt in
         case aead_encrypt E km pn ad PROBE_PLAINTEXT of
           Inl e \<Rightarrow> (Inl (VCrypto e), g1)
         | Inr pct \<Rightarrow>
           (case into_fixed PROBE_CT_LEN pct of
              None \<Rightarrow> (Inl (MalformedRecord ''probe ciphertext was not 32 bytes''), g1)
            | Some pc \<Rightarrow>
              (case seal_index E index_new FORMAT_VERSION km g1 of
                 (Inl e, g2) \<Rightarrow> (Inl e, g2)
               | (Inr (inonce, ict), g2) \<Rightarrow>
                   (Inr \<lparr>format_version = FORMAT_VERSION, kdf_algorithm_id = KDF_ALGORITHM_ARGON2ID,
                      kdf_params_of = P, vault_salt = salt, probe_nonce = pn, probe_ct = pc,
                      k_hsm_wrap_blob = kblob, totp_seed_wrap_blob = sblob, rl_counter = 0,
                      rl_last_failure = 0, vmetadata = meta, sealed_index_nonce = inonce,
                      sealed_index_ct = ict, envelopes = []\<rparr>, g2)))))"

section \<open>Reading\<close>

definition verify_probe :: "'m vault_env_scheme \<Rightarrow> vault \<Rightarrow> bytes \<Rightarrow> vault_error + unit" where
  "verify_probe E v km =
     (let ad = probe_associated_data (format_version v) (kdf_algorithm_id v) (kdf_params_of v) (vault_salt v) in
      and_then (map_err auth_failure (aead_decrypt E km (probe_nonce v) ad (probe_ct v)))
        (\<lambda>recovered. if ct_eq recovered PROBE_PLAINTEXT then Inr () else Inl (VCrypto AeadAuth)))"

definition decrypt_index :: "'m vault_env_scheme \<Rightarrow> vault \<Rightarrow> bytes \<Rightarrow> vault_error + index" where
  "decrypt_index E v km =
     (let key = hkdf_expand E km INDEX_INFO in
      and_then (map_err auth_failure
          (aead_decrypt E key (sealed_index_nonce v) [format_version v] (sealed_index_ct v)))
        (\<lambda>plaintext. and_then
          (if format_version v = FORMAT_VERSION_LEGACY_V1 then Inr plaintext
           else strip_index_padding plaintext)
          (\<lambda>pb. ok_or (MalformedRecord ''sealed index is not valid postcard'') (postcard_de E pb))))"

fun has_adjacent_dup :: "entry_id list \<Rightarrow> bool" where
  "has_adjacent_dup (a # b # xs) = (a = b \<or> has_adjacent_dup (b # xs))"
| "has_adjacent_dup _ = False"

definition check_index_envelope_sets :: "vault \<Rightarrow> index \<Rightarrow> vault_error + unit" where
  "check_index_envelope_sets v ix =
     (let index_ids = map ie_id ix; env_ids = map ev_id (envelopes v) in
      if length index_ids \<noteq> length env_ids then Inl IndexMismatch
      else let si = sort index_ids; se = sort env_ids in
        if has_adjacent_dup si then Inl IndexMismatch
        else if has_adjacent_dup se then Inl IndexMismatch
        else if si \<noteq> se then Inl IndexMismatch
        else Inr ())"

definition open_index :: "'m vault_env_scheme \<Rightarrow> vault \<Rightarrow> bytes \<Rightarrow> vault_error + index" where
  "open_index E v km =
     and_then (decrypt_index E v km)
       (\<lambda>ix. and_then (check_index_envelope_sets v ix) (\<lambda>_. Inr ix))"

definition decrypt_entry ::
  "'m vault_env_scheme \<Rightarrow> vault \<Rightarrow> bytes \<Rightarrow> entry_id \<Rightarrow> vault_error + entry_record" where
  "decrypt_entry E v km i =
     and_then (ok_or EntryNotFound (List.find (\<lambda>e. ev_id e = i) (envelopes v)))
       (\<lambda>env. and_then (map_err auth_failure
            (aead_decrypt E (hkdf_expand E km (entry_info i)) (ev_nonce env)
               (entry_associated_data (format_version v) i) (ev_ct env)))
          decode)"

section \<open>Mutation\<close>

definition reseal_index ::
  "'m vault_env_scheme \<Rightarrow> index \<Rightarrow> bytes \<Rightarrow> vault \<times> rng \<Rightarrow> (vault_error + unit) \<times> vault \<times> rng"
where
  "reseal_index E ix km = (\<lambda>(v, g).
     (case seal_index E ix (format_version v) km g of
        (Inl e, g') \<Rightarrow> (Inl e, v, g')
      | (Inr (nonce, ct), g') \<Rightarrow>
          (Inr (), v\<lparr>sealed_index_nonce := nonce, sealed_index_ct := ct\<rparr>, g')))"

definition put_envelope :: "entry_envelope \<Rightarrow> entry_envelope list \<Rightarrow> entry_envelope list" where
  "put_envelope env es =
     (case List.find (\<lambda>e. ev_id e = ev_id env) es of
        Some _ \<Rightarrow> replace_first (\<lambda>e. ev_id e = ev_id env) env es
      | None \<Rightarrow> es @ [env])"

definition add_or_update_entry ::
  "'m vault_env_scheme \<Rightarrow> bytes \<Rightarrow> entry_id \<Rightarrow> ustring \<Rightarrow> entry_policy \<Rightarrow> entry_record \<Rightarrow>
     vault \<times> rng \<Rightarrow> (vault_error + unit) \<times> vault \<times> rng"
where
  "add_or_update_entry E km i label policy r = (\<lambda>(v, g).
     (case encrypt_entry E km (format_version v) i r g of
        (Inl e, g1) \<Rightarrow> (Inl e, v, g1)
      | (Inr env, g1) \<Rightarrow>
          (let v1 = v\<lparr>envelopes := put_envelope env (envelopes v)\<rparr> in
           case decrypt_index E v1 km of
             Inl e \<Rightarrow> (Inl e, v1, g1)
           | Inr ix \<Rightarrow> reseal_index E
               (snd (index_upsert \<lparr>ie_id = i, ie_label = label, ie_policy = policy\<rparr> ix)) km (v1, g1))))"

definition remove_entry ::
  "'m vault_env_scheme \<Rightarrow> bytes \<Rightarrow> entry_id \<Rightarrow> vault \<times> rng \<Rightarrow> (vault_error + unit) \<times> vault \<times> rng"
where
  "remove_entry E km i = (\<lambda>(v, g).
     (let kept = filter (\<lambda>e. ev_id e \<noteq> i) (envelopes v); v1 = v\<lparr>envelopes := kept\<rparr> in
      if length kept = length (envelopes v) then (Inl EntryNotFound, v1, g)
      else case decrypt_index E v1 km of
          Inl e \<Rightarrow> (Inl e, v1, g)
        | Inr ix \<Rightarrow> reseal_index E (snd (index_remove i ix)) km (v1, g)))"

definition set_metadata :: "vault_metadata \<Rightarrow> vault \<Rightarrow> vault" where
  "set_metadata m v = v\<lparr>vmetadata := m\<rparr>"

definition set_rate_limit :: "64 word \<Rightarrow> 64 word \<Rightarrow> vault \<Rightarrow> vault" where
  "set_rate_limit c t v = v\<lparr>rl_counter := c, rl_last_failure := t\<rparr>"

definition set_hsm_blobs :: "bytes \<Rightarrow> bytes \<Rightarrow> vault \<Rightarrow> (vault_error + unit) \<times> vault" where
  "set_hsm_blobs kb sb v =
     (case and_then (check_blob_len kb ''k_hsm_wrap_blob'')
             (\<lambda>_. check_blob_len sb ''totp_seed_wrap_blob'') of
        Inl e \<Rightarrow> (Inl e, v)
      | Inr _ \<Rightarrow> (Inr (), v\<lparr>k_hsm_wrap_blob := kb, totp_seed_wrap_blob := sb\<rparr>))"

end
