(* ===== verification/VaultProps.thy ===== *)
theory VaultProps
  imports Vault "HOL-Library.Multiset"
begin

text \<open>
  What the vault operations guarantee.  \<open>store_view\<close> reads a vault as a finite map from entry
  identifiers to \<open>(label, policy, record)\<close>; insertion and removal refine map update and
  restriction, and the contract of such a store is the locale \<open>entry_store\<close>.
\<close>

section \<open>Environment hypotheses\<close>

definition postcard_fits :: "'m vault_env_scheme \<Rightarrow> bool" where
  "postcard_fits E \<longleftrightarrow> (\<forall>rows b. postcard_ser E rows = Some b \<longrightarrow> length b < 2 ^ 31)"

definition env_ok :: "'m vault_env_scheme \<Rightarrow> bool" where
  "env_ok E \<longleftrightarrow> aead_ok E \<and> postcard_ok E \<and> postcard_fits E"

lemma toy_env_env_ok: "env_ok (toy_env t)"
  using toy_env_ok [of t]
  by (auto simp: env_ok_def postcard_fits_def toy_env_def crypto.defs split: option.splits if_splits)

section \<open>Errors are detail-free\<close>

lemma auth_failure_uniform:
  "aead_decrypt E k n a c = Inl e \<Longrightarrow> auth_failure e = VCrypto AeadAuth"
  by (auto simp: aead_decrypt_def auth_failure_def ok_or_Inl_iff split: if_splits)

lemma decrypt_map_err:
  "map_err auth_failure (aead_decrypt E k n a c) = Inl e \<Longrightarrow> e = VCrypto AeadAuth"
  by (auto simp: map_err_Inl_iff dest: auth_failure_uniform)

section \<open>The index and envelope sets\<close>

lemma adjacent_dup_sorted: "sorted xs \<Longrightarrow> has_adjacent_dup xs \<longleftrightarrow> \<not> distinct xs"
proof (induction xs rule: has_adjacent_dup.induct)
  case (1 a b xs)
  then show ?case by (auto simp: order_eq_iff)
qed simp_all

lemma sort_eq_iff_mset: "sort xs = sort ys \<longleftrightarrow> mset xs = mset ys"
  by (metis mset_sort properties_for_sort sorted_sort)

lemma distinct_sort_iff: "distinct (sort xs) = distinct xs"
  by (rule distinct_sort)

lemma check_sets_iff:
  "check_index_envelope_sets v ix = Inr () \<longleftrightarrow>
     distinct (map ie_id ix) \<and> distinct (map ev_id (envelopes v)) \<and>
     set (map ie_id ix) = set (map ev_id (envelopes v))"
    (is "?l \<longleftrightarrow> ?r")
proof
  assume ?l
  then show ?r
    by (auto simp: check_index_envelope_sets_def Let_def adjacent_dup_sorted sort_eq_iff_mset
        simp del: set_map mset_map split: if_splits dest: mset_eq_setD)
next
  assume r: ?r
  then have m: "mset (map ie_id ix) = mset (map ev_id (envelopes v))"
    by (metis set_eq_iff_mset_eq_distinct)
  then have "length ix = length (envelopes v)" by (metis length_map mset_eq_length)
  then show ?l
    using r m by (simp add: check_index_envelope_sets_def Let_def adjacent_dup_sorted sort_eq_iff_mset)
qed

lemma check_sets_error: "check_index_envelope_sets v ix = Inl e \<Longrightarrow> e = IndexMismatch"
  by (auto simp: check_index_envelope_sets_def Let_def split: if_splits)

lemma open_index_iff:
  "open_index E v km = Inr ix \<longleftrightarrow>
     decrypt_index E v km = Inr ix \<and> distinct (map ie_id ix) \<and>
     distinct (map ev_id (envelopes v)) \<and> set (map ie_id ix) = set (map ev_id (envelopes v))"
  by (auto simp: open_index_def and_then_Inr_iff check_sets_iff simp del: set_map)

section \<open>Seal, then open\<close>

lemma seal_index_decrypts:
  assumes "seal_index E ix fv km g = (Inr (n, ct), g')" and "env_ok E"
    and "format_version v = fv" "sealed_index_nonce v = n" "sealed_index_ct v = ct"
  shows "decrypt_index E v km = Inr ix"
proof -
  obtain pb where pb: "postcard_ser E ix = Some pb"
    and enc: "aead_encrypt E (hkdf_expand E km INDEX_INFO) n [fv]
        (if fv = FORMAT_VERSION_LEGACY_V1 then pb else pad_index_plaintext pb) = Inr ct"
    using assms(1)
    by (auto simp: seal_index_def Let_def split_def split: option.splits sum.splits)
  have "length pb < 2 ^ 31" using assms(2) pb by (auto simp: env_ok_def postcard_fits_def)
  then have l: "length pb \<le> 4294967295" by simp
  have de: "postcard_de E pb = Some ix" using assms(2) pb by (auto simp: env_ok_def postcard_ok_def)
  have "aead_decrypt E (hkdf_expand E km INDEX_INFO) n [fv] ct =
      Inr (if fv = FORMAT_VERSION_LEGACY_V1 then pb else pad_index_plaintext pb)"
    using assms(2) enc by (intro aead_decrypt_encrypt) (auto simp: env_ok_def)
  then show ?thesis
    using assms(3-5) de index_pad.strip_pad [OF l] by (simp add: decrypt_index_def)
qed

lemma encrypt_entry_opens:
  assumes "encrypt_entry E km fv i r g = (Inr env, g')" and "env_ok E"
    and "record_ok r" "record_len r < 2 ^ 32"
  shows "ev_id env = i"
    and "and_then (map_err auth_failure (aead_decrypt E (hkdf_expand E km (entry_info i))
          (ev_nonce env) (entry_associated_data fv i) (ev_ct env))) decode = Inr r"
    and "length (ev_ct env) = div_ceil (4 + record_len r) BUCKET * BUCKET + 16"
    and "length (ev_nonce env) = 24"
proof -
  have enc: "aead_encrypt E (hkdf_expand E km (entry_info i)) (ev_nonce env)
      (entry_associated_data fv i) (encode_padded r) = Inr (ev_ct env)"
    and i: "ev_id env = i" and n: "ev_nonce env = fst (random_nonce E g)"
    using assms(1) by (auto simp: encrypt_entry_def Let_def split_def split: sum.splits)
  have "aead_decrypt E (hkdf_expand E km (entry_info i)) (ev_nonce env)
      (entry_associated_data fv i) (ev_ct env) = Inr (encode_padded r)"
    using assms(2) enc by (intro aead_decrypt_encrypt) (auto simp: env_ok_def)
  then show "and_then (map_err auth_failure (aead_decrypt E (hkdf_expand E km (entry_info i))
          (ev_nonce env) (entry_associated_data fv i) (ev_ct env))) decode = Inr r"
    using decode_encode_padded [OF assms(3,4)] by simp
  show "ev_id env = i" by (rule i)
  show "length (ev_ct env) = div_ceil (4 + record_len r) BUCKET * BUCKET + 16"
    using aead_encrypt_length [OF _ enc] assms(2) by (simp add: env_ok_def encode_padded_length)
  show "length (ev_nonce env) = 24" by (simp add: n)
qed

section \<open>Envelopes\<close>

lemma find_put_envelope:
  "List.find (\<lambda>e. ev_id e = j) (put_envelope env es) =
     (if j = ev_id env then Some env else List.find (\<lambda>e. ev_id e = j) es)"
proof (cases "List.find (\<lambda>e. ev_id e = ev_id env) es")
  case None
  then show ?thesis by (auto simp: put_envelope_def find_append split: option.splits)
next
  case (Some x)
  show ?thesis
  proof (cases "j = ev_id env")
    case True
    then show ?thesis using Some by (simp add: put_envelope_def find_replace_first_same)
  next
    case False
    then show ?thesis using Some by (simp add: put_envelope_def find_replace_first_other)
  qed
qed

lemma put_envelope_ids:
  "map ev_id (put_envelope env es) =
     (if ev_id env \<in> ev_id ` set es then map ev_id es else map ev_id es @ [ev_id env])"
proof (cases "List.find (\<lambda>e. ev_id e = ev_id env) es")
  case None
  then have "ev_id env \<notin> ev_id ` set es" by (auto simp: find_None_all)
  then show ?thesis using None by (simp add: put_envelope_def)
next
  case (Some x)
  then have "ev_id env \<in> ev_id ` set es" using find_Some_mem [OF Some] by (metis imageI)
  then show ?thesis using Some by (simp add: put_envelope_def map_replace_first)
qed

lemma find_filter_other:
  "List.find (\<lambda>e. f e = j) (filter (\<lambda>e. f e \<noteq> i) es) =
     (if j = i then None else List.find (\<lambda>e. f e = j) es)"
  by (induction es) auto

section \<open>The vault as a map\<close>

type_synonym entry_view = "ustring \<times> entry_policy \<times> entry_record"

definition store_view :: "'m vault_env_scheme \<Rightarrow> bytes \<Rightarrow> vault \<Rightarrow> entry_id \<Rightarrow> entry_view option" where
  "store_view E km v i =
     (case open_index E v km of
        Inl _ \<Rightarrow> None
      | Inr ix \<Rightarrow> (case index_get ix i of
            None \<Rightarrow> None
          | Some row \<Rightarrow> (case decrypt_entry E v km i of
                Inl _ \<Rightarrow> None
              | Inr r \<Rightarrow> Some (ie_label row, ie_policy row, r))))"

lemma decrypt_entry_put:
  "decrypt_entry E (v\<lparr>envelopes := put_envelope env (envelopes v)\<rparr>) km j =
     (if j = ev_id env then
        and_then (map_err auth_failure (aead_decrypt E (hkdf_expand E km (entry_info j)) (ev_nonce env)
          (entry_associated_data (format_version v) j) (ev_ct env))) decode
      else decrypt_entry E v km j)"
  by (simp add: decrypt_entry_def find_put_envelope)

lemma decrypt_entry_frame:
  "envelopes v = envelopes w \<Longrightarrow> format_version v = format_version w \<Longrightarrow>
   decrypt_entry E v km j = decrypt_entry E w km j"
  by (simp add: decrypt_entry_def)

lemma decrypt_index_envelopes [simp]:
  "decrypt_index E (v\<lparr>envelopes := es\<rparr>) km = decrypt_index E v km"
  by (simp add: decrypt_index_def)

lemma reseal_index_Inr:
  assumes "reseal_index E ix km (v, g) = (Inr (), v', g')" and "env_ok E"
  shows "decrypt_index E v' km = Inr ix" "envelopes v' = envelopes v"
    "format_version v' = format_version v"
    "\<exists>n ct. v' = v\<lparr>sealed_index_nonce := n, sealed_index_ct := ct\<rparr> \<and> length n = 24"
proof -
  obtain n ct where s: "seal_index E ix (format_version v) km g = (Inr (n, ct), g')"
    and v': "v' = v\<lparr>sealed_index_nonce := n, sealed_index_ct := ct\<rparr>"
    using assms(1) by (auto simp: reseal_index_def split: prod.splits sum.splits)
  have "length n = 24"
    using s by (auto simp: seal_index_def Let_def split_def split: option.splits sum.splits)
  then show "decrypt_index E v' km = Inr ix" "envelopes v' = envelopes v"
    "format_version v' = format_version v"
    "\<exists>n ct. v' = v\<lparr>sealed_index_nonce := n, sealed_index_ct := ct\<rparr> \<and> length n = 24"
    using seal_index_decrypts [OF s assms(2)] v' by auto
qed

lemma add_or_update_Inr:
  assumes a: "add_or_update_entry E km i l p r (v, g) = (Inr (), v', g')"
    and e: "env_ok E" and ix: "open_index E v km = Inr ix"
    and r: "record_ok r" "record_len r < 2 ^ 32"
  shows "open_index E v' km = Inr (snd (index_upsert \<lparr>ie_id = i, ie_label = l, ie_policy = p\<rparr> ix))"
    and "decrypt_entry E v' km j = (if j = i then Inr r else decrypt_entry E v km j)"
    and "\<exists>n ct es. v' = v\<lparr>envelopes := es, sealed_index_nonce := n, sealed_index_ct := ct\<rparr>"
proof -
  let ?row = "\<lparr>ie_id = i, ie_label = l, ie_policy = p\<rparr>"
  obtain env g1 ix1 where enc: "encrypt_entry E km (format_version v) i r g = (Inr env, g1)"
    and dx: "decrypt_index E (v\<lparr>envelopes := put_envelope env (envelopes v)\<rparr>) km = Inr ix1"
    and rs: "reseal_index E (snd (index_upsert ?row ix1)) km
        (v\<lparr>envelopes := put_envelope env (envelopes v)\<rparr>, g1) = (Inr (), v', g')"
    using a by (auto simp: add_or_update_entry_def Let_def split: prod.splits sum.splits)
  note enc' = encrypt_entry_opens [OF enc e r]
  have ix1: "ix1 = ix"
    using dx ix by (simp add: open_index_iff)
  note rs' = reseal_index_Inr [OF rs e, unfolded ix1]
  have ids: "distinct (map ie_id ix)" "distinct (map ev_id (envelopes v))"
      "set (map ie_id ix) = set (map ev_id (envelopes v))"
    using ix by (simp_all add: open_index_iff)
  have row: "ie_id ?row = i" by simp
  have m: "(i \<in> ie_id ` set ix) = (i \<in> ev_id ` set (envelopes v))" using ids(3) by simp
  have xs: "map ie_id (snd (index_upsert ?row ix)) =
      (if i \<in> ie_id ` set ix then map ie_id ix else map ie_id ix @ [i])"
    by (simp add: index_ids_upsert)
  have ev: "map ev_id (envelopes v') =
      (if i \<in> ev_id ` set (envelopes v) then map ev_id (envelopes v) else map ev_id (envelopes v) @ [i])"
    using rs'(2) enc'(1) by (simp add: put_envelope_ids)
  have "distinct (map ie_id (snd (index_upsert ?row ix)))"
    "distinct (map ev_id (envelopes v'))"
    "set (map ie_id (snd (index_upsert ?row ix))) = set (map ev_id (envelopes v'))"
    unfolding xs ev using ids m by auto
  then show "open_index E v' km = Inr (snd (index_upsert ?row ix))"
    using rs'(1) by (simp add: open_index_iff)
  show "decrypt_entry E v' km j = (if j = i then Inr r else decrypt_entry E v km j)"
    using decrypt_entry_frame [OF rs'(2,3), of E km j] enc'(1,2) by (simp add: decrypt_entry_put)
  show "\<exists>n ct es. v' = v\<lparr>envelopes := es, sealed_index_nonce := n, sealed_index_ct := ct\<rparr>"
    using rs'(4) by auto
qed

lemma remove_entry_Inr:
  assumes a: "remove_entry E km i (v, g) = (Inr (), v', g')"
    and e: "env_ok E" and ix: "open_index E v km = Inr ix"
  shows "open_index E v' km = Inr (snd (index_remove i ix))"
    and "j \<noteq> i \<Longrightarrow> decrypt_entry E v' km j = decrypt_entry E v km j"
    and "decrypt_entry E v' km i = Inl EntryNotFound"
    and "i \<in> ev_id ` set (envelopes v)"
    and "\<exists>n ct es. v' = v\<lparr>envelopes := es, sealed_index_nonce := n, sealed_index_ct := ct\<rparr>"
proof -
  let ?k = "filter (\<lambda>e. ev_id e \<noteq> i) (envelopes v)"
  obtain ix1 where ne: "length ?k \<noteq> length (envelopes v)"
    and dx: "decrypt_index E (v\<lparr>envelopes := ?k\<rparr>) km = Inr ix1"
    and rs: "reseal_index E (snd (index_remove i ix1)) km (v\<lparr>envelopes := ?k\<rparr>, g) = (Inr (), v', g')"
    using a by (auto simp: remove_entry_def Let_def split: if_splits sum.splits)
  have ix1: "ix1 = ix"
    using dx ix by (simp add: open_index_iff)
  note rs' = reseal_index_Inr [OF rs e, unfolded ix1]
  have ids: "distinct (map ie_id ix)" "distinct (map ev_id (envelopes v))"
      "set (map ie_id ix) = set (map ev_id (envelopes v))"
    using ix by (simp_all add: open_index_iff)
  have ev: "map ev_id (envelopes v') = filter (\<lambda>j. j \<noteq> i) (map ev_id (envelopes v))"
    using rs'(2) by (simp add: filter_map comp_def)
  have "distinct (map ie_id (snd (index_remove i ix)))" "distinct (map ev_id (envelopes v'))"
    "set (map ie_id (snd (index_remove i ix))) = set (map ev_id (envelopes v'))"
    using ids by (simp_all only: index_ids_remove ev distinct_filter set_filter)
  then show "open_index E v' km = Inr (snd (index_remove i ix))"
    using rs'(1) by (simp add: open_index_iff)
  have f: "List.find (\<lambda>e. ev_id e = j) (envelopes v') =
      (if j = i then None else List.find (\<lambda>e. ev_id e = j) (envelopes v))" for j
    using rs'(2) by (simp add: find_filter_other)
  show "j \<noteq> i \<Longrightarrow> decrypt_entry E v' km j = decrypt_entry E v km j"
    using rs'(3) by (simp add: decrypt_entry_def f)
  show "decrypt_entry E v' km i = Inl EntryNotFound" by (simp add: decrypt_entry_def f)
  show "i \<in> ev_id ` set (envelopes v)"
  proof (rule ccontr)
    assume "i \<notin> ev_id ` set (envelopes v)"
    then have "?k = envelopes v" by (auto simp: filter_id_conv)
    then show False using ne by simp
  qed
  show "\<exists>n ct es. v' = v\<lparr>envelopes := es, sealed_index_nonce := n, sealed_index_ct := ct\<rparr>"
    using rs'(4) by auto
qed

lemma store_view_add:
  assumes "add_or_update_entry E km i l p r (v, g) = (Inr (), v', g')"
    and "env_ok E" and "open_index E v km = Inr ix" and "record_ok r" "record_len r < 2 ^ 32"
  shows "store_view E km v' = (store_view E km v)(i \<mapsto> (l, p, r))"
proof
  fix j
  note a = add_or_update_Inr [OF assms]
  show "store_view E km v' j = ((store_view E km v)(i \<mapsto> (l, p, r))) j"
    by (simp add: store_view_def a(1,2) assms(3) index_get_upsert split: option.split)
qed

lemma store_view_remove:
  assumes "remove_entry E km i (v, g) = (Inr (), v', g')"
    and "env_ok E" and "open_index E v km = Inr ix"
  shows "store_view E km v' = (store_view E km v)(i := None)"
proof
  fix j
  note a = remove_entry_Inr [OF assms]
  show "store_view E km v' j = ((store_view E km v)(i := None)) j"
    by (simp add: store_view_def a(1,2) assms(3) index_get_remove split: option.split)
qed

section \<open>The contract of an entry store\<close>

datatype ('k, 'v) store_op = Put 'k 'v | Del 'k

fun run_ops :: "('k \<Rightarrow> 'v \<Rightarrow> 's \<Rightarrow> 'e + 's) \<Rightarrow> ('k \<Rightarrow> 's \<Rightarrow> 'e + 's) \<Rightarrow> ('k, 'v) store_op list \<Rightarrow> 's \<Rightarrow> 'e + 's" where
  "run_ops put del [] s = Inr s"
| "run_ops put del (Put k x # ops) s = and_then (put k x s) (run_ops put del ops)"
| "run_ops put del (Del k # ops) s = and_then (del k s) (run_ops put del ops)"

fun map_ops :: "('k, 'v) store_op list \<Rightarrow> ('k \<rightharpoonup> 'v) \<Rightarrow> ('k \<rightharpoonup> 'v)" where
  "map_ops [] m = m"
| "map_ops (Put k x # ops) m = map_ops ops (m(k \<mapsto> x))"
| "map_ops (Del k # ops) m = map_ops ops (m(k := None))"

fun op_adm :: "('k \<Rightarrow> 'v \<Rightarrow> bool) \<Rightarrow> ('k, 'v) store_op \<Rightarrow> bool" where
  "op_adm adm (Put k x) = adm k x"
| "op_adm adm (Del k) = True"

locale entry_store =
  fixes view :: "'s \<Rightarrow> 'k \<Rightarrow> 'v option"
    and ok :: "'s \<Rightarrow> bool" and adm :: "'k \<Rightarrow> 'v \<Rightarrow> bool"
    and put :: "'k \<Rightarrow> 'v \<Rightarrow> 's \<Rightarrow> 'e + 's" and del :: "'k \<Rightarrow> 's \<Rightarrow> 'e + 's"
  assumes put_law: "ok s \<Longrightarrow> adm k x \<Longrightarrow> put k x s = Inr s' \<Longrightarrow>
      ok s' \<and> view s' = (view s)(k \<mapsto> x)"
    and del_law: "ok s \<Longrightarrow> del k s = Inr s' \<Longrightarrow> ok s' \<and> view s' = (view s)(k := None)"
begin

lemma run_refines:
  "ok s \<Longrightarrow> list_all (op_adm adm) ops \<Longrightarrow> run_ops put del ops s = Inr s' \<Longrightarrow>
   ok s' \<and> view s' = map_ops ops (view s)"
proof (induction ops arbitrary: s)
  case Nil
  then show ?case by simp
next
  case (Cons p ops)
  show ?case
  proof (cases p)
    case (Put k x)
    then obtain t where t: "put k x s = Inr t" "run_ops put del ops t = Inr s'" "adm k x"
      using Cons.prems by (auto simp: and_then_Inr_iff)
    note l = put_law [OF Cons.prems(1) t(3,1)]
    show ?thesis using Cons.IH [of t] Cons.prems(2) t(2) l Put by (simp del: fun_upd_apply)
  next
    case (Del k)
    then obtain t where t: "del k s = Inr t" "run_ops put del ops t = Inr s'"
      using Cons.prems by (auto simp: and_then_Inr_iff)
    note l = del_law [OF Cons.prems(1) t(1)]
    show ?thesis using Cons.IH [of t] Cons.prems(2) t(2) l Del by (simp del: fun_upd_apply)
  qed
qed

lemma put_then_del:
  "ok s \<Longrightarrow> adm k x \<Longrightarrow> put k x s = Inr t \<Longrightarrow> del k t = Inr u \<Longrightarrow> view u = (view s)(k := None)"
  using put_law [of s k x t] del_law [of t k u] by simp

lemma put_overwrites:
  "ok s \<Longrightarrow> adm k x \<Longrightarrow> adm k y \<Longrightarrow> put k x s = Inr t \<Longrightarrow> put k y t = Inr u \<Longrightarrow>
   view u = (view s)(k \<mapsto> y)"
  using put_law [of s k x t] put_law [of t k y u] by simp

end

text \<open>The vault with its environment, key and random source, as such a store.\<close>

type_synonym 'm vstore = "'m vault_env_scheme \<times> bytes \<times> vault \<times> rng"

definition vs_view :: "'m vstore \<Rightarrow> entry_id \<Rightarrow> entry_view option" where
  "vs_view s = (case s of (E, km, v, g) \<Rightarrow> store_view E km v)"

definition vs_ok :: "'m vstore \<Rightarrow> bool" where
  "vs_ok s = (case s of (E, km, v, g) \<Rightarrow> env_ok E \<and> is_ok (open_index E v km))"

definition vs_adm :: "entry_id \<Rightarrow> entry_view \<Rightarrow> bool" where
  "vs_adm i x = (case x of (l, p, r) \<Rightarrow> record_ok r \<and> record_len r < 2 ^ 32)"

definition vs_put :: "entry_id \<Rightarrow> entry_view \<Rightarrow> 'm vstore \<Rightarrow> vault_error + 'm vstore" where
  "vs_put i x s = (case s of (E, km, v, g) \<Rightarrow> (case x of (l, p, r) \<Rightarrow>
     (case add_or_update_entry E km i l p r (v, g) of
        (Inl e, _) \<Rightarrow> Inl e
      | (Inr _, v', g') \<Rightarrow> Inr (E, km, v', g'))))"

definition vs_del :: "entry_id \<Rightarrow> 'm vstore \<Rightarrow> vault_error + 'm vstore" where
  "vs_del i s = (case s of (E, km, v, g) \<Rightarrow>
     (case remove_entry E km i (v, g) of
        (Inl e, _) \<Rightarrow> Inl e
      | (Inr _, v', g') \<Rightarrow> Inr (E, km, v', g')))"

interpretation vstore: entry_store vs_view vs_ok vs_adm vs_put vs_del
proof unfold_locales
  fix s s' :: "'m vstore" and i x
  assume ok: "vs_ok s" and adm: "vs_adm i x" and p: "vs_put i x s = Inr s'"
  obtain E km v g where s: "s = (E, km, v, g)" by (cases s)
  obtain l q r where x: "x = (l, q, r)" by (cases x)
  obtain v' g' where a: "add_or_update_entry E km i l q r (v, g) = (Inr (), v', g')"
    and s': "s' = (E, km, v', g')"
    using p by (auto simp: vs_put_def s x split: prod.splits sum.splits)
  obtain ix where e: "env_ok E" and ix: "open_index E v km = Inr ix"
    using ok by (auto simp: vs_ok_def s is_ok_iff)
  have r: "record_ok r" "record_len r < 2 ^ 32" using adm by (simp_all add: vs_adm_def x)
  show "vs_ok s' \<and> vs_view s' = (vs_view s)(i \<mapsto> x)"
    using add_or_update_Inr(1) [OF a e ix r] store_view_add [OF a e ix r] e
    by (simp add: vs_ok_def vs_view_def s s' x)
next
  fix s s' :: "'m vstore" and i
  assume ok: "vs_ok s" and p: "vs_del i s = Inr s'"
  obtain E km v g where s: "s = (E, km, v, g)" by (cases s)
  obtain v' g' where a: "remove_entry E km i (v, g) = (Inr (), v', g')"
    and s': "s' = (E, km, v', g')"
    using p by (auto simp: vs_del_def s split: prod.splits sum.splits)
  obtain ix where e: "env_ok E" and ix: "open_index E v km = Inr ix"
    using ok by (auto simp: vs_ok_def s is_ok_iff)
  show "vs_ok s' \<and> vs_view s' = (vs_view s)(i := None)"
    using remove_entry_Inr(1) [OF a e ix] store_view_remove [OF a e ix] e
    by (simp add: vs_ok_def vs_view_def s s')
qed

section \<open>Creation and success\<close>

lemma vault_create_Inr:
  assumes c: "vault_create E P salt kb sb meta km g = (Inr v, g')" and e: "env_ok E"
  shows "verify_probe E v km = Inr ()"
    and "open_index E v km = Inr []"
    and "store_view E km v = Map.empty"
    and "kdf_params_of v = P" "vault_salt v = salt" "k_hsm_wrap_blob v = kb"
      "totp_seed_wrap_blob v = sb" "rl_counter v = 0" "rl_last_failure v = 0" "vmetadata v = meta"
      "format_version v = FORMAT_VERSION" "envelopes v = []"
      "length kb \<le> MAX_HSM_BLOB_LEN" "length sb \<le> MAX_HSM_BLOB_LEN"
      "kdf_algorithm_id v = KDF_ALGORITHM_ARGON2ID" "length (probe_nonce v) = 24"
      "length (probe_ct v) = 32" "length (sealed_index_nonce v) = 24"
proof -
  let ?ad = "probe_associated_data FORMAT_VERSION KDF_ALGORITHM_ARGON2ID P salt"
  obtain pn g1 pct n ct where pn: "random_nonce E g = (pn, g1)"
    and enc: "aead_encrypt E km pn ?ad PROBE_PLAINTEXT = Inr pct" and l: "length pct = PROBE_CT_LEN"
    and s: "seal_index E index_new FORMAT_VERSION km g1 = (Inr (n, ct), g')"
    and b: "length kb \<le> MAX_HSM_BLOB_LEN" "length sb \<le> MAX_HSM_BLOB_LEN"
    and v: "v = \<lparr>format_version = FORMAT_VERSION, kdf_algorithm_id = KDF_ALGORITHM_ARGON2ID,
        kdf_params_of = P, vault_salt = salt, probe_nonce = pn, probe_ct = pct,
        k_hsm_wrap_blob = kb, totp_seed_wrap_blob = sb, rl_counter = 0, rl_last_failure = 0,
        vmetadata = meta, sealed_index_nonce = n, sealed_index_ct = ct, envelopes = []\<rparr>"
    using c
    by (auto simp: vault_create_def check_blob_len_def into_fixed_def and_then_Inr_iff Let_def
        split: prod.splits sum.splits option.splits if_splits)
  have "aead_decrypt E km pn ?ad pct = Inr PROBE_PLAINTEXT"
    using e enc by (intro aead_decrypt_encrypt) (auto simp: env_ok_def)
  then show "verify_probe E v km = Inr ()" by (simp add: verify_probe_def v Let_def)
  have "decrypt_index E v km = Inr []"
    using seal_index_decrypts [OF s e, of v] by (simp add: v index_new_def)
  then show oi: "open_index E v km = Inr []" by (simp add: open_index_iff v)
  show "store_view E km v = Map.empty"
    by (rule ext) (simp add: store_view_def oi index_get_def)
  have "length n = 24"
    using s by (auto simp: seal_index_def Let_def split_def split: option.splits sum.splits)
  then show "kdf_params_of v = P" "vault_salt v = salt" "k_hsm_wrap_blob v = kb"
      "totp_seed_wrap_blob v = sb" "rl_counter v = 0" "rl_last_failure v = 0" "vmetadata v = meta"
      "format_version v = FORMAT_VERSION" "envelopes v = []"
      "length kb \<le> MAX_HSM_BLOB_LEN" "length sb \<le> MAX_HSM_BLOB_LEN"
      "kdf_algorithm_id v = KDF_ALGORITHM_ARGON2ID" "length (probe_nonce v) = 24"
      "length (probe_ct v) = 32" "length (sealed_index_nonce v) = 24"
    using b l random_length(1) [OF pn] by (simp_all add: v PROBE_CT_LEN_def)
qed

section \<open>Success\<close>

lemma seal_index_total:
  assumes "aead_total E" "env_ok E" "postcard_ser E ix = Some pb"
  shows "\<exists>n ct g'. seal_index E ix fv km g = (Inr (n, ct), g')"
proof -
  have b: "length pb < 2 ^ 31" using assms(2,3) by (auto simp: env_ok_def postcard_fits_def)
  let ?pt = "if fv = FORMAT_VERSION_LEGACY_V1 then pb else pad_index_plaintext pb"
  have "length ?pt < 2 ^ 37" using b index_pad.pad_bounds [of pb] by (simp add: BUCKET_def)
  then have "\<exists>ct. aead_encrypt E (hkdf_expand E km INDEX_INFO) (fst (random_nonce E g)) [fv] ?pt = Inr ct"
    by (rule aead_encrypt_total [OF assms(1)])
  then show ?thesis using assms(3) by (auto simp: seal_index_def Let_def split_def)
qed

lemma encrypt_entry_total:
  assumes "aead_total E" "record_len r < 2 ^ 32"
  shows "\<exists>env g'. encrypt_entry E km fv i r g = (Inr env, g')"
proof -
  have "length (encode_padded r) < 2 ^ 37"
    using assms(2) index_pad.pad_bounds [of "record_region r"]
    by (simp add: encode_padded_region BUCKET_def)
  then have "\<exists>ct. aead_encrypt E (hkdf_expand E km (entry_info i)) (fst (random_nonce E g))
      (entry_associated_data fv i) (encode_padded r) = Inr ct"
    by (rule aead_encrypt_total [OF assms(1)])
  then show ?thesis by (auto simp: encrypt_entry_def Let_def split_def)
qed

lemma add_or_update_total:
  assumes "aead_total E" "env_ok E" "open_index E v km = Inr ix" "record_len r < 2 ^ 32"
    and "postcard_ser E (snd (index_upsert \<lparr>ie_id = i, ie_label = l, ie_policy = p\<rparr> ix)) = Some pb"
  shows "\<exists>v' g'. add_or_update_entry E km i l p r (v, g) = (Inr (), v', g')"
proof -
  obtain env g1 where enc: "encrypt_entry E km (format_version v) i r g = (Inr env, g1)"
    using encrypt_entry_total [OF assms(1,4)] by blast
  obtain n ct g2 where s: "seal_index E (snd (index_upsert \<lparr>ie_id = i, ie_label = l, ie_policy = p\<rparr> ix))
      (format_version v) km g1 = (Inr (n, ct), g2)"
    using seal_index_total [OF assms(1,2,5)] by blast
  show ?thesis
    using enc s assms(3) by (simp add: add_or_update_entry_def reseal_index_def open_index_iff)
qed

text \<open>A failure after the envelope was replaced leaves the replaced envelope in memory: the
  vault no longer opens when the index does not decrypt, and its envelopes have changed.\<close>

lemma add_or_update_index_error:
  assumes "encrypt_entry E km (format_version v) i r g = (Inr env, g1)"
    and "decrypt_index E v km = Inl e"
  shows "add_or_update_entry E km i l p r (v, g) =
     (Inl e, v\<lparr>envelopes := put_envelope env (envelopes v)\<rparr>, g1)"
  using assms by (simp add: add_or_update_entry_def)

lemma remove_entry_absent:
  "i \<notin> ev_id ` set (envelopes v) \<Longrightarrow> remove_entry E km i (v, g) = (Inl EntryNotFound, v, g)"
proof -
  assume "i \<notin> ev_id ` set (envelopes v)"
  then have "filter (\<lambda>e. ev_id e \<noteq> i) (envelopes v) = envelopes v" by (auto simp: filter_id_conv)
  then show ?thesis by (simp add: remove_entry_def)
qed

lemma vault_create_total:
  assumes "aead_total E" "env_ok E" "postcard_ser E [] = Some pb"
    and "length kb \<le> MAX_HSM_BLOB_LEN" "length sb \<le> MAX_HSM_BLOB_LEN"
  shows "\<exists>v g'. vault_create E P salt kb sb meta km g = (Inr v, g')"
proof -
  let ?ad = "probe_associated_data FORMAT_VERSION KDF_ALGORITHM_ARGON2ID P salt"
  have "length PROBE_PLAINTEXT < 2 ^ 37" by (simp add: PROBE_PLAINTEXT_def)
  then obtain pct where enc: "aead_encrypt E km (fst (random_nonce E g)) ?ad PROBE_PLAINTEXT = Inr pct"
    using aead_encrypt_total [OF assms(1)] by blast
  then have "length pct = PROBE_CT_LEN"
    using aead_encrypt_length [OF _ enc] assms(2)
    by (simp add: env_ok_def PROBE_PLAINTEXT_def PROBE_CT_LEN_def)
  moreover obtain n ct g2 where "seal_index E [] FORMAT_VERSION km (snd (random_nonce E g)) = (Inr (n, ct), g2)"
    using seal_index_total [OF assms(1-3)] by blast
  ultimately show ?thesis
    using enc assms(4,5)
    by (simp add: vault_create_def check_blob_len_def into_fixed_def Let_def split_def index_new_def)
qed

section \<open>Properties\<close>

text \<open>C1. Any sequence of entry insertions, updates and removals that the vault accepts leaves a
  vault that opens, and whose contents are exactly the corresponding sequence of map updates
  applied to the contents before it.\<close>

theorem vault_refines_map:
  assumes "env_ok E" and "open_index E v km = Inr ix"
    and "list_all (op_adm vs_adm) ops"
    and "run_ops vs_put vs_del ops (E, km, v, g) = Inr (E', km', v', g')"
  shows "is_ok (open_index E' v' km') \<and> store_view E' km' v' = map_ops ops (store_view E km v)"
  using vstore.run_refines [of "(E, km, v, g)" ops "(E', km', v', g')"] assms
  by (simp add: vs_ok_def vs_view_def)

definition demo_record :: entry_record where
  "demo_record = \<lparr>er_username = ustr ''alice'', er_password = ustr ''s3cret'', er_url = [], er_notes = [233]\<rparr>"

definition demo_id :: entry_id where "demo_id = EntryId (replicate 16 7)"

definition demo_row :: index_entry where
  "demo_row = \<lparr>ie_id = demo_id, ie_label = ustr ''mail'', ie_policy = policy_default\<rparr>"

definition demo_env :: vault_env where "demo_env = toy_env [[], [demo_row]]"

lemma demo_env_facts:
  "env_ok demo_env" "aead_total demo_env" "uuid_ok demo_env"
  "postcard_ser demo_env [] = Some [0]" "postcard_ser demo_env [demo_row] = Some [1]"
  by (simp_all add: demo_env_def toy_env_env_ok toy_env_ok)
    (simp_all add: toy_env_def crypto.defs)

lemma demo_record_facts: "record_ok demo_record" "record_len demo_record = 29"
  by (simp_all add: demo_record_def record_ok_def record_fields_def record_len_def ustr_def
      is_scalar_def expose_bytes_def utf8_enc_def enc1_def)

lemma vault_refines_map_witness:
  "\<exists>v g v' g'. vault_create demo_env KDF_LOW (replicate 32 1) [] [] (metadata_new 0) (replicate 32 9) 0 = (Inr v, g)
     \<and> run_ops vs_put vs_del [Put demo_id (ustr ''mail'', policy_default, demo_record)]
         (demo_env, replicate 32 9, v, g) = Inr (demo_env, replicate 32 9, v', g')
     \<and> store_view demo_env (replicate 32 9) v' demo_id = Some (ustr ''mail'', policy_default, demo_record)"
proof -
  let ?km = "replicate 32 9 :: bytes"
  let ?ops = "[Put demo_id (ustr ''mail'', policy_default, demo_record)]"
  obtain v g where c: "vault_create demo_env KDF_LOW (replicate 32 1) [] [] (metadata_new 0) ?km 0 = (Inr v, g)"
    using vault_create_total [OF demo_env_facts(2,1,4)] by fastforce
  note created = vault_create_Inr [OF c demo_env_facts(1)]
  obtain v' g' where a: "add_or_update_entry demo_env ?km demo_id (ustr ''mail'') policy_default demo_record (v, g)
      = (Inr (), v', g')"
    using add_or_update_total [OF demo_env_facts(2,1) created(2), of demo_record demo_id "ustr ''mail''"
        policy_default "[1]" g] demo_env_facts(5) demo_record_facts
    by (auto simp: index_upsert_def demo_row_def)
  have r: "run_ops vs_put vs_del ?ops (demo_env, ?km, v, g) = Inr (demo_env, ?km, v', g')"
    by (simp add: vs_put_def a)
  have "list_all (op_adm vs_adm) ?ops" using demo_record_facts by (simp add: vs_adm_def)
  then have "store_view demo_env ?km v' = map_ops ?ops (store_view demo_env ?km v)"
    using vault_refines_map [OF demo_env_facts(1) created(2) _ r] by blast
  then have "store_view demo_env ?km v' demo_id = Some (ustr ''mail'', policy_default, demo_record)"
    by simp
  then show ?thesis using c r by blast
qed

text \<open>A vault opens exactly when its sealed index decrypts and lists every envelope id once:
  no missing, extra or duplicate row or envelope passes.\<close>

lemma open_index_exact:
  "open_index E v km = Inr ix \<longleftrightarrow>
     decrypt_index E v km = Inr ix \<and> distinct (map ie_id ix) \<and>
     distinct (map ev_id (envelopes v)) \<and> set (map ie_id ix) = set (map ev_id (envelopes v))"
  by (rule open_index_iff)

text \<open>Decryption failures carry no detail: whatever is wrong with a probe, an index or an
  envelope at the AEAD layer (a short ciphertext included), the error is the same.\<close>

theorem decrypt_failures_uniform:
  "verify_probe E v km \<in> {Inr (), Inl (VCrypto AeadAuth)} \<and>
   (case decrypt_index E v km of
      Inr ix \<Rightarrow> True
    | Inl e \<Rightarrow> e \<in> insert (VCrypto AeadAuth) (range MalformedRecord))"
proof
  show "verify_probe E v km \<in> {Inr (), Inl (VCrypto AeadAuth)}"
    by (cases "verify_probe E v km")
      (auto simp: verify_probe_def Let_def and_then_Inl_iff split: if_splits dest: decrypt_map_err)
  show "case decrypt_index E v km of Inr ix \<Rightarrow> True
    | Inl e \<Rightarrow> e \<in> insert (VCrypto AeadAuth) (range MalformedRecord)"
    by (auto simp: decrypt_index_def Let_def and_then_Inl_iff ok_or_Inl_iff strip_index_padding_def
        split: if_splits sum.split dest: decrypt_map_err)
qed

end
