(* ===== verification/VaultCodec.thy ===== *)
theory VaultCodec
  imports VaultProps
begin

text \<open>
  \<open>passman-vault\<close>, \<open>vault.rs\<close>: \<open>to_bytes\<close> and \<open>from_bytes\<close>, the on-disk layout of a vault.
\<close>

definition push_u16_prefixed :: "bytes \<Rightarrow> bytes" where
  "push_u16_prefixed b = le_bytes 2 (u16_sat (length b)) @ b"

definition push_u32_prefixed :: "bytes \<Rightarrow> bytes" where
  "push_u32_prefixed b = le_bytes 4 (u32_sat (length b)) @ b"

definition envelope_bytes :: "entry_envelope \<Rightarrow> bytes" where
  "envelope_bytes e = id_bytes (ev_id e) @ ev_nonce e @ le_bytes 4 (u32_sat (length (ev_ct e))) @ ev_ct e"

definition export_flag :: "64 word option \<Rightarrow> byte" where
  "export_flag ts = (case ts of Some t \<Rightarrow> 1 | None \<Rightarrow> 0)"

definition export_raw :: "64 word option \<Rightarrow> 64 word" where
  "export_raw ts = (case ts of Some t \<Rightarrow> t | None \<Rightarrow> 0)"

definition vault_to_bytes :: "vault \<Rightarrow> bytes" where
  "vault_to_bytes v =
     [format_version v] @ [kdf_algorithm_id v] @
     le_bytes 4 (m_kib (kdf_params_of v)) @ le_bytes 4 (t_cost (kdf_params_of v)) @
     [p_lanes (kdf_params_of v)] @ vault_salt v @ probe_nonce v @ probe_ct v @
     push_u16_prefixed (k_hsm_wrap_blob v) @ push_u16_prefixed (totp_seed_wrap_blob v) @
     le_bytes 8 (rl_counter v) @ le_bytes 8 (rl_last_failure v) @
     le_bytes 8 (last_password_change (vmetadata v)) @
     [export_flag (last_export_at (vmetadata v))] @ le_bytes 8 (export_raw (last_export_at (vmetadata v))) @
     sealed_index_nonce v @ push_u32_prefixed (sealed_index_ct v) @
     le_bytes 4 (u32_sat (length (envelopes v))) @ concat (map envelope_bytes (envelopes v))"

definition read_envelope :: "reader \<Rightarrow> vault_error + entry_envelope \<times> reader" where
  "read_envelope r0 =
     and_then (vr_take ENTRY_ID_LEN ''entry.id'' r0) (\<lambda>(i, r1).
     and_then (vr_take NONCE_LEN ''entry.nonce'' r1) (\<lambda>(n, r2).
     and_then (vr_read_u32_le ''entry.ct_len'' r2) (\<lambda>(l, r3).
     and_then (vr_take (unat l) ''entry.ciphertext'' r3) (\<lambda>(c, r4).
       Inr (\<lparr>ev_id = EntryId i, ev_nonce = n, ev_ct_len = l, ev_ct = c\<rparr>, r4)))))"

fun read_envelopes :: "nat \<Rightarrow> reader \<Rightarrow> vault_error + entry_envelope list \<times> reader" where
  "read_envelopes 0 r = Inr ([], r)"
| "read_envelopes (Suc k) r =
     and_then (read_envelope r) (\<lambda>(e, r'). and_then (read_envelopes k r') (\<lambda>(es, r''). Inr (e # es, r'')))"

definition check_version :: "byte \<Rightarrow> vault_error + unit" where
  "check_version fv =
     (if fv \<noteq> FORMAT_VERSION \<and> fv \<noteq> FORMAT_VERSION_LEGACY_V1
      then Inl (UnsupportedVersion fv FORMAT_VERSION) else Inr ())"

definition check_algorithm :: "byte \<Rightarrow> vault_error + unit" where
  "check_algorithm a = (if a \<noteq> KDF_ALGORITHM_ARGON2ID then Inl (UnsupportedKdfAlgorithm a) else Inr ())"

definition export_of :: "byte \<Rightarrow> 64 word \<Rightarrow> vault_error + 64 word option" where
  "export_of flag raw =
     (if flag = 0 then Inr None else if flag = 1 then Inr (Some raw)
      else Inl (InvalidFlag ''meta.last_export_present'' flag))"

definition vault_from_bytes :: "bytes \<Rightarrow> vault_error + vault" where
  "vault_from_bytes b =
     and_then (vr_read_u8 ''format_version'' (reader_new b)) (\<lambda>(fv, r).
     and_then (check_version fv) (\<lambda>_.
     and_then (vr_read_u8 ''kdf_algorithm_id'' r) (\<lambda>(alg, r).
     and_then (check_algorithm alg) (\<lambda>_.
     and_then (vr_take 9 ''kdf_params'' r) (\<lambda>(kp, r).
     and_then (vr_take SALT_LEN ''vault_salt'' r) (\<lambda>(salt, r).
     and_then (vr_take NONCE_LEN ''probe_nonce'' r) (\<lambda>(pn, r).
     and_then (vr_take PROBE_CT_LEN ''probe_ct'' r) (\<lambda>(pc, r).
     and_then (vr_read_u16_prefixed_vec ''k_hsm_wrap_blob'' r) (\<lambda>(kb, r).
     and_then (vr_read_u16_prefixed_vec ''totp_seed_wrap_blob'' r) (\<lambda>(sb, r).
     and_then (vr_read_u64_le ''rl_counter'' r) (\<lambda>(rc, r).
     and_then (vr_read_i64_le ''rl_last_failure'' r) (\<lambda>(rf, r).
     and_then (vr_read_i64_le ''meta.last_password_change'' r) (\<lambda>(pch, r).
     and_then (vr_read_u8 ''meta.last_export_present'' r) (\<lambda>(flag, r).
     and_then (vr_read_i64_le ''meta.last_export_at'' r) (\<lambda>(raw, r).
     and_then (export_of flag raw) (\<lambda>ex.
     and_then (vr_take NONCE_LEN ''sealed_index_nonce'' r) (\<lambda>(inn, r).
     and_then (vr_read_u32_prefixed_vec ''sealed_index_ct'' r) (\<lambda>(ict, r).
     and_then (vr_read_u32_le ''entries_count'' r) (\<lambda>(cnt, r).
     and_then (read_envelopes (unat cnt) r) (\<lambda>(es, r).
     and_then (vr_expect_eof r) (\<lambda>_.
       Inr \<lparr>format_version = fv, kdf_algorithm_id = alg, kdf_params_of = kdf_from_bytes kp,
         vault_salt = salt, probe_nonce = pn, probe_ct = pc, k_hsm_wrap_blob = kb,
         totp_seed_wrap_blob = sb, rl_counter = rc, rl_last_failure = rf,
         vmetadata = \<lparr>last_password_change = pch, last_export_at = ex\<rparr>,
         sealed_index_nonce = inn, sealed_index_ct = ict, envelopes = es\<rparr>)))))))))))))))))))))"

section \<open>Well-formed vaults\<close>

text \<open>What the fixed-size array types of the source and the 32-bit length fields require.\<close>

definition envelope_wf :: "entry_envelope \<Rightarrow> bool" where
  "envelope_wf e \<longleftrightarrow> id_ok (ev_id e) \<and> length (ev_nonce e) = NONCE_LEN \<and>
     length (ev_ct e) < 2 ^ 32 \<and> ev_ct_len e = u32_sat (length (ev_ct e))"

definition vault_wf :: "vault \<Rightarrow> bool" where
  "vault_wf v \<longleftrightarrow>
     (format_version v = FORMAT_VERSION \<or> format_version v = FORMAT_VERSION_LEGACY_V1) \<and>
     kdf_algorithm_id v = KDF_ALGORITHM_ARGON2ID \<and> length (vault_salt v) = SALT_LEN \<and>
     length (probe_nonce v) = NONCE_LEN \<and> length (probe_ct v) = PROBE_CT_LEN \<and>
     length (k_hsm_wrap_blob v) \<le> MAX_HSM_BLOB_LEN \<and> length (totp_seed_wrap_blob v) \<le> MAX_HSM_BLOB_LEN \<and>
     length (sealed_index_nonce v) = NONCE_LEN \<and> length (sealed_index_ct v) < 2 ^ 32 \<and>
     length (envelopes v) < 2 ^ 32 \<and> list_all envelope_wf (envelopes v)"

section \<open>Round trip\<close>

lemma read_envelope_append:
  "envelope_wf e \<Longrightarrow>
   read_envelope (cur pre (envelope_bytes e @ post)) = Inr (e, cur (pre @ envelope_bytes e) post)"
  by (cases "ev_id e")
    (simp add: read_envelope_def envelope_bytes_def envelope_wf_def id_ok_def vr_appends u32_sat_unat)

lemma read_envelopes_append:
  "list_all envelope_wf es \<Longrightarrow>
   read_envelopes (length es) (cur pre (concat (map envelope_bytes es) @ post)) =
     Inr (es, cur (pre @ concat (map envelope_bytes es)) post)"
proof (induction es arbitrary: pre)
  case Nil
  then show ?case by simp
next
  case (Cons e es)
  then show ?case
    using Cons.IH [of "pre @ envelope_bytes e"] by (simp add: read_envelope_append)
qed

lemma kdf_to_bytes_append:
  "le_bytes 4 (m_kib P) @ le_bytes 4 (t_cost P) @ [p_lanes P] @ rest = kdf_to_bytes P @ rest"
  by (simp add: kdf_to_bytes_def)

lemma export_of_flag [simp]: "export_of (export_flag ts) (export_raw ts) = Inr ts"
  by (simp add: export_of_def export_flag_def export_raw_def split: option.splits)

lemma vr8_Cons: "vr_read_u8 f (cur pre (b # post)) = Inr (b, cur (pre @ [b]) post)"
  using vr8.rd_append [of f pre b post] by simp

lemma read_envelopes_end:
  "list_all envelope_wf es \<Longrightarrow>
   read_envelopes (length es) (cur pre (concat (map envelope_bytes es))) =
     Inr (es, cur (pre @ concat (map envelope_bytes es)) [])"
  using read_envelopes_append [of es pre "[]"] by simp

lemma kdf_params_bytes:
  "le_bytes 4 (m_kib P) @ le_bytes 4 (t_cost P) @ [p_lanes P] @ rest = kdf_to_bytes P @ rest"
  by (simp add: kdf_to_bytes_def)

lemma vault_from_to_bytes: "vault_wf v \<Longrightarrow> vault_from_bytes (vault_to_bytes v) = Inr v"
proof -
  assume wf: "vault_wf v"
  then have v: "check_version (format_version v) = Inr ()" "check_algorithm (kdf_algorithm_id v) = Inr ()"
    by (auto simp: vault_wf_def check_version_def check_algorithm_def)
  have l: "length (vault_salt v) = SALT_LEN" "length (probe_nonce v) = NONCE_LEN"
    "length (probe_ct v) = PROBE_CT_LEN" "length (k_hsm_wrap_blob v) \<le> 65535"
    "length (totp_seed_wrap_blob v) \<le> 65535" "length (sealed_index_nonce v) = NONCE_LEN"
    "length (sealed_index_ct v) \<le> 4294967295" "list_all envelope_wf (envelopes v)"
    "unat (u32_sat (length (envelopes v))) = length (envelopes v)"
    using wf by (auto simp: vault_wf_def MAX_HSM_BLOB_LEN_def u32_sat_unat)
  show ?thesis
    unfolding vault_from_bytes_def vault_to_bytes_def reader_new_cur kdf_params_bytes
      push_u16_prefixed_def push_u32_prefixed_def append_assoc
    by (simp add: vr8_Cons vr_appends v l kdf_from_to_bytes read_envelopes_end
        del: append_assoc)
qed

section \<open>What the parser accepts\<close>

lemma read_envelope_Inr:
  "read_envelope (cur pre post) = Inr (e, r) \<Longrightarrow>
   envelope_wf e \<and> (\<exists>post'. post = envelope_bytes e @ post' \<and> r = cur (pre @ envelope_bytes e) post')"
proof -
  assume a: "read_envelope (cur pre post) = Inr (e, r)"
  then obtain i n l c post' where l: "length i = ENTRY_ID_LEN" "length n = NONCE_LEN" "length c = unat l"
    and p: "post = i @ n @ le_bytes 4 l @ c @ post'" and r: "r = cur (pre @ i @ n @ le_bytes 4 l @ c) post'"
    and e: "e = \<lparr>ev_id = EntryId i, ev_nonce = n, ev_ct_len = l, ev_ct = c\<rparr>"
    by (auto simp: read_envelope_def and_then_Inr_iff vr_iffs)
  have "u32_sat (length c) = l" using l(3) u32_sat_of_unat by simp
  moreover have "length c < 2 ^ 32" using l(3) unat32 [of l] by simp
  ultimately show ?thesis
    using l p r by (simp add: e envelope_wf_def envelope_bytes_def id_ok_def)
qed

lemma read_envelopes_Inr:
  "read_envelopes k (cur pre post) = Inr (es, r) \<Longrightarrow>
   length es = k \<and> list_all envelope_wf es \<and>
   (\<exists>post'. post = concat (map envelope_bytes es) @ post' \<and>
      r = cur (pre @ concat (map envelope_bytes es)) post')"
proof (induction k arbitrary: pre post es r)
  case 0
  then show ?case by simp
next
  case (Suc k)
  then obtain e es' r' where e: "read_envelope (cur pre post) = Inr (e, r')"
    and k: "read_envelopes k r' = Inr (es', r)" and es: "es = e # es'"
    by (auto simp: and_then_Inr_iff)
  obtain p1 where p1: "envelope_wf e" "post = envelope_bytes e @ p1" "r' = cur (pre @ envelope_bytes e) p1"
    using read_envelope_Inr [OF e] by auto
  show ?case using Suc.IH [of "pre @ envelope_bytes e" p1 es' r] k p1 es by auto
qed

text \<open>The layout with the eight bytes of the export timestamp left free.\<close>

definition vault_layout :: "64 word \<Rightarrow> vault \<Rightarrow> bytes" where
  "vault_layout raw v =
     [format_version v] @ [kdf_algorithm_id v] @ kdf_to_bytes (kdf_params_of v) @
     vault_salt v @ probe_nonce v @ probe_ct v @
     push_u16_prefixed (k_hsm_wrap_blob v) @ push_u16_prefixed (totp_seed_wrap_blob v) @
     le_bytes 8 (rl_counter v) @ le_bytes 8 (rl_last_failure v) @
     le_bytes 8 (last_password_change (vmetadata v)) @
     [export_flag (last_export_at (vmetadata v))] @ le_bytes 8 raw @
     sealed_index_nonce v @ push_u32_prefixed (sealed_index_ct v) @
     le_bytes 4 (u32_sat (length (envelopes v))) @ concat (map envelope_bytes (envelopes v))"

lemma vault_to_bytes_layout:
  "vault_to_bytes v = vault_layout (export_raw (last_export_at (vmetadata v))) v"
  by (simp add: vault_to_bytes_def vault_layout_def kdf_to_bytes_def)

definition raw_ok :: "64 word \<Rightarrow> vault \<Rightarrow> bool" where
  "raw_ok raw v \<longleftrightarrow> (case last_export_at (vmetadata v) of Some t \<Rightarrow> raw = t | None \<Rightarrow> True)"

lemma export_of_Inr:
  "export_of flag raw = Inr ts \<Longrightarrow> flag = export_flag ts \<and> (case ts of Some t \<Rightarrow> raw = t | None \<Rightarrow> True)"
  by (auto simp: export_of_def export_flag_def split: if_splits)

lemma vault_from_layout:
  assumes wf: "vault_wf v" and raw: "raw_ok raw v"
  shows "vault_from_bytes (vault_layout raw v) = Inr v"
proof -
  have v: "check_version (format_version v) = Inr ()" "check_algorithm (kdf_algorithm_id v) = Inr ()"
    using wf by (auto simp: vault_wf_def check_version_def check_algorithm_def)
  have x: "export_of (export_flag (last_export_at (vmetadata v))) raw = Inr (last_export_at (vmetadata v))"
    using raw by (simp add: raw_ok_def export_of_def export_flag_def split: option.splits)
  have l: "length (vault_salt v) = SALT_LEN" "length (probe_nonce v) = NONCE_LEN"
    "length (probe_ct v) = PROBE_CT_LEN" "length (k_hsm_wrap_blob v) \<le> 65535"
    "length (totp_seed_wrap_blob v) \<le> 65535" "length (sealed_index_nonce v) = NONCE_LEN"
    "length (sealed_index_ct v) \<le> 4294967295" "list_all envelope_wf (envelopes v)"
    "unat (u32_sat (length (envelopes v))) = length (envelopes v)"
    using wf by (auto simp: vault_wf_def MAX_HSM_BLOB_LEN_def u32_sat_unat)
  show ?thesis
    unfolding vault_from_bytes_def vault_layout_def reader_new_cur
      push_u16_prefixed_def push_u32_prefixed_def append_assoc
    by (simp add: vr8_Cons vr_appends v x l kdf_from_to_bytes read_envelopes_end
        del: append_assoc)
qed

lemma vault_from_bytes_Inr:
  assumes "vault_from_bytes b = Inr v"
  shows "vault_wf v \<and> (\<exists>raw. raw_ok raw v \<and> b = vault_layout raw v)"
proof -
  show ?thesis
    using assms
    apply (clarsimp simp: vault_from_bytes_def reader_new_cur and_then_Inr_iff vr_iffs)
    apply (drule read_envelopes_Inr export_of_Inr)+
    apply (clarsimp split: if_splits)
    apply (rule conjI)
     apply (fastforce simp add: vault_wf_def check_version_def check_algorithm_def MAX_HSM_BLOB_LEN_def unat32 split: if_splits)
    by (fastforce simp: raw_ok_def vault_layout_def kdf_to_from_bytes push_u16_prefixed_def
        push_u32_prefixed_def u32_sat_of_unat)
qed

section \<open>Every operation keeps the vault well-formed\<close>

lemma seal_index_lengths:
  assumes "seal_index E ix fv km g = (Inr (n, ct), g')" and "env_ok E"
  shows "length n = NONCE_LEN" and "length ct < 2 ^ 32"
proof -
  obtain pb where pb: "postcard_ser E ix = Some pb"
    and n: "n = fst (random_nonce E g)"
    and enc: "aead_encrypt E (hkdf_expand E km INDEX_INFO) n [fv]
        (if fv = FORMAT_VERSION_LEGACY_V1 then pb else pad_index_plaintext pb) = Inr ct"
    using assms(1) by (auto simp: seal_index_def Let_def split_def split: option.splits sum.splits)
  have b: "length pb < 2 ^ 31" using assms(2) pb by (auto simp: env_ok_def postcard_fits_def)
  have "length ct = length (if fv = FORMAT_VERSION_LEGACY_V1 then pb else pad_index_plaintext pb) + 16"
    using assms(2) enc by (intro aead_encrypt_length) (auto simp: env_ok_def)
  then show "length ct < 2 ^ 32"
    using b index_pad.pad_bounds [of pb] by (simp add: BUCKET_def split: if_splits)
  show "length n = NONCE_LEN" by (simp add: n NONCE_LEN_def)
qed

lemma vault_create_wf:
  assumes c: "vault_create E P salt kb sb meta km g = (Inr v, g')" and e: "env_ok E"
    and s: "length salt = SALT_LEN"
  shows "vault_wf v"
proof -
  obtain g1 n ct where "seal_index E index_new FORMAT_VERSION km g1 = (Inr (n, ct), g')"
    and "sealed_index_ct v = ct"
    using c by (auto simp: vault_create_def Let_def split: prod.splits sum.splits option.splits)
  then have "length (sealed_index_ct v) < 2 ^ 32" using seal_index_lengths(2) [OF _ e] by blast
  then show ?thesis
    using vault_create_Inr [OF c e] s by (simp add: vault_wf_def NONCE_LEN_def PROBE_CT_LEN_def)
qed

lemma reseal_index_wf:
  assumes "reseal_index E ix km (v, g) = (Inr (), v', g')" and "env_ok E" and "vault_wf v"
  shows "vault_wf v'"
  using assms seal_index_lengths
  by (fastforce simp: reseal_index_def vault_wf_def split: prod.splits sum.splits)

lemma length_put_envelope: "length (put_envelope env es) \<le> Suc (length es)"
  by (simp add: put_envelope_def split: option.split)

lemma list_all_put_envelope:
  "list_all P es \<Longrightarrow> P env \<Longrightarrow> list_all P (put_envelope env es)"
  by (simp add: put_envelope_def list_all_replace_first split: option.split)

lemma add_or_update_wf:
  assumes a: "add_or_update_entry E km i l p r (v, g) = (Inr (), v', g')"
    and e: "env_ok E" and wf: "vault_wf v" and i: "id_ok i"
    and r: "record_ok r" "record_len r < 2 ^ 31" and n: "length (envelopes v) + 1 < 2 ^ 32"
  shows "vault_wf v'"
proof -
  obtain env g1 ix where enc: "encrypt_entry E km (format_version v) i r g = (Inr env, g1)"
    and rs: "reseal_index E (snd (index_upsert \<lparr>ie_id = i, ie_label = l, ie_policy = p\<rparr> ix)) km
        (v\<lparr>envelopes := put_envelope env (envelopes v)\<rparr>, g1) = (Inr (), v', g')"
    using a by (auto simp: add_or_update_entry_def Let_def split: prod.splits sum.splits)
  have r32: "record_len r < 2 ^ 32" using r(2) by simp
  note x = encrypt_entry_opens [OF enc e r(1) r32]
  have "length (ev_ct env) < 2 ^ 32"
    using x(3) r(2) div_ceil_tight [of BUCKET "4 + record_len r"] by (simp add: BUCKET_def)
  moreover have "ev_ct_len env = u32_sat (length (ev_ct env))"
    using enc by (auto simp: encrypt_entry_def Let_def split_def split: sum.splits)
  ultimately have "envelope_wf env"
    using x(1,4) i by (simp add: envelope_wf_def NONCE_LEN_def)
  then have "vault_wf (v\<lparr>envelopes := put_envelope env (envelopes v)\<rparr>)"
    using wf n length_put_envelope [of env "envelopes v"]
    by (simp add: vault_wf_def list_all_put_envelope)
  then show ?thesis by (rule reseal_index_wf [OF rs e])
qed

lemma remove_entry_wf:
  assumes a: "remove_entry E km i (v, g) = (Inr (), v', g')"
    and e: "env_ok E" and wf: "vault_wf v"
  shows "vault_wf v'"
proof -
  obtain ix where rs: "reseal_index E (snd (index_remove i ix)) km
      (v\<lparr>envelopes := filter (\<lambda>e. ev_id e \<noteq> i) (envelopes v)\<rparr>, g) = (Inr (), v', g')"
    using a by (auto simp: remove_entry_def Let_def split: if_splits sum.splits)
  have "length (envelopes v) < 2 ^ 32" using wf by (simp add: vault_wf_def)
  then have "length (filter (\<lambda>e. ev_id e \<noteq> i) (envelopes v)) < 2 ^ 32"
    by (rule le_less_trans [OF length_filter_le])
  then have "vault_wf (v\<lparr>envelopes := filter (\<lambda>e. ev_id e \<noteq> i) (envelopes v)\<rparr>)"
    using wf by (auto simp: vault_wf_def list_all_iff)
  then show ?thesis by (rule reseal_index_wf [OF rs e])
qed

lemma setters_wf:
  "vault_wf v \<Longrightarrow> vault_wf (set_metadata m v)"
  "vault_wf v \<Longrightarrow> vault_wf (set_rate_limit c t v)"
  "vault_wf v \<Longrightarrow> vault_wf (snd (set_hsm_blobs kb sb v))"
  by (auto simp: vault_wf_def set_metadata_def set_rate_limit_def set_hsm_blobs_def
      check_blob_len_def and_then_def split: if_splits sum.splits)

section \<open>Properties\<close>

text \<open>Serializing a well-formed vault and parsing the bytes returns the same vault.\<close>

theorem vault_bytes_roundtrip: "vault_wf v \<Longrightarrow> vault_from_bytes (vault_to_bytes v) = Inr v"
  by (rule vault_from_to_bytes)

definition demo_vault :: vault where
  "demo_vault = \<lparr>format_version = 2, kdf_algorithm_id = 0, kdf_params_of = KDF_MEDIUM,
     vault_salt = replicate 32 3, probe_nonce = replicate 24 4, probe_ct = replicate 32 5,
     k_hsm_wrap_blob = [1, 2, 3], totp_seed_wrap_blob = [], rl_counter = 7, rl_last_failure = -1,
     vmetadata = \<lparr>last_password_change = 99, last_export_at = Some 5\<rparr>,
     sealed_index_nonce = replicate 24 6, sealed_index_ct = [8, 9],
     envelopes = [\<lparr>ev_id = demo_id, ev_nonce = replicate 24 1, ev_ct_len = 3, ev_ct = [1, 2, 3]\<rparr>]\<rparr>"

lemma demo_vault_wf: "vault_wf demo_vault"
  by (simp add: demo_vault_def vault_wf_def envelope_wf_def id_ok_def demo_id_def FORMAT_VERSION_def
      KDF_ALGORITHM_ARGON2ID_def SALT_LEN_def NONCE_LEN_def PROBE_CT_LEN_def MAX_HSM_BLOB_LEN_def
      ENTRY_ID_LEN_def u32_sat_def)

lemma vault_bytes_roundtrip_witness:
  "vault_wf demo_vault \<and> vault_from_bytes (vault_to_bytes demo_vault) = Inr demo_vault"
  using demo_vault_wf vault_bytes_roundtrip [OF demo_vault_wf] by blast

text \<open>The parser accepts exactly the layouts of well-formed vaults: no byte string with a
  truncated field, an inflated length, an unknown version, algorithm or flag, or trailing bytes
  is accepted, and the only freedom is the eight timestamp bytes behind an absent export flag.\<close>

lemma vault_parse_exact:
  "vault_from_bytes b = Inr v \<longleftrightarrow> vault_wf v \<and> (\<exists>raw. raw_ok raw v \<and> b = vault_layout raw v)"
  using vault_from_bytes_Inr vault_from_layout by blast

text \<open>The vaults the API can build under one master key: created, then mutated.\<close>

inductive built :: "'m vault_env_scheme \<Rightarrow> bytes \<Rightarrow> vault \<Rightarrow> bool" for E km where
  built_create: "vault_create E P salt kb sb meta km g = (Inr v, g') \<Longrightarrow> length salt = SALT_LEN \<Longrightarrow>
     built E km v"
| built_add: "built E km v \<Longrightarrow> add_or_update_entry E km i l p r (v, g) = (Inr (), v', g') \<Longrightarrow>
     id_ok i \<Longrightarrow> record_ok r \<Longrightarrow> record_len r < 2 ^ 31 \<Longrightarrow> length (envelopes v) + 1 < 2 ^ 32 \<Longrightarrow>
     built E km v'"
| built_remove: "built E km v \<Longrightarrow> remove_entry E km i (v, g) = (Inr (), v', g') \<Longrightarrow> built E km v'"
| built_metadata: "built E km v \<Longrightarrow> built E km (set_metadata m v)"
| built_rate_limit: "built E km v \<Longrightarrow> built E km (set_rate_limit c t v)"
| built_blobs: "built E km v \<Longrightarrow> set_hsm_blobs kb sb v = (x, v') \<Longrightarrow> built E km v'"

inductive_cases built_cases: "built E km v"

lemma open_index_frame:
  "format_version v = format_version w \<Longrightarrow> sealed_index_nonce v = sealed_index_nonce w \<Longrightarrow>
   sealed_index_ct v = sealed_index_ct w \<Longrightarrow> envelopes v = envelopes w \<Longrightarrow>
   open_index E v km = open_index E w km"
  by (simp add: open_index_def decrypt_index_def check_index_envelope_sets_def)

lemma verify_probe_frame:
  "v' = v\<lparr>envelopes := es, sealed_index_nonce := n, sealed_index_ct := ct\<rparr> \<Longrightarrow>
   verify_probe E v' km = verify_probe E v km"
  by (simp add: verify_probe_def)

lemma setter_frames [simp]:
  "open_index E (set_metadata m v) km = open_index E v km"
  "open_index E (set_rate_limit c t v) km = open_index E v km"
  "verify_probe E (set_metadata m v) km = verify_probe E v km"
  "verify_probe E (set_rate_limit c t v) km = verify_probe E v km"
  by (simp_all add: set_metadata_def set_rate_limit_def verify_probe_def open_index_def
      decrypt_index_def check_index_envelope_sets_def)

lemma set_hsm_blobs_frame:
  "set_hsm_blobs kb sb v = (x, v') \<Longrightarrow>
   open_index E v' km = open_index E v km \<and> verify_probe E v' km = verify_probe E v km"
  by (auto simp: set_hsm_blobs_def verify_probe_def split: sum.splits intro!: open_index_frame)

lemma built_inv:
  assumes e: "env_ok E" and b: "built E km v"
  shows "vault_wf v \<and> is_ok (open_index E v km) \<and> verify_probe E v km = Inr ()"
  using b
proof induction
  case (built_create P salt kb sb meta g v g')
  then show ?case using vault_create_wf [OF _ e] vault_create_Inr(1,2) [OF _ e] by fastforce
next
  case (built_add v i l p r g v' g')
  then obtain ix where ix: "open_index E v km = Inr ix" by (auto simp: is_ok_iff)
  have r: "record_len r < 2 ^ 32" using built_add by simp
  note a = add_or_update_Inr [OF built_add(2) e ix built_add(4) r]
  have "verify_probe E v' km = verify_probe E v km"
    using a(3) by (elim exE) (rule verify_probe_frame)
  moreover have "vault_wf v'"
    using add_or_update_wf [OF built_add(2) e] built_add by blast
  ultimately show ?case using a(1) built_add.IH by simp
next
  case (built_remove v i g v' g')
  then obtain ix where ix: "open_index E v km = Inr ix" by (auto simp: is_ok_iff)
  note a = remove_entry_Inr [OF built_remove(2) e ix]
  have "verify_probe E v' km = verify_probe E v km"
    using a(5) by (elim exE) (rule verify_probe_frame)
  moreover have "vault_wf v'" using remove_entry_wf [OF built_remove(2) e] built_remove by blast
  ultimately show ?case using a(1) built_remove.IH by simp
next
  case (built_metadata v m)
  then show ?case by (simp add: setters_wf(1))
next
  case (built_rate_limit v c t)
  then show ?case by (simp add: setters_wf(2))
next
  case (built_blobs v kb sb x v')
  then show ?case using setters_wf(3) [of v kb sb] set_hsm_blobs_frame [OF built_blobs(2), of E km]
    by simp
qed



end
