(* ===== verification/Totp.thy ===== *)
theory Totp
  imports Crypto
begin

text \<open>
  \<open>passman-totp\<close>: configuration, the HOTP value with its dynamic truncation, the clock, and the
  verifier with its skew window and in-memory replay cache.  HMAC (third party) is the argument
  \<open>hm\<close>: the tag of a message under a key, for each algorithm.
\<close>

datatype totp_error =
    InvalidConfig string
  | MalformedCode
  | Rejected
  | Replayed
  | ClockBeforeEpoch

datatype totp_algorithm = Sha1 | Sha256 | Sha512

type_synonym hmac = "totp_algorithm \<Rightarrow> bytes \<Rightarrow> bytes \<Rightarrow> bytes"

text \<open>SHA-1, SHA-256 and SHA-512 tags are 20, 32 and 64 bytes long.\<close>

definition hmac_ok :: "hmac \<Rightarrow> bool" where
  "hmac_ok hm \<longleftrightarrow> (\<forall>k m. length (hm Sha1 k m) = 20 \<and> length (hm Sha256 k m) = 32 \<and>
     length (hm Sha512 k m) = 64)"

section \<open>Configuration\<close>

record totp_config =
  tc_algorithm :: totp_algorithm
  tc_digits :: "8 word"
  tc_period :: "64 word"
  tc_skew_steps :: "8 word"

definition totp_config_new :: "totp_algorithm \<Rightarrow> 8 word \<Rightarrow> 64 word \<Rightarrow> 8 word \<Rightarrow> totp_error + totp_config" where
  "totp_config_new alg digits period skew =
     (if \<not> (6 \<le> digits \<and> digits \<le> 8) then Inl (InvalidConfig ''digits must be in 6..=8'')
      else if period = 0 then Inl (InvalidConfig ''period must be greater than 0'')
      else Inr \<lparr>tc_algorithm = alg, tc_digits = digits, tc_period = period, tc_skew_steps = skew\<rparr>)"

definition totp_config_default :: totp_config where
  "totp_config_default = \<lparr>tc_algorithm = Sha1, tc_digits = 6, tc_period = 30, tc_skew_steps = 1\<rparr>"

definition totp_config_ok :: "totp_config \<Rightarrow> bool" where
  "totp_config_ok cfg \<longleftrightarrow> 6 \<le> tc_digits cfg \<and> tc_digits cfg \<le> 8 \<and> tc_period cfg \<noteq> 0"

section \<open>HOTP\<close>

definition POW10 :: "32 word list" where
  "POW10 = [1, 10, 100, 1000, 10000, 100000, 1000000, 10000000, 100000000, 1000000000, 0]"

definition to_be64 :: "64 word \<Rightarrow> bytes" where
  "to_be64 w = rev (le_bytes 8 w)"

definition truncate_tag :: "bytes \<Rightarrow> 32 word" where
  "truncate_tag tag =
     (let offset = unat (tag ! (length tag - 1) AND 0x0f) in
      of_le (rev [tag ! offset AND 0x7f, tag ! (offset + 1), tag ! (offset + 2), tag ! (offset + 3)]))"

definition hotp_value :: "hmac \<Rightarrow> totp_algorithm \<Rightarrow> bytes \<Rightarrow> 64 word \<Rightarrow> 8 word \<Rightarrow> 32 word" where
  "hotp_value hm alg seed counter digits =
     truncate_tag (hm alg seed (to_be64 counter)) mod (POW10 ! unat digits)"

text \<open>The buffer filled from its last slot backwards.\<close>

fun digits_back :: "nat \<Rightarrow> 32 word \<Rightarrow> bytes" where
  "digits_back 0 v = []"
| "digits_back (Suc k) v = (48 + ucast (v mod 10)) # digits_back k (v div 10)"

definition format_padded :: "32 word \<Rightarrow> 8 word \<Rightarrow> bytes" where
  "format_padded v digits = rev (digits_back (unat digits) v)"

section \<open>Time\<close>

type_synonym timestamp = "64 word"

text \<open>The wall clock is the number of whole seconds since the epoch, negative before it.\<close>

definition try_now :: "int \<Rightarrow> totp_error + timestamp" where
  "try_now wall = (if wall < 0 then Inl ClockBeforeEpoch else Inr (of_int wall))"

definition system_clock_now :: "int \<Rightarrow> timestamp" where
  "system_clock_now wall = (case try_now wall of Inl _ \<Rightarrow> 0 | Inr t \<Rightarrow> t)"

definition current_step :: "timestamp \<Rightarrow> 64 word \<Rightarrow> 64 word" where
  "current_step ts period = ts div max period 1"

section \<open>Verifier\<close>

record totp_verifier =
  tv_config :: totp_config
  last_accepted_step :: "64 word option"

definition totp_verifier_new :: "totp_config \<Rightarrow> totp_verifier" where
  "totp_verifier_new cfg = \<lparr>tv_config = cfg, last_accepted_step = None\<rparr>"

definition parse_code :: "ustring \<Rightarrow> 8 word \<Rightarrow> totp_error + bytes" where
  "parse_code code digits =
     (let b = utf8_enc code in
      if length b \<noteq> unat digits then Inl MalformedCode
      else if \<not> list_all (\<lambda>c. 48 \<le> c \<and> c \<le> 57) b then Inl MalformedCode
      else Inr b)"

definition sat_sub64 :: "64 word \<Rightarrow> 64 word \<Rightarrow> 64 word" where
  "sat_sub64 a b = (if b \<le> a then a - b else 0)"

definition sat_add64 :: "64 word \<Rightarrow> 64 word \<Rightarrow> 64 word" where
  "sat_add64 a b = (if unat a + unat b < 2 ^ 64 then a + b else -1)"

definition step_range :: "64 word \<Rightarrow> 64 word \<Rightarrow> 64 word list" where
  "step_range first hi = map of_nat [unat first..<Suc (unat hi)]"

definition step_code :: "hmac \<Rightarrow> totp_config \<Rightarrow> bytes \<Rightarrow> 64 word \<Rightarrow> bytes" where
  "step_code hm cfg seed step =
     format_padded (hotp_value hm (tc_algorithm cfg) seed step (tc_digits cfg)) (tc_digits cfg)"

fun scan_steps :: "hmac \<Rightarrow> totp_config \<Rightarrow> bytes \<Rightarrow> bytes \<Rightarrow> 64 word list \<Rightarrow> 64 word option \<Rightarrow> 64 word option" where
  "scan_steps hm cfg seed cand [] matched = matched"
| "scan_steps hm cfg seed cand (s # ss) matched =
     scan_steps hm cfg seed cand ss (if ct_eq cand (step_code hm cfg seed s) then Some s else matched)"

definition totp_verify ::
  "hmac \<Rightarrow> bytes \<Rightarrow> ustring \<Rightarrow> timestamp \<Rightarrow> totp_verifier \<Rightarrow> (totp_error + unit) \<times> totp_verifier"
where
  "totp_verify hm seed code now v =
     (let cfg = tv_config v in
      case parse_code code (tc_digits cfg) of
        Inl e \<Rightarrow> (Inl e, v)
      | Inr cand \<Rightarrow>
        (let center = current_step now (tc_period cfg);
             skew = ucast (tc_skew_steps cfg);
             first = sat_sub64 center skew;
             hi = sat_add64 center skew in
         case scan_steps hm cfg seed cand (step_range first hi) None of
           None \<Rightarrow> (Inl Rejected, v)
         | Some step \<Rightarrow>
             (if (case last_accepted_step v of Some l \<Rightarrow> step \<le> l | None \<Rightarrow> False)
              then (Inl Replayed, v)
              else (Inr (), v\<lparr>last_accepted_step := Some step\<rparr>))))"

section \<open>Steps and codes\<close>

lemma unat64: "unat (w :: 64 word) < 18446744073709551616"
  using unat_lt [of w] by simp

lemma length_digits_back [simp]: "length (digits_back k v) = k"
  by (induction k v rule: digits_back.induct) auto

lemma length_step_code [simp]: "length (step_code hm cfg seed s) = unat (tc_digits cfg)"
  by (simp add: step_code_def format_padded_def)

lemma digits_back_inj:
  "unat v < 10 ^ k \<Longrightarrow> unat w < 10 ^ k \<Longrightarrow> digits_back k v = digits_back k w \<Longrightarrow> v = w"
proof (induction k arbitrary: v w)
  case 0
  then show ?case by (simp add: word_unat_eq_iff)
next
  case (Suc k)
  have small: "unat (x mod 10) < 10" for x :: "32 word" by (simp add: unat_mod_distrib)
  have "(ucast (v mod 10) :: 8 word) = ucast (w mod 10)" using Suc.prems(3) by simp
  then have "unat (ucast (v mod 10) :: 8 word) = unat (ucast (w mod 10) :: 8 word)" by simp
  then have m: "unat v mod 10 = unat w mod 10"
    using small [of v] small [of w]
    by (simp add: unsigned_ucast_eq take_bit_nat_eq_self unat_mod_distrib)
  have d: "unat (x div 10) = unat x div 10" for x :: "32 word" by (simp add: unat_div_distrib)
  have "v div 10 = w div 10"
    using Suc.prems by (intro Suc.IH) (simp_all add: d less_mult_imp_div_less mult.commute)
  then have "unat v div 10 = unat w div 10" by (metis d)
  then have "unat v = unat w" using m by (metis div_mult_mod_eq)
  then show ?case by (simp add: word_unat_eq_iff)
qed

lemma truncate_31_bit: "unat (truncate_tag tag) < 2 ^ 31"
proof -
  have "bit (truncate_tag tag) 31 = False"
    by (simp add: truncate_tag_def Let_def bit_of_le bit_and_iff)
  then have "\<not> bit (truncate_tag tag) 31" by simp
  then have "take_bit 31 (truncate_tag tag) = truncate_tag tag"
    by (intro bit_word_eqI) (auto simp: bit_take_bit_iff less_Suc_eq numeral_eq_Suc)
  then have "unat (truncate_tag tag) = take_bit 31 (unat (truncate_tag tag))"
    by (metis unsigned_take_bit_eq)
  then show ?thesis by (metis take_bit_nat_less_exp)
qed

lemma config_digits:
  "totp_config_ok cfg \<Longrightarrow> tc_digits cfg = 6 \<or> tc_digits cfg = 7 \<or> tc_digits cfg = 8"
proof -
  assume "totp_config_ok cfg"
  then have "unat (tc_digits cfg) \<in> {6, 7, 8}"
    by (auto simp: totp_config_ok_def word_le_nat_alt)
  then show ?thesis by (auto simp: word_unat_eq_iff)
qed

lemma pow10_table: "d = 6 \<or> d = 7 \<or> d = 8 \<Longrightarrow> unat (POW10 ! unat d) = 10 ^ unat (d :: 8 word)"
  by (auto simp: POW10_def)

lemma hotp_value_bound:
  "totp_config_ok cfg \<Longrightarrow> unat (hotp_value hm alg seed c (tc_digits cfg)) < 10 ^ unat (tc_digits cfg)"
  using pow10_table [OF config_digits, of cfg] by (simp add: hotp_value_def unat_mod_distrib)

lemma step_code_eq_iff:
  "totp_config_ok cfg \<Longrightarrow> step_code hm cfg seed s = step_code hm cfg seed' t \<longleftrightarrow>
     hotp_value hm (tc_algorithm cfg) seed s (tc_digits cfg) =
     hotp_value hm (tc_algorithm cfg) seed' t (tc_digits cfg)"
  using hotp_value_bound digits_back_inj by (fastforce simp: step_code_def format_padded_def)

section \<open>The window\<close>

definition in_window :: "totp_config \<Rightarrow> timestamp \<Rightarrow> 64 word \<Rightarrow> bool" where
  "in_window cfg now s \<longleftrightarrow>
     unat (current_step now (tc_period cfg)) \<le> unat s + unat (tc_skew_steps cfg) \<and>
     unat s \<le> unat (current_step now (tc_period cfg)) + unat (tc_skew_steps cfg)"

definition code_matches :: "hmac \<Rightarrow> totp_config \<Rightarrow> bytes \<Rightarrow> ustring \<Rightarrow> timestamp \<Rightarrow> 64 word \<Rightarrow> bool" where
  "code_matches hm cfg seed code now s \<longleftrightarrow>
     in_window cfg now s \<and> step_code hm cfg seed s = utf8_enc code"

lemma set_step_range: "set (step_range a b) = {s. a \<le> s \<and> s \<le> b}"
proof (intro set_eqI iffI)
  fix s assume "s \<in> set (step_range a b)"
  then obtain k where k: "unat a \<le> k" "k \<le> unat b" "s = of_nat k" by (auto simp: step_range_def)
  have "unat s = k" using k(2,3) unat64 [of b] by (simp add: unat_of_nat)
  then show "s \<in> {s. a \<le> s \<and> s \<le> b}" using k by (simp add: word_le_nat_alt)
next
  fix s assume "s \<in> {s. a \<le> s \<and> s \<le> b}"
  then have "unat s \<in> set [unat a..<Suc (unat b)]"
    unfolding word_le_nat_alt set_upt by (simp only: mem_Collect_eq atLeastLessThan_iff less_Suc_eq_le)
  then have "of_nat (unat s) \<in> set (step_range a b)" unfolding step_range_def set_map by (rule imageI)
  then show "s \<in> set (step_range a b)" by simp
qed

lemma sorted_step_range: "sorted_wrt (<) (step_range a b)"
proof -
  have "sorted_wrt (\<lambda>x y. (of_nat x :: 64 word) < of_nat y) [unat a..<Suc (unat b)]"
  proof (rule sorted_wrt_mono_rel [of _ "(<)"])
    fix x y :: nat
    assume "x \<in> set [unat a..<Suc (unat b)]" "y \<in> set [unat a..<Suc (unat b)]" "x < y"
    then have "x < 18446744073709551616" "y < 18446744073709551616" "x < y"
      using unat64 [of b] unfolding set_upt atLeastLessThan_iff less_Suc_eq_le by linarith+
    then show "(of_nat x :: 64 word) < of_nat y"
      by (simp add: word_less_nat_alt unat_of_nat)
  qed (rule sorted_wrt_upt)
  then show ?thesis by (simp add: step_range_def sorted_wrt_map)
qed

lemma window_bounds:
  "sat_sub64 (current_step now (tc_period cfg)) (ucast (tc_skew_steps cfg)) \<le> s \<and>
   s \<le> sat_add64 (current_step now (tc_period cfg)) (ucast (tc_skew_steps cfg)) \<longleftrightarrow> in_window cfg now s"
proof -
  let ?c = "current_step now (tc_period cfg)" and ?k = "ucast (tc_skew_steps cfg) :: 64 word"
  have k: "unat ?k = unat (tc_skew_steps cfg)" by (simp add: unat_ucast_up)
  have "unat (sat_sub64 ?c ?k) = unat ?c - unat ?k"
    by (auto simp: sat_sub64_def word_le_nat_alt unat_sub)
  moreover have "unat s \<le> unat (sat_add64 ?c ?k) \<longleftrightarrow> unat s \<le> unat ?c + unat ?k"
  proof (cases "unat ?c + unat ?k < 2 ^ 64")
    case True
    then show ?thesis by (simp add: sat_add64_def unat_word_ariths)
  next
    case False
    have "unat (-1 :: 64 word) = 18446744073709551615"
      by (simp add: unsigned_minus_1_eq_mask mask_eq_exp_minus_1)
    then show ?thesis using False unat64 [of s] by (simp add: sat_add64_def)
  qed
  ultimately show ?thesis by (auto simp: in_window_def word_le_nat_alt k)
qed

lemma scan_steps_filter:
  "scan_steps hm cfg seed cand ss m =
     (let hits = filter (\<lambda>s. cand = step_code hm cfg seed s) ss in
      if hits = [] then m else Some (last hits))"
  by (induction ss arbitrary: m) (auto simp: Let_def)

lemma last_is_max: "sorted_wrt (<) xs \<Longrightarrow> x \<in> set xs \<Longrightarrow> x \<le> last (xs :: 'a::linorder list)"
  by (induction xs) (auto simp: less_imp_le)

definition window_steps :: "totp_config \<Rightarrow> timestamp \<Rightarrow> 64 word list" where
  "window_steps cfg now =
     step_range (sat_sub64 (current_step now (tc_period cfg)) (ucast (tc_skew_steps cfg)))
       (sat_add64 (current_step now (tc_period cfg)) (ucast (tc_skew_steps cfg)))"

lemma scan_None:
  "scan_steps hm cfg seed (utf8_enc code) (window_steps cfg now) None = None \<longleftrightarrow>
     (\<forall>s. \<not> code_matches hm cfg seed code now s)"
  by (auto simp: scan_steps_filter Let_def filter_empty_conv window_steps_def set_step_range
      window_bounds code_matches_def)

lemma scan_Some:
  "scan_steps hm cfg seed (utf8_enc code) (window_steps cfg now) None = Some s \<longleftrightarrow>
     code_matches hm cfg seed code now s \<and> (\<forall>t. code_matches hm cfg seed code now t \<longrightarrow> t \<le> s)"
proof -
  let ?h = "filter (\<lambda>s. utf8_enc code = step_code hm cfg seed s) (window_steps cfg now)"
  have st: "sorted_wrt (<) ?h"
    by (intro sorted_wrt_filter) (simp add: window_steps_def sorted_step_range)
  have mem: "t \<in> set ?h \<longleftrightarrow> code_matches hm cfg seed code now t" for t
    by (auto simp: window_steps_def set_step_range window_bounds code_matches_def)
  show ?thesis
  proof (cases "?h = []")
    case True
    then show ?thesis using mem by (auto simp: scan_steps_filter)
  next
    case False
    then have l: "last ?h \<in> set ?h" by (rule last_in_set)
    have "s = last ?h \<longleftrightarrow> s \<in> set ?h \<and> (\<forall>t \<in> set ?h. t \<le> s)"
      using l last_is_max [OF st] by (meson antisym)
    then show ?thesis using False mem by (auto simp: scan_steps_filter)
  qed
qed

section \<open>Verification\<close>

lemma parse_code_Inr: "parse_code code d = Inr b \<Longrightarrow> b = utf8_enc code"
  by (auto simp: parse_code_def Let_def split: if_splits)

definition code_wf :: "totp_config \<Rightarrow> ustring \<Rightarrow> bool" where
  "code_wf cfg code \<longleftrightarrow> length (utf8_enc code) = unat (tc_digits cfg) \<and>
     list_all (\<lambda>c. 48 \<le> c \<and> c \<le> 57) (utf8_enc code)"

lemma parse_code_eq: "parse_code code (tc_digits cfg) =
    (if code_wf cfg code then Inr (utf8_enc code) else Inl MalformedCode)"
  by (auto simp: parse_code_def code_wf_def Let_def)

lemma totp_verify_unfold:
  "totp_verify hm seed code now v =
     (if \<not> code_wf (tv_config v) code then (Inl MalformedCode, v)
      else case scan_steps hm (tv_config v) seed (utf8_enc code) (window_steps (tv_config v) now) None of
          None \<Rightarrow> (Inl Rejected, v)
        | Some step \<Rightarrow>
            (if (case last_accepted_step v of Some l \<Rightarrow> step \<le> l | None \<Rightarrow> False)
             then (Inl Replayed, v) else (Inr (), v\<lparr>last_accepted_step := Some step\<rparr>)))"
  by (simp add: totp_verify_def parse_code_eq window_steps_def Let_def)

text \<open>A run of verifications on one verifier, and the steps it accepted.\<close>

type_synonym totp_request = "bytes \<times> ustring \<times> timestamp"

fun accepted_steps :: "hmac \<Rightarrow> totp_verifier \<Rightarrow> totp_request list \<Rightarrow> 64 word list" where
  "accepted_steps hm v [] = []"
| "accepted_steps hm v ((seed, code, now) # rs) =
     (case totp_verify hm seed code now v of
        (Inl _, v') \<Rightarrow> accepted_steps hm v' rs
      | (Inr _, v') \<Rightarrow> the (last_accepted_step v') # accepted_steps hm v' rs)"

lemma totp_verify_Inl: "totp_verify hm seed code now v = (Inl e, v') \<Longrightarrow> v' = v"
  by (auto simp: totp_verify_unfold split: if_splits option.splits)

lemma totp_verify_Inr:
  "totp_verify hm seed code now v = (Inr u, v') \<Longrightarrow>
   \<exists>s. v' = v\<lparr>last_accepted_step := Some s\<rparr> \<and> (\<forall>l. last_accepted_step v = Some l \<longrightarrow> l < s)"
  by (auto simp: totp_verify_unfold split: if_splits option.splits)

lemma accepted_steps_above:
  "s \<in> set (accepted_steps hm v rs) \<Longrightarrow> last_accepted_step v = Some l \<Longrightarrow> l < s"
proof (induction hm v rs arbitrary: l rule: accepted_steps.induct)
  case (1 hm v)
  then show ?case by simp
next
  case (2 hm v seed code now rs)
  obtain r v' where t: "totp_verify hm seed code now v = (r, v')" by (cases "totp_verify hm seed code now v")
  show ?case
  proof (cases r)
    case (Inl e)
    then show ?thesis using 2 t totp_verify_Inl [of hm seed code now v e v'] by auto
  next
    case (Inr u)
    obtain q where q: "v' = v\<lparr>last_accepted_step := Some q\<rparr>" "l < q"
      using totp_verify_Inr [of hm seed code now v u v'] t Inr 2(4) by auto
    have "q < s" if "s \<in> set (accepted_steps hm v' rs)"
      using 2(2) [OF t [symmetric] Inr that] q by simp
    moreover have "s = q \<or> s \<in> set (accepted_steps hm v' rs)" using 2(3) t Inr q by auto
    ultimately show ?thesis using q(2) by auto
  qed
qed

lemma accepted_steps_sorted: "sorted_wrt (<) (accepted_steps hm v rs)"
proof (induction hm v rs rule: accepted_steps.induct)
  case (1 hm v)
  then show ?case by simp
next
  case (2 hm v seed code now rs)
  obtain r v' where t: "totp_verify hm seed code now v = (r, v')" by (cases "totp_verify hm seed code now v")
  show ?case
  proof (cases r)
    case (Inl e)
    then show ?thesis using 2 t by auto
  next
    case (Inr u)
    obtain q where q: "v' = v\<lparr>last_accepted_step := Some q\<rparr>"
      using totp_verify_Inr [of hm seed code now v u v'] t Inr by auto
    have "\<forall>s \<in> set (accepted_steps hm v' rs). q < s"
      using accepted_steps_above [of _ hm v' rs q] q by auto
    then show ?thesis using 2(2) [OF t [symmetric]] t Inr q by auto
  qed
qed

section \<open>Properties\<close>

text \<open>C9. A code is accepted exactly when it is a decimal string of the configured width that
  equals the code of some step of the skew window, and the highest such step is later than
  every step accepted before; that step then becomes the last accepted one.\<close>

theorem totp_accepts_exactly:
  "totp_verify hm seed code now v = (Inr (), v') \<longleftrightarrow>
     code_wf (tv_config v) code \<and>
     (\<exists>s. code_matches hm (tv_config v) seed code now s \<and>
        (\<forall>t. code_matches hm (tv_config v) seed code now t \<longrightarrow> t \<le> s) \<and>
        (\<forall>l. last_accepted_step v = Some l \<longrightarrow> l < s) \<and> v' = v\<lparr>last_accepted_step := Some s\<rparr>)"
proof (cases "code_wf (tv_config v) code")
  case False
  then show ?thesis by (simp add: totp_verify_unfold)
next
  case True
  let ?scan = "scan_steps hm (tv_config v) seed (utf8_enc code) (window_steps (tv_config v) now) None"
  show ?thesis
  proof (cases ?scan)
    case None
    then show ?thesis using True scan_None [of hm "tv_config v" seed code now]
      by (simp add: totp_verify_unfold)
  next
    case (Some s)
    then have m: "code_matches hm (tv_config v) seed code now s"
      "\<And>t. code_matches hm (tv_config v) seed code now t \<Longrightarrow> t \<le> s"
      using scan_Some [of hm "tv_config v" seed code now s] by auto
    then have u: "code_matches hm (tv_config v) seed code now t \<and>
        (\<forall>r. code_matches hm (tv_config v) seed code now r \<longrightarrow> r \<le> t) \<longleftrightarrow> t = s" for t
      by (meson antisym)
    have "totp_verify hm seed code now v = (Inr (), v') \<longleftrightarrow>
        (\<forall>l. last_accepted_step v = Some l \<longrightarrow> l < s) \<and> v' = v\<lparr>last_accepted_step := Some s\<rparr>"
    proof (cases "last_accepted_step v")
      case None
      then show ?thesis using True Some by (auto simp: totp_verify_unfold)
    next
      case (Some l)
      then show ?thesis using True \<open>?scan = Some s\<close> by (auto simp: totp_verify_unfold not_le)
    qed
    also have "\<dots> \<longleftrightarrow> (\<exists>t. t = s \<and> (\<forall>l. last_accepted_step v = Some l \<longrightarrow> l < t) \<and>
        v' = v\<lparr>last_accepted_step := Some t\<rparr>)"
      by blast
    finally show ?thesis using True by (simp only: u [symmetric] conj_assoc simp_thms)
  qed
qed

definition toy_hmac :: hmac where
  "toy_hmac alg k m =
     (let b = take 8 (m @ replicate 8 0) in
      b @ replicate (case alg of Sha1 \<Rightarrow> 11 | Sha256 \<Rightarrow> 23 | Sha512 \<Rightarrow> 55) 0 @ [4])"

lemma toy_hmac_ok: "hmac_ok toy_hmac"
  by (simp add: hmac_ok_def toy_hmac_def Let_def min_def)

definition demo_totp :: totp_config where
  "demo_totp = \<lparr>tc_algorithm = Sha1, tc_digits = 6, tc_period = 30, tc_skew_steps = 0\<rparr>"

lemma digits_back_numeral [simp]:
  "digits_back (numeral k) v = (48 + ucast (v mod 10)) # digits_back (pred_numeral k) (v div 10)"
  by (simp add: numeral_eq_Suc)

lemma demo_step_code: "step_code toy_hmac demo_totp [9] 1 = utf8_enc (ustr ''000001'')"
proof -
  have "[0..<8] = [0, 1, 2, 3, 4, 5, 6, 7 :: nat]" by (simp add: upt_rec)
  then have "to_be64 1 = [0, 0, 0, 0, 0, 0, 0, 1]" by (simp add: to_be64_def le_bytes_def)
  then have "toy_hmac Sha1 [9] (to_be64 1) = [0, 0, 0, 0, 0, 0, 0, 1, 0, 0, 0, 0, 0, 0, 0, 0, 0, 0, 0, 4]"
    by (simp add: toy_hmac_def Let_def eval_nat_numeral)
  then have "truncate_tag (toy_hmac Sha1 [9] (to_be64 1)) = 1"
    by (simp add: truncate_tag_def of_le.simps Let_def)
  then have "hotp_value toy_hmac Sha1 [9] 1 6 = 1" by (simp add: hotp_value_def POW10_def)
  then show ?thesis
    by (simp add: step_code_def demo_totp_def format_padded_def ustr_def utf8_enc_def enc1_def b8_def)
qed

lemma totp_accepts_exactly_witness:
  "totp_verify toy_hmac [9] (ustr ''000001'') 30 (totp_verifier_new demo_totp) =
     (Inr (), \<lparr>tv_config = demo_totp, last_accepted_step = Some 1\<rparr>)"
proof -
  have w: "in_window demo_totp 30 t \<longleftrightarrow> t = 1" for t
    by (auto simp: in_window_def demo_totp_def current_step_def word_unat_eq_iff)
  have "code_wf demo_totp (ustr ''000001'')"
    by (simp add: code_wf_def demo_totp_def ustr_def utf8_enc_def enc1_def b8_def)
  then show ?thesis
    using demo_step_code
    by (subst totp_accepts_exactly) (auto simp: totp_verifier_new_def code_matches_def w)
qed

text \<open>C10. No replay: over any sequence of codes, seeds and times, the steps one verifier accepts
  strictly increase, so no step is accepted twice.\<close>

theorem totp_no_replay:
  "sorted_wrt (<) (accepted_steps hm v rs) \<and> distinct (accepted_steps hm v rs)"
  using accepted_steps_sorted [of hm v rs] strict_sorted_iff [of "accepted_steps hm v rs"] by simp

text \<open>Under a valid configuration every HOTP value has fewer digits than the code width, so
  the zero-padded codes are in bijection with the values: two steps share a code exactly when
  they share a value.\<close>

theorem totp_codes_faithful:
  assumes "totp_config_new alg digits period skew = Inr cfg"
  shows "unat (hotp_value hm alg seed c digits) < 10 ^ unat digits \<and>
     length (step_code hm cfg seed c) = unat digits \<and>
     (step_code hm cfg seed c = step_code hm cfg seed' c' \<longleftrightarrow>
        hotp_value hm alg seed c digits = hotp_value hm alg seed' c' digits)"
proof -
  have ok: "totp_config_ok cfg" and f: "tc_algorithm cfg = alg" "tc_digits cfg = digits"
    using assms by (auto simp: totp_config_new_def totp_config_ok_def split: if_splits)
  show ?thesis
    using hotp_value_bound [OF ok, of hm alg seed c] step_code_eq_iff [OF ok, of hm seed c seed' c'] f
    by simp
qed

lemma totp_codes_faithful_witness:
  "unat (hotp_value toy_hmac Sha256 [1] 5 8) < 10 ^ 8 \<and>
   length (step_code toy_hmac \<lparr>tc_algorithm = Sha256, tc_digits = 8, tc_period = 60, tc_skew_steps = 1\<rparr> [1] 5) = 8"
  using totp_codes_faithful [of Sha256 8 60 1
      "\<lparr>tc_algorithm = Sha256, tc_digits = 8, tc_period = 60, tc_skew_steps = 1\<rparr>" toy_hmac "[1]" 5]
  by (simp add: totp_config_new_def)

end
