(* ===== verification/RecoveryPayload.thy ===== *)
theory RecoveryPayload
  imports Crypto
begin

text \<open>
  \<open>passman-recovery\<close>, \<open>error.rs\<close>, \<open>reader.rs\<close> and \<open>payload.rs\<close>: the error taxonomy, the checked
  cursor of the recovery parser (its laws are those of \<open>byte_cursor\<close>, \<open>int_reader\<close> and
  \<open>vec_reader\<close>, discharged here for this crate's operations), and the authenticated payload.
\<close>

datatype recovery_error =
    RTruncated string nat
  | RTrailingBytes nat
  | RBadMagic
  | RUnsupportedVersion byte byte
  | RUnsupportedKdfAlgorithm byte
  | RWeakParams "32 word" "32 word" byte "32 word" "32 word" byte
  | RKdfParamsOutOfRange "32 word" "32 word" byte
  | RDecrypt
  | RMalformedPayload string
  | RCrypto crypto_error

section \<open>The cursor\<close>

definition rr_remaining :: "reader \<Rightarrow> nat" where
  "rr_remaining r = length (buf r) - pos r"

definition rr_expect_eof :: "reader \<Rightarrow> recovery_error + unit" where
  "rr_expect_eof r = (if rr_remaining r = 0 then Inr () else Inl (RTrailingBytes (rr_remaining r)))"

definition rr_take :: "nat \<Rightarrow> string \<Rightarrow> reader \<Rightarrow> recovery_error + bytes \<times> reader" where
  "rr_take n field r =
     (if n > rr_remaining r then Inl (RTruncated field (pos r))
      else Inr (take n (drop (pos r) (buf r)), r\<lparr>pos := pos r + n\<rparr>))"

definition rr_read_u8 :: "string \<Rightarrow> reader \<Rightarrow> recovery_error + byte \<times> reader" where
  "rr_read_u8 field r = and_then (rr_take 1 field r) (\<lambda>(b, r'). Inr (b ! 0, r'))"

definition rr_read_u32_le :: "string \<Rightarrow> reader \<Rightarrow> recovery_error + 32 word \<times> reader" where
  "rr_read_u32_le field r = and_then (rr_take 4 field r) (\<lambda>(b, r'). Inr (of_le b, r'))"

definition rr_read_u32_prefixed_vec :: "string \<Rightarrow> reader \<Rightarrow> recovery_error + bytes \<times> reader" where
  "rr_read_u32_prefixed_vec field r =
     and_then (rr_read_u32_le field r) (\<lambda>(len, r'). rr_take (unat len) field r')"

definition rr_read_u32_prefixed_secret_string ::
  "string \<Rightarrow> reader \<Rightarrow> recovery_error + secret_string \<times> reader" where
  "rr_read_u32_prefixed_secret_string field r =
     and_then (rr_read_u32_le field r) (\<lambda>(len, r1).
     and_then (rr_take (unat len) field r1) (\<lambda>(body, r2).
     and_then (ok_or (RMalformedPayload ''text field is not valid UTF-8'') (from_utf8 body)) (\<lambda>text.
       Inr (text, r2))))"

lemma rr_expect_eof_cur [simp]:
  "rr_expect_eof (cur pre post) = (if post = [] then Inr () else Inl (RTrailingBytes (length post)))"
  by (simp add: rr_expect_eof_def rr_remaining_def cur_def)

interpretation rr: byte_cursor rr_take RTruncated
proof unfold_locales
  fix n f pre post
  show "n \<le> length post \<Longrightarrow>
      rr_take n f (cur pre post) = Inr (take n post, cur (pre @ take n post) (drop n post))"
    by (simp add: rr_take_def rr_remaining_def cur_def)
  show "length post < n \<Longrightarrow> rr_take n f (cur pre post) = Inl (RTruncated f (length pre))"
    by (simp add: rr_take_def rr_remaining_def cur_def)
qed

interpretation rr8: int_reader rr_take RTruncated rr_read_u8 "\<lambda>b. [b]" "\<lambda>b. b ! 0" 1
  by unfold_locales (auto simp: rr_read_u8_def length_Suc_conv)

interpretation rr32: int_reader rr_take RTruncated rr_read_u32_le "le_bytes 4" of_le 4
  by unfold_locales (simp_all add: rr_read_u32_le_def of_le_le_bytes le_bytes_of_le)

interpretation rrv: vec_reader rr_take RTruncated rr_read_u32_le "le_bytes 4" of_le 4
  rr_read_u32_prefixed_vec unat u32_sat 4294967295
proof unfold_locales
  fix f r k and v :: "32 word"
  show "rr_read_u32_prefixed_vec f r = and_then (rr_read_u32_le f r) (\<lambda>(v, r'). rr_take (unat v) f r')"
    by (simp add: rr_read_u32_prefixed_vec_def)
  show "k \<le> 4294967295 \<Longrightarrow> unat (u32_sat k) = k" by (simp add: u32_sat_unat)
  show "u32_sat (unat v) = v" by (rule u32_sat_of_unat)
  show "unat v \<le> 4294967295" using unat32 [of v] by simp
qed

text \<open>A text field is a prefixed vector that decodes as UTF-8.\<close>

lemma rr_text_eq:
  "rr_read_u32_prefixed_secret_string f r =
     and_then (rr_read_u32_prefixed_vec f r) (\<lambda>(b, r').
     and_then (ok_or (RMalformedPayload ''text field is not valid UTF-8'') (from_utf8 b)) (\<lambda>s. Inr (s, r')))"
  by (cases "rr_read_u32_le f r")
    (auto simp: rr_read_u32_prefixed_secret_string_def rr_read_u32_prefixed_vec_def)

lemmas rr_appends = rr.tk_append rr8.rd_append rr32.rd_append rrv.rdv_append
lemmas rr_iffs = rr.tk_Inr_iff rr8.rd_Inr_iff rr32.rd_Inr_iff rrv.rdv_Inr_iff
lemmas rr_errs = rr.tk_Inl_iff rr8.rd_Inl_iff rr32.rd_Inl_iff

section \<open>The payload\<close>

definition PAYLOAD_VERSION :: byte where "PAYLOAD_VERSION = 1"
definition RECOVERY_ID_LEN :: nat where "RECOVERY_ID_LEN = 16"
definition TOTP_SEED_LEN :: nat where "TOTP_SEED_LEN = 32"

record recovery_entry =
  re_id :: bytes
  re_label :: ustring
  re_username :: secret_string
  re_password :: secret_string
  re_url :: secret_string
  re_notes :: secret_string
  re_policy :: bytes

record export_payload =
  totp_seed :: bytes
  original_vault_kdf :: kdf_params
  entries :: "recovery_entry list"

definition rec_push :: "bytes \<Rightarrow> bytes" where
  "rec_push body = le_bytes 4 (u32_sat (length body)) @ body"

definition encode_recovery_entry :: "recovery_entry \<Rightarrow> bytes" where
  "encode_recovery_entry e =
     re_id e @ rec_push (utf8_enc (re_label e)) @ rec_push (expose_bytes (re_username e)) @
     rec_push (expose_bytes (re_password e)) @ rec_push (expose_bytes (re_url e)) @
     rec_push (expose_bytes (re_notes e)) @ rec_push (re_policy e)"

definition encode_payload :: "export_payload \<Rightarrow> bytes" where
  "encode_payload p =
     [PAYLOAD_VERSION] @ totp_seed p @ kdf_to_bytes (original_vault_kdf p) @
     le_bytes 4 (u32_sat (length (entries p))) @ concat (map encode_recovery_entry (entries p))"

definition decode_recovery_entry :: "reader \<Rightarrow> recovery_error + recovery_entry \<times> reader" where
  "decode_recovery_entry r =
     and_then (rr_take RECOVERY_ID_LEN ''entry_id'' r) (\<lambda>(i, r).
     and_then (rr_read_u32_prefixed_vec ''label'' r) (\<lambda>(label_bytes, r).
     and_then (ok_or (RMalformedPayload ''label is not valid UTF-8'') (from_utf8 label_bytes)) (\<lambda>label.
     and_then (rr_read_u32_prefixed_secret_string ''username'' r) (\<lambda>(u, r).
     and_then (rr_read_u32_prefixed_secret_string ''password'' r) (\<lambda>(p, r).
     and_then (rr_read_u32_prefixed_secret_string ''url'' r) (\<lambda>(l, r).
     and_then (rr_read_u32_prefixed_secret_string ''notes'' r) (\<lambda>(n, r).
     and_then (rr_read_u32_prefixed_vec ''policy'' r) (\<lambda>(y, r).
       Inr (\<lparr>re_id = i, re_label = label, re_username = u, re_password = p, re_url = l,
             re_notes = n, re_policy = y\<rparr>, r)))))))))"

fun decode_recovery_entries :: "nat \<Rightarrow> reader \<Rightarrow> recovery_error + recovery_entry list \<times> reader" where
  "decode_recovery_entries 0 r = Inr ([], r)"
| "decode_recovery_entries (Suc k) r =
     and_then (decode_recovery_entry r) (\<lambda>(e, r').
     and_then (decode_recovery_entries k r') (\<lambda>(es, r''). Inr (e # es, r'')))"

definition decode_payload :: "bytes \<Rightarrow> recovery_error + export_payload" where
  "decode_payload b =
     and_then (rr_read_u8 ''payload_version'' (reader_new b)) (\<lambda>(version, r).
     and_then (if version \<noteq> PAYLOAD_VERSION then Inl (RMalformedPayload ''unsupported payload version'')
               else Inr ()) (\<lambda>_.
     and_then (rr_take TOTP_SEED_LEN ''totp_seed'' r) (\<lambda>(seed, r).
     and_then (rr_take 9 ''original_vault_kdf'' r) (\<lambda>(k, r).
     and_then (rr_read_u32_le ''entry_count'' r) (\<lambda>(n, r).
     and_then (decode_recovery_entries (unat n) r) (\<lambda>(es, r).
     and_then (rr_expect_eof r) (\<lambda>_.
       Inr \<lparr>totp_seed = seed, original_vault_kdf = kdf_from_bytes k, entries = es\<rparr>)))))))"

section \<open>Well-formed payloads\<close>

text \<open>The invariants of the Rust types (fixed-size arrays, UTF-8 strings) and of the 32-bit
  length prefixes.\<close>

definition text_fits :: "ustring \<Rightarrow> bool" where
  "text_fits s \<longleftrightarrow> str_ok s \<and> length (utf8_enc s) < 2 ^ 32"

definition recovery_entry_wf :: "recovery_entry \<Rightarrow> bool" where
  "recovery_entry_wf e \<longleftrightarrow> length (re_id e) = RECOVERY_ID_LEN \<and> text_fits (re_label e) \<and>
     text_fits (re_username e) \<and> text_fits (re_password e) \<and> text_fits (re_url e) \<and>
     text_fits (re_notes e) \<and> length (re_policy e) < 2 ^ 32"

definition payload_wf :: "export_payload \<Rightarrow> bool" where
  "payload_wf p \<longleftrightarrow> length (totp_seed p) = TOTP_SEED_LEN \<and> length (entries p) < 2 ^ 32 \<and>
     list_all recovery_entry_wf (entries p)"

lemma rr8_Cons: "rr_read_u8 f (cur pre (b # post)) = Inr (b, cur (pre @ [b]) post)"
  using rr8.rd_append [of f pre b post] by simp

lemma vec_append:
  "length b < 2 ^ 32 \<Longrightarrow>
   rr_read_u32_prefixed_vec f (cur pre (rec_push b @ post)) = Inr (b, cur (pre @ rec_push b) post)"
  by (simp add: rec_push_def rr_appends)

lemma vec_Inr:
  "rr_read_u32_prefixed_vec f (cur pre post) = Inr (b, r) \<longleftrightarrow>
     length b < 2 ^ 32 \<and> (\<exists>post'. post = rec_push b @ post' \<and> r = cur (pre @ rec_push b) post')"
  by (auto simp: rec_push_def rr_iffs)

lemma text_append:
  "text_fits s \<Longrightarrow> rr_read_u32_prefixed_secret_string f (cur pre (rec_push (expose_bytes s) @ post)) =
     Inr (s, cur (pre @ rec_push (expose_bytes s)) post)"
  by (simp add: rr_text_eq vec_append text_fits_def expose_bytes_def from_utf8_enc)

lemma text_Inr:
  "rr_read_u32_prefixed_secret_string f (cur pre post) = Inr (s, r) \<longleftrightarrow>
     text_fits s \<and> (\<exists>post'. post = rec_push (expose_bytes s) @ post' \<and>
       r = cur (pre @ rec_push (expose_bytes s)) post')"
  by (auto simp: rr_text_eq and_then_Inr_iff ok_or_Inr_iff vec_Inr text_fits_def expose_bytes_def
      from_utf8_enc dest: from_utf8_Some)

lemma decode_entry_append:
  "recovery_entry_wf e \<Longrightarrow> decode_recovery_entry (cur pre (encode_recovery_entry e @ post)) =
     Inr (e, cur (pre @ encode_recovery_entry e) post)"
  by (simp add: decode_recovery_entry_def encode_recovery_entry_def recovery_entry_wf_def
      rr.tk_append vec_append text_append from_utf8_enc text_fits_def)

lemma decode_entry_Inr:
  "decode_recovery_entry (cur pre post) = Inr (e, r) \<Longrightarrow>
   recovery_entry_wf e \<and> (\<exists>post'. post = encode_recovery_entry e @ post' \<and>
     r = cur (pre @ encode_recovery_entry e) post')"
  by (clarsimp simp: decode_recovery_entry_def and_then_Inr_iff ok_or_Inr_iff rr.tk_Inr_iff vec_Inr
      text_Inr recovery_entry_wf_def encode_recovery_entry_def)
    (auto simp: text_fits_def dest: from_utf8_Some)

lemma decode_entries_append:
  "list_all recovery_entry_wf es \<Longrightarrow>
   decode_recovery_entries (length es) (cur pre (concat (map encode_recovery_entry es))) =
     Inr (es, cur (pre @ concat (map encode_recovery_entry es)) [])"
  by (induction es arbitrary: pre) (simp_all add: decode_entry_append)

lemma decode_entries_Inr:
  "decode_recovery_entries k (cur pre post) = Inr (es, r) \<Longrightarrow>
   length es = k \<and> list_all recovery_entry_wf es \<and>
   (\<exists>post'. post = concat (map encode_recovery_entry es) @ post' \<and>
      r = cur (pre @ concat (map encode_recovery_entry es)) post')"
proof (induction k arbitrary: pre post es r)
  case 0
  then show ?case by simp
next
  case (Suc k)
  then obtain e es' r' where e: "decode_recovery_entry (cur pre post) = Inr (e, r')"
    and k: "decode_recovery_entries k r' = Inr (es', r)" and es: "es = e # es'"
    by (auto simp: and_then_Inr_iff)
  obtain p1 where p1: "recovery_entry_wf e" "post = encode_recovery_entry e @ p1"
    "r' = cur (pre @ encode_recovery_entry e) p1"
    using decode_entry_Inr [OF e] by auto
  show ?case using Suc.IH [of "pre @ encode_recovery_entry e" p1 es' r] k p1 es by auto
qed

lemma decode_encode_payload: "payload_wf p \<Longrightarrow> decode_payload (encode_payload p) = Inr p"
proof -
  assume w: "payload_wf p"
  then have l: "length (totp_seed p) = TOTP_SEED_LEN" "list_all recovery_entry_wf (entries p)"
    "unat (u32_sat (length (entries p))) = length (entries p)"
    by (auto simp: payload_wf_def u32_sat_unat)
  show ?thesis
    unfolding decode_payload_def encode_payload_def reader_new_cur
    by (simp add: rr8_Cons rr_appends l decode_entries_append kdf_from_to_bytes)
qed

lemma decode_payload_Inr: "decode_payload b = Inr p \<Longrightarrow> payload_wf p \<and> b = encode_payload p"
proof -
  assume "decode_payload b = Inr p"
  then show ?thesis
    apply (clarsimp simp: decode_payload_def reader_new_cur and_then_Inr_iff rr_iffs)
    apply (drule decode_entries_Inr)
    by (auto simp: payload_wf_def encode_payload_def kdf_to_from_bytes u32_sat_of_unat unat32
        split: if_splits)
qed

lemma decode_payload_iff: "decode_payload b = Inr p \<longleftrightarrow> payload_wf p \<and> b = encode_payload p"
  using decode_payload_Inr decode_encode_payload by blast

end
