(* ===== verification/RecoveryFile.thy ===== *)
theory RecoveryFile
  imports RecoveryPayload
begin

text \<open>
  \<open>passman-recovery\<close>, \<open>kdf.rs\<close> and \<open>format.rs\<close>: the cost presets and their floor, the recovery
  key, and the recovery file with \<open>export\<close> and \<open>import\<close>.
\<close>

section \<open>Cost presets\<close>

datatype recovery_preset = PresetFloor | PresetDefault | PresetParanoid

fun preset_params :: "recovery_preset \<Rightarrow> kdf_params" where
  "preset_params PresetFloor = \<lparr>m_kib = 1048576, t_cost = 4, p_lanes = 1\<rparr>"
| "preset_params PresetDefault = \<lparr>m_kib = 4194304, t_cost = 8, p_lanes = 1\<rparr>"
| "preset_params PresetParanoid = \<lparr>m_kib = 8388608, t_cost = 12, p_lanes = 1\<rparr>"

definition FLOOR_PARAMS :: kdf_params where
  "FLOOR_PARAMS = preset_params PresetFloor"

definition meets_floor :: "kdf_params \<Rightarrow> bool" where
  "meets_floor P \<longleftrightarrow> m_kib P \<ge> m_kib FLOOR_PARAMS \<and> t_cost P \<ge> t_cost FLOOR_PARAMS \<and>
     (ucast (p_lanes P) :: 32 word) \<ge> ucast (p_lanes FLOOR_PARAMS)"

definition RECOVERY_INFO :: bytes where "RECOVERY_INFO = ascii ''recovery-export-v0''"

definition derive_recovery_key ::
  "'m crypto_scheme \<Rightarrow> secret_string \<Rightarrow> bytes \<Rightarrow> kdf_params \<Rightarrow> 64 word option \<Rightarrow> recovery_error + bytes" where
  "derive_recovery_key C pw salt P avail =
     and_then (map_err RCrypto (argon2id_within_memory C pw salt P avail)) (\<lambda>k_pw.
       Inr (hkdf_master C salt k_pw RECOVERY_INFO))"

section \<open>The file\<close>

definition MAGIC :: bytes where "MAGIC = ascii ''PSMREC''"
definition RECOVERY_FORMAT_VERSION :: byte where "RECOVERY_FORMAT_VERSION = 1"
definition RECOVERY_ARGON2ID :: byte where "RECOVERY_ARGON2ID = 0"
definition RECOVERY_AD :: bytes where "RECOVERY_AD = ascii ''PSMREC-v0''"
definition RECOVERY_SALT_LEN :: nat where "RECOVERY_SALT_LEN = 32"

definition recovery_file :: "kdf_params \<Rightarrow> bytes \<Rightarrow> bytes \<Rightarrow> bytes \<Rightarrow> bytes" where
  "recovery_file P salt nonce ct =
     MAGIC @ [RECOVERY_FORMAT_VERSION] @ [RECOVERY_ARGON2ID] @
     le_bytes 4 (m_kib P) @ le_bytes 4 (t_cost P) @ [p_lanes P] @ salt @ nonce @
     le_bytes 4 (u32_sat (length ct)) @ ct"

definition seal :: "'m crypto_scheme \<Rightarrow> export_payload \<Rightarrow> secret_string \<Rightarrow> kdf_params \<Rightarrow> 64 word option \<Rightarrow>
    rng \<Rightarrow> (recovery_error + bytes) \<times> rng" where
  "seal C payload pw P avail g =
     (let (salt, g1) = fill_random C RECOVERY_SALT_LEN g;
          (nonce, g2) = random_nonce C g1;
          plaintext = encode_payload payload
      in (and_then (derive_recovery_key C pw salt P avail) (\<lambda>k.
          and_then (map_err RCrypto (aead_encrypt C k nonce RECOVERY_AD plaintext)) (\<lambda>ct.
            Inr (recovery_file P salt nonce ct))), g2))"

definition export_within_memory :: "'m crypto_scheme \<Rightarrow> export_payload \<Rightarrow> secret_string \<Rightarrow> kdf_params \<Rightarrow>
    64 word option \<Rightarrow> rng \<Rightarrow> (recovery_error + bytes) \<times> rng" where
  "export_within_memory C payload pw P avail g =
     (if \<not> meets_floor P
      then (Inl (RWeakParams (m_kib P) (t_cost P) (p_lanes P)
              (m_kib FLOOR_PARAMS) (t_cost FLOOR_PARAMS) (p_lanes FLOOR_PARAMS)), g)
      else seal C payload pw P avail g)"

definition export :: "'m crypto_scheme \<Rightarrow> export_payload \<Rightarrow> secret_string \<Rightarrow> kdf_params \<Rightarrow> rng \<Rightarrow>
    (recovery_error + bytes) \<times> rng" where
  "export C payload pw P g = export_within_memory C payload pw P None g"

definition decrypt_outcome :: "crypto_error + bytes \<Rightarrow> recovery_error + bytes" where
  "decrypt_outcome m = (case m of
       Inr pt \<Rightarrow> Inr pt
     | Inl AeadAuth \<Rightarrow> Inl RDecrypt
     | Inl (InvalidLength w e g) \<Rightarrow> Inl RDecrypt
     | Inl (Kdf s) \<Rightarrow> Inl (RCrypto (Kdf s)))"

definition import_within_memory ::
  "'m crypto_scheme \<Rightarrow> bytes \<Rightarrow> secret_string \<Rightarrow> 64 word option \<Rightarrow> recovery_error + export_payload" where
  "import_within_memory C file pw avail =
     and_then (rr_take 6 ''magic'' (reader_new file)) (\<lambda>(magic, r).
     and_then (if magic \<noteq> MAGIC then Inl RBadMagic else Inr ()) (\<lambda>_.
     and_then (rr_read_u8 ''format_version'' r) (\<lambda>(version, r).
     and_then (if version \<noteq> RECOVERY_FORMAT_VERSION
               then Inl (RUnsupportedVersion version RECOVERY_FORMAT_VERSION) else Inr ()) (\<lambda>_.
     and_then (rr_read_u8 ''kdf_algorithm_id'' r) (\<lambda>(kdf_id, r).
     and_then (if kdf_id \<noteq> RECOVERY_ARGON2ID then Inl (RUnsupportedKdfAlgorithm kdf_id) else Inr ()) (\<lambda>_.
     and_then (rr_read_u32_le ''argon2.m'' r) (\<lambda>(m, r).
     and_then (rr_read_u32_le ''argon2.t'' r) (\<lambda>(t, r).
     and_then (rr_read_u8 ''argon2.p'' r) (\<lambda>(p, r).
     let P = \<lparr>m_kib = m, t_cost = t, p_lanes = p\<rparr> in
     and_then (if \<not> within_limits P then Inl (RKdfParamsOutOfRange m t p) else Inr ()) (\<lambda>_.
     and_then (rr_take RECOVERY_SALT_LEN ''recovery_salt'' r) (\<lambda>(salt, r).
     and_then (rr_take NONCE_LEN ''nonce'' r) (\<lambda>(nonce, r).
     and_then (rr_read_u32_le ''payload_ct_len'' r) (\<lambda>(len, r).
     and_then (rr_take (unat len) ''payload_ct'' r) (\<lambda>(ct, r).
     and_then (rr_expect_eof r) (\<lambda>_.
     and_then (if length ct < TAG_LEN then Inl RDecrypt else Inr ()) (\<lambda>_.
     and_then (derive_recovery_key C pw salt P avail) (\<lambda>k.
     and_then (decrypt_outcome (aead_decrypt C k nonce RECOVERY_AD ct)) (\<lambda>plaintext.
       decode_payload plaintext))))))))))))))))))"

definition recovery_import :: "'m crypto_scheme \<Rightarrow> bytes \<Rightarrow> secret_string \<Rightarrow> recovery_error + export_payload" where
  "recovery_import C file pw = import_within_memory C file pw None"

section \<open>The two phases of an import\<close>

text \<open>What remains to do once the framing has been accepted.\<close>

definition open_sealed ::
  "'m crypto_scheme \<Rightarrow> kdf_params \<Rightarrow> bytes \<Rightarrow> bytes \<Rightarrow> bytes \<Rightarrow> secret_string \<Rightarrow> 64 word option \<Rightarrow>
   recovery_error + export_payload" where
  "open_sealed C P salt nonce ct pw avail =
     and_then (derive_recovery_key C pw salt P avail) (\<lambda>k.
     and_then (decrypt_outcome (aead_decrypt C k nonce RECOVERY_AD ct)) decode_payload)"

definition framing_ok :: "kdf_params \<Rightarrow> bytes \<Rightarrow> bytes \<Rightarrow> bytes \<Rightarrow> bool" where
  "framing_ok P salt nonce ct \<longleftrightarrow> within_limits P \<and> length salt = RECOVERY_SALT_LEN \<and>
     length nonce = NONCE_LEN \<and> TAG_LEN \<le> length ct \<and> length ct < 2 ^ 32"

lemma MAGIC_length: "length MAGIC = 6"
  by (simp add: MAGIC_def)

lemma kdf_params_eta: "\<lparr>m_kib = m_kib P, t_cost = t_cost P, p_lanes = p_lanes P\<rparr> = (P :: kdf_params)"
  by simp

text \<open>The part of \<open>import\<close> that reads the framing; it needs no password, key or host memory.\<close>

definition read_framing :: "bytes \<Rightarrow> recovery_error + kdf_params \<times> bytes \<times> bytes \<times> bytes" where
  "read_framing file =
     and_then (rr_take 6 ''magic'' (reader_new file)) (\<lambda>(magic, r).
     and_then (if magic \<noteq> MAGIC then Inl RBadMagic else Inr ()) (\<lambda>_.
     and_then (rr_read_u8 ''format_version'' r) (\<lambda>(version, r).
     and_then (if version \<noteq> RECOVERY_FORMAT_VERSION
               then Inl (RUnsupportedVersion version RECOVERY_FORMAT_VERSION) else Inr ()) (\<lambda>_.
     and_then (rr_read_u8 ''kdf_algorithm_id'' r) (\<lambda>(kdf_id, r).
     and_then (if kdf_id \<noteq> RECOVERY_ARGON2ID then Inl (RUnsupportedKdfAlgorithm kdf_id) else Inr ()) (\<lambda>_.
     and_then (rr_read_u32_le ''argon2.m'' r) (\<lambda>(m, r).
     and_then (rr_read_u32_le ''argon2.t'' r) (\<lambda>(t, r).
     and_then (rr_read_u8 ''argon2.p'' r) (\<lambda>(p, r).
     and_then (if \<not> within_limits \<lparr>m_kib = m, t_cost = t, p_lanes = p\<rparr>
               then Inl (RKdfParamsOutOfRange m t p) else Inr ()) (\<lambda>_.
     and_then (rr_take RECOVERY_SALT_LEN ''recovery_salt'' r) (\<lambda>(salt, r).
     and_then (rr_take NONCE_LEN ''nonce'' r) (\<lambda>(nonce, r).
     and_then (rr_read_u32_le ''payload_ct_len'' r) (\<lambda>(len, r).
     and_then (rr_take (unat len) ''payload_ct'' r) (\<lambda>(ct, r).
     and_then (rr_expect_eof r) (\<lambda>_.
     and_then (if length ct < TAG_LEN then Inl RDecrypt else Inr ()) (\<lambda>_.
       Inr (\<lparr>m_kib = m, t_cost = t, p_lanes = p\<rparr>, salt, nonce, ct)))))))))))))))))"

lemma import_phases:
  "import_within_memory C file pw avail =
     and_then (read_framing file) (\<lambda>(P, salt, nonce, ct). open_sealed C P salt nonce ct pw avail)"
  by (simp add: import_within_memory_def read_framing_def open_sealed_def and_then_assoc split_def Let_def)

lemma read_framing_file:
  "framing_ok P salt nonce ct \<Longrightarrow> read_framing (recovery_file P salt nonce ct) = Inr (P, salt, nonce, ct)"
  by (cases P) (simp add: read_framing_def recovery_file_def reader_new_cur framing_ok_def MAGIC_length
      rr8_Cons rr_appends u32_sat_unat rr.tk_append [where post = "[]", simplified])

lemma read_framing_Inr:
  "read_framing file = Inr (P, salt, nonce, ct) \<Longrightarrow>
   framing_ok P salt nonce ct \<and> file = recovery_file P salt nonce ct"
  by (clarsimp simp: read_framing_def reader_new_cur and_then_Inr_iff rr_iffs split: if_splits)
    (auto simp: framing_ok_def recovery_file_def u32_sat_of_unat unat32)

lemma import_framed:
  "framing_ok P salt nonce ct \<Longrightarrow>
   import_within_memory C (recovery_file P salt nonce ct) pw avail = open_sealed C P salt nonce ct pw avail"
  by (simp add: import_phases read_framing_file)

lemma decrypt_outcome_Inr: "decrypt_outcome m = Inr pt \<longleftrightarrow> m = Inr pt"
  by (simp add: decrypt_outcome_def split: sum.split crypto_error.split)

lemma aead_decrypt_outcome:
  "decrypt_outcome (aead_decrypt C k n a ct) =
     (if length ct < TAG_LEN then Inl RDecrypt else ok_or RDecrypt (xchacha_dec C k n a ct))"
  by (simp add: decrypt_outcome_def aead_decrypt_def split: option.split)
    (cases "xchacha_dec C k n a ct"; simp)

lemma preset_limits: "within_limits (preset_params p) \<and> meets_floor (preset_params p)"
  by (cases p) (simp_all add: within_limits_def meets_floor_def FLOOR_PARAMS_def MAX_P_def MAX_T_def
      MAX_M_KIB_def sat_mul32_def)

lemma derive_limits:
  "derive_recovery_key C pw salt P avail = Inr k \<Longrightarrow>
     within_limits P \<and> (\<forall>a. avail = Some a \<longrightarrow> memory_cost_fits (m_kib P) a)"
  by (auto simp: derive_recovery_key_def and_then_Inr_iff map_err_Inr_iff dest: argon2id_Inr)

text \<open>The host's memory decides only whether the derivation runs, never which key it gives.\<close>

lemma derive_memory:
  "derive_recovery_key C pw salt P a = Inr k \<Longrightarrow> derive_recovery_key C pw salt P b = Inr k' \<Longrightarrow> k = k'"
  by (auto simp: derive_recovery_key_def argon2id_within_memory_def and_then_Inr_iff map_err_Inr_iff
      split: if_splits)

lemma derive_none:
  "derive_recovery_key C pw salt P a = Inr k \<Longrightarrow> derive_recovery_key C pw salt P None = Inr k"
  by (auto simp: derive_recovery_key_def argon2id_within_memory_def and_then_Inr_iff map_err_Inr_iff
      split: if_splits)

lemma derive_fits:
  "derive_recovery_key C pw salt P a = Inr k \<Longrightarrow> (\<forall>x. b = Some x \<longrightarrow> memory_cost_fits (m_kib P) x) \<Longrightarrow>
   derive_recovery_key C pw salt P b = Inr k"
  by (auto simp: derive_recovery_key_def argon2id_within_memory_def and_then_Inr_iff map_err_Inr_iff
      split: if_splits option.splits)

lemma seal_Inr:
  assumes "seal C payload pw P avail g = (Inr file, g')"
  obtains salt nonce k ct where "length salt = RECOVERY_SALT_LEN" "length nonce = NONCE_LEN"
    "derive_recovery_key C pw salt P avail = Inr k"
    "aead_encrypt C k nonce RECOVERY_AD (encode_payload payload) = Inr ct"
    "file = recovery_file P salt nonce ct"
proof -
  let ?s = "fst (fill_random C RECOVERY_SALT_LEN g)"
  let ?n = "fst (random_nonce C (snd (fill_random C RECOVERY_SALT_LEN g)))"
  obtain k ct where "derive_recovery_key C pw ?s P avail = Inr k"
    "aead_encrypt C k ?n RECOVERY_AD (encode_payload payload) = Inr ct" "file = recovery_file P ?s ?n ct"
    using assms by (auto simp: seal_def Let_def split_def and_then_Inr_iff map_err_Inr_iff)
  moreover have "length ?s = RECOVERY_SALT_LEN" "length ?n = NONCE_LEN" by (simp_all add: NONCE_LEN_def)
  ultimately show thesis by (intro that)
qed

lemma import_sealed:
  assumes s: "seal C payload pw P avail g = (Inr file, g')" and a: "aead_ok C" and w: "payload_wf payload"
    and n: "length (encode_payload payload) + 16 < 2 ^ 32"
    and b: "\<forall>x. b = Some x \<longrightarrow> memory_cost_fits (m_kib P) x"
  shows "import_within_memory C file pw b = Inr payload"
proof -
  obtain salt nonce k ct where l: "length salt = RECOVERY_SALT_LEN" "length nonce = NONCE_LEN"
    and k: "derive_recovery_key C pw salt P avail = Inr k"
    and e: "aead_encrypt C k nonce RECOVERY_AD (encode_payload payload) = Inr ct"
    and f: "file = recovery_file P salt nonce ct"
    by (rule seal_Inr [OF s])
  have ct: "length ct = length (encode_payload payload) + 16" by (rule aead_encrypt_length [OF a e])
  then have "framing_ok P salt nonce ct"
    using l n derive_limits [OF k] by (simp add: framing_ok_def TAG_LEN_def)
  then show ?thesis
    by (simp add: f import_framed open_sealed_def derive_fits [OF k b]
        aead_decrypt_encrypt [OF a e] decrypt_outcome_Inr decode_encode_payload [OF w])
      (simp add: decrypt_outcome_def decode_encode_payload [OF w])
qed

section \<open>Properties\<close>

text \<open>C7. A recovery file written by \<open>export\<close> imports under the same password to the same payload,
  on every host whose memory admits the file's cost, whatever the exporting host measured.\<close>

theorem recovery_roundtrip:
  assumes "export_within_memory C payload pw P avail g = (Inr file, g')" and "aead_ok C"
    and "payload_wf payload" and "length (encode_payload payload) + 16 < 2 ^ 32"
    and "\<forall>x. b = Some x \<longrightarrow> memory_cost_fits (m_kib P) x"
  shows "import_within_memory C file pw b = Inr payload"
  using assms by (auto simp: export_within_memory_def split: if_splits intro: import_sealed)

definition demo_payload :: export_payload where
  "demo_payload = \<lparr>totp_seed = replicate 32 7, original_vault_kdf = KDF_LOW,
     entries = [\<lparr>re_id = replicate 16 1, re_label = ustr ''mail'', re_username = ustr ''u'',
       re_password = ustr ''pw'', re_url = [], re_notes = [233], re_policy = [1, 2]\<rparr>]\<rparr>"

lemma recovery_roundtrip_witness:
  "\<exists>file g'. export_within_memory toy_crypto demo_payload (ustr ''pw'') (preset_params PresetFloor) None 0
       = (Inr file, g') \<and>
     import_within_memory toy_crypto file (ustr ''pw'') (Some 2000000) = Inr demo_payload"
proof -
  have f: "meets_floor (preset_params PresetFloor)" "within_limits (preset_params PresetFloor)"
    using preset_limits by blast+
  have "\<exists>file g'. export_within_memory toy_crypto demo_payload (ustr ''pw'') (preset_params PresetFloor) None 0
       = (Inr file, g')"
    using f by (simp add: export_within_memory_def seal_def Let_def split_def derive_recovery_key_def
        argon2id_within_memory_def toy_crypto_def aead_encrypt_def del: preset_params.simps)
  then obtain f g' where x: "export_within_memory toy_crypto demo_payload (ustr ''pw'')
      (preset_params PresetFloor) None 0 = (Inr f, g')" by blast
  have w: "payload_wf demo_payload" "length (encode_payload demo_payload) + 16 < 2 ^ 32"
    by (simp_all add: demo_payload_def payload_wf_def recovery_entry_wf_def text_fits_def
        TOTP_SEED_LEN_def RECOVERY_ID_LEN_def ustr_def is_scalar_def str_ok_def utf8_enc_def enc1_def
        encode_payload_def encode_recovery_entry_def rec_push_def expose_bytes_def)
  have b: "\<forall>a. Some (2000000 :: 64 word) = Some a \<longrightarrow> memory_cost_fits (m_kib (preset_params PresetFloor)) a"
    by (simp add: memory_cost_fits_def)
  show ?thesis using x recovery_roundtrip [OF x toy_crypto_ok(1) w b] by blast
qed

text \<open>C8. Import accepts exactly the files that are a well-framed header in the permitted cost range
  around a ciphertext which the key of that password opens to the encoding of a well-formed payload,
  and the payload it returns is that one.\<close>

theorem import_exact:
  "import_within_memory C file pw avail = Inr payload \<longleftrightarrow>
     (\<exists>P salt nonce ct k. framing_ok P salt nonce ct \<and> file = recovery_file P salt nonce ct \<and>
        derive_recovery_key C pw salt P avail = Inr k \<and>
        xchacha_dec C k nonce RECOVERY_AD ct = Some (encode_payload payload) \<and> payload_wf payload)"
proof
  assume "import_within_memory C file pw avail = Inr payload"
  then obtain P salt nonce ct k pt where f: "read_framing file = Inr (P, salt, nonce, ct)"
    and k: "derive_recovery_key C pw salt P avail = Inr k"
    and d: "decrypt_outcome (aead_decrypt C k nonce RECOVERY_AD ct) = Inr pt"
    and p: "decode_payload pt = Inr payload"
    by (auto simp: import_phases and_then_Inr_iff open_sealed_def)
  then show "\<exists>P salt nonce ct k. framing_ok P salt nonce ct \<and> file = recovery_file P salt nonce ct \<and>
        derive_recovery_key C pw salt P avail = Inr k \<and>
        xchacha_dec C k nonce RECOVERY_AD ct = Some (encode_payload payload) \<and> payload_wf payload"
    using read_framing_Inr [OF f]
    by (intro exI [of _ P] exI [of _ salt] exI [of _ nonce] exI [of _ ct] exI [of _ k])
      (auto simp: aead_decrypt_outcome ok_or_Inr_iff decode_payload_iff split: if_splits)
next
  assume "\<exists>P salt nonce ct k. framing_ok P salt nonce ct \<and> file = recovery_file P salt nonce ct \<and>
        derive_recovery_key C pw salt P avail = Inr k \<and>
        xchacha_dec C k nonce RECOVERY_AD ct = Some (encode_payload payload) \<and> payload_wf payload"
  then show "import_within_memory C file pw avail = Inr payload"
    by (auto simp: import_framed open_sealed_def aead_decrypt_outcome decode_encode_payload framing_ok_def)
qed

text \<open>A hostile file costs nothing: either its framing is complete, in the permitted cost range
  and its ciphertext long enough to authenticate, or import rejects it with an error fixed by the
  file alone, before the password, the key derivation or the host's memory are looked at.\<close>

lemma import_rejects_before_kdf:
  "(\<exists>P salt nonce ct. framing_ok P salt nonce ct \<and> file = recovery_file P salt nonce ct) \<or>
   (\<exists>e. \<forall>(C :: 'm crypto_scheme) pw avail. import_within_memory C file pw avail = Inl e)"
proof (cases "read_framing file")
  case (Inl e)
  then show ?thesis by (auto simp: import_phases)
next
  case (Inr a)
  then obtain P salt nonce ct where "read_framing file = Inr (P, salt, nonce, ct)" by (cases a) auto
  then show ?thesis using read_framing_Inr by blast
qed

text \<open>Export refuses exactly the costs below the floor on some axis, without drawing randomness
  or deriving a key; what it writes carries a cost between the floor and the universal limits, and
  the three presets are in that range.\<close>

lemma export_cost_gate:
  "(case export_within_memory C payload pw P avail g of
      (Inl (RWeakParams m t p fm ft fp), g') \<Rightarrow> \<not> meets_floor P \<and> g' = g \<and>
        (m, t, p, fm, ft, fp) = (m_kib P, t_cost P, p_lanes P, 1048576, 4, 1)
    | (Inl e, g') \<Rightarrow> meets_floor P
    | (Inr file, g') \<Rightarrow> meets_floor P \<and> within_limits P \<and>
        (\<exists>salt nonce ct. file = recovery_file P salt nonce ct)) \<and>
   within_limits (preset_params preset) \<and> meets_floor (preset_params preset)"
proof (cases "meets_floor P")
  case False
  then show ?thesis
    using preset_limits [of preset] by (simp add: export_within_memory_def FLOOR_PARAMS_def)
next
  case True
  obtain x g' where x: "seal C payload pw P avail g = (x, g')" by fastforce
  have "x \<noteq> Inl (RWeakParams a b c d e f)" for a b c d e f
    using x by (auto simp: seal_def Let_def split_def and_then_Inl_iff map_err_Inl_iff derive_recovery_key_def)
  moreover have "within_limits P \<and> (\<exists>salt nonce ct. f = recovery_file P salt nonce ct)" if "x = Inr f" for f
    using x that by (auto elim!: seal_Inr dest!: derive_limits)
  ultimately show ?thesis
    using True x preset_limits [of preset]
    by (auto simp: export_within_memory_def split: sum.split recovery_error.split)
qed

end
