(* ===== verification/Hsm.thy ===== *)
theory Hsm
  imports Crypto
begin

text \<open>
  \<open>passman-hsm\<close>, common part: errors, slots, the self-describing wrap blob, capabilities, the
  prompter and the two-phase unwrap handle, and the \<open>HardwareKeyStore\<close> trait as the record
  \<open>key_store\<close> of its methods.  A method that reaches the platform takes and returns the state
  \<open>'d\<close> of the device (TPM, keyring, Android Keystore); enrolling also advances the random source.
  The contract every backend has to meet is the locale \<open>slot_store\<close>, which \<open>HsmMock\<close>,
  \<open>HsmAndroid\<close>, \<open>HsmKeyring\<close> and \<open>HsmTpm\<close> interpret.
\<close>

datatype hsm_error =
    HTransient
  | HCancelled
  | HardwareAbsent
  | PermanentlyInvalidated
  | MalformedBlob string
  | Backend string

datatype hsm_slot = VaultKey | TotpSeed

fun slot_tag :: "hsm_slot \<Rightarrow> byte" where
  "slot_tag VaultKey = 0"
| "slot_tag TotpSeed = 1"

datatype hsm_kind = KTpm2 | KNCryptRsa | KAndroidGcm | KSecureEnclave | KSecretService | KSoftwareMock

fun kind_to_byte :: "hsm_kind \<Rightarrow> byte" where
  "kind_to_byte KTpm2 = 0"
| "kind_to_byte KNCryptRsa = 1"
| "kind_to_byte KAndroidGcm = 2"
| "kind_to_byte KSecureEnclave = 3"
| "kind_to_byte KSecretService = 4"
| "kind_to_byte KSoftwareMock = 255"

definition kind_from_byte :: "byte \<Rightarrow> hsm_error + hsm_kind" where
  "kind_from_byte b =
     (if b = 0 then Inr KTpm2 else if b = 1 then Inr KNCryptRsa else if b = 2 then Inr KAndroidGcm
      else if b = 3 then Inr KSecureEnclave else if b = 4 then Inr KSecretService
      else if b = 255 then Inr KSoftwareMock else Inl (MalformedBlob ''unknown hsm_kind byte''))"

lemma slot_tag_inj [simp]: "slot_tag s = slot_tag t \<longleftrightarrow> s = t"
  by (cases s; cases t) simp_all

lemma kind_from_to_byte [simp]: "kind_from_byte (kind_to_byte k) = Inr k"
  by (cases k) (simp_all add: kind_from_byte_def)

lemma kind_from_byte_Inr: "kind_from_byte b = Inr k \<Longrightarrow> kind_to_byte k = b"
  by (auto simp: kind_from_byte_def split: if_splits)

section \<open>Wrap blobs\<close>

definition BLOB_VERSION :: byte where "BLOB_VERSION = 0"
definition BLOB_HEADER_LEN :: nat where "BLOB_HEADER_LEN = 4"

record wrapped_blob =
  wb_kind :: hsm_kind
  wb_payload :: bytes

definition blob_from_parts :: "hsm_kind \<Rightarrow> bytes \<Rightarrow> hsm_error + wrapped_blob" where
  "blob_from_parts k payload =
     (if length payload > 65535 then Inl (MalformedBlob ''payload exceeds u16::MAX'')
      else Inr \<lparr>wb_kind = k, wb_payload = payload\<rparr>)"

definition blob_to_bytes :: "wrapped_blob \<Rightarrow> bytes" where
  "blob_to_bytes w =
     [BLOB_VERSION] @ [kind_to_byte (wb_kind w)] @ le_bytes 2 (u16_sat (length (wb_payload w))) @
     wb_payload w"

definition blob_from_bytes :: "bytes \<Rightarrow> hsm_error + wrapped_blob" where
  "blob_from_bytes b =
     (if length b < BLOB_HEADER_LEN then Inl (MalformedBlob ''input shorter than 4-byte header'')
      else if b ! 0 \<noteq> BLOB_VERSION then Inl (MalformedBlob ''unsupported blob_version'')
      else and_then (kind_from_byte (b ! 1)) (\<lambda>kind.
        let payload_len = unat (of_le [b ! 2, b ! 3] :: 16 word);
            payload = drop BLOB_HEADER_LEN b in
        if length payload < payload_len then Inl (MalformedBlob ''payload_len exceeds remaining input'')
        else if length payload > payload_len then Inl (MalformedBlob ''trailing bytes after payload'')
        else Inr \<lparr>wb_kind = kind, wb_payload = payload\<rparr>))"

text \<open>The invariant of every constructor.\<close>

definition blob_ok :: "wrapped_blob \<Rightarrow> bool" where
  "blob_ok w \<longleftrightarrow> length (wb_payload w) \<le> 65535"

lemma blob_from_parts_Inr:
  "blob_from_parts k p = Inr w \<longleftrightarrow> length p \<le> 65535 \<and> w = \<lparr>wb_kind = k, wb_payload = p\<rparr>"
  by (auto simp: blob_from_parts_def)

lemma le_bytes2: "le_bytes 2 w = [le_bytes 2 w ! 0, le_bytes 2 w ! 1]"
  by (rule nth_equalityI) (auto simp: less_Suc_eq numeral_eq_Suc)

lemma of_le2: "of_le [le_bytes 2 w ! 0, le_bytes 2 w ! 1] = (w :: 16 word)"
  using of_le_le_bytes [where n = 2 and w = w] le_bytes2 [of w] by simp

lemma blob_from_to_bytes: "blob_ok w \<Longrightarrow> blob_from_bytes (blob_to_bytes w) = Inr w"
proof -
  assume ok: "blob_ok w"
  let ?l = "le_bytes 2 (u16_sat (length (wb_payload w)))"
  have e: "blob_to_bytes w = BLOB_VERSION # kind_to_byte (wb_kind w) # ?l ! 0 # ?l ! 1 # wb_payload w"
    using le_bytes2 [of "u16_sat (length (wb_payload w))"] by (simp add: blob_to_bytes_def)
  show ?thesis
    using ok unfolding e
    by (simp add: blob_from_bytes_def BLOB_HEADER_LEN_def Let_def of_le2 [unfolded One_nat_def]
        u16_sat_unat blob_ok_def)
qed

lemma blob_from_bytes_Inr:
  assumes "blob_from_bytes b = Inr w" shows "blob_ok w \<and> b = blob_to_bytes w"
proof -
  from assms have l: "4 \<le> length b" and v: "b ! 0 = BLOB_VERSION"
    and k: "kind_from_byte (b ! 1) = Inr (wb_kind w)"
    and n: "length (drop 4 b) = unat (of_le [b ! 2, b ! 3] :: 16 word)" and p: "wb_payload w = drop 4 b"
    by (auto simp: blob_from_bytes_def BLOB_HEADER_LEN_def Let_def and_then_Inr_iff split: if_splits)
  have "u16_sat (length (drop 4 b)) = of_le [b ! 2, b ! 3]" unfolding n by (rule u16_sat_of_unat)
  moreover have "le_bytes 2 (of_le [b ! 2, b ! 3] :: 16 word) = [b ! 2, b ! 3]"
    by (rule le_bytes_of_le) simp_all
  moreover have "take 4 b = [b ! 0, b ! 1, b ! 2, b ! 3]"
    using l by (intro nth_equalityI) (auto simp: less_Suc_eq numeral_eq_Suc)
  ultimately have "b = blob_to_bytes w"
    using kind_from_byte_Inr [OF k] v p append_take_drop_id [of 4 b]
    by (simp add: blob_to_bytes_def del: append_take_drop_id)
  then show ?thesis
    using n p unat16 [of "of_le [b ! 2, b ! 3]"] by (simp add: blob_ok_def)
qed

lemma blob_from_bytes_iff: "blob_from_bytes b = Inr w \<longleftrightarrow> blob_ok w \<and> b = blob_to_bytes w"
  using blob_from_bytes_Inr blob_from_to_bytes by blast

section \<open>Capabilities, prompts, handles\<close>

text \<open>A \<open>Duration\<close> is a number of nanoseconds.\<close>

type_synonym duration = nat

definition from_secs :: "nat \<Rightarrow> duration" where "from_secs s = s * 1000000000"
definition as_secs :: "duration \<Rightarrow> nat" where "as_secs d = d div 1000000000"

lemma as_from_secs [simp]: "as_secs (from_secs s) = s"
  by (simp add: as_secs_def from_secs_def)

datatype lockout_recovery = TimeBased duration | FactoryResetOnly | UserAccountReset

datatype hsm_lockout_status = LockoutAvailable | LockedOutStatus "duration option"

record hsm_capabilities =
  biometric_supported :: bool
  strongbox_backed :: bool
  pcr_bound :: bool
  max_attempts_before_lockout :: "32 word option"
  lockout_recovery_of :: lockout_recovery
  supports_distinct_slot_pin :: bool

datatype prompt_result = Authenticated | FallbackToPin secret_string | PromptCancelled

type_synonym prompter = "string \<Rightarrow> hsm_error + prompt_result"

text \<open>\<open>HandleInner\<close>: what each backend stashes between the two phases (mock: slot tag, nonce,
  ciphertext, key; Secret Service: slot, uuid; TPM: public, private, expected tag; Android: alias,
  IV, ciphertext, slot tag).\<close>

datatype unwrap_handle =
    ForMock byte bytes bytes bytes
  | ForSecretService hsm_slot bytes
  | ForTpm2 bytes bytes byte
  | ForAndroid ustring bytes bytes byte

fun into_mock :: "unwrap_handle \<Rightarrow> hsm_error + byte \<times> bytes \<times> bytes \<times> bytes" where
  "into_mock (ForMock tag nonce ct key) = Inr (tag, nonce, ct, key)"
| "into_mock _ = Inl (MalformedBlob ''unwrap handle was not minted by the mock backend'')"

fun into_secret_service :: "unwrap_handle \<Rightarrow> hsm_error + hsm_slot \<times> bytes" where
  "into_secret_service (ForSecretService slot uuid) = Inr (slot, uuid)"
| "into_secret_service _ =
     Inl (MalformedBlob ''unwrap handle was not minted by the SecretService backend'')"

fun into_tpm2 :: "unwrap_handle \<Rightarrow> hsm_error + bytes \<times> bytes \<times> byte" where
  "into_tpm2 (ForTpm2 pub priv tag) = Inr (pub, priv, tag)"
| "into_tpm2 _ = Inl (MalformedBlob ''unwrap handle was not minted by the TPM2 backend'')"

fun into_android :: "unwrap_handle \<Rightarrow> hsm_error + ustring \<times> bytes \<times> bytes \<times> byte" where
  "into_android (ForAndroid alias iv ct tag) = Inr (alias, iv, ct, tag)"
| "into_android _ = Inl (MalformedBlob ''unwrap handle was not minted by the Android backend'')"

section \<open>The key-store interface\<close>

record 'd key_store =
  ks_kind :: hsm_kind
  ks_capabilities :: "'d \<Rightarrow> hsm_capabilities \<times> 'd"
  ks_lockout_status :: "'d \<Rightarrow> hsm_error + hsm_lockout_status"
  ks_enroll :: "hsm_slot \<Rightarrow> bytes \<Rightarrow> prompter \<Rightarrow> 'd \<times> rng \<Rightarrow> (hsm_error + wrapped_blob) \<times> 'd \<times> rng"
  ks_begin_unwrap :: "hsm_slot \<Rightarrow> wrapped_blob \<Rightarrow> 'd \<Rightarrow> hsm_error + unwrap_handle"
  ks_complete_unwrap :: "unwrap_handle \<Rightarrow> prompter \<Rightarrow> 'd \<Rightarrow> (hsm_error + bytes) \<times> 'd"
  ks_invalidate :: "hsm_slot \<Rightarrow> wrapped_blob \<Rightarrow> 'd \<Rightarrow> (hsm_error + unit) \<times> 'd"

text \<open>The trait's default: a backend without a queryable lockout is always available.\<close>

definition default_lockout_status :: "'d \<Rightarrow> hsm_error + hsm_lockout_status" where
  "default_lockout_status d = Inr LockoutAvailable"

text \<open>Both phases of an unwrap.\<close>

definition unwrap :: "'d key_store \<Rightarrow> hsm_slot \<Rightarrow> wrapped_blob \<Rightarrow> prompter \<Rightarrow> 'd \<Rightarrow> (hsm_error + bytes) \<times> 'd" where
  "unwrap ks slot blob p d =
     (case ks_begin_unwrap ks slot blob d of
        Inl e \<Rightarrow> (Inl e, d)
      | Inr h \<Rightarrow> ks_complete_unwrap ks h p d)"

text \<open>What a client may rely on.  \<open>opens s b m d\<close>: in device state \<open>d\<close> the blob \<open>b\<close> holds the
  material \<open>m\<close> for slot \<open>s\<close>; \<open>willing p d\<close>: the user and the device go along with an unwrap;
  \<open>fresh b d g\<close>: the names the next enrollment draws at \<open>g\<close> do not collide with those of \<open>b\<close>.\<close>

locale slot_store =
  fixes ks :: "'d key_store"
    and opens :: "hsm_slot \<Rightarrow> wrapped_blob \<Rightarrow> bytes \<Rightarrow> 'd \<Rightarrow> bool"
    and willing :: "prompter \<Rightarrow> 'd \<Rightarrow> bool"
    and fresh :: "wrapped_blob \<Rightarrow> rng \<Rightarrow> bool"
  assumes enroll_kind: "ks_enroll ks s m p (d, g) = (Inr b, d', g') \<Longrightarrow> wb_kind b = ks_kind ks \<and> blob_ok b"
    and enroll_opens: "ks_enroll ks s m p (d, g) = (Inr b, d', g') \<Longrightarrow> opens s b m d'"
    and enroll_keeps: "opens s b m d \<Longrightarrow> fresh b g \<Longrightarrow> ks_enroll ks s' m' p (d, g) = (r, d', g') \<Longrightarrow>
      opens s b m d'"
    and unwrap_opens: "opens s b m d \<Longrightarrow> willing p d \<Longrightarrow>
      \<exists>d'. unwrap ks s b p d = (Inr m, d') \<and> willing p d'"
    and unwrap_keeps: "opens s b m d \<Longrightarrow> unwrap ks s' b' p d = (u, d') \<Longrightarrow> opens s b m d'"
begin

text \<open>A blob survives its bytes, and unwraps to what was enrolled.\<close>

lemma enroll_unwrap:
  assumes "ks_enroll ks s m p (d, g) = (Inr b, d', g')" and "willing q d'"
  shows "blob_from_bytes (blob_to_bytes b) = Inr b \<and> fst (unwrap ks s b q d') = Inr m"
  using enroll_kind [OF assms(1)] unwrap_opens [OF enroll_opens [OF assms(1)] assms(2)]
  by (auto simp: blob_from_to_bytes)

lemma opens_unique: "opens s b m d \<Longrightarrow> opens s b m' d \<Longrightarrow> willing p d \<Longrightarrow> m = m'"
  using unwrap_opens [of s b m d p] unwrap_opens [of s b m' d p] by auto

text \<open>Two slots enrolled one after the other both open, in either order.\<close>

lemma two_slots:
  assumes a: "ks_enroll ks VaultKey k p (d, g) = (Inr kb, d1, g1)"
    and b: "ks_enroll ks TotpSeed s q (d1, g1) = (Inr sb, d2, g2)" and f: "fresh kb g1"
  shows "opens VaultKey kb k d2 \<and> opens TotpSeed sb s d2"
  using enroll_keeps [OF enroll_opens [OF a] f b] enroll_opens [OF b] by blast

end

text \<open>Backends whose blobs carry the slot under integrity protection add that a blob presented
  for the other slot yields nothing.\<close>

locale bound_slot_store = slot_store ks opens willing fresh
  for ks :: "'d key_store" and opens and willing and fresh +
  assumes slot_bound: "opens s b m d \<Longrightarrow> s' \<noteq> s \<Longrightarrow> \<not> is_ok (fst (unwrap ks s' b p d))"
begin

lemma swapped_blobs_refused:
  assumes a: "ks_enroll ks VaultKey k p (d, g) = (Inr kb, d1, g1)"
    and b: "ks_enroll ks TotpSeed s q (d1, g1) = (Inr sb, d2, g2)" and f: "fresh kb g1"
  shows "\<not> is_ok (fst (unwrap ks VaultKey sb r d2)) \<and> \<not> is_ok (fst (unwrap ks TotpSeed kb r d2))"
  using two_slots [OF assms] slot_bound [of VaultKey kb k d2 TotpSeed r]
    slot_bound [of TotpSeed sb s d2 VaultKey r] by simp

end

section \<open>Properties\<close>

text \<open>The wrap-blob parser accepts exactly the serializations of blobs, and returns the blob that
  was serialized: no other version, kind byte, length or trailing byte gets through.\<close>

theorem blob_parse_exact: "blob_from_bytes b = Inr w \<longleftrightarrow> blob_ok w \<and> b = blob_to_bytes w"
  by (rule blob_from_bytes_iff)

end
