(* ===== verification/HsmMock.thy ===== *)
theory HsmMock
  imports Hsm
begin

text \<open>
  \<open>passman-hsm\<close>, \<open>mock.rs\<close>: the software backend that wraps slot material under an in-memory key,
  with its forced failures and its prompter.  It keeps no device state; randomness comes from
  the crypto parameters \<open>E\<close>.
\<close>

definition MOCK_AAD_DOMAIN :: bytes where "MOCK_AAD_DOMAIN = ascii ''passman-hsm-mock-v0''"
definition MOCK_NONCE_LEN :: nat where "MOCK_NONCE_LEN = 24"

datatype mock_failure = MfTransient | MfHardwareAbsent | MfPermanentlyInvalidated | MfCancelled

fun mock_failure_error :: "mock_failure \<Rightarrow> hsm_error" where
  "mock_failure_error MfTransient = HTransient"
| "mock_failure_error MfHardwareAbsent = HardwareAbsent"
| "mock_failure_error MfPermanentlyInvalidated = PermanentlyInvalidated"
| "mock_failure_error MfCancelled = HCancelled"

record mock_key_store =
  mk_key :: bytes
  mk_forced_failure :: "mock_failure option"
  mk_lockout :: "duration option"

definition mock_new :: "'m crypto_scheme \<Rightarrow> rng \<Rightarrow> mock_key_store \<times> rng" where
  "mock_new E g = (let (k, g') = random_secret E 32 g in
     (\<lparr>mk_key = k, mk_forced_failure = None, mk_lockout = None\<rparr>, g'))"

definition mock_locked_for :: "'m crypto_scheme \<Rightarrow> duration \<Rightarrow> rng \<Rightarrow> mock_key_store \<times> rng" where
  "mock_locked_for E t g = (let (k, g') = random_secret E 32 g in
     (\<lparr>mk_key = k, mk_forced_failure = None, mk_lockout = Some t\<rparr>, g'))"

fun failure_of :: "hsm_error \<Rightarrow> mock_failure" where
  "failure_of HCancelled = MfCancelled"
| "failure_of HardwareAbsent = MfHardwareAbsent"
| "failure_of PermanentlyInvalidated = MfPermanentlyInvalidated"
| "failure_of _ = MfTransient"

definition mock_with_failure :: "'m crypto_scheme \<Rightarrow> mock_failure \<Rightarrow> rng \<Rightarrow> mock_key_store \<times> rng" where
  "mock_with_failure E f g = (let (k, g') = random_secret E 32 g in
     (\<lparr>mk_key = k, mk_forced_failure = Some f, mk_lockout = None\<rparr>, g'))"

definition mock_failing :: "'m crypto_scheme \<Rightarrow> hsm_error \<Rightarrow> rng \<Rightarrow> mock_key_store \<times> rng" where
  "mock_failing E e g = mock_with_failure E (failure_of e) g"

definition mock_aad :: "hsm_slot \<Rightarrow> bytes" where
  "mock_aad s = MOCK_AAD_DOMAIN @ [slot_tag s]"

definition check_forced :: "mock_key_store \<Rightarrow> hsm_error + unit" where
  "check_forced m = (case mk_forced_failure m of Some f \<Rightarrow> Inl (mock_failure_error f) | None \<Rightarrow> Inr ())"

definition mock_capabilities :: hsm_capabilities where
  "mock_capabilities = \<lparr>biometric_supported = True, strongbox_backed = False, pcr_bound = False,
     max_attempts_before_lockout = None, lockout_recovery_of = TimeBased (from_secs 0),
     supports_distinct_slot_pin = True\<rparr>"

definition mock_lockout_status :: "mock_key_store \<Rightarrow> 'd \<Rightarrow> hsm_error + hsm_lockout_status" where
  "mock_lockout_status m d = Inr (case mk_lockout m of
     Some t \<Rightarrow> LockedOutStatus (Some t) | None \<Rightarrow> LockoutAvailable)"

text \<open>\<open>match prompter.prompt(..)? { Authenticated | FallbackToPin => {}, Cancelled => return }\<close>.\<close>

definition drive_prompt :: "prompter \<Rightarrow> string \<Rightarrow> hsm_error + unit" where
  "drive_prompt p reason = and_then (p reason) (\<lambda>r. case r of
     Authenticated \<Rightarrow> Inr () | FallbackToPin _ \<Rightarrow> Inr () | PromptCancelled \<Rightarrow> Inl HCancelled)"

definition mock_enroll :: "'m crypto_scheme \<Rightarrow> mock_key_store \<Rightarrow> hsm_slot \<Rightarrow> bytes \<Rightarrow> prompter \<Rightarrow>
    'd \<times> rng \<Rightarrow> (hsm_error + wrapped_blob) \<times> 'd \<times> rng" where
  "mock_enroll E m slot material p = (\<lambda>(d, g).
     (case and_then (check_forced m) (\<lambda>_. drive_prompt p ''Enroll passman key'') of
        Inl e \<Rightarrow> (Inl e, d, g)
      | Inr _ \<Rightarrow>
        (let (nonce, g') = random_nonce E g in
         (and_then (map_err (\<lambda>_. Backend ''mock AEAD encrypt failed'')
             (aead_encrypt E (mk_key m) nonce (mock_aad slot) material)) (\<lambda>ct.
            blob_from_parts KSoftwareMock ([slot_tag slot] @ nonce @ ct)), d, g'))))"

definition mock_begin_unwrap :: "mock_key_store \<Rightarrow> hsm_slot \<Rightarrow> wrapped_blob \<Rightarrow> 'd \<Rightarrow> hsm_error + unwrap_handle" where
  "mock_begin_unwrap m slot w d =
     and_then (check_forced m) (\<lambda>_.
     if wb_kind w \<noteq> KSoftwareMock then Inl (MalformedBlob ''blob kind is not SoftwareMock'')
     else
      let payload = wb_payload w; nonce_end = 1 + MOCK_NONCE_LEN in
      if length payload < 1 then Inl (MalformedBlob ''mock payload missing slot tag'')
      else if length payload < nonce_end
        then Inl (MalformedBlob ''mock payload truncated before nonce end'')
      else if payload ! 0 \<noteq> slot_tag slot
        then Inl (MalformedBlob ''mock payload slot tag does not match requested slot'')
      else Inr (ForMock (slot_tag slot) (take MOCK_NONCE_LEN (drop 1 payload))
                  (drop nonce_end payload) (mk_key m)))"

definition mock_complete_unwrap :: "'m crypto_scheme \<Rightarrow> mock_key_store \<Rightarrow> unwrap_handle \<Rightarrow> prompter \<Rightarrow> 'd \<Rightarrow>
    (hsm_error + bytes) \<times> 'd" where
  "mock_complete_unwrap E m h p d =
     (and_then (check_forced m) (\<lambda>_.
      and_then (drive_prompt p ''Unlock passman key'') (\<lambda>_.
      and_then (into_mock h) (\<lambda>(tag, nonce, ct, key).
        map_err (\<lambda>_. Backend ''mock AEAD decrypt/verify failed'')
          (aead_decrypt E key nonce (MOCK_AAD_DOMAIN @ [tag]) ct)))), d)"

definition mock_invalidate :: "mock_key_store \<Rightarrow> hsm_slot \<Rightarrow> wrapped_blob \<Rightarrow> 'd \<Rightarrow> (hsm_error + unit) \<times> 'd" where
  "mock_invalidate m slot w d = (check_forced m, d)"

definition mock_store :: "'m crypto_scheme \<Rightarrow> mock_key_store \<Rightarrow> 'd key_store" where
  "mock_store E m = \<lparr>ks_kind = KSoftwareMock, ks_capabilities = (\<lambda>d. (mock_capabilities, d)),
     ks_lockout_status = mock_lockout_status m, ks_enroll = mock_enroll E m,
     ks_begin_unwrap = mock_begin_unwrap m, ks_complete_unwrap = mock_complete_unwrap E m,
     ks_invalidate = mock_invalidate m\<rparr>"

datatype mock_prompt_outcome = OutcomeAuthenticated | OutcomeCancelled

definition mock_prompter :: "mock_prompt_outcome \<Rightarrow> prompter" where
  "mock_prompter out reason = (case out of
     OutcomeAuthenticated \<Rightarrow> Inr Authenticated | OutcomeCancelled \<Rightarrow> Inr PromptCancelled)"

section \<open>The contract\<close>

text \<open>The blob is the slot tag, a nonce and a ciphertext that opens under the store's key.\<close>

definition mock_opens :: "'m crypto_scheme \<Rightarrow> mock_key_store \<Rightarrow> hsm_slot \<Rightarrow> wrapped_blob \<Rightarrow> bytes \<Rightarrow> 'd \<Rightarrow> bool" where
  "mock_opens E m s w x d \<longleftrightarrow> mk_forced_failure m = None \<and> (\<exists>nonce ct. length nonce = MOCK_NONCE_LEN \<and>
     w = \<lparr>wb_kind = KSoftwareMock, wb_payload = [slot_tag s] @ nonce @ ct\<rparr> \<and>
     aead_decrypt E (mk_key m) nonce (mock_aad s) ct = Inr x)"

definition prompt_passes :: "prompter \<Rightarrow> 'd \<Rightarrow> bool" where
  "prompt_passes p d \<longleftrightarrow> is_ok (drive_prompt p ''Unlock passman key'')"

definition never_collides :: "wrapped_blob \<Rightarrow> rng \<Rightarrow> bool" where
  "never_collides b g \<longleftrightarrow> True"

lemma mock_enroll_Inr:
  assumes "mock_enroll E m s x p (d, g) = (Inr b, d', g')"
  obtains nonce ct where "mk_forced_failure m = None" "length nonce = MOCK_NONCE_LEN"
    "aead_encrypt E (mk_key m) nonce (mock_aad s) x = Inr ct"
    "b = \<lparr>wb_kind = KSoftwareMock, wb_payload = [slot_tag s] @ nonce @ ct\<rparr>" "blob_ok b" "d' = d"
proof -
  let ?n = "fst (random_nonce E g)"
  obtain ct where "mk_forced_failure m = None" "aead_encrypt E (mk_key m) ?n (mock_aad s) x = Inr ct"
    "blob_from_parts KSoftwareMock ([slot_tag s] @ ?n @ ct) = Inr b" "d' = d"
    using assms by (auto simp: mock_enroll_def check_forced_def and_then_Inr_iff map_err_Inr_iff split_def Let_def
        split: sum.splits option.splits)
  then show thesis
    by (intro that [of ?n ct]) (auto simp: blob_from_parts_Inr MOCK_NONCE_LEN_def blob_ok_def)
qed

lemma mock_unwrap:
  assumes "mk_forced_failure m = None" and "length nonce = MOCK_NONCE_LEN"
    and "w = \<lparr>wb_kind = KSoftwareMock, wb_payload = [slot_tag s] @ nonce @ ct\<rparr>"
  shows "unwrap (mock_store E m) s' w p d =
    (if s' = s
     then and_then (drive_prompt p ''Unlock passman key'') (\<lambda>_.
        map_err (\<lambda>_. Backend ''mock AEAD decrypt/verify failed'')
          (aead_decrypt E (mk_key m) nonce (mock_aad s) ct))
     else Inl (MalformedBlob ''mock payload slot tag does not match requested slot''), d)"
  using assms by (auto simp: unwrap_def mock_store_def mock_begin_unwrap_def mock_complete_unwrap_def check_forced_def
      Let_def mock_aad_def MOCK_NONCE_LEN_def)

lemma mock_slot_store:
  assumes a: "aead_ok E"
  shows "bound_slot_store (mock_store E m :: 'd key_store) (mock_opens E m) prompt_passes never_collides"
proof unfold_locales
  fix s s' x x' p d g b b' d' g' r u
  let ?ks = "mock_store E m :: 'd key_store"
  show "ks_enroll ?ks s x p (d, g) = (Inr b, d', g') \<Longrightarrow> wb_kind b = ks_kind ?ks \<and> blob_ok b"
    by (auto simp: mock_store_def elim!: mock_enroll_Inr)
  show "mock_opens E m s b x d'" if "ks_enroll ?ks s x p (d, g) = (Inr b, d', g')"
  proof -
    from that have "mock_enroll E m s x p (d, g) = (Inr b, d', g')" by (simp add: mock_store_def)
    then obtain n ct where "mk_forced_failure m = None" "length n = MOCK_NONCE_LEN"
      "aead_encrypt E (mk_key m) n (mock_aad s) x = Inr ct"
      "b = \<lparr>wb_kind = KSoftwareMock, wb_payload = [slot_tag s] @ n @ ct\<rparr>"
      by (rule mock_enroll_Inr)
    then show ?thesis using aead_decrypt_encrypt [OF a] by (auto simp: mock_opens_def)
  qed
  show "mock_opens E m s b x d \<Longrightarrow> never_collides b g \<Longrightarrow>
      ks_enroll ?ks s' x' p (d, g) = (r, d', g') \<Longrightarrow> mock_opens E m s b x d'"
    by (simp add: mock_opens_def)
  show "mock_opens E m s b x d \<Longrightarrow> prompt_passes p d \<Longrightarrow>
      \<exists>d'. unwrap ?ks s b p d = (Inr x, d') \<and> prompt_passes p d'"
    by (auto simp: mock_opens_def mock_unwrap prompt_passes_def is_ok_iff)
  show "mock_opens E m s b x d \<Longrightarrow> unwrap ?ks s' b' p d = (u, d') \<Longrightarrow> mock_opens E m s b x d'"
    by (simp add: mock_opens_def)
  show "mock_opens E m s b x d \<Longrightarrow> s' \<noteq> s \<Longrightarrow> \<not> is_ok (fst (unwrap ?ks s' b p d))"
    by (auto simp: mock_opens_def mock_unwrap)
qed

text \<open>The store of a fixed key on the concrete primitives.\<close>

definition demo_mock :: mock_key_store where
  "demo_mock = \<lparr>mk_key = replicate 32 9, mk_forced_failure = None, mk_lockout = None\<rparr>"

interpretation mock: bound_slot_store "mock_store toy_crypto demo_mock :: unit key_store"
  "mock_opens toy_crypto demo_mock" prompt_passes never_collides
  by (rule mock_slot_store) (rule toy_crypto_ok)

end
