(* ===== verification/HsmWire.thy ===== *)
theory HsmWire
  imports Hsm
begin

text \<open>
  Wire helpers shared by the backends: lower-case hexadecimal names and the splitting of a byte
  slice (\<open>split_at_checked\<close>, \<open>split_first\<close>).  A blob payload is read by splitting off a prefix and
  continuing with the rest.
\<close>

definition HEX_DIGITS :: ustring where "HEX_DIGITS = ustr ''0123456789abcdef''"

definition hex_byte :: "byte \<Rightarrow> ustring" where
  "hex_byte b = [HEX_DIGITS ! unat (drop_bit 4 b), HEX_DIGITS ! unat (b AND 15)]"

definition hex_lower :: "bytes \<Rightarrow> ustring" where
  "hex_lower bs = concat (map hex_byte bs)"

definition split_at_checked :: "nat \<Rightarrow> bytes \<Rightarrow> (bytes \<times> bytes) option" where
  "split_at_checked n b = (if n \<le> length b then Some (take n b, drop n b) else None)"

lemma split_at_append [simp]: "length a = n \<Longrightarrow> split_at_checked n (a @ b) = Some (a, b)"
  by (simp add: split_at_checked_def)

lemma split_at_Some: "split_at_checked n b = Some (x, y) \<longleftrightarrow> length x = n \<and> b = x @ y"
  by (auto simp: split_at_checked_def)

text \<open>\<open>u16::try_from(len)\<close>.\<close>

definition u16_try :: "nat \<Rightarrow> 16 word option" where
  "u16_try k = (if k < 2 ^ 16 then Some (of_nat k) else None)"

lemma u16_try_Some: "u16_try k = Some w \<longleftrightarrow> k \<le> 65535 \<and> w = u16_sat k"
  by (auto simp: u16_try_def u16_sat_def)

lemma of_le_u16 [simp]: "k \<le> 65535 \<Longrightarrow> unat (of_le (le_bytes 2 (u16_sat k)) :: 16 word) = k"
  by (simp add: of_le_le_bytes u16_sat_unat)

section \<open>Hexadecimal names\<close>

lemma drop_bit4_lt: "unat (drop_bit 4 (b :: byte)) < 16"
  using unat8 [of b] by (simp add: unat_drop_bit_eq drop_bit_eq_div unat_div_distrib less_mult_imp_div_less)

lemma and15: "unat ((b :: byte) AND 15) = unat b mod 16"
proof -
  have "b AND 15 = take_bit 4 b" by (simp add: take_bit_eq_mask mask_eq_exp_minus_1)
  then show ?thesis by (simp add: unsigned_take_bit_eq take_bit_eq_mod unat_mod_distrib)
qed

lemma and15_lt: "unat ((b :: byte) AND 15) < 16"
  by (simp add: and15)

lemma HEX_length: "length HEX_DIGITS = 16"
  by (simp add: HEX_DIGITS_def ustr_def)

lemma HEX_distinct: "distinct HEX_DIGITS"
  by (simp add: HEX_DIGITS_def ustr_def)

lemma HEX_set: "c \<in> set HEX_DIGITS \<Longrightarrow> c < 128"
  by (auto simp: HEX_DIGITS_def ustr_def)

lemma hex_byte_inj: "hex_byte a = hex_byte b \<Longrightarrow> a = b"
proof -
  assume h: "hex_byte a = hex_byte b"
  have l: "unat (drop_bit 4 c) < length HEX_DIGITS" "unat (c AND 15) < length HEX_DIGITS" for c :: byte
    using drop_bit4_lt [of c] and15_lt [of c] by (simp_all add: HEX_length)
  have "unat (drop_bit 4 a) = unat (drop_bit 4 b)" "unat (a AND 15) = unat (b AND 15)"
    using h nth_eq_iff_index_eq [OF HEX_distinct l(1) [of a] l(1) [of b]]
      nth_eq_iff_index_eq [OF HEX_distinct l(2) [of a] l(2) [of b]]
    by (auto simp: hex_byte_def)
  then have "unat a div 16 = unat b div 16" "unat a mod 16 = unat b mod 16"
    by (simp_all add: unat_drop_bit_eq drop_bit_eq_div unat_div_distrib and15)
  then have "unat a = unat b" by (metis mult_div_mod_eq)
  then show "a = b" by (simp add: word_unat_eq_iff)
qed

lemma hex_lower_inj: "hex_lower a = hex_lower b \<longleftrightarrow> a = b"
proof
  show "hex_lower a = hex_lower b \<Longrightarrow> a = b"
  proof (induction a arbitrary: b)
    case Nil
    then show ?case by (cases b) (auto simp: hex_lower_def hex_byte_def)
  next
    case (Cons x xs)
    then obtain y ys where b: "b = y # ys" by (cases b) (auto simp: hex_lower_def hex_byte_def)
    have "hex_byte x @ hex_lower xs = hex_byte y @ hex_lower ys" using Cons.prems b by (simp add: hex_lower_def)
    then have "hex_byte x = hex_byte y" "hex_lower xs = hex_lower ys" by (auto simp: hex_byte_def)
    then show ?case using Cons.IH hex_byte_inj b by blast
  qed
qed simp

lemma hex_lower_ascii: "c \<in> set (hex_lower b) \<Longrightarrow> c < 128"
proof -
  assume "c \<in> set (hex_lower b)"
  then obtain x where "c \<in> set (hex_byte x)" by (auto simp: hex_lower_def)
  then have "c \<in> set HEX_DIGITS"
    using drop_bit4_lt [of x] and15_lt [of x] by (auto simp: hex_byte_def HEX_length)
  then show "c < 128" by (rule HEX_set)
qed

lemma length_hex_lower [simp]: "length (hex_lower b) = 2 * length b"
  by (induction b) (simp_all add: hex_lower_def hex_byte_def)

lemma ascii_str_ok: "(\<And>c. c \<in> set s \<Longrightarrow> c < 128) \<Longrightarrow> str_ok s"
  by (fastforce simp: str_ok_def is_scalar_def list_all_iff)

end
