(* ===== verification/HsmAndroid.thy ===== *)
theory HsmAndroid
  imports HsmWire
begin

text \<open>
  \<open>passman-hsm\<close>, \<open>android.rs\<close>: the Android Keystore backend.  The foreign \<open>KeystoreWrapper\<close> (Kotlin)
  is the record \<open>keystore\<close> of its methods over a device state; the part of the backend in Rust is
  the memoised security level, the payload codec, the slot binding by associated data, the refusal
  of software keys with its clean-up, and the error routing.
\<close>

definition GCM_IV_LEN :: nat where "GCM_IV_LEN = 12"
definition GCM_TAG_LEN :: nat where "GCM_TAG_LEN = 16"
definition ALIAS_ENTROPY_LEN :: nat where "ALIAS_ENTROPY_LEN = 16"
definition BIOMETRIC_LOCKOUT_THRESHOLD :: "32 word" where "BIOMETRIC_LOCKOUT_THRESHOLD = 5"

datatype keystore_security_level = StrongBox | TrustedEnvironment | Software

datatype keystore_error =
    KsCancelled | KsLockout | KsKeyInvalidated | KsAuthFailed | KsNoSecureLockOrHardware | KsBackend

record wrapped_parts =
  wp_iv :: bytes
  wp_ciphertext :: bytes
  wp_level :: keystore_security_level

record 'd keystore =
  kw_wrap :: "ustring \<Rightarrow> byte \<Rightarrow> bytes \<Rightarrow> 'd \<Rightarrow> (keystore_error + wrapped_parts) \<times> 'd"
  kw_unwrap :: "ustring \<Rightarrow> byte \<Rightarrow> bytes \<Rightarrow> bytes \<Rightarrow> 'd \<Rightarrow> (keystore_error + bytes) \<times> 'd"
  kw_invalidate :: "ustring \<Rightarrow> 'd \<Rightarrow> (keystore_error + unit) \<times> 'd"
  kw_probe :: "'d \<Rightarrow> (keystore_error + keystore_security_level) \<times> 'd"

text \<open>The store's own state is the \<open>OnceLock\<close> that caches a successful probe.\<close>

record 'd android_dev =
  cached_level :: "keystore_security_level option"
  device :: 'd

definition security_level :: "'d keystore \<Rightarrow> 'd android_dev \<Rightarrow> keystore_security_level \<times> 'd android_dev" where
  "security_level W s =
     (case cached_level s of
        Some level \<Rightarrow> (level, s)
      | None \<Rightarrow>
          (case kw_probe W (device s) of
             (Inr level, d) \<Rightarrow> (level, s\<lparr>cached_level := Some level, device := d\<rparr>)
           | (Inl _, d) \<Rightarrow> (Software, s\<lparr>device := d\<rparr>)))"

definition android_capabilities :: "'d keystore \<Rightarrow> 'd android_dev \<Rightarrow> hsm_capabilities \<times> 'd android_dev" where
  "android_capabilities W s =
     (let (level, s') = security_level W s in
      (\<lparr>biometric_supported = True, strongbox_backed = (level = StrongBox), pcr_bound = False,
        max_attempts_before_lockout = Some BIOMETRIC_LOCKOUT_THRESHOLD,
        lockout_recovery_of = UserAccountReset, supports_distinct_slot_pin = True\<rparr>, s'))"

section \<open>Payload codec\<close>

definition random_alias :: "'m crypto_scheme \<Rightarrow> rng \<Rightarrow> ustring \<times> rng" where
  "random_alias E g = (let (raw, g') = fill_random E ALIAS_ENTROPY_LEN g in
     (ustr ''passman-'' @ hex_lower raw, g'))"

definition android_encode_payload :: "ustring \<Rightarrow> bytes \<Rightarrow> bytes \<Rightarrow> hsm_error + bytes" where
  "android_encode_payload alias iv ct =
     and_then (ok_or (MalformedBlob ''android alias exceeds u16::MAX bytes'')
       (u16_try (length (utf8_enc alias)))) (\<lambda>name_len.
     and_then (ok_or (MalformedBlob ''android ciphertext exceeds u16::MAX bytes'')
       (u16_try (length ct))) (\<lambda>ct_len.
       Inr (le_bytes 2 name_len @ utf8_enc alias @ iv @ le_bytes 2 ct_len @ ct)))"

definition android_read_len_prefixed :: "bytes \<Rightarrow> hsm_error + bytes \<times> bytes" where
  "android_read_len_prefixed cursor =
     and_then (ok_or (MalformedBlob ''android payload truncated in a length prefix'')
       (split_at_checked 2 cursor)) (\<lambda>(len_bytes, rest).
     ok_or (MalformedBlob ''android length prefix exceeds remaining input'')
       (split_at_checked (unat (of_le len_bytes :: 16 word)) rest))"

definition android_decode_payload :: "bytes \<Rightarrow> hsm_error + ustring \<times> bytes \<times> bytes" where
  "android_decode_payload payload =
     and_then (android_read_len_prefixed payload) (\<lambda>(alias_bytes, c).
     and_then (ok_or (MalformedBlob ''android alias is not valid UTF-8'') (from_utf8 alias_bytes)) (\<lambda>alias.
     and_then (ok_or (MalformedBlob ''android payload truncated in gcm_iv'')
       (split_at_checked GCM_IV_LEN c)) (\<lambda>(iv, c).
     and_then (android_read_len_prefixed c) (\<lambda>(ct, c).
     if c \<noteq> [] then Inl (MalformedBlob ''trailing bytes after android payload'')
     else if length ct < GCM_TAG_LEN then Inl (MalformedBlob ''android ciphertext shorter than GCM tag'')
     else Inr (alias, iv, ct)))))"

fun map_keystore_error :: "keystore_error \<Rightarrow> hsm_error" where
  "map_keystore_error KsCancelled = HCancelled"
| "map_keystore_error KsLockout = HTransient"
| "map_keystore_error KsKeyInvalidated = PermanentlyInvalidated"
| "map_keystore_error KsAuthFailed =
     MalformedBlob ''android AES-GCM authentication failed (wrong slot or tampered blob)''"
| "map_keystore_error KsNoSecureLockOrHardware = HardwareAbsent"
| "map_keystore_error KsBackend = Backend ''android keystore backend error''"

section \<open>Operations\<close>

definition android_enroll :: "'m crypto_scheme \<Rightarrow> 'd keystore \<Rightarrow> hsm_slot \<Rightarrow> bytes \<Rightarrow> prompter \<Rightarrow>
    'd android_dev \<times> rng \<Rightarrow> (hsm_error + wrapped_blob) \<times> 'd android_dev \<times> rng" where
  "android_enroll E W slot material p = (\<lambda>(s, g).
     (let (level, s0) = security_level W s in
      if level = Software then (Inl HardwareAbsent, s0, g)
      else
       (let (alias, g1) = random_alias E g in
        case kw_wrap W alias (slot_tag slot) material (device s0) of
          (Inl e, d1) \<Rightarrow>
            (Inl (map_keystore_error e), s0\<lparr>device := snd (kw_invalidate W alias d1)\<rparr>, g1)
        | (Inr w, d1) \<Rightarrow>
            if wp_level w = Software
            then (Inl HardwareAbsent, s0\<lparr>device := snd (kw_invalidate W alias d1)\<rparr>, g1)
            else if length (wp_ciphertext w) < GCM_TAG_LEN
            then (Inl (Backend ''android wrap produced a ciphertext shorter than the GCM tag''),
                  s0\<lparr>device := snd (kw_invalidate W alias d1)\<rparr>, g1)
            else (and_then (android_encode_payload alias (wp_iv w) (wp_ciphertext w))
                    (blob_from_parts KAndroidGcm), s0\<lparr>device := d1\<rparr>, g1))))"

definition android_begin_unwrap :: "hsm_slot \<Rightarrow> wrapped_blob \<Rightarrow> 'd android_dev \<Rightarrow> hsm_error + unwrap_handle" where
  "android_begin_unwrap slot w s =
     (if wb_kind w \<noteq> KAndroidGcm then Inl (MalformedBlob ''blob kind is not AndroidGcm'')
      else and_then (android_decode_payload (wb_payload w)) (\<lambda>(alias, iv, ct).
        Inr (ForAndroid alias iv ct (slot_tag slot))))"

definition android_complete_unwrap :: "'d keystore \<Rightarrow> unwrap_handle \<Rightarrow> prompter \<Rightarrow> 'd android_dev \<Rightarrow>
    (hsm_error + bytes) \<times> 'd android_dev" where
  "android_complete_unwrap W h p s =
     (case into_android h of
        Inl e \<Rightarrow> (Inl e, s)
      | Inr (alias, iv, ct, tag) \<Rightarrow>
          (case kw_unwrap W alias tag iv ct (device s) of
             (r, d) \<Rightarrow> (map_err map_keystore_error r, s\<lparr>device := d\<rparr>)))"

definition android_invalidate :: "'d keystore \<Rightarrow> hsm_slot \<Rightarrow> wrapped_blob \<Rightarrow> 'd android_dev \<Rightarrow>
    (hsm_error + unit) \<times> 'd android_dev" where
  "android_invalidate W slot w s =
     (if wb_kind w \<noteq> KAndroidGcm then (Inl (MalformedBlob ''blob kind is not AndroidGcm''), s)
      else case android_decode_payload (wb_payload w) of
          Inl e \<Rightarrow> (Inl e, s)
        | Inr (alias, iv, ct) \<Rightarrow>
            (case kw_invalidate W alias (device s) of
               (r, d) \<Rightarrow> (map_err map_keystore_error r, s\<lparr>device := d\<rparr>)))"

definition android_store :: "'m crypto_scheme \<Rightarrow> 'd keystore \<Rightarrow> 'd android_dev key_store" where
  "android_store E W = \<lparr>ks_kind = KAndroidGcm, ks_capabilities = android_capabilities W,
     ks_lockout_status = default_lockout_status, ks_enroll = android_enroll E W,
     ks_begin_unwrap = android_begin_unwrap, ks_complete_unwrap = android_complete_unwrap W,
     ks_invalidate = android_invalidate W\<rparr>"

section \<open>Codec lemmas\<close>

lemma android_read_append:
  "length a \<le> 65535 \<Longrightarrow> android_read_len_prefixed (le_bytes 2 (u16_sat (length a)) @ a @ rest) = Inr (a, rest)"
  by (simp add: android_read_len_prefixed_def)

lemma android_read_Inr:
  "android_read_len_prefixed c = Inr (a, rest) \<Longrightarrow>
   length a \<le> 65535 \<and> c = le_bytes 2 (u16_sat (length a)) @ a @ rest"
proof -
  assume "android_read_len_prefixed c = Inr (a, rest)"
  then obtain lb where l: "length lb = 2" "length a = unat (of_le lb :: 16 word)" "c = lb @ a @ rest"
    by (auto simp: android_read_len_prefixed_def and_then_Inr_iff ok_or_Inr_iff split_at_Some)
  have "le_bytes 2 (u16_sat (length a)) = lb"
    using l by (simp add: u16_sat_of_unat le_bytes_of_le)
  then show ?thesis using l unat16 [of "of_le lb"] by simp
qed

definition android_payload_ok :: "ustring \<Rightarrow> bytes \<Rightarrow> bytes \<Rightarrow> bool" where
  "android_payload_ok alias iv ct \<longleftrightarrow> str_ok alias \<and> length (utf8_enc alias) \<le> 65535 \<and>
     length iv = GCM_IV_LEN \<and> GCM_TAG_LEN \<le> length ct \<and> length ct \<le> 65535"

lemma android_decode_encode:
  "android_payload_ok alias iv ct \<Longrightarrow> android_encode_payload alias iv ct = Inr b \<Longrightarrow>
   android_decode_payload b = Inr (alias, iv, ct)"
  using android_read_append [of ct "[]"]
  by (clarsimp simp: android_encode_payload_def and_then_Inr_iff ok_or_Inr_iff u16_try_Some
      android_payload_ok_def)
    (simp add: android_decode_payload_def android_read_append from_utf8_enc not_less)

lemma android_decode_iff:
  "android_decode_payload b = Inr (alias, iv, ct) \<longleftrightarrow>
   android_payload_ok alias iv ct \<and> android_encode_payload alias iv ct = Inr b"
proof
  assume "android_decode_payload b = Inr (alias, iv, ct)"
  then show "android_payload_ok alias iv ct \<and> android_encode_payload alias iv ct = Inr b"
    by (auto simp: android_decode_payload_def and_then_Inr_iff ok_or_Inr_iff split_at_Some
        android_payload_ok_def android_encode_payload_def u16_try_Some
        split: if_splits dest!: android_read_Inr from_utf8_Some)
qed (auto intro: android_decode_encode)

lemma random_alias_props:
  "random_alias E g = (a, g') \<Longrightarrow> str_ok a \<and> length (utf8_enc a) = 40"
proof -
  assume "random_alias E g = (a, g')"
  then have a: "a = ustr ''passman-'' @ hex_lower (fst (fill_random E 16 g))"
    by (auto simp: random_alias_def ALIAS_ENTROPY_LEN_def split_def Let_def)
  have asc: "c < 128" if "c \<in> set a" for c
    using that hex_lower_ascii by (auto simp: a ustr_def)
  have "length (utf8_enc s) = length s" if "\<And>c. c \<in> set s \<Longrightarrow> c < 128" for s
    using that by (induction s) (auto simp: utf8_enc_def enc1_def)
  then show ?thesis using asc by (simp add: ascii_str_ok) (simp add: a ustr_def)
qed

section \<open>The contract\<close>

text \<open>What the \<open>KeystoreWrapper\<close> documentation promises.  \<open>sec d a t iv ct\<close> is the plaintext that key
  \<open>a\<close> holds for a ciphertext under associated data \<open>[t]\<close> in device state \<open>d\<close>; \<open>ready d\<close> says that
  the user authenticates when asked.  Keys of different aliases do not disturb each other, a
  probe or a decryption destroys nothing, and no ciphertext authenticates under two tags.\<close>

definition keystore_ok :: "'d keystore \<Rightarrow> ('d \<Rightarrow> ustring \<Rightarrow> byte \<Rightarrow> bytes \<Rightarrow> bytes \<Rightarrow> bytes option) \<Rightarrow> ('d \<Rightarrow> bool) \<Rightarrow> bool" where
  "keystore_ok W sec ready \<longleftrightarrow>
     (\<forall>a t m d p d'. kw_wrap W a t m d = (Inr p, d') \<longrightarrow>
        sec d' a t (wp_iv p) (wp_ciphertext p) = Some m \<and> length (wp_iv p) = GCM_IV_LEN) \<and>
     (\<forall>a t m d a'. a' \<noteq> a \<longrightarrow> sec (snd (kw_wrap W a t m d)) a' = sec d a') \<and>
     (\<forall>a d a'. a' \<noteq> a \<longrightarrow> sec (snd (kw_invalidate W a d)) a' = sec d a') \<and>
     (\<forall>d. sec (snd (kw_probe W d)) = sec d) \<and>
     (\<forall>a t iv c d. sec (snd (kw_unwrap W a t iv c d)) = sec d) \<and>
     (\<forall>a t iv c d m. sec d a t iv c = Some m \<and> ready d \<longrightarrow>
        fst (kw_unwrap W a t iv c d) = Inr m \<and> ready (snd (kw_unwrap W a t iv c d))) \<and>
     (\<forall>a t iv c d m. fst (kw_unwrap W a t iv c d) = Inr m \<longrightarrow> sec d a t iv c = Some m) \<and>
     (\<forall>a t t' iv c d. sec d a t iv c \<noteq> None \<and> t' \<noteq> t \<longrightarrow> sec d a t' iv c = None)"

lemma keystore_okD:
  assumes "keystore_ok W sec ready"
  shows ks_wrap_sec: "kw_wrap W a t m d = (Inr p, d') \<Longrightarrow> sec d' a t (wp_iv p) (wp_ciphertext p) = Some m"
    and ks_wrap_iv: "kw_wrap W a t m d = (Inr p, d') \<Longrightarrow> length (wp_iv p) = GCM_IV_LEN"
    and ks_wrap_other: "a' \<noteq> a \<Longrightarrow> sec (snd (kw_wrap W a t m d)) a' = sec d a'"
    and ks_invalidate_other: "a' \<noteq> a \<Longrightarrow> sec (snd (kw_invalidate W a d)) a' = sec d a'"
    and ks_probe_sec: "sec (snd (kw_probe W d)) = sec d"
    and ks_unwrap_sec: "sec (snd (kw_unwrap W a t iv c d)) = sec d"
    and ks_unwrap_ready: "sec d a t iv c = Some m \<Longrightarrow> ready d \<Longrightarrow>
      fst (kw_unwrap W a t iv c d) = Inr m \<and> ready (snd (kw_unwrap W a t iv c d))"
    and ks_unwrap_Inr: "fst (kw_unwrap W a t iv c d) = Inr m \<Longrightarrow> sec d a t iv c = Some m"
    and ks_tag_bound: "sec d a t iv c = Some m \<Longrightarrow> t' \<noteq> t \<Longrightarrow> sec d a t' iv c = None"
proof -
  note c = assms [unfolded keystore_ok_def]
  note c2 = c [THEN conjunct2] note c3 = c2 [THEN conjunct2] note c4 = c3 [THEN conjunct2]
  note c5 = c4 [THEN conjunct2] note c6 = c5 [THEN conjunct2] note c7 = c6 [THEN conjunct2]
  show "kw_wrap W a t m d = (Inr p, d') \<Longrightarrow> sec d' a t (wp_iv p) (wp_ciphertext p) = Some m"
    and "kw_wrap W a t m d = (Inr p, d') \<Longrightarrow> length (wp_iv p) = GCM_IV_LEN"
    using c [THEN conjunct1] by blast+
  show "a' \<noteq> a \<Longrightarrow> sec (snd (kw_wrap W a t m d)) a' = sec d a'"
    by (rule c2 [THEN conjunct1, rule_format])
  show "a' \<noteq> a \<Longrightarrow> sec (snd (kw_invalidate W a d)) a' = sec d a'"
    by (rule c3 [THEN conjunct1, rule_format])
  show "sec (snd (kw_probe W d)) = sec d" by (rule c4 [THEN conjunct1, rule_format])
  show "sec (snd (kw_unwrap W a t iv c d)) = sec d" by (rule c5 [THEN conjunct1, rule_format])
  show "sec d a t iv c = Some m \<Longrightarrow> ready d \<Longrightarrow>
      fst (kw_unwrap W a t iv c d) = Inr m \<and> ready (snd (kw_unwrap W a t iv c d))"
    using c6 [THEN conjunct1] by blast
  show "fst (kw_unwrap W a t iv c d) = Inr m \<Longrightarrow> sec d a t iv c = Some m"
    using c7 [THEN conjunct1] by blast
  show "sec d a t iv c = Some m \<Longrightarrow> t' \<noteq> t \<Longrightarrow> sec d a t' iv c = None"
    using c7 [THEN conjunct2, rule_format, of d a t iv c t'] by simp
qed

definition android_opens :: "('d \<Rightarrow> ustring \<Rightarrow> byte \<Rightarrow> bytes \<Rightarrow> bytes \<Rightarrow> bytes option) \<Rightarrow>
    hsm_slot \<Rightarrow> wrapped_blob \<Rightarrow> bytes \<Rightarrow> 'd android_dev \<Rightarrow> bool" where
  "android_opens sec s w m dd \<longleftrightarrow> (\<exists>a iv ct. wb_kind w = KAndroidGcm \<and>
     android_decode_payload (wb_payload w) = Inr (a, iv, ct) \<and>
     sec (device dd) a (slot_tag s) iv ct = Some m)"

definition alias_fresh :: "'m crypto_scheme \<Rightarrow> wrapped_blob \<Rightarrow> rng \<Rightarrow> bool" where
  "alias_fresh E w g \<longleftrightarrow> (case android_decode_payload (wb_payload w) of
     Inr (a, _, _) \<Rightarrow> a \<noteq> fst (random_alias E g) | Inl _ \<Rightarrow> True)"

definition android_willing :: "('d \<Rightarrow> bool) \<Rightarrow> prompter \<Rightarrow> 'd android_dev \<Rightarrow> bool" where
  "android_willing ready p dd \<longleftrightarrow> ready (device dd)"

lemma security_level_sec:
  "keystore_ok W sec ready \<Longrightarrow> security_level W s = (l, s') \<Longrightarrow> sec (device s') = sec (device s)"
  using ks_probe_sec [of W sec ready "device s"]
  by (auto simp: security_level_def split: option.splits sum.splits prod.splits)

lemma android_enroll_Inr:
  assumes ok: "keystore_ok W sec ready" and e: "android_enroll E W slot m p (s, g) = (Inr w, s', g')"
  shows "blob_ok w \<and> android_opens sec slot w m s'"
proof -
  obtain l s0 where s0: "security_level W s = (l, s0)" by fastforce
  obtain a g1 where a: "random_alias E g = (a, g1)" by fastforce
  from e s0 a obtain q d1 b where q: "kw_wrap W a (slot_tag slot) m (device s0) = (Inr q, d1)"
    and n: "GCM_TAG_LEN \<le> length (wp_ciphertext q)"
    and b: "android_encode_payload a (wp_iv q) (wp_ciphertext q) = Inr b"
    and w: "length b \<le> 65535" "w = \<lparr>wb_kind = KAndroidGcm, wb_payload = b\<rparr>" and s': "s' = s0\<lparr>device := d1\<rparr>"
    by (auto simp: android_enroll_def Let_def and_then_Inr_iff blob_from_parts_Inr
        split: if_splits sum.splits prod.splits)
  have sec: "sec d1 a (slot_tag slot) (wp_iv q) (wp_ciphertext q) = Some m" "length (wp_iv q) = GCM_IV_LEN"
    using ks_wrap_sec [OF ok q] ks_wrap_iv [OF ok q] by simp_all
  have "android_payload_ok a (wp_iv q) (wp_ciphertext q)"
    using random_alias_props [OF a] n b sec(2)
    by (auto simp: android_payload_ok_def android_encode_payload_def and_then_Inr_iff ok_or_Inr_iff u16_try_Some)
  then have "android_decode_payload b = Inr (a, wp_iv q, wp_ciphertext q)" using b by (simp add: android_decode_iff)
  then show ?thesis using w s' sec(1) by (simp add: android_opens_def blob_ok_def)
qed

lemma android_enroll_keeps:
  assumes ok: "keystore_ok W sec ready" and o: "android_opens sec slot w m s"
    and f: "alias_fresh E w g" and e: "android_enroll E W slot' m' p (s, g) = (r, s', g')"
  shows "android_opens sec slot w m s'"
proof -
  obtain a iv ct where w: "wb_kind w = KAndroidGcm" "android_decode_payload (wb_payload w) = Inr (a, iv, ct)"
    "sec (device s) a (slot_tag slot) iv ct = Some m"
    using o by (auto simp: android_opens_def)
  obtain l s0 where s0: "security_level W s = (l, s0)" by fastforce
  obtain a1 g1 where a1: "random_alias E g = (a1, g1)" by fastforce
  have ne: "a \<noteq> a1" using f w(2) a1 by (simp add: alias_fresh_def)
  obtain x d1 where x: "kw_wrap W a1 (slot_tag slot') m' (device s0) = (x, d1)" by fastforce
  have "sec d1 a = sec (device s0) a" using ks_wrap_other [OF ok ne, of "slot_tag slot'" m' "device s0"] x by simp
  moreover have "sec (snd (kw_invalidate W a1 d1)) a = sec d1 a" by (rule ks_invalidate_other [OF ok ne])
  ultimately have "sec (device s') a = sec (device s) a"
    using e s0 a1 x security_level_sec [OF ok s0]
    by (auto simp: android_enroll_def Let_def split: if_splits sum.splits)
  then show ?thesis using w by (simp add: android_opens_def)
qed

lemma android_unwrap_eq:
  "wb_kind w = KAndroidGcm \<Longrightarrow> android_decode_payload (wb_payload w) = Inr (a, iv, ct) \<Longrightarrow>
   unwrap (android_store E W) s w p dd =
     (map_err map_keystore_error (fst (kw_unwrap W a (slot_tag s) iv ct (device dd))),
      dd\<lparr>device := snd (kw_unwrap W a (slot_tag s) iv ct (device dd))\<rparr>)"
  by (simp add: unwrap_def android_store_def android_begin_unwrap_def android_complete_unwrap_def split_def)

lemma android_unwrap_sec:
  assumes ok: "keystore_ok W sec ready" and u: "unwrap (android_store E W) s w p dd = (r, dd')"
  shows "sec (device dd') = sec (device dd)"
proof (cases "wb_kind w = KAndroidGcm \<and> is_ok (android_decode_payload (wb_payload w))")
  case True
  then obtain a iv ct where w: "wb_kind w = KAndroidGcm" "android_decode_payload (wb_payload w) = Inr (a, iv, ct)"
    by (auto simp: is_ok_iff)
  show ?thesis using u ks_unwrap_sec [OF ok] by (auto simp: android_unwrap_eq [OF w])
next
  case False
  then have "\<not> is_ok (ks_begin_unwrap (android_store E W) s w dd)"
    by (auto simp: android_store_def android_begin_unwrap_def is_ok_iff and_then_Inr_iff)
  then show ?thesis using u by (auto simp: unwrap_def is_ok_iff split: sum.splits)
qed

lemma android_slot_store:
  assumes ok: "keystore_ok W sec ready"
  shows "bound_slot_store (android_store E W) (android_opens sec) (android_willing ready) (alias_fresh E)"
proof unfold_locales
  fix s s' m m' p d g b b' d' g' r u
  let ?ks = "android_store E W"
  show "ks_enroll ?ks s m p (d, g) = (Inr b, d', g') \<Longrightarrow> wb_kind b = ks_kind ?ks \<and> blob_ok b"
    using android_enroll_Inr [OF ok] by (fastforce simp: android_store_def android_opens_def)
  show "ks_enroll ?ks s m p (d, g) = (Inr b, d', g') \<Longrightarrow> android_opens sec s b m d'"
    using android_enroll_Inr [OF ok] by (fastforce simp: android_store_def)
  show "android_opens sec s b m d \<Longrightarrow> alias_fresh E b g \<Longrightarrow> ks_enroll ?ks s' m' p (d, g) = (r, d', g') \<Longrightarrow>
      android_opens sec s b m d'"
    using android_enroll_keeps [OF ok] by (fastforce simp: android_store_def)
  show "android_opens sec s b m d \<Longrightarrow> android_willing ready p d \<Longrightarrow>
      \<exists>d'. unwrap ?ks s b p d = (Inr m, d') \<and> android_willing ready p d'"
    using ks_unwrap_ready [OF ok] by (auto simp: android_opens_def android_willing_def android_unwrap_eq)
  show "android_opens sec s b m d \<Longrightarrow> unwrap ?ks s' b' p d = (u, d') \<Longrightarrow> android_opens sec s b m d'"
    using android_unwrap_sec [OF ok] by (fastforce simp: android_opens_def)
  show "\<not> is_ok (fst (unwrap ?ks s' b p d))" if o: "android_opens sec s b m d" and ne: "s' \<noteq> s"
  proof -
    obtain a iv ct where w: "wb_kind b = KAndroidGcm" "android_decode_payload (wb_payload b) = Inr (a, iv, ct)"
      "sec (device d) a (slot_tag s) iv ct = Some m" using o by (auto simp: android_opens_def)
    have "sec (device d) a (slot_tag s') iv ct = None" using ks_tag_bound [OF ok w(3)] ne by simp
    then have "fst (kw_unwrap W a (slot_tag s') iv ct (device d)) \<noteq> Inr x" for x
      using ks_unwrap_Inr [OF ok, of a "slot_tag s'" iv ct "device d" x] by auto
    then show ?thesis using w
      by (cases "fst (kw_unwrap W a (slot_tag s') iv ct (device d))") (auto simp: android_unwrap_eq)
  qed
qed

section \<open>A concrete Keystore\<close>

text \<open>The device maps an alias to the associated data and the plaintext of its one ciphertext.\<close>

type_synonym toy_device = "(ustring \<times> byte \<times> bytes) list"

definition toy_sec :: "toy_device \<Rightarrow> ustring \<Rightarrow> byte \<Rightarrow> bytes \<Rightarrow> bytes \<Rightarrow> bytes option" where
  "toy_sec d a t iv c = (case map_of d a of
     Some (t', m) \<Rightarrow> if t = t' \<and> iv = replicate 12 0 \<and> c = m @ replicate 16 t then Some m else None
   | None \<Rightarrow> None)"

definition toy_keystore :: "toy_device keystore" where
  "toy_keystore = \<lparr>
     kw_wrap = (\<lambda>a t m d. (Inr \<lparr>wp_iv = replicate 12 0, wp_ciphertext = m @ replicate 16 t,
        wp_level = TrustedEnvironment\<rparr>, (a, t, m) # d)),
     kw_unwrap = (\<lambda>a t iv c d. (case toy_sec d a t iv c of Some m \<Rightarrow> Inr m | None \<Rightarrow> Inl KsAuthFailed, d)),
     kw_invalidate = (\<lambda>a d. (Inr (), filter (\<lambda>x. fst x \<noteq> a) d)),
     kw_probe = (\<lambda>d. (Inr TrustedEnvironment, d))\<rparr>"

lemma map_of_filter_other: "a' \<noteq> a \<Longrightarrow> map_of (filter (\<lambda>x. fst x \<noteq> a) d) a' = map_of d a'"
  by (induction d) auto

lemma toy_keystore_ok: "keystore_ok toy_keystore toy_sec (\<lambda>d. True)"
proof -
  have "toy_sec ((a, t, m) # d) a t (replicate 12 0) (m @ replicate 16 t) = Some m" for a t m d
    by (simp add: toy_sec_def)
  moreover have "a' \<noteq> a \<Longrightarrow> toy_sec ((a, t, m) # d) a' = toy_sec d a'" for a' a t m d
    by (intro ext) (simp add: toy_sec_def)
  moreover have "a' \<noteq> a \<Longrightarrow> toy_sec (filter (\<lambda>x. fst x \<noteq> a) d) a' = toy_sec d a'" for a' a d
    by (intro ext) (simp add: toy_sec_def map_of_filter_other)
  moreover have "toy_sec d a t iv c = Some y \<Longrightarrow> t' \<noteq> t \<Longrightarrow> toy_sec d a t' iv c = None" for d a t t' iv c y
    by (auto simp: toy_sec_def split: option.splits if_splits)
  ultimately show ?thesis
    by (auto simp: keystore_ok_def toy_keystore_def GCM_IV_LEN_def split: option.splits)
qed

interpretation android: bound_slot_store "android_store toy_crypto toy_keystore" "android_opens toy_sec"
  "android_willing (\<lambda>d. True)" "alias_fresh toy_crypto"
  by (rule android_slot_store [OF toy_keystore_ok])

section \<open>Properties\<close>

text \<open>C14. Under the documented Keystore behaviour a blob the Android backend enrolled for a slot
  survives serialization, unwraps to the same material for that slot, and is refused for the other.\<close>

theorem android_slot_roundtrip:
  assumes "keystore_ok W sec ready" and "android_enroll E W slot m p (s, g) = (Inr w, s', g')"
    and "ready (device s')"
  shows "blob_from_bytes (blob_to_bytes w) = Inr w \<and>
     fst (unwrap (android_store E W) slot w q s') = Inr m \<and>
     (\<forall>other. other = slot \<or> \<not> is_ok (fst (unwrap (android_store E W) other w q s')))"
proof -
  note st = android_slot_store [OF assms(1), of E]
  have e: "ks_enroll (android_store E W) slot m p (s, g) = (Inr w, s', g')"
    using assms(2) by (simp add: android_store_def)
  have o: "android_opens sec slot w m s'"
    using slot_store.enroll_opens [OF bound_slot_store.axioms(1) [OF st] e] .
  show ?thesis
    using slot_store.enroll_unwrap [OF bound_slot_store.axioms(1) [OF st] e, of q]
      bound_slot_store.slot_bound [OF st o] assms(3) by (auto simp: android_willing_def)
qed

definition demo_android :: "toy_device android_dev" where
  "demo_android = \<lparr>cached_level = None, device = []\<rparr>"

lemma android_slot_roundtrip_witness:
  "\<exists>w s' g'. android_enroll toy_crypto toy_keystore VaultKey [1, 2, 3] (\<lambda>_. Inr Authenticated) (demo_android, 0) = (Inr w, s', g')
     \<and> fst (unwrap (android_store toy_crypto toy_keystore) VaultKey w (\<lambda>_. Inr Authenticated) s') = Inr [1, 2, 3]"
proof -
  obtain a g1 where a: "random_alias toy_crypto 0 = (a, g1)" by fastforce
  have "\<exists>w s' g'. android_enroll toy_crypto toy_keystore VaultKey [1, 2, 3] (\<lambda>_. Inr Authenticated)
      (demo_android, 0) = (Inr w, s', g')"
    using random_alias_props [OF a]
    by (simp add: android_enroll_def security_level_def demo_android_def toy_keystore_def a GCM_TAG_LEN_def
        android_encode_payload_def u16_try_def blob_from_parts_def)
  then show ?thesis using android_slot_roundtrip [OF toy_keystore_ok] by blast
qed

text \<open>No software key is ever accepted: a blob exists only when both the device posture and the
  key itself are hardware-backed and the ciphertext carries its tag, and every refused enrollment
  that reached the Keystore ends by deleting the key it made (an oversized ciphertext apart).\<close>

lemma android_enroll_safe:
  "(case android_enroll E W slot m p (s, g) of
      (Inr w, s', g') \<Rightarrow> \<exists>s0 alias q d. security_level W s = (fst (security_level W s), s0) \<and>
         fst (security_level W s) \<noteq> Software \<and> random_alias E g = (alias, g') \<and>
         kw_wrap W alias (slot_tag slot) m (device s0) = (Inr q, d) \<and> wp_level q \<noteq> Software \<and>
         GCM_TAG_LEN \<le> length (wp_ciphertext q) \<and> device s' = d
    | (Inl e, s', g') \<Rightarrow>
         (fst (security_level W s) = Software \<and> e = HardwareAbsent \<and> s' = snd (security_level W s) \<and> g' = g) \<or>
         (\<exists>d. device s' = snd (kw_invalidate W (fst (random_alias E g)) d)) \<or>
         (\<exists>d q. kw_wrap W (fst (random_alias E g)) (slot_tag slot) m d = (Inr q, device s') \<and>
            (65535 < length (wp_ciphertext q) + length (wp_iv q) + 44)))"
proof -
  obtain l s0 where s0: "security_level W s = (l, s0)" by fastforce
  obtain a g1 where a: "random_alias E g = (a, g1)" by fastforce
  obtain x d1 where x: "kw_wrap W a (slot_tag slot) m (device s0) = (x, d1)" by fastforce
  show ?thesis
  proof (cases x)
    case (Inl e)
    then show ?thesis using s0 a x by (auto simp: android_enroll_def)
  next
    case (Inr q)
    let ?r = "and_then (android_encode_payload a (wp_iv q) (wp_ciphertext q)) (blob_from_parts KAndroidGcm)"
    have "65535 < length (wp_ciphertext q) + length (wp_iv q) + 44" if "?r = Inl e" for e
      using that random_alias_props [OF a]
      by (auto simp: and_then_Inl_iff android_encode_payload_def ok_or_Inl_iff ok_or_Inr_iff u16_try_def
          blob_from_parts_def split: if_splits)
    then show ?thesis using s0 a x Inr
      by (cases ?r) (auto simp: android_enroll_def Let_def)
  qed
qed

end
