(* ===== verification/HsmKeyring.thy ===== *)
theory HsmKeyring
  imports HsmWire
begin

text \<open>
  \<open>passman-hsm\<close>, \<open>linux/secret_service.rs\<close>: the Secret Service backend, which parks the material in
  the login keyring and keeps only a random entry name in the blob.  The \<open>keyring\<close> crate is the
  record \<open>keyring\<close> over a device state.
\<close>

datatype keyring_error =
    KrNoEntry | KrNoStorageAccess | KrPlatformFailure | KrBadEncoding | KrTooLong | KrInvalid
  | KrAmbiguous | KrOther

datatype keyring_entry = KeyringEntry string ustring

record 'd keyring =
  kr_entry :: "string \<Rightarrow> ustring \<Rightarrow> keyring_error + keyring_entry"
  kr_set :: "keyring_entry \<Rightarrow> bytes \<Rightarrow> 'd \<Rightarrow> (keyring_error + unit) \<times> 'd"
  kr_get :: "keyring_entry \<Rightarrow> 'd \<Rightarrow> (keyring_error + bytes) \<times> 'd"
  kr_delete :: "keyring_entry \<Rightarrow> 'd \<Rightarrow> (keyring_error + unit) \<times> 'd"

definition KEYRING_SERVICE :: string where "KEYRING_SERVICE = ''passman''"
definition UUID_LEN :: nat where "UUID_LEN = 16"

definition keyring_user :: "hsm_slot \<Rightarrow> bytes \<Rightarrow> ustring" where
  "keyring_user slot uuid =
     ustr ''passman-'' @ ustr (show_nat (unat (slot_tag slot))) @ ustr ''-'' @ hex_lower uuid"

fun map_keyring_error :: "keyring_error \<Rightarrow> hsm_error" where
  "map_keyring_error KrNoEntry = PermanentlyInvalidated"
| "map_keyring_error KrNoStorageAccess = HTransient"
| "map_keyring_error KrPlatformFailure = Backend ''SecretService platform failure''"
| "map_keyring_error KrBadEncoding = Backend ''SecretService returned a malformed secret''"
| "map_keyring_error KrTooLong = Backend ''SecretService attribute exceeded a platform limit''"
| "map_keyring_error KrInvalid = Backend ''SecretService rejected an invalid attribute''"
| "map_keyring_error KrAmbiguous = Backend ''SecretService matched multiple credentials''"
| "map_keyring_error KrOther = Backend ''SecretService backend error''"

definition ss_entry :: "'d keyring \<Rightarrow> hsm_slot \<Rightarrow> bytes \<Rightarrow> hsm_error + keyring_entry" where
  "ss_entry K slot uuid = map_err map_keyring_error (kr_entry K KEYRING_SERVICE (keyring_user slot uuid))"

definition ss_capabilities :: hsm_capabilities where
  "ss_capabilities = \<lparr>biometric_supported = False, strongbox_backed = False, pcr_bound = False,
     max_attempts_before_lockout = None, lockout_recovery_of = UserAccountReset,
     supports_distinct_slot_pin = False\<rparr>"

definition ss_enroll :: "'m crypto_scheme \<Rightarrow> 'd keyring \<Rightarrow> hsm_slot \<Rightarrow> bytes \<Rightarrow> prompter \<Rightarrow> 'd \<times> rng \<Rightarrow>
    (hsm_error + wrapped_blob) \<times> 'd \<times> rng" where
  "ss_enroll E K slot material p = (\<lambda>(d, g).
     (let (uuid, g') = fill_random E UUID_LEN g in
      case ss_entry K slot uuid of
        Inl e \<Rightarrow> (Inl e, d, g')
      | Inr entry \<Rightarrow>
          (case kr_set K entry material d of
             (Inl e, d') \<Rightarrow> (Inl (map_keyring_error e), d', g')
           | (Inr _, d') \<Rightarrow> (blob_from_parts KSecretService uuid, d', g'))))"

definition ss_uuid :: "wrapped_blob \<Rightarrow> hsm_error + bytes" where
  "ss_uuid w =
     (if wb_kind w \<noteq> KSecretService then Inl (MalformedBlob ''blob kind is not SecretService'')
      else if length (wb_payload w) \<noteq> UUID_LEN
        then Inl (MalformedBlob ''SecretService payload is not a 16-byte uuid'')
      else Inr (wb_payload w))"

definition ss_begin_unwrap :: "hsm_slot \<Rightarrow> wrapped_blob \<Rightarrow> 'd \<Rightarrow> hsm_error + unwrap_handle" where
  "ss_begin_unwrap slot w d = and_then (ss_uuid w) (\<lambda>uuid. Inr (ForSecretService slot uuid))"

definition ss_complete_unwrap :: "'d keyring \<Rightarrow> unwrap_handle \<Rightarrow> prompter \<Rightarrow> 'd \<Rightarrow> (hsm_error + bytes) \<times> 'd" where
  "ss_complete_unwrap K h p d =
     (case and_then (into_secret_service h) (\<lambda>(slot, uuid). ss_entry K slot uuid) of
        Inl e \<Rightarrow> (Inl e, d)
      | Inr entry \<Rightarrow> (case kr_get K entry d of (r, d') \<Rightarrow> (map_err map_keyring_error r, d')))"

definition ss_invalidate :: "'d keyring \<Rightarrow> hsm_slot \<Rightarrow> wrapped_blob \<Rightarrow> 'd \<Rightarrow> (hsm_error + unit) \<times> 'd" where
  "ss_invalidate K slot w d =
     (case and_then (ss_uuid w) (ss_entry K slot) of
        Inl e \<Rightarrow> (Inl e, d)
      | Inr entry \<Rightarrow>
          (case kr_delete K entry d of
             (Inr _, d') \<Rightarrow> (Inr (), d')
           | (Inl KrNoEntry, d') \<Rightarrow> (Inr (), d')
           | (Inl e, d') \<Rightarrow> (Inl (map_keyring_error e), d')))"

definition ss_store :: "'m crypto_scheme \<Rightarrow> 'd keyring \<Rightarrow> 'd key_store" where
  "ss_store E K = \<lparr>ks_kind = KSecretService, ks_capabilities = (\<lambda>d. (ss_capabilities, d)),
     ks_lockout_status = default_lockout_status, ks_enroll = ss_enroll E K,
     ks_begin_unwrap = ss_begin_unwrap, ks_complete_unwrap = ss_complete_unwrap K,
     ks_invalidate = ss_invalidate K\<rparr>"

section \<open>The contract\<close>

text \<open>What the \<open>keyring\<close> crate documents: \<open>val d e\<close> is the secret stored under entry \<open>e\<close>, \<open>ready d\<close> that
  the collection is unlocked.\<close>

definition keyring_ok :: "'d keyring \<Rightarrow> ('d \<Rightarrow> keyring_entry \<Rightarrow> bytes option) \<Rightarrow> ('d \<Rightarrow> bool) \<Rightarrow> bool" where
  "keyring_ok K val ready \<longleftrightarrow>
     (\<forall>s u e. kr_entry K s u = Inr e \<longrightarrow> e = KeyringEntry s u) \<and>
     (\<forall>e m d d'. kr_set K e m d = (Inr (), d') \<longrightarrow> val d' e = Some m) \<and>
     (\<forall>e m d e'. e' \<noteq> e \<longrightarrow> val (snd (kr_set K e m d)) e' = val d e') \<and>
     (\<forall>e d. val (snd (kr_get K e d)) = val d) \<and>
     (\<forall>e d m. val d e = Some m \<and> ready d \<longrightarrow> fst (kr_get K e d) = Inr m \<and> ready (snd (kr_get K e d)))"

lemma keyring_okD:
  assumes "keyring_ok K val ready"
  shows kr_entry_name: "kr_entry K sv u = Inr e \<Longrightarrow> e = KeyringEntry sv u"
    and kr_set_val: "kr_set K e m d = (Inr (), d') \<Longrightarrow> val d' e = Some m"
    and kr_set_other: "e' \<noteq> e \<Longrightarrow> val (snd (kr_set K e m d)) e' = val d e'"
    and kr_get_val: "val (snd (kr_get K e d)) = val d"
    and kr_get_ready: "val d e = Some m \<Longrightarrow> ready d \<Longrightarrow> fst (kr_get K e d) = Inr m \<and> ready (snd (kr_get K e d))"
  using assms unfolding keyring_ok_def by blast+

definition ss_opens :: "'d keyring \<Rightarrow> ('d \<Rightarrow> keyring_entry \<Rightarrow> bytes option) \<Rightarrow>
    hsm_slot \<Rightarrow> wrapped_blob \<Rightarrow> bytes \<Rightarrow> 'd \<Rightarrow> bool" where
  "ss_opens K val s w m d \<longleftrightarrow> (\<exists>uuid e. ss_uuid w = Inr uuid \<and> ss_entry K s uuid = Inr e \<and> val d e = Some m)"

definition uuid_fresh :: "'m crypto_scheme \<Rightarrow> wrapped_blob \<Rightarrow> rng \<Rightarrow> bool" where
  "uuid_fresh E w g \<longleftrightarrow> wb_payload w \<noteq> fst (fill_random E UUID_LEN g)"

definition keyring_willing :: "('d \<Rightarrow> bool) \<Rightarrow> prompter \<Rightarrow> 'd \<Rightarrow> bool" where
  "keyring_willing ready p d \<longleftrightarrow> ready d"

lemma keyring_user_inj: "keyring_user s u = keyring_user t v \<longleftrightarrow> s = t \<and> u = v"
proof -
  have n: "ustr (show_nat (unat (slot_tag x))) = [48 + unat (slot_tag x)]" for x
    by (cases x) (simp_all add: show_nat.simps ustr_def)
  show ?thesis
    unfolding keyring_user_def n by (cases s; cases t) (simp_all add: hex_lower_inj)
qed

lemma ss_entry_Inr:
  "keyring_ok K val ready \<Longrightarrow> ss_entry K s u = Inr e \<Longrightarrow> e = KeyringEntry KEYRING_SERVICE (keyring_user s u)"
  using kr_entry_name by (auto simp: ss_entry_def map_err_Inr_iff)

lemma ss_enroll_Inr:
  assumes ok: "keyring_ok K val ready" and e: "ss_enroll E K s m p (d, g) = (Inr w, d', g')"
  shows "wb_kind w = KSecretService \<and> blob_ok w \<and> ss_opens K val s w m d'"
proof -
  let ?u = "fst (fill_random E UUID_LEN g)"
  obtain en where en: "ss_entry K s ?u = Inr en" "kr_set K en m d = (Inr (), d')"
    and w: "w = \<lparr>wb_kind = KSecretService, wb_payload = ?u\<rparr>"
    using e by (auto simp: ss_enroll_def Let_def split_def blob_from_parts_Inr prod_eq_iff
        split: sum.splits)
  have "val d' en = Some m" by (rule kr_set_val [OF ok en(2)])
  then show ?thesis using en(1) w
    by (auto simp: ss_opens_def ss_uuid_def blob_ok_def UUID_LEN_def)
qed

lemma ss_enroll_keeps:
  assumes ok: "keyring_ok K val ready" and o: "ss_opens K val s w m d" and f: "uuid_fresh E w g"
    and e: "ss_enroll E K s' m' p (d, g) = (r, d', g')"
  shows "ss_opens K val s w m d'"
proof -
  obtain u en where u: "ss_uuid w = Inr u" "ss_entry K s u = Inr en" "val d en = Some m"
    using o by (auto simp: ss_opens_def)
  have "u \<noteq> fst (fill_random E UUID_LEN g)" using u(1) f by (auto simp: ss_uuid_def uuid_fresh_def split: if_splits)
  then have "en \<noteq> en'" if "ss_entry K s' (fst (fill_random E UUID_LEN g)) = Inr en'" for en'
    using ss_entry_Inr [OF ok u(2)] ss_entry_Inr [OF ok that] by (simp add: keyring_user_inj)
  moreover have "val (snd (kr_set K en' m' d)) en = val d en" if "en \<noteq> en'" for en'
    by (rule kr_set_other [OF ok that])
  ultimately have "val d' en = val d en"
    using e by (fastforce simp: ss_enroll_def Let_def split_def split: sum.splits)
  then show ?thesis using u by (auto simp: ss_opens_def)
qed

lemma ss_unwrap_eq:
  "ss_uuid w = Inr u \<Longrightarrow> ss_entry K s u = Inr e \<Longrightarrow>
   unwrap (ss_store E K) s w p d = (map_err map_keyring_error (fst (kr_get K e d)), snd (kr_get K e d))"
  by (simp add: unwrap_def ss_store_def ss_begin_unwrap_def ss_complete_unwrap_def split_def)

lemma ss_unwrap_val:
  assumes ok: "keyring_ok K val ready" and u: "unwrap (ss_store E K) s w p d = (r, d')"
  shows "val d' = val d"
proof -
  have "val (snd (kr_get K e d)) = val d" for e by (rule kr_get_val [OF ok])
  then show ?thesis
    using u by (auto simp: unwrap_def ss_store_def ss_begin_unwrap_def ss_complete_unwrap_def and_then_def split_def
        split: sum.splits)
qed

lemma ss_slot_store:
  assumes ok: "keyring_ok K val ready"
  shows "slot_store (ss_store E K) (ss_opens K val) (keyring_willing ready) (uuid_fresh E)"
proof unfold_locales
  fix s s' m m' p d g b b' d' g' r u
  let ?ks = "ss_store E K"
  show "ks_enroll ?ks s m p (d, g) = (Inr b, d', g') \<Longrightarrow> wb_kind b = ks_kind ?ks \<and> blob_ok b"
    using ss_enroll_Inr [OF ok] by (fastforce simp: ss_store_def)
  show "ks_enroll ?ks s m p (d, g) = (Inr b, d', g') \<Longrightarrow> ss_opens K val s b m d'"
    using ss_enroll_Inr [OF ok] by (fastforce simp: ss_store_def)
  show "ss_opens K val s b m d \<Longrightarrow> uuid_fresh E b g \<Longrightarrow> ks_enroll ?ks s' m' p (d, g) = (r, d', g') \<Longrightarrow>
      ss_opens K val s b m d'"
    using ss_enroll_keeps [OF ok] by (fastforce simp: ss_store_def)
  show "ss_opens K val s b m d \<Longrightarrow> keyring_willing ready p d \<Longrightarrow>
      \<exists>d'. unwrap ?ks s b p d = (Inr m, d') \<and> keyring_willing ready p d'"
    using kr_get_ready [OF ok] by (auto simp: ss_opens_def keyring_willing_def ss_unwrap_eq)
  show "ss_opens K val s b m d \<Longrightarrow> unwrap ?ks s' b' p d = (u, d') \<Longrightarrow> ss_opens K val s b m d'"
    using ss_unwrap_val [OF ok] by (fastforce simp: ss_opens_def)
qed

text \<open>A keyring that is an association list.\<close>

type_synonym toy_ring = "(keyring_entry \<times> bytes) list"

definition toy_keyring :: "toy_ring keyring" where
  "toy_keyring = \<lparr>kr_entry = (\<lambda>s u. Inr (KeyringEntry s u)), kr_set = (\<lambda>e m d. (Inr (), (e, m) # d)),
     kr_get = (\<lambda>e d. (case map_of d e of Some m \<Rightarrow> Inr m | None \<Rightarrow> Inl KrNoEntry, d)),
     kr_delete = (\<lambda>e d. (if e \<in> fst ` set d then Inr () else Inl KrNoEntry, filter (\<lambda>x. fst x \<noteq> e) d))\<rparr>"

lemma toy_keyring_ok: "keyring_ok toy_keyring (\<lambda>d. map_of d) (\<lambda>d. True)"
  by (auto simp: keyring_ok_def toy_keyring_def)

interpretation ring: slot_store "ss_store toy_crypto toy_keyring" "ss_opens toy_keyring (\<lambda>d. map_of d)"
  "keyring_willing (\<lambda>d. True)" "uuid_fresh toy_crypto"
  by (rule ss_slot_store [OF toy_keyring_ok])

end
