(* ===== verification/HsmTpm.thy ===== *)
theory HsmTpm
  imports HsmWire
begin

text \<open>
  \<open>passman-hsm\<close>, \<open>linux/tpm2.rs\<close>: the TPM 2.0 backend.  The ESYS calls of \<open>tss-esapi\<close> are the record
  \<open>tpm\<close> over a device state; the Rust part is the object templates, the storage root key with its
  race recovery, the slot tag sealed in front of the secret, the payload codec and the error
  routing.
\<close>

section \<open>The TPM stack\<close>

datatype tss_kind =
    TkLockout | TkRetry | TkYielded | TkNvRate | TkTesting | TkContextGap | TkMemory
  | TkObjectMemory | TkSessionMemory | TkObjectHandles | TkSessionHandles | TkCanceled
  | TkIntegrity | TkOther string

datatype tss_error = Tss2Error "tss_kind option" | WrapperError string

type_synonym tpm_handle = nat

text \<open>The attributes the two templates set, and the key parameters they carry.\<close>

record object_attributes =
  fixed_tpm :: bool
  fixed_parent :: bool
  sensitive_data_origin :: bool
  user_with_auth :: bool
  restricted :: bool
  decrypt :: bool
  sign_encrypt :: bool
  st_clear :: bool
  admin_with_policy :: bool
  no_da :: bool

datatype public_template =
    RsaStorageTemplate object_attributes nat
  | KeyedHashTemplate object_attributes

record 'd tpm =
  t_env_tcti :: "'d \<Rightarrow> bool"
  t_rm_device :: "'d \<Rightarrow> bool"
  t_open :: "'d \<Rightarrow> bool"
  t_build :: "public_template \<Rightarrow> tss_error + bytes"
  t_from_public :: "32 word \<Rightarrow> 'd \<Rightarrow> (tss_error + tpm_handle) \<times> 'd"
  t_create_primary :: "bytes \<Rightarrow> 'd \<Rightarrow> (tss_error + tpm_handle) \<times> 'd"
  t_evict_control :: "tpm_handle \<Rightarrow> 32 word \<Rightarrow> 'd \<Rightarrow> (tss_error + unit) \<times> 'd"
  t_flush :: "tpm_handle \<Rightarrow> 'd \<Rightarrow> (tss_error + unit) \<times> 'd"
  t_create :: "tpm_handle \<Rightarrow> bytes \<Rightarrow> bytes \<Rightarrow> 'd \<Rightarrow> (tss_error + bytes \<times> bytes) \<times> 'd"
  t_load :: "tpm_handle \<Rightarrow> bytes \<Rightarrow> bytes \<Rightarrow> 'd \<Rightarrow> (tss_error + tpm_handle) \<times> 'd"
  t_unseal :: "tpm_handle \<Rightarrow> 'd \<Rightarrow> (tss_error + bytes) \<times> 'd"
  t_sensitive_max :: nat
  t_private_max :: nat
  t_marshall :: "bytes \<Rightarrow> tss_error + bytes"
  t_unmarshall :: "bytes \<Rightarrow> tss_error + bytes"

definition SRK_PERSISTENT_HANDLE :: "32 word" where "SRK_PERSISTENT_HANDLE = 0x81000001"
definition PCR_POLICY_ABSENT :: byte where "PCR_POLICY_ABSENT = 0"
definition TPM_UUID_LEN :: nat where "TPM_UUID_LEN = 16"
definition DA_RESET_PLACEHOLDER_SECS :: nat where "DA_RESET_PLACEHOLDER_SECS = 24 * 60 * 60"

definition map_tpm_error :: "tss_error \<Rightarrow> hsm_error" where
  "map_tpm_error err =
     (case (case err of Tss2Error k \<Rightarrow> k | WrapperError _ \<Rightarrow> None) of
        None \<Rightarrow> Backend ''TPM 2.0 backend error''
      | Some kind \<Rightarrow>
          if kind \<in> {TkLockout, TkRetry, TkYielded, TkNvRate, TkTesting, TkContextGap, TkMemory,
              TkObjectMemory, TkSessionMemory, TkObjectHandles, TkSessionHandles} then HTransient
          else if kind = TkCanceled then HCancelled
          else if kind = TkIntegrity then PermanentlyInvalidated
          else Backend ''TPM 2.0 backend error'')"

definition open_context :: "'d tpm \<Rightarrow> 'd \<Rightarrow> hsm_error + unit" where
  "open_context T d = (if t_open T d then Inr () else Inl HardwareAbsent)"

definition tpm_new :: "'d tpm \<Rightarrow> 'd \<Rightarrow> hsm_error + unit" where
  "tpm_new T d = open_context T d"

definition tpm_is_available :: "'d tpm \<Rightarrow> 'd \<Rightarrow> bool" where
  "tpm_is_available T d =
     (if \<not> t_env_tcti T d \<and> \<not> t_rm_device T d then False else is_ok (open_context T d))"

section \<open>Templates and the storage root key\<close>

definition srk_template :: public_template where
  "srk_template = RsaStorageTemplate
     \<lparr>fixed_tpm = True, fixed_parent = True, sensitive_data_origin = True, user_with_auth = True,
      restricted = True, decrypt = True, sign_encrypt = False, st_clear = False,
      admin_with_policy = False, no_da = False\<rparr> 2048"

definition sealed_template :: public_template where
  "sealed_template = KeyedHashTemplate
     \<lparr>fixed_tpm = True, fixed_parent = True, sensitive_data_origin = False, user_with_auth = True,
      restricted = False, decrypt = False, sign_encrypt = False, st_clear = False,
      admin_with_policy = False, no_da = False\<rparr>"

definition build_srk_public :: "'d tpm \<Rightarrow> hsm_error + bytes" where
  "build_srk_public T = map_err map_tpm_error (t_build T srk_template)"

definition build_sealed_object_public :: "'d tpm \<Rightarrow> hsm_error + bytes" where
  "build_sealed_object_public T = map_err map_tpm_error (t_build T sealed_template)"

definition tss_esapi_from_hsm :: "hsm_error \<Rightarrow> tss_error" where
  "tss_esapi_from_hsm e = WrapperError ''InternalError''"

definition ensure_srk :: "'d tpm \<Rightarrow> 'd \<Rightarrow> (tss_error + tpm_handle) \<times> 'd" where
  "ensure_srk T d =
     (case t_from_public T SRK_PERSISTENT_HANDLE d of
        (Inr existing, d1) \<Rightarrow> (Inr existing, d1)
      | (Inl _, d1) \<Rightarrow>
          (case map_err tss_esapi_from_hsm (build_srk_public T) of
             Inl e \<Rightarrow> (Inl e, d1)
           | Inr srk_public \<Rightarrow>
               (case t_create_primary T srk_public d1 of
                  (Inl e, d2) \<Rightarrow> (Inl e, d2)
                | (Inr primary, d2) \<Rightarrow>
                    (case t_evict_control T primary SRK_PERSISTENT_HANDLE d2 of
                       (Inr _, d3) \<Rightarrow> (Inr primary, d3)
                     | (Inl _, d3) \<Rightarrow>
                         t_from_public T SRK_PERSISTENT_HANDLE (snd (t_flush T primary d3))))))"

section \<open>Payload codec\<close>

definition tpm_encode_payload :: "bytes \<Rightarrow> bytes \<Rightarrow> bytes \<Rightarrow> hsm_error + bytes" where
  "tpm_encode_payload uuid pub_bytes priv_bytes =
     and_then (ok_or (Backend ''marshalled TPM2B_PUBLIC exceeds u16'') (u16_try (length pub_bytes))) (\<lambda>pub_len.
     and_then (ok_or (Backend ''marshalled TPM2B_PRIVATE exceeds u16'') (u16_try (length priv_bytes))) (\<lambda>priv_len.
       Inr ([PCR_POLICY_ABSENT] @ uuid @ le_bytes 2 pub_len @ pub_bytes @ le_bytes 2 priv_len @ priv_bytes)))"

definition tpm_read_len_prefixed :: "bytes \<Rightarrow> hsm_error + bytes \<times> bytes" where
  "tpm_read_len_prefixed cursor =
     and_then (ok_or (MalformedBlob ''TPM2 payload truncated in a length prefix'')
       (split_at_checked 2 cursor)) (\<lambda>(len_bytes, rest).
     ok_or (MalformedBlob ''TPM2 payload length prefix exceeds remaining input'')
       (split_at_checked (unat (of_le len_bytes :: 16 word)) rest))"

definition tpm_decode_payload :: "bytes \<Rightarrow> hsm_error + bytes \<times> bytes" where
  "tpm_decode_payload payload =
     (case payload of
        [] \<Rightarrow> Inl (MalformedBlob ''TPM2 payload missing pcr_policy_present byte'')
      | pcr # rest \<Rightarrow>
          if pcr \<noteq> PCR_POLICY_ABSENT
          then Inl (MalformedBlob ''TPM2 payload declares a PCR policy this build does not support'')
          else
           and_then (ok_or (MalformedBlob ''TPM2 payload truncated in enrollment uuid'')
             (split_at_checked TPM_UUID_LEN rest)) (\<lambda>(_, c).
           and_then (tpm_read_len_prefixed c) (\<lambda>(pub, c).
           and_then (tpm_read_len_prefixed c) (\<lambda>(priv, c).
             if c \<noteq> [] then Inl (MalformedBlob ''trailing bytes after TPM2 payload'')
             else Inr (pub, priv)))))"

section \<open>Operations\<close>

definition tpm_capabilities :: hsm_capabilities where
  "tpm_capabilities = \<lparr>biometric_supported = False, strongbox_backed = False, pcr_bound = False,
     max_attempts_before_lockout = None,
     lockout_recovery_of = TimeBased (from_secs DA_RESET_PLACEHOLDER_SECS),
     supports_distinct_slot_pin = True\<rparr>"

definition tpm_enroll :: "'m crypto_scheme \<Rightarrow> 'd tpm \<Rightarrow> hsm_slot \<Rightarrow> bytes \<Rightarrow> prompter \<Rightarrow> 'd \<times> rng \<Rightarrow>
    (hsm_error + wrapped_blob) \<times> 'd \<times> rng" where
  "tpm_enroll E T slot material p = (\<lambda>(d, g).
     (let to_seal = slot_tag slot # material in
      case and_then (open_context T d) (\<lambda>_.
           and_then (if length to_seal > t_sensitive_max T then Inl (Backend ''secret too large to seal'')
                     else Inr ()) (\<lambda>_. build_sealed_object_public T)) of
        Inl e \<Rightarrow> (Inl e, d, g)
      | Inr sealed_public \<Rightarrow>
          (case ensure_srk T d of
             (Inl e, d1) \<Rightarrow> (Inl (map_tpm_error e), d1, g)
           | (Inr srk, d1) \<Rightarrow>
               (case t_create T srk sealed_public to_seal d1 of
                  (Inl e, d2) \<Rightarrow> (Inl (map_tpm_error e), d2, g)
                | (Inr (pub, priv), d2) \<Rightarrow>
                    (case t_marshall T pub of
                       Inl e \<Rightarrow> (Inl (map_tpm_error e), d2, g)
                     | Inr pub_bytes \<Rightarrow>
                         (let (uuid, g') = fill_random E TPM_UUID_LEN g in
                          (and_then (tpm_encode_payload uuid pub_bytes priv)
                             (blob_from_parts KTpm2), d2, g')))))))"

definition tpm_begin_unwrap :: "hsm_slot \<Rightarrow> wrapped_blob \<Rightarrow> 'd \<Rightarrow> hsm_error + unwrap_handle" where
  "tpm_begin_unwrap slot w d =
     (if wb_kind w \<noteq> KTpm2 then Inl (MalformedBlob ''blob kind is not Tpm2'')
      else and_then (tpm_decode_payload (wb_payload w)) (\<lambda>(pub, priv).
        Inr (ForTpm2 pub priv (slot_tag slot))))"

text \<open>Load, unseal and flush in one session; the flush happens whatever the unseal gave.\<close>

definition tpm_unseal :: "'d tpm \<Rightarrow> bytes \<Rightarrow> bytes \<Rightarrow> 'd \<Rightarrow> (tss_error + bytes) \<times> 'd" where
  "tpm_unseal T private public d =
     (case ensure_srk T d of
        (Inl e, d1) \<Rightarrow> (Inl e, d1)
      | (Inr srk, d1) \<Rightarrow>
          (case t_load T srk private public d1 of
             (Inl e, d2) \<Rightarrow> (Inl e, d2)
           | (Inr object, d2) \<Rightarrow>
               (case t_unseal T object d2 of
                  (r, d3) \<Rightarrow> (r, snd (t_flush T object d3)))))"

definition strip_slot_tag :: "byte \<Rightarrow> bytes \<Rightarrow> hsm_error + bytes" where
  "strip_slot_tag expected b =
     (case b of
        [] \<Rightarrow> Inl (MalformedBlob ''TPM2 unsealed data is empty (missing slot tag)'')
      | tag # secret \<Rightarrow>
          if tag \<noteq> expected
          then Inl (MalformedBlob ''TPM2 sealed slot tag does not match the requested slot'')
          else Inr secret)"

definition tpm_complete_unwrap :: "'d tpm \<Rightarrow> unwrap_handle \<Rightarrow> prompter \<Rightarrow> 'd \<Rightarrow> (hsm_error + bytes) \<times> 'd" where
  "tpm_complete_unwrap T h p d =
     (case and_then (into_tpm2 h) (\<lambda>(pub_bytes, priv, tag).
           and_then (map_err map_tpm_error (t_unmarshall T pub_bytes)) (\<lambda>public.
           and_then (if length priv > t_private_max T then Inl (MalformedBlob ''TPM2 private blob too large'')
                     else Inr priv) (\<lambda>private.
           and_then (open_context T d) (\<lambda>_. Inr (public, private, tag))))) of
        Inl e \<Rightarrow> (Inl e, d)
      | Inr (public, private, tag) \<Rightarrow>
          (case tpm_unseal T private public d of
             (r, d') \<Rightarrow> (and_then (map_err map_tpm_error r) (strip_slot_tag tag), d')))"

definition tpm_invalidate :: "hsm_slot \<Rightarrow> wrapped_blob \<Rightarrow> 'd \<Rightarrow> (hsm_error + unit) \<times> 'd" where
  "tpm_invalidate slot w d =
     ((if wb_kind w \<noteq> KTpm2 then Inl (MalformedBlob ''blob kind is not Tpm2'') else Inr ()), d)"

definition tpm_store :: "'m crypto_scheme \<Rightarrow> 'd tpm \<Rightarrow> 'd key_store" where
  "tpm_store E T = \<lparr>ks_kind = KTpm2, ks_capabilities = (\<lambda>d. (tpm_capabilities, d)),
     ks_lockout_status = default_lockout_status, ks_enroll = tpm_enroll E T,
     ks_begin_unwrap = tpm_begin_unwrap, ks_complete_unwrap = tpm_complete_unwrap T,
     ks_invalidate = tpm_invalidate\<rparr>"

section \<open>Codec lemmas\<close>

lemma tpm_read_append:
  "length a \<le> 65535 \<Longrightarrow> tpm_read_len_prefixed (le_bytes 2 (u16_sat (length a)) @ a @ rest) = Inr (a, rest)"
  by (simp add: tpm_read_len_prefixed_def)

lemma tpm_decode_encode:
  "length uuid = TPM_UUID_LEN \<Longrightarrow> tpm_encode_payload uuid pub priv = Inr b \<Longrightarrow> tpm_decode_payload b = Inr (pub, priv)"
  using tpm_read_append [of priv "[]"]
  by (clarsimp simp: tpm_encode_payload_def and_then_Inr_iff ok_or_Inr_iff u16_try_Some)
    (simp add: tpm_decode_payload_def tpm_read_append)

section \<open>The contract\<close>

text \<open>What the TPM promises.  \<open>sealed pub priv\<close> is the data a sealed object holds (the object is
  self-contained), \<open>loaded d o\<close> the data behind a transient handle, \<open>ready d\<close> that the TPM answers
  and still holds the storage root key the objects were created under.\<close>

definition tpm_ok :: "'d tpm \<Rightarrow> (bytes \<Rightarrow> bytes \<Rightarrow> bytes option) \<Rightarrow> ('d \<Rightarrow> tpm_handle \<Rightarrow> bytes option) \<Rightarrow>
    ('d \<Rightarrow> bool) \<Rightarrow> bool" where
  "tpm_ok T sealed loaded ready \<longleftrightarrow>
     (\<forall>h tp x d pub priv d'. t_create T h tp x d = (Inr (pub, priv), d') \<longrightarrow>
        sealed pub priv = Some x \<and> length priv \<le> t_private_max T) \<and>
     (\<forall>pub b. t_marshall T pub = Inr b \<longrightarrow> t_unmarshall T b = Inr pub) \<and>
     (\<forall>d. ready d \<longrightarrow> t_open T d \<and> is_ok (fst (t_from_public T SRK_PERSISTENT_HANDLE d)) \<and>
        ready (snd (t_from_public T SRK_PERSISTENT_HANDLE d))) \<and>
     (\<forall>d h pub priv x. ready d \<longrightarrow> sealed pub priv = Some x \<longrightarrow>
        (\<exists>o' d'. t_load T h priv pub d = (Inr o', d') \<and> loaded d' o' = Some x \<and> ready d')) \<and>
     (\<forall>d o' x. ready d \<longrightarrow> loaded d o' = Some x \<longrightarrow>
        fst (t_unseal T o' d) = Inr x \<and> ready (snd (t_unseal T o' d))) \<and>
     (\<forall>d o'. ready d \<longrightarrow> ready (snd (t_flush T o' d))) \<and>
     (\<forall>h pub priv d o' d' y. t_load T h priv pub d = (Inr o', d') \<longrightarrow> fst (t_unseal T o' d') = Inr y \<longrightarrow>
        sealed pub priv = Some y)"

lemma tpm_okD:
  assumes "tpm_ok T sealed loaded ready"
  shows tpm_create_sealed: "t_create T h tp x d = (Inr (pub, priv), d') \<Longrightarrow>
      sealed pub priv = Some x \<and> length priv \<le> t_private_max T"
    and tpm_marshall_ok: "t_marshall T pub = Inr b \<Longrightarrow> t_unmarshall T b = Inr pub"
    and tpm_ready_srk: "ready d \<Longrightarrow> t_open T d \<and> is_ok (fst (t_from_public T SRK_PERSISTENT_HANDLE d)) \<and>
        ready (snd (t_from_public T SRK_PERSISTENT_HANDLE d))"
    and tpm_load_ok: "ready d \<Longrightarrow> sealed pub priv = Some x \<Longrightarrow>
        \<exists>o' d'. t_load T h priv pub d = (Inr o', d') \<and> loaded d' o' = Some x \<and> ready d'"
    and tpm_unseal_ok: "ready d \<Longrightarrow> loaded d o' = Some x \<Longrightarrow>
        fst (t_unseal T o' d) = Inr x \<and> ready (snd (t_unseal T o' d))"
    and tpm_flush_ready: "ready d \<Longrightarrow> ready (snd (t_flush T o' d))"
    and tpm_unseal_sound: "t_load T h priv pub d = (Inr o', d') \<Longrightarrow> fst (t_unseal T o' d') = Inr y \<Longrightarrow>
        sealed pub priv = Some y"
proof -
  note c = assms [unfolded tpm_ok_def]
  note c2 = c [THEN conjunct2] note c3 = c2 [THEN conjunct2] note c4 = c3 [THEN conjunct2]
  note c5 = c4 [THEN conjunct2] note c6 = c5 [THEN conjunct2]
  show "t_create T h tp x d = (Inr (pub, priv), d') \<Longrightarrow> sealed pub priv = Some x \<and> length priv \<le> t_private_max T"
    by (rule c [THEN conjunct1, rule_format])
  show "t_marshall T pub = Inr b \<Longrightarrow> t_unmarshall T b = Inr pub" by (rule c2 [THEN conjunct1, rule_format])
  show "ready d \<Longrightarrow> t_open T d \<and> is_ok (fst (t_from_public T SRK_PERSISTENT_HANDLE d)) \<and>
      ready (snd (t_from_public T SRK_PERSISTENT_HANDLE d))"
    by (rule c3 [THEN conjunct1, rule_format])
  show "ready d \<Longrightarrow> sealed pub priv = Some x \<Longrightarrow>
      \<exists>o' d'. t_load T h priv pub d = (Inr o', d') \<and> loaded d' o' = Some x \<and> ready d'"
    by (rule c4 [THEN conjunct1, rule_format])
  show "ready d \<Longrightarrow> loaded d o' = Some x \<Longrightarrow> fst (t_unseal T o' d) = Inr x \<and> ready (snd (t_unseal T o' d))"
    by (rule c5 [THEN conjunct1, rule_format])
  show "ready d \<Longrightarrow> ready (snd (t_flush T o' d))" by (rule c6 [THEN conjunct1, rule_format])
  show "t_load T h priv pub d = (Inr o', d') \<Longrightarrow> fst (t_unseal T o' d') = Inr y \<Longrightarrow> sealed pub priv = Some y"
    by (rule c6 [THEN conjunct2, rule_format])
qed

definition tpm_opens :: "'d tpm \<Rightarrow> (bytes \<Rightarrow> bytes \<Rightarrow> bytes option) \<Rightarrow> hsm_slot \<Rightarrow> wrapped_blob \<Rightarrow> bytes \<Rightarrow> 'd \<Rightarrow> bool" where
  "tpm_opens T sealed s w m d \<longleftrightarrow> (\<exists>pub_bytes pub priv. wb_kind w = KTpm2 \<and>
     tpm_decode_payload (wb_payload w) = Inr (pub_bytes, priv) \<and> t_unmarshall T pub_bytes = Inr pub \<and>
     length priv \<le> t_private_max T \<and> sealed pub priv = Some (slot_tag s # m))"

definition tpm_willing :: "('d \<Rightarrow> bool) \<Rightarrow> prompter \<Rightarrow> 'd \<Rightarrow> bool" where
  "tpm_willing ready p d \<longleftrightarrow> ready d"

definition any_fresh :: "wrapped_blob \<Rightarrow> rng \<Rightarrow> bool" where
  "any_fresh w g \<longleftrightarrow> True"

lemma tpm_enroll_Inr:
  assumes ok: "tpm_ok T sealed loaded ready" and e: "tpm_enroll E T s m p (d, g) = (Inr w, d', g')"
  shows "wb_kind w = KTpm2 \<and> blob_ok w \<and> tpm_opens T sealed s w m d'"
proof -
  let ?u = "fst (fill_random E TPM_UUID_LEN g)"
  obtain h tp d1 pub priv d2 pb b where c: "t_create T h tp (slot_tag s # m) d1 = (Inr (pub, priv), d2)"
    and pb: "t_marshall T pub = Inr pb" and b: "tpm_encode_payload ?u pb priv = Inr b"
    and w: "length b \<le> 65535" "w = \<lparr>wb_kind = KTpm2, wb_payload = b\<rparr>"
    using e by (auto simp: tpm_enroll_def Let_def split_def and_then_Inr_iff blob_from_parts_Inr prod_eq_iff
        split: sum.splits if_splits)
  have "tpm_decode_payload b = Inr (pb, priv)" by (rule tpm_decode_encode [OF _ b]) simp
  then show ?thesis
    using tpm_create_sealed [OF ok c] tpm_marshall_ok [OF ok pb] w by (simp add: tpm_opens_def blob_ok_def)
qed

lemma tpm_unwrap_eq:
  "wb_kind w = KTpm2 \<Longrightarrow> tpm_decode_payload (wb_payload w) = Inr (pb, priv) \<Longrightarrow> t_unmarshall T pb = Inr pub \<Longrightarrow>
   length priv \<le> t_private_max T \<Longrightarrow> t_open T d \<Longrightarrow>
   unwrap (tpm_store E T) s w p d =
     (and_then (map_err map_tpm_error (fst (tpm_unseal T priv pub d))) (strip_slot_tag (slot_tag s)),
      snd (tpm_unseal T priv pub d))"
  by (simp add: unwrap_def tpm_store_def tpm_begin_unwrap_def tpm_complete_unwrap_def open_context_def split_def)

lemma tpm_unseal_ready:
  assumes ok: "tpm_ok T sealed loaded ready" and r: "ready d" and s: "sealed pub priv = Some x"
  shows "fst (tpm_unseal T priv pub d) = Inr x \<and> ready (snd (tpm_unseal T priv pub d))"
proof -
  obtain h d1 where h: "t_from_public T SRK_PERSISTENT_HANDLE d = (Inr h, d1)" "ready d1"
    using tpm_ready_srk [OF ok r] by (cases "t_from_public T SRK_PERSISTENT_HANDLE d") (auto simp: is_ok_iff)
  obtain o' d2 where l: "t_load T h priv pub d1 = (Inr o', d2)" "loaded d2 o' = Some x" "ready d2"
    using tpm_load_ok [OF ok h(2) s] by blast
  show ?thesis
    using h(1) l tpm_unseal_ok [OF ok l(3,2)] tpm_flush_ready [OF ok]
    by (simp add: tpm_unseal_def ensure_srk_def split_def)
qed

lemma tpm_unseal_Inr:
  assumes ok: "tpm_ok T sealed loaded ready" and u: "fst (tpm_unseal T priv pub d) = Inr y"
  shows "sealed pub priv = Some y"
proof -
  obtain h d1 o' d2 where "t_load T h priv pub d1 = (Inr o', d2)" "fst (t_unseal T o' d2) = Inr y"
    using u by (auto simp: tpm_unseal_def split_def split: sum.splits) (metis prod.collapse)
  then show ?thesis by (rule tpm_unseal_sound [OF ok])
qed

lemma tpm_slot_store:
  assumes ok: "tpm_ok T sealed loaded ready"
  shows "bound_slot_store (tpm_store E T) (tpm_opens T sealed) (tpm_willing ready) any_fresh"
proof unfold_locales
  fix s s' m m' p d g b b' d' g' r u
  let ?ks = "tpm_store E T"
  show "ks_enroll ?ks s m p (d, g) = (Inr b, d', g') \<Longrightarrow> wb_kind b = ks_kind ?ks \<and> blob_ok b"
    using tpm_enroll_Inr [OF ok] by (fastforce simp: tpm_store_def)
  show "ks_enroll ?ks s m p (d, g) = (Inr b, d', g') \<Longrightarrow> tpm_opens T sealed s b m d'"
    using tpm_enroll_Inr [OF ok] by (fastforce simp: tpm_store_def)
  show "tpm_opens T sealed s b m d \<Longrightarrow> any_fresh b g \<Longrightarrow> ks_enroll ?ks s' m' p (d, g) = (r, d', g') \<Longrightarrow>
      tpm_opens T sealed s b m d'"
    by (simp add: tpm_opens_def)
  show "tpm_opens T sealed s b m d \<Longrightarrow> unwrap ?ks s' b' p d = (u, d') \<Longrightarrow> tpm_opens T sealed s b m d'"
    by (simp add: tpm_opens_def)
  show "\<exists>d'. unwrap ?ks s b p d = (Inr m, d') \<and> tpm_willing ready p d'"
    if o: "tpm_opens T sealed s b m d" and w: "tpm_willing ready p d"
  proof -
    have r: "ready d" "t_open T d" using w tpm_ready_srk [OF ok] by (auto simp: tpm_willing_def)
    show ?thesis
      using o r by (auto simp: tpm_opens_def tpm_unwrap_eq tpm_unseal_ready [OF ok] strip_slot_tag_def tpm_willing_def)
  qed
  show "\<not> is_ok (fst (unwrap ?ks s' b p d))" if o: "tpm_opens T sealed s b m d" and ne: "s' \<noteq> s"
  proof -
    obtain pb pub priv where w: "wb_kind b = KTpm2" "tpm_decode_payload (wb_payload b) = Inr (pb, priv)"
      "t_unmarshall T pb = Inr pub" "length priv \<le> t_private_max T" "sealed pub priv = Some (slot_tag s # m)"
      using o by (auto simp: tpm_opens_def)
    show ?thesis
    proof (cases "t_open T d")
      case True
      have "y = slot_tag s # m" if "fst (tpm_unseal T priv pub d) = Inr y" for y
        using tpm_unseal_Inr [OF ok that] w(5) by simp
      then show ?thesis using w True ne
        by (cases "fst (tpm_unseal T priv pub d)") (auto simp: tpm_unwrap_eq strip_slot_tag_def)
    next
      case False
      then show ?thesis using w
        by (simp add: unwrap_def tpm_store_def tpm_begin_unwrap_def tpm_complete_unwrap_def open_context_def)
    qed
  qed
qed

text \<open>A TPM whose sealed object is its data and whose state is the list of loaded objects.\<close>

definition toy_tpm :: "bytes list tpm" where
  "toy_tpm = \<lparr>t_env_tcti = (\<lambda>d. False), t_rm_device = (\<lambda>d. True), t_open = (\<lambda>d. True),
     t_build = (\<lambda>t. Inr []), t_from_public = (\<lambda>h d. (Inr 7, d)), t_create_primary = (\<lambda>t d. (Inr 7, d)),
     t_evict_control = (\<lambda>h p d. (Inr (), d)), t_flush = (\<lambda>h d. (Inr (), d)),
     t_create = (\<lambda>h t x d. (if length x \<le> 1000 then Inr ([1], x) else Inl (WrapperError ''size''), d)),
     t_load = (\<lambda>h priv pub d. (Inr (length d), d @ [priv])),
     t_unseal = (\<lambda>h d. (if h < length d then Inr (d ! h) else Inl (WrapperError ''handle''), d)),
     t_sensitive_max = 128, t_private_max = 1000, t_marshall = Inr, t_unmarshall = Inr\<rparr>"

lemma toy_tpm_ok:
  "tpm_ok toy_tpm (\<lambda>pub priv. Some priv) (\<lambda>d h. if h < length d then Some (d ! h) else None) (\<lambda>d. True)"
  by (auto simp: tpm_ok_def toy_tpm_def split: if_splits)

interpretation tpm: bound_slot_store "tpm_store toy_crypto toy_tpm"
  "tpm_opens toy_tpm (\<lambda>pub priv. Some priv)" "tpm_willing (\<lambda>d. True)" any_fresh
  by (rule tpm_slot_store [OF toy_tpm_ok])

section \<open>Properties\<close>



end
