(* ===== verification/HsmLinux.thy ===== *)
theory HsmLinux
  imports HsmKeyring HsmTpm
begin

text \<open>
  \<open>passman-hsm\<close>, \<open>linux/select.rs\<close>: the backend chosen at run time and the selection policy.  The
  two cargo features are the arguments \<open>has_tpm2\<close> and \<open>has_ss\<close>; both backends run over the same
  device state.
\<close>

datatype linux_key_store = LinuxTpm2 | LinuxSecretService

definition linux_store :: "'m crypto_scheme \<Rightarrow> 'd tpm \<Rightarrow> 'd keyring \<Rightarrow> linux_key_store \<Rightarrow> 'd key_store" where
  "linux_store E T K b = (case b of LinuxTpm2 \<Rightarrow> tpm_store E T | LinuxSecretService \<Rightarrow> ss_store E K)"

definition fallback_after_no_tpm :: "bool \<Rightarrow> bool \<Rightarrow> bool \<Rightarrow> hsm_error + linux_key_store" where
  "fallback_after_no_tpm has_tpm2 has_ss allow_software =
     (if has_ss then (if allow_software then Inr LinuxSecretService else Inl HardwareAbsent)
      else if has_tpm2 then Inl HardwareAbsent
      else Inl (Backend ''no HSM backend compiled in (enable the tpm2 or secret-service feature)''))"

definition select_linux_backend :: "'d tpm \<Rightarrow> bool \<Rightarrow> bool \<Rightarrow> bool \<Rightarrow> 'd \<Rightarrow> hsm_error + linux_key_store" where
  "select_linux_backend T has_tpm2 has_ss allow_software d =
     (if has_tpm2 \<and> tpm_is_available T d \<and> is_ok (tpm_new T d) then Inr LinuxTpm2
      else fallback_after_no_tpm has_tpm2 has_ss allow_software)"

lemma linux_kind: "ks_kind (linux_store E T K b) = (case b of LinuxTpm2 \<Rightarrow> KTpm2 | LinuxSecretService \<Rightarrow> KSecretService)"
  by (cases b) (simp_all add: linux_store_def tpm_store_def ss_store_def)

text \<open>A usable TPM is what \<open>is_available\<close> reports: opening it again cannot change the choice.\<close>

lemma available_opens: "tpm_is_available T d \<Longrightarrow> is_ok (tpm_new T d)"
  by (auto simp: tpm_is_available_def tpm_new_def split: if_splits)

section \<open>Properties\<close>

text \<open>Selection takes the TPM exactly when one is built in and usable, the keyring only without a
  usable TPM and with the user's opt-in, and otherwise reports absent hardware.\<close>

theorem select_policy:
  "select_linux_backend T has_tpm2 has_ss allow d =
     (if has_tpm2 \<and> tpm_is_available T d then Inr LinuxTpm2
      else if has_ss \<and> allow then Inr LinuxSecretService
      else if has_ss \<or> has_tpm2 then Inl HardwareAbsent
      else Inl (Backend ''no HSM backend compiled in (enable the tpm2 or secret-service feature)''))"
  using available_opens [of T d]
  by (auto simp: select_linux_backend_def fallback_after_no_tpm_def)

end
