(* ===== verification/Lockout.thy ===== *)
theory Lockout
  imports Totp Hsm
begin

text \<open>
  \<open>passman-core\<close>, \<open>lockout.rs\<close> and \<open>App::merge_lockout\<close>: the advisory lockout schedule, the time
  that remains, the escalation after a failure, and the conservative merge of the in-process and
  the on-disk state.
\<close>

definition SECS_PER_MIN :: "64 word" where "SECS_PER_MIN = 60"
definition MAX_LOCKOUT_MIN :: "64 word" where "MAX_LOCKOUT_MIN = 1440"
definition FREE_ATTEMPTS :: "64 word" where "FREE_ATTEMPTS = 3"
definition CAP_AT_ATTEMPTS :: "64 word" where "CAP_AT_ATTEMPTS = 11"

definition lockout_minutes :: "64 word \<Rightarrow> 64 word" where
  "lockout_minutes counter =
     (if counter < FREE_ATTEMPTS then 0
      else if counter \<ge> CAP_AT_ATTEMPTS then MAX_LOCKOUT_MIN
      else min (10 * push_bit (unat (counter - FREE_ATTEMPTS)) 1) MAX_LOCKOUT_MIN)"

record lockout_state =
  lk_counter :: "64 word"
  lk_last_failure :: "64 word"

definition lockout_new :: "64 word \<Rightarrow> 64 word \<Rightarrow> lockout_state" where
  "lockout_new c t = \<lparr>lk_counter = c, lk_last_failure = t\<rparr>"

definition lockout_reset :: lockout_state where
  "lockout_reset = \<lparr>lk_counter = 0, lk_last_failure = 0\<rparr>"

definition sat_mul64 :: "64 word \<Rightarrow> 64 word \<Rightarrow> 64 word" where
  "sat_mul64 a b = (if unat a * unat b < 2 ^ 64 then a * b else -1)"

text \<open>\<open>i64::try_from(u64).unwrap_or(i64::MAX)\<close>; an \<open>i64\<close> is its 64-bit pattern.\<close>

definition i64_sat :: "64 word \<Rightarrow> 64 word" where
  "i64_sat t = (if unat t < 2 ^ 63 then t else of_nat (2 ^ 63 - 1))"

definition remaining :: "lockout_state \<Rightarrow> timestamp \<Rightarrow> duration option" where
  "remaining s now =
     (let window_min = lockout_minutes (lk_counter s) in
      if window_min = 0 then None
      else
       let window_secs = sat_mul64 window_min SECS_PER_MIN in
       if sint (lk_last_failure s) \<le> 0 then None
       else
        let lst = lk_last_failure s; unlock_at = sat_add64 lst window_secs in
        if now \<ge> unlock_at then None
        else if now < lst then Some (from_secs (unat window_secs))
        else Some (from_secs (unat (unlock_at - now))))"

definition after_failure :: "lockout_state \<Rightarrow> timestamp \<Rightarrow> lockout_state" where
  "after_failure s now =
     \<lparr>lk_counter = sat_add64 (lk_counter s) 1, lk_last_failure = i64_sat now\<rparr>"

definition merged_lockout :: "lockout_state \<Rightarrow> lockout_state \<Rightarrow> lockout_state" where
  "merged_lockout disk mem =
     lockout_new (max (lk_counter disk) (lk_counter mem))
       (if sint (lk_last_failure disk) < sint (lk_last_failure mem)
        then lk_last_failure mem else lk_last_failure disk)"

section \<open>The schedule in numbers\<close>

definition schedule :: "nat \<Rightarrow> nat" where
  "schedule n = (if n < 3 then 0 else if 11 \<le> n then 1440 else min (10 * 2 ^ (n - 3)) 1440)"

lemma lockout_minutes_schedule: "unat (lockout_minutes c) = schedule (unat c)"
proof -
  have small: "unat (lockout_minutes (of_nat n)) = schedule n" if "n < 11" for n
  proof -
    have "list_all (\<lambda>n. unat (lockout_minutes (of_nat n)) = schedule n) [0..<11]"
      by (simp add: upt_rec lockout_minutes_def schedule_def FREE_ATTEMPTS_def CAP_AT_ATTEMPTS_def
          MAX_LOCKOUT_MIN_def push_bit_eq_mult min_def)
    then show ?thesis using that by (simp add: list_all_iff)
  qed
  show ?thesis
  proof (cases "unat c < 11")
    case True
    then show ?thesis using small [of "unat c"] by simp
  next
    case False
    then have "c \<ge> CAP_AT_ATTEMPTS" "\<not> c < FREE_ATTEMPTS"
      by (auto simp: CAP_AT_ATTEMPTS_def FREE_ATTEMPTS_def word_le_nat_alt word_less_nat_alt)
    then show ?thesis using False by (simp add: lockout_minutes_def schedule_def MAX_LOCKOUT_MIN_def)
  qed
qed

lemma schedule_mono: "m \<le> n \<Longrightarrow> schedule m \<le> schedule n"
proof -
  assume "m \<le> n"
  then have "(2::nat) ^ (m - 3) \<le> 2 ^ (n - 3)" by (intro power_increasing) auto
  then have "min (10 * 2 ^ (m - 3)) 1440 \<le> min (10 * 2 ^ (n - 3)) (1440::nat)" by (intro min.mono) auto
  then show ?thesis using \<open>m \<le> n\<close> by (simp add: schedule_def)
qed

lemma schedule_le: "schedule n \<le> 1440"
  by (simp add: schedule_def)

lemma schedule_pos: "0 < schedule n \<longleftrightarrow> 3 \<le> n"
  by (auto simp: schedule_def)

section \<open>The remaining time in numbers\<close>

definition last_at :: "lockout_state \<Rightarrow> int" where "last_at s = sint (lk_last_failure s)"

definition window :: "lockout_state \<Rightarrow> nat" where "window s = 60 * schedule (unat (lk_counter s))"

definition remaining_secs :: "lockout_state \<Rightarrow> nat \<Rightarrow> nat" where
  "remaining_secs s now =
     (if last_at s \<le> 0 then 0
      else if now < nat (last_at s) then window s
      else nat (last_at s) + window s - now)"

lemma uint_small: "unat (w :: 64 word) < 2 ^ 63 \<longleftrightarrow> uint w < 2 ^ 63"
  by (simp add: unat_eq_nat_uint nat_less_iff del: nat_uint_eq)

lemma sint_small: "unat (w :: 64 word) < 2 ^ 63 \<Longrightarrow> sint w = int (unat w)"
proof -
  assume "unat w < 2 ^ 63"
  then have "uint w < 2 ^ 63" by (simp only: uint_small)
  moreover have "- (2 ^ 63) \<le> uint w" by (rule order_trans [of _ 0]) simp_all
  ultimately have "signed_take_bit 63 (uint w) = uint w" by (intro signed_take_bit_int_eq_self)
  then show ?thesis by (simp add: sint_uint)
qed

lemma sint_pos_unat: "0 < sint (w :: 64 word) \<Longrightarrow> unat w = nat (sint w) \<and> unat w < 2 ^ 63"
proof -
  assume p: "0 < sint w"
  have l: "sint w < 2 ^ 63" using sint_lt [of w] by simp
  have "take_bit 64 (sint w) = sint w" using p l by (intro take_bit_int_eq_self) auto
  then have u: "uint w = sint w" using uint_sint [of w] by simp
  then have "unat w < 2 ^ 63" unfolding uint_small using l by simp
  moreover have "unat w = nat (sint w)" using u by (metis nat_uint_eq)
  ultimately show ?thesis by simp
qed

lemma window_bound: "window s \<le> 86400"
  using schedule_le by (simp add: window_def)

lemma remaining_eq:
  "remaining s now = (if remaining_secs s (unat now) = 0 then None
     else Some (from_secs (remaining_secs s (unat now))))"
proof -
  let ?m = "lockout_minutes (lk_counter s)" and ?l = "lk_last_failure s"
  have m: "unat ?m = schedule (unat (lk_counter s))" by (rule lockout_minutes_schedule)
  have sm: "unat ?m * 60 < 2 ^ 64" using schedule_le [of "unat (lk_counter s)"] by (simp add: m)
  have w: "unat (sat_mul64 ?m SECS_PER_MIN) = window s"
    using sm by (simp add: sat_mul64_def SECS_PER_MIN_def window_def m unat_word_ariths)
  have z: "?m = 0 \<longleftrightarrow> window s = 0" by (simp add: window_def m [symmetric] unat_eq_0)
  show ?thesis
  proof (cases "?m = 0 \<or> sint ?l \<le> 0")
    case True
    then show ?thesis using z by (auto simp: remaining_def remaining_secs_def last_at_def Let_def)
  next
    case False
    then have l: "unat ?l = nat (last_at s)" "unat ?l < 2 ^ 63" "0 < last_at s"
      using sint_pos_unat [of ?l] by (auto simp: last_at_def)
    have u: "unat (sat_add64 ?l (sat_mul64 ?m SECS_PER_MIN)) = nat (last_at s) + window s"
      using l w window_bound [of s] by (simp add: sat_add64_def unat_word_ariths)
    show ?thesis
      using False z l u w unfolding remaining_def remaining_secs_def Let_def
      by (auto simp: word_le_nat_alt word_less_nat_alt unat_sub last_at_def not_le)
  qed
qed

lemma remaining_None_iff: "remaining s now = None \<longleftrightarrow> remaining_secs s (unat now) = 0"
  by (simp add: remaining_eq)

text \<open>Taking the larger of each field can only lengthen the lockout.\<close>

lemma remaining_secs_mono:
  assumes "window a \<le> window b" and "last_at a \<le> last_at b"
  shows "remaining_secs a now \<le> remaining_secs b now"
  using assms by (auto simp: remaining_secs_def)

lemma merged_window: "window (merged_lockout a b) = max (window a) (window b)"
  using schedule_mono [of "unat (lk_counter a)" "unat (lk_counter b)"]
    schedule_mono [of "unat (lk_counter b)" "unat (lk_counter a)"]
  by (auto simp: window_def merged_lockout_def lockout_new_def max_def word_le_nat_alt)

lemma merged_last: "last_at (merged_lockout a b) = max (last_at a) (last_at b)"
  by (auto simp: last_at_def merged_lockout_def lockout_new_def max_def)

lemma merged_ge:
  "remaining_secs a now \<le> remaining_secs (merged_lockout a b) now"
  "remaining_secs b now \<le> remaining_secs (merged_lockout a b) now"
  by (rule remaining_secs_mono; simp add: merged_window merged_last)+

lemma last_at_after: "unat now < 2 ^ 63 \<Longrightarrow> last_at (after_failure s now) = int (unat now)"
  by (simp add: last_at_def after_failure_def i64_sat_def sint_small)

lemma counter_after:
  "unat (lk_counter (after_failure s now)) = min (unat (lk_counter s) + 1) (2 ^ 64 - 1)"
proof -
  have "unat (-1 :: 64 word) = 2 ^ 64 - 1" by (simp add: unsigned_minus_1_eq_mask mask_eq_exp_minus_1)
  then show ?thesis using unat64 [of "lk_counter s"]
    by (auto simp: after_failure_def sat_add64_def unat_word_ariths)
qed

definition wait_of :: "duration option \<Rightarrow> duration" where
  "wait_of r = (case r of None \<Rightarrow> 0 | Some d \<Rightarrow> d)"

lemma wait_of_remaining: "wait_of (remaining s now) = from_secs (remaining_secs s (unat now))"
  by (simp add: wait_of_def remaining_eq from_secs_def)

lemma counter_after_run:
  "length ts < 2 ^ 64 \<Longrightarrow>
   unat (lk_counter (foldl after_failure lockout_reset ts)) = length ts"
  by (induction ts rule: rev_induct) (simp_all add: counter_after lockout_reset_def)

section \<open>Properties\<close>

text \<open>C11. The advisory timer escalates as documented: after \<open>n\<close> failures, the last at second \<open>t\<close>, the
  wait is the schedule's window (0 for the first two, then 10, 20, 40 ... minutes, capped at 1440)
  measured from \<open>t\<close>; a clock set back before \<open>t\<close> gets the full window, never less.\<close>

theorem lockout_escalation:
  assumes "length ts < 2 ^ 64 - 1" and "0 < unat t" and "unat t < 2 ^ 63"
  shows "wait_of (remaining (foldl after_failure lockout_reset (ts @ [t])) now) =
     from_secs (if unat now < unat t then 60 * schedule (length ts + 1)
       else unat t + 60 * schedule (length ts + 1) - unat now)"
proof -
  let ?s = "after_failure (foldl after_failure lockout_reset ts) t"
  have "unat (lk_counter ?s) = length ts + 1"
    using counter_after_run [of "ts @ [t]"] assms(1) by simp
  moreover have "0 < last_at ?s" "nat (last_at ?s) = unat t"
    unfolding last_at_after [OF assms(3)] using assms(2) by linarith+
  ultimately show ?thesis by (simp add: wait_of_remaining remaining_secs_def window_def)
qed

lemma lockout_escalation_witness:
  "wait_of (remaining (foldl after_failure lockout_reset ([100, 200, 300] @ [1000])) 1300) = from_secs 900"
  using lockout_escalation [of "[100, 200, 300]" 1000 1300] by (simp add: schedule_def)

text \<open>Merging the in-process state with the one on disk never shortens a wait: at every moment the
  merged state asks for at least what each of the two asked for.\<close>

theorem merge_never_shortens:
  "max (wait_of (remaining disk now)) (wait_of (remaining mem now)) \<le>
     wait_of (remaining (merged_lockout disk mem) now)"
  using merged_ge [of disk "unat now" mem]
    merged_ge(2) [of mem "unat now" disk]
  by (simp add: wait_of_remaining from_secs_def)

end
