(* ===== verification/Text.thy ===== *)
theory Text
  imports Crypto
begin

text \<open>
  The string operations of the Rust standard library the program uses: white space, \<open>trim\<close>,
  \<open>lines\<close>, \<open>strip_prefix\<close>, the first word of a line, and \<open>parse::<u64>\<close>.
\<close>

text \<open>\<open>char::is_whitespace\<close>: the Unicode property White_Space.\<close>

definition is_whitespace :: "uchar \<Rightarrow> bool" where
  "is_whitespace c \<longleftrightarrow> (9 \<le> c \<and> c \<le> 13) \<or> c = 32 \<or> c = 0x85 \<or> c = 0xA0 \<or> c = 0x1680 \<or>
     (0x2000 \<le> c \<and> c \<le> 0x200A) \<or> c = 0x2028 \<or> c = 0x2029 \<or> c = 0x202F \<or> c = 0x205F \<or> c = 0x3000"

definition trim :: "ustring \<Rightarrow> ustring" where
  "trim s = rev (dropWhile is_whitespace (rev (dropWhile is_whitespace s)))"

text \<open>\<open>str::lines\<close>: split at line feeds, drop one carriage return before each, no empty last line.\<close>

fun split_lines :: "ustring \<Rightarrow> ustring \<Rightarrow> ustring list" where
  "split_lines acc [] = (if acc = [] then [] else [rev acc])"
| "split_lines acc (c # cs) = (if c = 10 then rev acc # split_lines [] cs else split_lines (c # acc) cs)"

definition strip_cr :: "ustring \<Rightarrow> ustring" where
  "strip_cr l = (if l \<noteq> [] \<and> last l = 13 then butlast l else l)"

definition str_lines :: "ustring \<Rightarrow> ustring list" where
  "str_lines s = map strip_cr (split_lines [] s)"

definition strip_prefix :: "ustring \<Rightarrow> ustring \<Rightarrow> ustring option" where
  "strip_prefix p s = (if take (length p) s = p then Some (drop (length p) s) else None)"

text \<open>\<open>split_whitespace().next()\<close>.\<close>

definition first_word :: "ustring \<Rightarrow> ustring option" where
  "first_word s = (let w = takeWhile (\<lambda>c. \<not> is_whitespace c) (dropWhile is_whitespace s) in
     if w = [] then None else Some w)"

text \<open>\<open>parse::<u64>()\<close>: an optional plus sign, at least one decimal digit, no overflow.\<close>

definition digits_value :: "ustring \<Rightarrow> nat" where
  "digits_value s = foldl (\<lambda>v c. v * 10 + (c - 48)) 0 s"

definition parse_u64 :: "ustring \<Rightarrow> 64 word option" where
  "parse_u64 s =
     (let d = (case s of c # r \<Rightarrow> if c = 43 then r else s | [] \<Rightarrow> s) in
      if d = [] \<or> \<not> list_all (\<lambda>c. 48 \<le> c \<and> c \<le> 57) d then None
      else if digits_value d < 2 ^ 64 then Some (of_nat (digits_value d)) else None)"

end
