(* ===== verification/CoreTypes.thy ===== *)
theory CoreTypes
  imports VaultCodec RecoveryFile HsmWire Validate Lockout Text
begin

text \<open>
  \<open>passman-core\<close>, \<open>error.rs\<close>: the two error taxonomies.  An I/O error is its fixed context string.
  The combinators below thread a state through fallible steps: \<open>st_then\<close> is the \<open>?\<close> operator on
  a step that also changes the state, which the error path keeps.
\<close>

datatype core_error =
    AlreadyRunning
  | SessionLocked
  | WeakPasswordForExport
  | SoftwareHsmRefused
  | CIo string
  | CVault vault_error
  | CHsm hsm_error
  | CRecovery recovery_error
  | CPolicy policy_error
  | CCrypto crypto_error

datatype unlock_error =
    UCancelled
  | URetryable
  | RouteToRecovery
  | BadCredentials
  | LockedOut duration
  | UHsm hsm_error
  | MalformedVault core_error
  | USoftwareHsmRefused

section \<open>Fallible steps over a state\<close>

named_theorems st_iffs \<open>inversion of state-threading steps\<close>

definition st_then :: "('s \<Rightarrow> ('e + 'a) \<times> 's) \<Rightarrow> ('a \<Rightarrow> 's \<Rightarrow> ('e + 'b) \<times> 's) \<Rightarrow> 's \<Rightarrow> ('e + 'b) \<times> 's" where
  "st_then m f s = (case m s of (Inl e, s') \<Rightarrow> (Inl e, s') | (Inr x, s') \<Rightarrow> f x s')"

definition st_lift :: "'e + 'a \<Rightarrow> 's \<Rightarrow> ('e + 'a) \<times> 's" where
  "st_lift r s = (r, s)"

definition st_err :: "('e \<Rightarrow> 'f) \<Rightarrow> ('s \<Rightarrow> ('e + 'a) \<times> 's) \<Rightarrow> 's \<Rightarrow> ('f + 'a) \<times> 's" where
  "st_err h m s = (case m s of (r, s') \<Rightarrow> (map_err h r, s'))"

text \<open>A step that cannot fail.\<close>

definition st_do :: "('s \<Rightarrow> 'a \<times> 's) \<Rightarrow> 's \<Rightarrow> ('e + 'a) \<times> 's" where
  "st_do m s = (case m s of (x, s') \<Rightarrow> (Inr x, s'))"

text \<open>Discard the result of a best-effort step (\<open>let _ = ...\<close>).\<close>

definition st_ignore :: "('s \<Rightarrow> 'r \<times> 's) \<Rightarrow> 's \<Rightarrow> ('e + unit) \<times> 's" where
  "st_ignore m s = (Inr (), snd (m s))"

lemma st_then_Inr [st_iffs]:
  "st_then m f s = (Inr y, s'') \<longleftrightarrow> (\<exists>x s'. m s = (Inr x, s') \<and> f x s' = (Inr y, s''))"
  by (auto simp: st_then_def split: prod.splits sum.splits)

lemma st_then_Inl [st_iffs]:
  "st_then m f s = (Inl e, s'') \<longleftrightarrow> m s = (Inl e, s'') \<or> (\<exists>x s'. m s = (Inr x, s') \<and> f x s' = (Inl e, s''))"
  by (auto simp: st_then_def split: prod.splits sum.splits)

lemma st_lift_iff [st_iffs]: "st_lift r s = (r', s') \<longleftrightarrow> r = r' \<and> s' = s"
  by (auto simp: st_lift_def)

lemma st_err_Inr [st_iffs]: "st_err h m s = (Inr y, s') \<longleftrightarrow> m s = (Inr y, s')"
  by (auto simp: st_err_def map_err_Inr_iff split: prod.splits)

lemma st_err_Inl [st_iffs]: "st_err h m s = (Inl e, s') \<longleftrightarrow> (\<exists>e'. m s = (Inl e', s') \<and> e = h e')"
  by (auto simp: st_err_def map_err_Inl_iff split: prod.splits)

lemma st_do_Inr [st_iffs]: "st_do m s = (Inr x, s') \<longleftrightarrow> m s = (x, s')"
  by (auto simp: st_do_def split: prod.splits)

lemma st_do_Inl [st_iffs]: "st_do m s \<noteq> (Inl e, s')"
  by (simp add: st_do_def split: prod.splits)

lemma st_ignore_iff [st_iffs]: "st_ignore m s = (r, s') \<longleftrightarrow> r = Inr () \<and> s' = snd (m s)"
  by (auto simp: st_ignore_def)

lemma st_then_eval [simp]:
  "m s = (Inl e, s') \<Longrightarrow> st_then m f s = (Inl e, s')"
  "m s = (Inr x, s') \<Longrightarrow> st_then m f s = f x s'"
  by (simp_all add: st_then_def)

text \<open>A relation between the states before and after, kept by every part of a step.\<close>

definition keeps :: "('s \<Rightarrow> 's \<Rightarrow> bool) \<Rightarrow> ('s \<Rightarrow> 'r \<times> 's) \<Rightarrow> bool" where
  "keeps R m \<longleftrightarrow> (\<forall>s. R s (snd (m s)))"

definition preorder :: "('s \<Rightarrow> 's \<Rightarrow> bool) \<Rightarrow> bool" where
  "preorder R \<longleftrightarrow> (\<forall>s. R s s) \<and> (\<forall>a b c. R a b \<longrightarrow> R b c \<longrightarrow> R a c)"

lemma keepsD: "keeps R m \<Longrightarrow> m s = (r, s') \<Longrightarrow> R s s'"
  by (metis keeps_def snd_conv)

lemma keeps_then: "preorder R \<Longrightarrow> keeps R m \<Longrightarrow> (\<And>x. keeps R (f x)) \<Longrightarrow> keeps R (st_then m f)"
  unfolding keeps_def preorder_def st_then_def
  by (auto split: prod.splits sum.splits) (metis snd_conv)+

lemma keeps_lift: "preorder R \<Longrightarrow> keeps R (st_lift r)"
  by (simp add: keeps_def preorder_def st_lift_def)

lemma keeps_err: "keeps R m \<Longrightarrow> keeps R (st_err h m)"
  by (simp add: keeps_def st_err_def split_def)

lemma keeps_do: "keeps R m \<Longrightarrow> keeps R (st_do m)"
  by (simp add: keeps_def st_do_def split_def)

lemma keeps_ignore: "keeps R m \<Longrightarrow> keeps R (st_ignore m)"
  by (simp add: keeps_def st_ignore_def)

lemmas keeps_rules = keeps_then keeps_lift keeps_err keeps_do keeps_ignore

end
