(* ===== verification/Storage.thy ===== *)
theory Storage
  imports CoreTypes
begin

text \<open>
  \<open>passman-core\<close>, \<open>storage.rs\<close>: reading the vault file with its size cap, the atomic replace through
  a temporary sibling, and the single-instance lock.  The file system is a map from absolute paths
  (lists of names) to files; the outcomes of the system calls of one write are the record
  \<open>write_io\<close>, so that every failure and every partial write is a value of it.
\<close>

type_synonym path = "ustring list"

record file_data =
  f_content :: bytes
  f_mode :: nat

type_synonym fs = "path \<Rightarrow> file_data option"

text \<open>Mode 0600: read and write for the owner, nothing for anyone else.\<close>

definition OWNER_ONLY :: nat where "OWNER_ONLY = 6 * 8 * 8"

definition parent_of :: "path \<Rightarrow> path option" where
  "parent_of p = (if p = [] then None else Some (butlast p))"

definition file_name_of :: "path \<Rightarrow> ustring option" where
  "file_name_of p = (if p = [] then None else Some (last p))"

definition MAX_VAULT_BYTES :: nat where "MAX_VAULT_BYTES = 64 * 1024 * 1024"

section \<open>Reading\<close>

record read_io =
  io_stat :: bool
  io_read :: bool

definition storage_read :: "read_io \<Rightarrow> path \<Rightarrow> fs \<Rightarrow> core_error + bytes" where
  "storage_read io p fs =
     and_then (if io_stat io then ok_or (CIo ''stat vault file'') (fs p)
               else Inl (CIo ''stat vault file'')) (\<lambda>meta.
     and_then (if length (f_content meta) > MAX_VAULT_BYTES
               then Inl (CIo ''vault file exceeds maximum size'') else Inr ()) (\<lambda>_.
     if io_read io then Inr (f_content meta) else Inl (CIo ''read vault file'')))"

section \<open>Atomic replacement\<close>

record write_io =
  io_create :: bool
  io_written :: "nat option"
  io_sync :: bool
  io_rename :: bool
  io_unlink :: bool

definition temp_sibling :: "'m crypto_scheme \<Rightarrow> nat \<Rightarrow> path \<Rightarrow> rng \<Rightarrow> path \<times> rng" where
  "temp_sibling E pid p g =
     (let file_name = (case file_name_of p of None \<Rightarrow> ustr ''vault'' | Some n \<Rightarrow> n);
          (rand, g') = fill_random E 8 g;
          tmp_name = ustr ''.'' @ file_name @ ustr ''.'' @ ustr (show_nat pid) @ ustr ''.'' @
            hex_lower rand @ ustr ''.tmp''
      in (case parent_of p of Some d \<Rightarrow> d @ [tmp_name] | None \<Rightarrow> [tmp_name], g'))"

definition remove_file :: "write_io \<Rightarrow> path \<Rightarrow> fs \<Rightarrow> fs" where
  "remove_file io p fs = (if io_unlink io then fs(p := None) else fs)"

text \<open>Create (\<open>O_EXCL\<close>, mode 0600), write and sync the temporary file.\<close>

definition write_temp :: "write_io \<Rightarrow> path \<Rightarrow> bytes \<Rightarrow> fs \<Rightarrow> (core_error + unit) \<times> fs" where
  "write_temp io tmp b fs =
     (if \<not> io_create io \<or> fs tmp \<noteq> None then (Inl (CIo ''create temp vault file''), fs)
      else case io_written io of
        Some k \<Rightarrow> (Inl (CIo ''write temp vault file''),
          fs(tmp \<mapsto> \<lparr>f_content = take k b, f_mode = OWNER_ONLY\<rparr>))
      | None \<Rightarrow>
          (if io_sync io then Inr () else Inl (CIo ''fsync temp vault file''),
           fs(tmp \<mapsto> \<lparr>f_content = b, f_mode = OWNER_ONLY\<rparr>)))"

definition atomic_write ::
  "'m crypto_scheme \<Rightarrow> write_io \<Rightarrow> nat \<Rightarrow> path \<Rightarrow> bytes \<Rightarrow> fs \<times> rng \<Rightarrow> (core_error + unit) \<times> fs \<times> rng" where
  "atomic_write E io pid p b = (\<lambda>(fs, g).
     (case parent_of p of
        None \<Rightarrow> (Inl (CIo ''resolve vault parent directory''), fs, g)
      | Some dir \<Rightarrow>
          (let (tmp, g') = temp_sibling E pid p g in
           case write_temp io tmp b fs of
             (Inl e, fs1) \<Rightarrow> (Inl e, remove_file io tmp fs1, g')
           | (Inr _, fs1) \<Rightarrow>
               if io_rename io then (Inr (), fs1(p := fs1 tmp, tmp := None), g')
               else (Inl (CIo ''rename temp vault file over target''), remove_file io tmp fs1, g'))))"

section \<open>The single-instance lock\<close>

datatype try_lock_result = TryOk | TryWouldBlock | TryUnsupported | TryOther

definition lock_path_for :: "path \<Rightarrow> path" where
  "lock_path_for p =
     (let name = (case file_name_of p of None \<Rightarrow> ustr ''vault'' | Some n \<Rightarrow> n) @ ustr ''.lock'' in
      case parent_of p of Some d \<Rightarrow> d @ [name] | None \<Rightarrow> [name])"

fun classify_lock :: "try_lock_result \<Rightarrow> core_error + bool" where
  "classify_lock TryOk = Inr True"
| "classify_lock TryWouldBlock = Inl AlreadyRunning"
| "classify_lock TryUnsupported = Inr False"
| "classify_lock TryOther = Inl (CIo ''lock instance lockfile'')"

record instance_lock =
  il_path :: path
  il_locked :: bool

text \<open>Advisory locks: whether the platform supports them, and the paths some open file holds.\<close>

record lock_table =
  lt_supported :: bool
  lt_held :: "path set"

definition try_lock :: "path \<Rightarrow> lock_table \<Rightarrow> try_lock_result \<times> lock_table" where
  "try_lock p t =
     (if \<not> lt_supported t then (TryUnsupported, t)
      else if p \<in> lt_held t then (TryWouldBlock, t)
      else (TryOk, t\<lparr>lt_held := insert p (lt_held t)\<rparr>))"

definition instance_lock_acquire :: "bool \<Rightarrow> path \<Rightarrow> fs \<times> lock_table \<Rightarrow>
    (core_error + instance_lock) \<times> fs \<times> lock_table" where
  "instance_lock_acquire open_ok p = (\<lambda>(fs, t).
     (let lp = lock_path_for p in
      if \<not> open_ok then (Inl (CIo ''open instance lockfile''), fs, t)
      else
       (let fs' = (if fs lp = None then fs(lp \<mapsto> \<lparr>f_content = [], f_mode = OWNER_ONLY\<rparr>) else fs);
            (r, t') = try_lock lp t in
        (and_then (classify_lock r) (\<lambda>locked. Inr \<lparr>il_path = lp, il_locked = locked\<rparr>), fs', t'))))"

definition instance_lock_drop :: "instance_lock \<Rightarrow> lock_table \<Rightarrow> lock_table" where
  "instance_lock_drop l t =
     (if il_locked l then t\<lparr>lt_held := lt_held t - {il_path l}\<rparr> else t)"

section \<open>Temporary names\<close>

lemma temp_name_length:
  "p \<noteq> [] \<Longrightarrow> temp_sibling E pid p g = (tmp, g') \<Longrightarrow> length tmp = length p \<and> length (last tmp) > length (last p)"
  by (auto simp: temp_sibling_def parent_of_def file_name_of_def split_def Let_def ustr_def)

lemma temp_not_target: "p \<noteq> [] \<Longrightarrow> temp_sibling E pid p g = (tmp, g') \<Longrightarrow> tmp \<noteq> p"
  using temp_name_length by blast

lemma write_temp_target:
  "q \<noteq> tmp \<Longrightarrow> snd (write_temp io tmp b fs) q = fs q"
  by (auto simp: write_temp_def split: option.splits)

text \<open>The states a crash can leave behind: before the call, with any prefix of the data in the new
  temporary file, and after the call.\<close>

inductive write_visible ::
  "'m crypto_scheme \<Rightarrow> write_io \<Rightarrow> nat \<Rightarrow> path \<Rightarrow> bytes \<Rightarrow> fs \<times> rng \<Rightarrow> fs \<Rightarrow> bool"
for E io pid p b x where
  vis_before: "write_visible E io pid p b x (fst x)"
| vis_partial: "parent_of p \<noteq> None \<Longrightarrow> io_create io \<Longrightarrow> tmp = fst (temp_sibling E pid p (snd x)) \<Longrightarrow>
    fst x tmp = None \<Longrightarrow>
    write_visible E io pid p b x ((fst x)(tmp \<mapsto> \<lparr>f_content = take k b, f_mode = OWNER_ONLY\<rparr>))"
| vis_after: "write_visible E io pid p b x (fst (snd (atomic_write E io pid p b x)))"

inductive_cases write_visibleE: "write_visible E io pid p b x s"

lemma atomic_write_Inr:
  assumes "atomic_write E io pid p b (fs, g) = (Inr u, fs', g')"
  shows "p \<noteq> [] \<and> fs' = fs(p \<mapsto> \<lparr>f_content = b, f_mode = OWNER_ONLY\<rparr>)"
proof -
  have p: "p \<noteq> []" using assms by (auto simp: atomic_write_def parent_of_def)
  obtain tmp g1 where t: "temp_sibling E pid p g = (tmp, g1)" by fastforce
  have ne: "tmp \<noteq> p" by (rule temp_not_target [OF p t])
  have n: "fs tmp = None"
    using assms p t by (auto simp: atomic_write_def parent_of_def write_temp_def split: if_splits)
  have "fs' = (fs(tmp \<mapsto> \<lparr>f_content = b, f_mode = OWNER_ONLY\<rparr>))
      (p := Some \<lparr>f_content = b, f_mode = OWNER_ONLY\<rparr>, tmp := None)"
    using assms p t by (auto simp: atomic_write_def parent_of_def write_temp_def Let_def
        split: if_splits option.splits)
  then show ?thesis using p ne n by (auto simp: fun_upd_def)
qed

lemma atomic_write_Inl:
  assumes "atomic_write E io pid p b (fs, g) = (Inl e, fs', g')" and "q \<noteq> fst (temp_sibling E pid p g)"
  shows "fs' q = fs q"
proof (cases "p = []")
  case True
  then show ?thesis using assms(1) by (auto simp: atomic_write_def parent_of_def)
next
  case False
  obtain tmp g1 where t: "temp_sibling E pid p g = (tmp, g1)" by fastforce
  have q: "snd (write_temp io tmp b fs) q = fs q" using assms(2) t by (intro write_temp_target) simp
  show ?thesis
    using assms False t q
    by (auto simp: atomic_write_def parent_of_def remove_file_def Let_def split: if_splits prod.splits sum.splits)
qed

lemma atomic_write_path:
  assumes "atomic_write E io pid p b (fs, g) = (r, fs', g')"
  shows "fs' p = (if is_ok r then Some \<lparr>f_content = b, f_mode = OWNER_ONLY\<rparr> else fs p)"
proof (cases r)
  case (Inl e)
  have "p \<noteq> fst (temp_sibling E pid p g)" if "p \<noteq> []"
    using temp_not_target [OF that, of E pid g] by (cases "temp_sibling E pid p g") auto
  moreover have "fs' = fs" if "p = []" using assms that by (simp add: atomic_write_def parent_of_def)
  ultimately show ?thesis using atomic_write_Inl assms Inl by (metis is_ok_simps(1))
next
  case (Inr u)
  then show ?thesis using atomic_write_Inr [of E io pid p b fs g u fs' g'] assms by simp
qed

section \<open>Properties\<close>


text \<open>A temporary file that is already there (another writer's, with the same random name) makes the
  write fail, and the clean-up then deletes that file although this writer did not create it.\<close>

theorem temp_collision_deletes:
  assumes "p \<noteq> []" and "fs (fst (temp_sibling E pid p g)) = Some f" and "io_unlink io"
  shows "atomic_write E io pid p b (fs, g) = (Inl (CIo ''create temp vault file''),
     fs(fst (temp_sibling E pid p g) := None), snd (temp_sibling E pid p g))"
  using assms by (simp add: atomic_write_def parent_of_def write_temp_def remove_file_def split_def Let_def)

definition io_fine :: write_io where
  "io_fine = \<lparr>io_create = True, io_written = None, io_sync = True, io_rename = True, io_unlink = True\<rparr>"

lemma temp_collision_deletes_witness:
  "\<exists>fs tmp. fs tmp \<noteq> None \<and> fst (snd (atomic_write toy_crypto io_fine 7 [ustr ''v''] [1] (fs, 0))) tmp = None"
proof -
  let ?t = "fst (temp_sibling toy_crypto 7 [ustr ''v''] 0)"
  let ?fs = "Map.empty(?t \<mapsto> \<lparr>f_content = [9], f_mode = OWNER_ONLY\<rparr>) :: fs"
  have "fst (snd (atomic_write toy_crypto io_fine 7 [ustr ''v''] [1] (?fs, 0))) ?t = None"
    using temp_collision_deletes [of "[ustr ''v'']" ?fs toy_crypto 7 0 "\<lparr>f_content = [9], f_mode = OWNER_ONLY\<rparr>" io_fine "[1]"]
    by (simp add: io_fine_def)
  then show ?thesis by (intro exI [of _ ?fs] exI [of _ ?t]) simp
qed

text \<open>Where the platform has advisory locks, two instances never hold the same vault: while a lock is
  held every further acquire fails with \<open>AlreadyRunning\<close>, and after the holder drops it the next
  acquire succeeds.\<close>

lemma instance_lock_exclusive:
  assumes "instance_lock_acquire True p (fs, t) = (Inr l, fs', t')" and "lt_supported t"
  shows "fst (instance_lock_acquire True p (fs2, t')) = Inl AlreadyRunning \<and>
     is_ok (fst (instance_lock_acquire True p (fs2, instance_lock_drop l t')))"
  using assms by (auto simp: instance_lock_acquire_def try_lock_def instance_lock_drop_def Let_def split: if_splits)

lemma instance_lock_exclusive_witness:
  "\<exists>l fs' t'. instance_lock_acquire True [ustr ''v''] (Map.empty, \<lparr>lt_supported = True, lt_held = {}\<rparr>) = (Inr l, fs', t')
     \<and> fst (instance_lock_acquire True [ustr ''v''] (fs', t')) = Inl AlreadyRunning"
proof -
  have "\<exists>l fs' t'. instance_lock_acquire True [ustr ''v''] (Map.empty, \<lparr>lt_supported = True, lt_held = {}\<rparr>)
      = (Inr l, fs', t')"
    by (simp add: instance_lock_acquire_def try_lock_def Let_def)
  then obtain l fs' t' where x: "instance_lock_acquire True [ustr ''v''] (Map.empty, \<lparr>lt_supported = True, lt_held = {}\<rparr>)
      = (Inr l, fs', t')" by blast
  then show ?thesis using instance_lock_exclusive [OF x] by auto
qed

end
