(* ===== verification/Entropy.thy ===== *)
theory Entropy
  imports Complex_Main Crypto
begin

text \<open>
  \<open>passman-policy\<close>, \<open>entropy.rs\<close>: strength tiers and the estimate of a master password.  An \<open>f64\<close> is
  NaN, an infinity or a finite rational (the two zeros are one); \<open>zxcvbn\<close> (third party), the rounding of
  an exact result to the nearest \<open>f64\<close>, the square root and the binary logarithm are parameters.
\<close>

datatype f64 = NaN | PosInf | NegInf | Finite rat

definition f64_lt :: "f64 \<Rightarrow> rat \<Rightarrow> bool" where
  "f64_lt x r = (case x of NaN \<Rightarrow> False | PosInf \<Rightarrow> False | NegInf \<Rightarrow> True | Finite q \<Rightarrow> q < r)"

text \<open>\<open>x.max(0.0)\<close>: the other operand if \<open>x\<close> is NaN.\<close>

definition f64_max0 :: "f64 \<Rightarrow> f64" where
  "f64_max0 x = (case x of NaN \<Rightarrow> Finite 0 | PosInf \<Rightarrow> PosInf | NegInf \<Rightarrow> Finite 0
     | Finite q \<Rightarrow> Finite (max q 0))"

datatype strength_tier = Dangerous | Weak | Acceptable | Strong | Excellent

fun allows_export :: "strength_tier \<Rightarrow> bool" where
  "allows_export Strong = True"
| "allows_export Excellent = True"
| "allows_export _ = False"

definition classify :: "f64 \<Rightarrow> strength_tier" where
  "classify bits =
     (if bits = NaN \<or> f64_lt bits 30 then Dangerous
      else if f64_lt bits 45 then Weak
      else if f64_lt bits 55 then Acceptable
      else if f64_lt bits 62 then Strong
      else Excellent)"

text \<open>\<open>std::f64::consts::LOG2_10\<close>, the double nearest to \<open>log2 10\<close>.\<close>

definition LOG2_PER_LOG10 :: rat where "LOG2_PER_LOG10 = 7480317065143153 / 2251799813685248"

text \<open>Products and quotients of doubles; \<open>R\<close> rounds an exact result.\<close>

fun f64_sgn :: "f64 \<Rightarrow> rat" where
  "f64_sgn PosInf = 1"
| "f64_sgn NegInf = -1"
| "f64_sgn NaN = 0"
| "f64_sgn (Finite q) = sgn q"

definition f64_inf :: "rat \<Rightarrow> f64" where
  "f64_inf s = (if s = 0 then NaN else if 0 < s then PosInf else NegInf)"

fun f64_mul :: "(rat \<Rightarrow> f64) \<Rightarrow> f64 \<Rightarrow> f64 \<Rightarrow> f64" where
  "f64_mul R (Finite x) (Finite y) = R (x * y)"
| "f64_mul R x y = f64_inf (f64_sgn x * f64_sgn y)"

fun f64_div :: "(rat \<Rightarrow> f64) \<Rightarrow> f64 \<Rightarrow> f64 \<Rightarrow> f64" where
  "f64_div R NaN y = NaN"
| "f64_div R x NaN = NaN"
| "f64_div R (Finite x) (Finite y) = (if y = 0 then f64_inf (sgn x) else R (x / y))"
| "f64_div R (Finite x) y = Finite 0"
| "f64_div R x (Finite y) = (if y < 0 then f64_inf (- f64_sgn x) else x)"
| "f64_div R x y = NaN"

record estimator =
  zx_guesses_log10 :: "ustring \<Rightarrow> ustring list \<Rightarrow> f64"
  zx_guesses :: "ustring \<Rightarrow> ustring list \<Rightarrow> 64 word"
  zx_feedback :: "ustring \<Rightarrow> ustring list \<Rightarrow> (ustring option \<times> ustring list) option"
  f64_round :: "rat \<Rightarrow> f64"
  f64_sqrt :: "f64 \<Rightarrow> f64"
  f64_log2 :: "f64 \<Rightarrow> f64"

definition generated_entropy_bits :: "'m estimator_scheme \<Rightarrow> nat \<Rightarrow> 16 word \<Rightarrow> f64" where
  "generated_entropy_bits Z charset_size len =
     (if charset_size < 2 \<or> len = 0 then Finite 0
      else f64_mul (f64_round Z) (Finite (of_nat (unat len)))
        (f64_log2 Z (Finite (of_nat (if charset_size < 2 ^ 32 then charset_size else 2 ^ 32 - 1)))))"

section \<open>Crack times\<close>

definition NAKED_GPU_GUESSES_PER_SEC :: rat where "NAKED_GPU_GUESSES_PER_SEC = 10 ^ 11"
definition REFERENCE_M_KIB :: rat where "REFERENCE_M_KIB = 1048576"
definition REFERENCE_T :: rat where "REFERENCE_T = 4"
definition REFERENCE_SECONDS_PER_GUESS :: rat where "REFERENCE_SECONDS_PER_GUESS = 5 / 2"

definition kdf_guesses_per_sec :: "(rat \<Rightarrow> f64) \<Rightarrow> kdf_params \<Rightarrow> f64" where
  "kdf_guesses_per_sec R kdf =
     (let work = f64_mul R (Finite (of_nat (unat (m_kib kdf)))) (Finite (of_nat (unat (t_cost kdf))));
          reference_work = f64_mul R (Finite REFERENCE_M_KIB) (Finite REFERENCE_T)
      in if f64_lt work 0 \<or> work = Finite 0 then Finite NAKED_GPU_GUESSES_PER_SEC
         else f64_div R (Finite 1) (f64_mul R (Finite REFERENCE_SECONDS_PER_GUESS) (f64_div R work reference_work)))"

record crack_times =
  naked_gpu_seconds :: f64
  through_kdf_seconds :: f64
  quantum_grover_seconds :: f64

definition crack_estimates :: "'m estimator_scheme \<Rightarrow> f64 \<Rightarrow> kdf_params \<Rightarrow> crack_times" where
  "crack_estimates Z guesses kdf =
     \<lparr>naked_gpu_seconds = f64_div (f64_round Z) guesses (Finite NAKED_GPU_GUESSES_PER_SEC),
      through_kdf_seconds = f64_div (f64_round Z) guesses (kdf_guesses_per_sec (f64_round Z) kdf),
      quantum_grover_seconds = f64_div (f64_round Z) (f64_sqrt Z guesses) (Finite NAKED_GPU_GUESSES_PER_SEC)\<rparr>"

section \<open>The estimate\<close>

definition collect_feedback :: "(ustring option \<times> ustring list) option \<Rightarrow> ustring list" where
  "collect_feedback f =
     (case f of None \<Rightarrow> [] | Some (w, suggestions) \<Rightarrow> (case w of None \<Rightarrow> [] | Some m \<Rightarrow> [m]) @ suggestions)"

record master_entropy =
  me_bits :: f64
  me_tier :: strength_tier
  me_crack :: crack_times
  me_feedback :: "ustring list"

definition master_bits :: "'m estimator_scheme \<Rightarrow> ustring \<Rightarrow> ustring list \<Rightarrow> f64" where
  "master_bits Z password user_inputs =
     (case zx_guesses_log10 Z password user_inputs of
        Finite q \<Rightarrow> f64_max0 (f64_mul (f64_round Z) (Finite q) (Finite LOG2_PER_LOG10)) | _ \<Rightarrow> Finite 0)"

definition estimate_master :: "'m estimator_scheme \<Rightarrow> ustring \<Rightarrow> ustring list \<Rightarrow> kdf_params \<Rightarrow> master_entropy" where
  "estimate_master Z password user_inputs kdf =
     (let bits = master_bits Z password user_inputs;
          guesses = f64_round Z (of_nat (unat (zx_guesses Z password user_inputs)))
      in \<lparr>me_bits = bits, me_tier = classify bits, me_crack = crack_estimates Z guesses kdf,
          me_feedback = collect_feedback (zx_feedback Z password user_inputs)\<rparr>)"

lemma estimate_master_simps [simp]:
  "me_bits (estimate_master Z password user_inputs kdf) = master_bits Z password user_inputs"
  "me_tier (estimate_master Z password user_inputs kdf) = classify (master_bits Z password user_inputs)"
  by (simp_all add: estimate_master_def Let_def)

text \<open>\<open>estimate_password_strength\<close> of \<open>passman-core\<close>: the first 128 characters decide.\<close>

definition MAX_SCORED_CHARS :: nat where "MAX_SCORED_CHARS = 128"

definition estimate_password_strength :: "'m estimator_scheme \<Rightarrow> secret_string \<Rightarrow> 8 word" where
  "estimate_password_strength Z password =
     (case me_tier (estimate_master Z (take MAX_SCORED_CHARS password) [] KDF_MEDIUM) of
        Dangerous \<Rightarrow> 0 | Weak \<Rightarrow> 1 | Acceptable \<Rightarrow> 2 | Strong \<Rightarrow> 3 | Excellent \<Rightarrow> 4)"

lemma allows_export_iff:
  "allows_export (classify b) \<longleftrightarrow> b = PosInf \<or> (\<exists>q. b = Finite q \<and> 55 \<le> q)"
  by (cases b) (auto simp: classify_def f64_lt_def)

section \<open>The attack through the key derivation is the slowest\<close>

definition is_double :: "rat \<Rightarrow> bool" where
  "is_double q \<longleftrightarrow> (\<exists>m e. \<bar>m\<bar> < 2 ^ 53 \<and> -1074 \<le> e \<and> e \<le> 971 \<and> q = of_int m * power_int 2 e)"

fun f64_le :: "f64 \<Rightarrow> f64 \<Rightarrow> bool" where
  "f64_le (Finite x) (Finite y) = (x \<le> y)"
| "f64_le NaN y = False"
| "f64_le x NaN = False"
| "f64_le NegInf y = True"
| "f64_le x PosInf = True"
| "f64_le x y = False"

text \<open>What the standard promises of rounding: a double stays itself, and order is kept.\<close>

definition rounds :: "(rat \<Rightarrow> f64) \<Rightarrow> bool" where
  "rounds R \<longleftrightarrow> (\<forall>q. is_double q \<longrightarrow> R q = Finite q) \<and> (\<forall>x y. x \<le> y \<longrightarrow> f64_le (R x) (R y))"

lemma exact_rounds: "rounds Finite"
  by (simp add: rounds_def)

lemma is_double_pow: "-1074 \<le> e \<Longrightarrow> e \<le> 971 \<Longrightarrow> \<bar>m\<bar> < 2 ^ 53 \<Longrightarrow> is_double (of_int m * power_int 2 e)"
  unfolding is_double_def by blast

lemma rounds_between:
  assumes "rounds R" and "is_double a" and "is_double b" and "a \<le> x" and "x \<le> b"
  obtains q where "R x = Finite q" "a \<le> q" "q \<le> b"
proof -
  have "f64_le (Finite a) (R x)" "f64_le (R x) (Finite b)" using assms unfolding rounds_def by metis+
  then show thesis using that by (cases "R x") auto
qed

text \<open>The rate is positive and never above the naked one.\<close>

lemma kdf_rate_bounds:
  assumes R: "rounds R"
  obtains r where "kdf_guesses_per_sec R kdf = Finite r" "0 < r" "r \<le> NAKED_GPU_GUESSES_PER_SEC"
proof (cases "m_kib kdf = 0 \<or> t_cost kdf = 0")
  case True
  have "is_double 0" using is_double_pow [of 0 0] by simp
  then have "R 0 = Finite 0" using R unfolding rounds_def by blast
  then show thesis using True that by (auto simp: kdf_guesses_per_sec_def NAKED_GPU_GUESSES_PER_SEC_def)
next
  case False
  let ?m = "unat (m_kib kdf)" and ?t = "unat (t_cost kdf)"
  have d: "is_double 1" "is_double (2 ^ 64)" "is_double (2 ^ 22)" "is_double (1 / 2 ^ 22)" "is_double (2 ^ 42)"
    "is_double (5 / 2 ^ 23)" "is_double (5 * 2 ^ 41)" "is_double (1 / 2 ^ 44)" "is_double (10 ^ 11)"
    using is_double_pow [of 0 1] is_double_pow [of 64 1] is_double_pow [of 22 1] is_double_pow [of "-22" 1]
      is_double_pow [of 42 1] is_double_pow [of "-23" 5] is_double_pow [of 41 5] is_double_pow [of "-44" 1]
      is_double_pow [of 0 "10 ^ 11"]
    by (simp_all add: power_int_minus divide_simps)
  have n: "?m * ?t \<ge> 1" using False by (simp add: unat_gt_0 Suc_leI)
  have "?m < 2 ^ 32" "?t < 2 ^ 32" using unsigned_less [of "m_kib kdf"] unsigned_less [of "t_cost kdf"] by simp_all
  then have u: "?m * ?t \<le> 2 ^ 64" using mult_mono [of ?m "2 ^ 32" ?t "2 ^ 32"] by simp
  have b: "(1::rat) \<le> of_nat ?m * of_nat ?t" "(of_nat ?m * of_nat ?t :: rat) \<le> 2 ^ 64"
    using of_nat_mono [OF n, where 'a = rat] of_nat_mono [OF u, where 'a = rat] by simp_all
  obtain w where w: "R (of_nat ?m * of_nat ?t) = Finite w" "1 \<le> w" "w \<le> 2 ^ 64"
    by (rule rounds_between [OF R d(1,2) b])
  have r22: "R (REFERENCE_M_KIB * REFERENCE_T) = Finite (2 ^ 22)"
    using R d(3) unfolding rounds_def REFERENCE_M_KIB_def REFERENCE_T_def by simp
  obtain q where q: "R (w / 2 ^ 22) = Finite q" "1 / 2 ^ 22 \<le> q" "q \<le> 2 ^ 42"
    by (rule rounds_between [OF R d(4,5), of "w / 2 ^ 22"]) (use w in simp_all)
  obtain s where s: "R (REFERENCE_SECONDS_PER_GUESS * q) = Finite s" "5 / 2 ^ 23 \<le> s" "s \<le> 5 * 2 ^ 41"
    by (rule rounds_between [OF R d(6,7), of "REFERENCE_SECONDS_PER_GUESS * q"])
      (use q in \<open>simp_all add: REFERENCE_SECONDS_PER_GUESS_def\<close>)
  have i: "1 / 2 ^ 44 \<le> 1 / s" "1 / s \<le> 10 ^ 11" using s(2,3) by (simp_all add: field_simps)
  obtain r where "R (1 / s) = Finite r" "1 / 2 ^ 44 \<le> r" "r \<le> 10 ^ 11"
    by (rule rounds_between [OF R d(8,9) i])
  then show thesis using that w q s r22
    by (auto simp: kdf_guesses_per_sec_def f64_lt_def NAKED_GPU_GUESSES_PER_SEC_def Let_def)
qed

lemma through_kdf_slowest:
  assumes R: "rounds (f64_round Z)"
  shows "f64_le (naked_gpu_seconds (me_crack (estimate_master Z pw ins kdf)))
    (through_kdf_seconds (me_crack (estimate_master Z pw ins kdf)))"
proof -
  let ?g = "of_nat (unat (zx_guesses Z pw ins)) :: rat"
  have d: "is_double 0" "is_double (2 ^ 64)" using is_double_pow [of 0 0] is_double_pow [of 64 1] by simp_all
  have "unat (zx_guesses Z pw ins) \<le> 2 ^ 64" using unsigned_less [of "zx_guesses Z pw ins", where 'a = nat] by simp
  then have "?g \<le> 2 ^ 64" using of_nat_mono [of "unat (zx_guesses Z pw ins)" "2 ^ 64", where 'a = rat] by simp
  note b = of_nat_0_le_iff [of "unat (zx_guesses Z pw ins)", where 'a = rat] this
  obtain g where g: "f64_round Z ?g = Finite g" "0 \<le> g" by (rule rounds_between [OF R d b])
  obtain r where r: "kdf_guesses_per_sec (f64_round Z) kdf = Finite r" "0 < r" "r \<le> NAKED_GPU_GUESSES_PER_SEC"
    by (rule kdf_rate_bounds [OF R])
  have "g / NAKED_GPU_GUESSES_PER_SEC \<le> g / r" using g r by (simp add: divide_left_mono)
  then have "f64_le (f64_round Z (g / NAKED_GPU_GUESSES_PER_SEC)) (f64_round Z (g / r))" using R unfolding rounds_def by blast
  then show ?thesis using g r by (simp add: estimate_master_def crack_estimates_def Let_def NAKED_GPU_GUESSES_PER_SEC_def)
qed

end
