(* ===== verification/Provisioning.thy ===== *)
theory Provisioning
  imports Totp CoreTypes
begin

text \<open>
  \<open>passman-core\<close>, \<open>provisioning.rs\<close>: the \<open>otpauth://\<close> URI an authenticator scans.  The base-32
  encoder (third party) is the argument \<open>b32\<close>.
\<close>

definition ISSUER :: ustring where "ISSUER = ustr ''passman''"
definition ACCOUNT :: ustring where "ACCOUNT = ustr ''vault''"

fun algorithm_param :: "totp_algorithm \<Rightarrow> ustring" where
  "algorithm_param Sha1 = ustr ''SHA1''"
| "algorithm_param Sha256 = ustr ''SHA256''"
| "algorithm_param Sha512 = ustr ''SHA512''"

definition build_provisioning_uri :: "(bytes \<Rightarrow> ustring) \<Rightarrow> bytes \<Rightarrow> totp_config \<Rightarrow> ustring" where
  "build_provisioning_uri b32 seed cfg =
     ustr ''otpauth://totp/'' @ ISSUER @ ustr '':'' @ ACCOUNT @ ustr ''?secret='' @ b32 seed @
     ustr ''&issuer='' @ ISSUER @ ustr ''&algorithm='' @ algorithm_param (tc_algorithm cfg) @
     ustr ''&digits='' @ ustr (show_nat (unat (tc_digits cfg))) @
     ustr ''&period='' @ ustr (show_nat (unat (tc_period cfg)))"

text \<open>RFC 4648 without padding is injective, and its alphabet has no ampersand (38).\<close>

definition base32_ok :: "(bytes \<Rightarrow> ustring) \<Rightarrow> bool" where
  "base32_ok b32 \<longleftrightarrow> (\<forall>s t. b32 s = b32 t \<longrightarrow> s = t) \<and> (\<forall>s. 38 \<notin> set (b32 s))"

lemma split_at_sep:
  "a @ c # x = b @ c # y \<Longrightarrow> c \<notin> set a \<Longrightarrow> c \<notin> set b \<Longrightarrow> a = b \<and> x = y"
proof (induction a arbitrary: b)
  case Nil
  then show ?case by (cases b) auto
next
  case (Cons z zs)
  then show ?case by (cases b) auto
qed

lemma show_nat_digits: "c \<in> set (show_nat n) \<Longrightarrow> 48 \<le> (of_char c :: nat) \<and> (of_char c :: nat) \<le> 57"
proof (induction n rule: show_nat.induct)
  case (1 n)
  have d: "n mod 10 < 10" by simp
  show ?case
  proof (cases "n < 10")
    case True
    then show ?thesis using "1.prems" by (subst (asm) show_nat.simps) simp
  next
    case False
    then have "c \<in> set (show_nat (n div 10)) \<or> c = char_of (48 + n mod 10)"
      using "1.prems" by (subst (asm) show_nat.simps) auto
    then show ?thesis using "1.IH" [OF False] d by auto
  qed
qed

lemma ustr_inj: "ustr a = ustr b \<longleftrightarrow> a = b"
  by (auto simp: ustr_def inj_map_eq_map inj_def)

lemma no_amp: "38 \<notin> set (ustr (show_nat n))" "38 \<notin> set (algorithm_param a)" "38 \<notin> set ISSUER"
proof -
  show "38 \<notin> set (ustr (show_nat n))" using show_nat_digits by (fastforce simp: ustr_def)
  show "38 \<notin> set (algorithm_param a)" by (cases a) (simp_all add: ustr_def)
  show "38 \<notin> set ISSUER" by (simp add: ISSUER_def ustr_def)
qed

lemma algorithm_param_inj: "algorithm_param a = algorithm_param b \<Longrightarrow> a = b"
  by (cases a; cases b) (simp_all add: ustr_def)

section \<open>Properties\<close>

text \<open>The provisioning URI loses nothing: it determines the seed, the algorithm, the number of digits
  and the period it was built from, so an authenticator configured from it computes the codes the
  verifier expects.\<close>

lemma provisioning_uri_injective:
  assumes "base32_ok b32" and "build_provisioning_uri b32 s c = build_provisioning_uri b32 t d"
  shows "s = t \<and> tc_algorithm c = tc_algorithm d \<and> tc_digits c = tc_digits d \<and> tc_period c = tc_period d"
proof -
  have u: "ustr ''&issuer='' = 38 # ustr ''issuer=''" "ustr ''&algorithm='' = 38 # ustr ''algorithm=''"
    "ustr ''&digits='' = 38 # ustr ''digits=''" "ustr ''&period='' = 38 # ustr ''period=''"
    by (simp_all add: ustr_def)
  have n: "38 \<notin> set (b32 x)" for x using assms(1) by (simp add: base32_ok_def)
  from assms(2) have "b32 s @ 38 # ustr ''issuer='' @ ISSUER @ 38 # ustr ''algorithm='' @
        algorithm_param (tc_algorithm c) @ 38 # ustr ''digits='' @ ustr (show_nat (unat (tc_digits c))) @
        38 # ustr ''period='' @ ustr (show_nat (unat (tc_period c))) =
      b32 t @ 38 # ustr ''issuer='' @ ISSUER @ 38 # ustr ''algorithm='' @
        algorithm_param (tc_algorithm d) @ 38 # ustr ''digits='' @ ustr (show_nat (unat (tc_digits d))) @
        38 # ustr ''period='' @ ustr (show_nat (unat (tc_period d)))"
    by (simp add: build_provisioning_uri_def u)
  from split_at_sep [OF this n n] have s: "b32 s = b32 t"
    and r: "algorithm_param (tc_algorithm c) @ 38 # ustr ''digits='' @ ustr (show_nat (unat (tc_digits c))) @
        38 # ustr ''period='' @ ustr (show_nat (unat (tc_period c))) =
      algorithm_param (tc_algorithm d) @ 38 # ustr ''digits='' @ ustr (show_nat (unat (tc_digits d))) @
        38 # ustr ''period='' @ ustr (show_nat (unat (tc_period d)))"
    by simp_all
  from split_at_sep [OF r no_amp(2) no_amp(2)] have a: "tc_algorithm c = tc_algorithm d"
    and r2: "ustr (show_nat (unat (tc_digits c))) @ 38 # ustr ''period='' @ ustr (show_nat (unat (tc_period c))) =
      ustr (show_nat (unat (tc_digits d))) @ 38 # ustr ''period='' @ ustr (show_nat (unat (tc_period d)))"
    by (auto dest: algorithm_param_inj)
  from split_at_sep [OF r2 no_amp(1) no_amp(1)] have "unat (tc_digits c) = unat (tc_digits d)"
    "unat (tc_period c) = unat (tc_period d)"
    by (auto simp: ustr_inj show_nat_inj)
  then show ?thesis using s a assms(1) by (auto simp: base32_ok_def word_unat_eq_iff)
qed

text \<open>Hexadecimal is such an encoding.\<close>

lemma hex_base32_ok: "base32_ok hex_lower"
proof -
  have "38 \<notin> set (hex_lower s)" for s
  proof
    assume "38 \<in> set (hex_lower s)"
    then obtain b where "38 \<in> set (hex_byte b)" by (auto simp: hex_lower_def)
    then have "38 \<in> set HEX_DIGITS"
      using drop_bit4_lt [of b] and15_lt [of b] HEX_length by (auto simp: hex_byte_def) (metis nth_mem)+
    then show False by (simp add: HEX_DIGITS_def ustr_def)
  qed
  then show ?thesis by (simp add: base32_ok_def hex_lower_inj)
qed

lemma provisioning_uri_injective_witness:
  "build_provisioning_uri hex_lower [1] totp_config_default \<noteq> build_provisioning_uri hex_lower [2] totp_config_default"
  using provisioning_uri_injective [OF hex_base32_ok, of "[1]" totp_config_default "[2]" totp_config_default] by auto

end
