(* ===== verification/Host.thy ===== *)
theory Host
  imports Storage Entropy Provisioning
begin

text \<open>
  \<open>passman-core\<close>, \<open>app.rs\<close>: the state of the application handle and the primitive steps its
  operations are made of.

  The record \<open>host\<close> collects what surrounds the core: the cryptographic primitives and the row
  serializer (through \<open>vault_env\<close>), the policy serializer, the base-32 encoder, HMAC, the strength
  estimator, the key-store backend, the process id, and the answers of the environment: the clock,
  \<open>/proc/meminfo\<close>, and the outcome of each file read and write.  An answer may differ at every
  interaction: the state counts them in \<open>a_tick\<close> and each takes the answer at that count.

  The record \<open>app\<close> is the \<open>App\<close> struct, with the file system, the backend's device state and the
  position of the random source it acts on.
\<close>

section \<open>State\<close>

record 'd host = vault_env +
  policy_ser :: "entry_policy \<Rightarrow> bytes option"
  policy_de :: "bytes \<Rightarrow> entry_policy option"
  base32 :: "bytes \<Rightarrow> ustring"
  hmac_tag :: hmac
  strength :: estimator
  store :: "'d key_store"
  process_id :: nat
  clock_at :: "nat \<Rightarrow> timestamp"
  meminfo_at :: "nat \<Rightarrow> ustring option"
  read_at :: "nat \<Rightarrow> read_io"
  write_at :: "nat \<Rightarrow> write_io"

text \<open>What \<open>postcard\<close> guarantees for policies.\<close>

definition policy_codec_ok :: "('d, 'm) host_scheme \<Rightarrow> bool" where
  "policy_codec_ok H \<longleftrightarrow> (\<forall>p b. policy_ser H p = Some b \<longrightarrow> policy_de H b = Some p)"

record 'd app =
  a_path :: path
  a_lock :: instance_lock
  a_allow_software_hsm :: bool
  a_totp_config :: totp_config
  a_verifier :: "totp_verifier option"
  a_lockout_mem :: lockout_state
  a_fs :: fs
  a_device :: 'd
  a_rng :: rng
  a_tick :: nat

definition MASTER_INFO :: bytes where "MASTER_INFO = ascii ''passman-master-v0''"
definition KEY_LEN :: nat where "KEY_LEN = 32"
definition SESSION_SECS :: "64 word" where "SESSION_SECS = 120"
definition HSM_LOCKOUT_FALLBACK :: duration where "HSM_LOCKOUT_FALLBACK = from_secs 60"

section \<open>Opening the application\<close>

definition app_open :: "bool \<Rightarrow> path \<Rightarrow> 'd \<Rightarrow> rng \<Rightarrow> fs \<times> lock_table \<Rightarrow> (core_error + 'd app) \<times> fs \<times> lock_table" where
  "app_open lockfile_opens p dev g = (\<lambda>(fs, t).
     (case instance_lock_acquire lockfile_opens p (fs, t) of
        (Inl e, fs', t') \<Rightarrow> (Inl e, fs', t')
      | (Inr l, fs', t') \<Rightarrow> (Inr \<lparr>a_path = p, a_lock = l, a_allow_software_hsm = False,
          a_totp_config = totp_config_default, a_verifier = None, a_lockout_mem = lockout_reset,
          a_fs = fs', a_device = dev, a_rng = g, a_tick = 0\<rparr>, fs', t')))"

definition app_open_allowing_software_hsm ::
  "bool \<Rightarrow> path \<Rightarrow> 'd \<Rightarrow> rng \<Rightarrow> fs \<times> lock_table \<Rightarrow> (core_error + 'd app) \<times> fs \<times> lock_table" where
  "app_open_allowing_software_hsm lockfile_opens p dev g x =
     (case app_open lockfile_opens p dev g x of
        (Inl e, fs', t') \<Rightarrow> (Inl e, fs', t')
      | (Inr app, fs', t') \<Rightarrow> (Inr (app\<lparr>a_allow_software_hsm := True\<rparr>), fs', t'))"

section \<open>Steps on the environment\<close>

definition clock_now :: "('d, 'm) host_scheme \<Rightarrow> 'd app \<Rightarrow> timestamp \<times> 'd app" where
  "clock_now H s = (clock_at H (a_tick s), s\<lparr>a_tick := a_tick s + 1\<rparr>)"

definition now_unix_secs :: "('d, 'm) host_scheme \<Rightarrow> 'd app \<Rightarrow> 64 word \<times> 'd app" where
  "now_unix_secs H s = (case clock_now H s of (t, s') \<Rightarrow> (i64_sat t, s'))"

text \<open>A step on the random source alone.\<close>

definition on_rng :: "(rng \<Rightarrow> 'r \<times> rng) \<Rightarrow> 'd app \<Rightarrow> 'r \<times> 'd app" where
  "on_rng f s = (case f (a_rng s) of (r, g') \<Rightarrow> (r, s\<lparr>a_rng := g'\<rparr>))"

definition read_vault_file :: "('d, 'm) host_scheme \<Rightarrow> 'd app \<Rightarrow> (core_error + bytes) \<times> 'd app" where
  "read_vault_file H s =
     (storage_read (read_at H (a_tick s)) (a_path s) (a_fs s), s\<lparr>a_tick := a_tick s + 1\<rparr>)"

definition write_vault_file :: "('d, 'm) host_scheme \<Rightarrow> bytes \<Rightarrow> 'd app \<Rightarrow> (core_error + unit) \<times> 'd app" where
  "write_vault_file H b s =
     (case atomic_write H (write_at H (a_tick s)) (process_id H) (a_path s) b (a_fs s, a_rng s) of
        (r, fs', g') \<Rightarrow> (r, s\<lparr>a_fs := fs', a_rng := g', a_tick := a_tick s + 1\<rparr>))"

section \<open>Memory and the master key\<close>

fun mem_available :: "ustring list \<Rightarrow> 64 word option" where
  "mem_available [] = None"
| "mem_available (line # rest) =
     (case strip_prefix (ustr ''MemAvailable:'') line of
        Some value \<Rightarrow> (case first_word value of None \<Rightarrow> None | Some w \<Rightarrow> parse_u64 w)
      | None \<Rightarrow> mem_available rest)"

definition available_memory_kib :: "('d, 'm) host_scheme \<Rightarrow> 'd app \<Rightarrow> 64 word option \<times> 'd app" where
  "available_memory_kib H s =
     ((case meminfo_at H (a_tick s) of None \<Rightarrow> None | Some text \<Rightarrow> mem_available (str_lines text)),
      s\<lparr>a_tick := a_tick s + 1\<rparr>)"

definition master_of :: "'m crypto_scheme \<Rightarrow> secret_string \<Rightarrow> bytes \<Rightarrow> kdf_params \<Rightarrow> bytes \<Rightarrow> 64 word option \<Rightarrow>
    core_error + bytes" where
  "master_of C pw salt P k_hsm avail =
     and_then (map_err CCrypto (argon2id_within_memory C pw salt P avail)) (\<lambda>k_pw.
       Inr (hkdf_master C salt (k_pw @ k_hsm) MASTER_INFO))"

definition derive_master :: "('d, 'm) host_scheme \<Rightarrow> secret_string \<Rightarrow> bytes \<Rightarrow> kdf_params \<Rightarrow> bytes \<Rightarrow> 'd app \<Rightarrow>
    (core_error + bytes) \<times> 'd app" where
  "derive_master H pw salt P k_hsm =
     st_then (st_do (available_memory_kib H)) (\<lambda>avail. st_lift (master_of H pw salt P k_hsm avail))"

definition into_key :: "bytes \<Rightarrow> bytes option" where
  "into_key b = (if length b = KEY_LEN then Some b else None)"

definition derive_master_from_bytes :: "('d, 'm) host_scheme \<Rightarrow> secret_string \<Rightarrow> bytes \<Rightarrow> kdf_params \<Rightarrow> bytes \<Rightarrow>
    'd app \<Rightarrow> (core_error + bytes) \<times> 'd app" where
  "derive_master_from_bytes H pw salt P k_hsm =
     st_then (st_lift (ok_or (CHsm (MalformedBlob ''unwrapped K_hsm is not 32 bytes'')) (into_key k_hsm)))
       (\<lambda>arr. derive_master H pw salt P arr)"

section \<open>Steps on the key store\<close>

definition enroll_slot :: "('d, 'm) host_scheme \<Rightarrow> hsm_slot \<Rightarrow> bytes \<Rightarrow> prompter \<Rightarrow> 'd app \<Rightarrow>
    (core_error + wrapped_blob) \<times> 'd app" where
  "enroll_slot H slot material p s =
     (case ks_enroll (store H) slot material p (a_device s, a_rng s) of
        (r, d', g') \<Rightarrow> (map_err CHsm r, s\<lparr>a_device := d', a_rng := g'\<rparr>))"

fun map_hsm_unlock :: "hsm_error \<Rightarrow> unlock_error" where
  "map_hsm_unlock HCancelled = UCancelled"
| "map_hsm_unlock HTransient = URetryable"
| "map_hsm_unlock PermanentlyInvalidated = RouteToRecovery"
| "map_hsm_unlock HardwareAbsent = RouteToRecovery"
| "map_hsm_unlock other = UHsm other"

text \<open>The two phases, with the backend's error.\<close>

definition unwrap_bytes :: "('d, 'm) host_scheme \<Rightarrow> hsm_slot \<Rightarrow> bytes \<Rightarrow> prompter \<Rightarrow> 'd app \<Rightarrow>
    (hsm_error + bytes) \<times> 'd app" where
  "unwrap_bytes H slot blob_bytes p s =
     (case blob_from_bytes blob_bytes of
        Inl e \<Rightarrow> (Inl e, s)
      | Inr blob \<Rightarrow> (case unwrap (store H) slot blob p (a_device s) of
            (r, d') \<Rightarrow> (r, s\<lparr>a_device := d'\<rparr>)))"

definition unwrap_slot :: "('d, 'm) host_scheme \<Rightarrow> hsm_slot \<Rightarrow> bytes \<Rightarrow> prompter \<Rightarrow> 'd app \<Rightarrow>
    (unlock_error + bytes) \<times> 'd app" where
  "unwrap_slot H slot blob_bytes p = st_err map_hsm_unlock (unwrap_bytes H slot blob_bytes p)"

definition unwrap_slot_core :: "('d, 'm) host_scheme \<Rightarrow> hsm_slot \<Rightarrow> bytes \<Rightarrow> prompter \<Rightarrow> 'd app \<Rightarrow>
    (core_error + bytes) \<times> 'd app" where
  "unwrap_slot_core H slot blob_bytes p = st_err CHsm (unwrap_bytes H slot blob_bytes p)"

section \<open>Verifier and lockout\<close>

definition verify_totp :: "('d, 'm) host_scheme \<Rightarrow> bytes \<Rightarrow> ustring \<Rightarrow> 'd app \<Rightarrow> (unit + unit) \<times> 'd app" where
  "verify_totp H seed code s =
     (let (now, s1) = clock_now H s;
          v = (case a_verifier s1 of None \<Rightarrow> totp_verifier_new (a_totp_config s1) | Some v \<Rightarrow> v);
          (r, v') = totp_verify (hmac_tag H) seed code now v
      in (map_err (\<lambda>_. ()) r, s1\<lparr>a_verifier := Some v'\<rparr>))"

definition merge_lockout :: "lockout_state \<Rightarrow> 'd app \<Rightarrow> lockout_state \<times> 'd app" where
  "merge_lockout disk s =
     (let merged = merged_lockout disk (a_lockout_mem s) in (merged, s\<lparr>a_lockout_mem := merged\<rparr>))"

definition record_failure :: "('d, 'm) host_scheme \<Rightarrow> vault \<Rightarrow> lockout_state \<Rightarrow> timestamp \<Rightarrow> 'd app \<Rightarrow> unit \<times> 'd app" where
  "record_failure H v st now s =
     (let st' = after_failure st now;
          v' = set_rate_limit (lk_counter st') (lk_last_failure st') v
      in ((), snd (write_vault_file H (vault_to_bytes v') (s\<lparr>a_lockout_mem := st'\<rparr>))))"

definition set_totp_config :: "totp_config \<Rightarrow> 'd app \<Rightarrow> unit \<times> 'd app" where
  "set_totp_config cfg s = ((), s\<lparr>a_totp_config := cfg, a_verifier := None\<rparr>)"

section \<open>The unlocked session\<close>

definition TOKEN_LEN :: nat where "TOKEN_LEN = 32"

definition session_token_generate :: "'m crypto_scheme \<Rightarrow> rng \<Rightarrow> bytes \<times> rng" where
  "session_token_generate C g = random_secret C TOKEN_LEN g"

record unlocked_app =
  k_master :: bytes
  ua_totp_seed :: bytes
  ua_index :: index
  session_expiry :: "64 word"
  session_token :: bytes

definition build_unlocked :: "('d, 'm) host_scheme \<Rightarrow> bytes \<Rightarrow> bytes \<Rightarrow> index \<Rightarrow> 'd app \<Rightarrow> unlocked_app \<times> 'd app" where
  "build_unlocked H km seed ix s =
     (let (now, s1) = clock_now H s;
          (token, s2) = on_rng (session_token_generate H) s1
      in (\<lparr>k_master = km, ua_totp_seed = seed, ua_index = ix,
           session_expiry = sat_add64 now SESSION_SECS, session_token = token\<rparr>, s2))"

end
