(* ===== verification/App.thy ===== *)
theory App
  imports Host
begin

text \<open>
  \<open>passman-core\<close>, \<open>app.rs\<close>: the three operations of the locked application that end in an unlocked
  session.  Each is a step on the \<open>app\<close> state whose error path keeps what has been changed so far.
  \<open>unlock\<close> is written in three stages, cut where the source has its comments for the lockout
  checks, the two factors, and the success path.
\<close>

definition check_backend_allowed :: "('d, 'm) host_scheme \<Rightarrow> 'd app \<Rightarrow> core_error + unit" where
  "check_backend_allowed H s =
     (if ks_kind (store H) = KSoftwareMock \<and> \<not> a_allow_software_hsm s then Inl SoftwareHsmRefused else Inr ())"

section \<open>Creation\<close>

definition create_vault :: "('d, 'm) host_scheme \<Rightarrow> secret_string \<Rightarrow> kdf_params \<Rightarrow> totp_config \<Rightarrow> prompter \<Rightarrow>
    'd app \<Rightarrow> (core_error + unlocked_app \<times> ustring) \<times> 'd app" where
  "create_vault H password kdf cfg p s =
     (case check_backend_allowed H s of
        Inl e \<Rightarrow> (Inl e, s)
      | Inr _ \<Rightarrow>
        st_then (st_do (on_rng (random_secret H KEY_LEN))) (\<lambda>k_hsm.
        st_then (st_do (on_rng (random_secret H KEY_LEN))) (\<lambda>seed.
        st_then (enroll_slot H VaultKey k_hsm p) (\<lambda>k_hsm_blob.
        st_then (enroll_slot H TotpSeed seed p) (\<lambda>seed_blob.
        st_then (st_do (on_rng (random_secret H KEY_LEN))) (\<lambda>salt.
        st_then (derive_master H password salt kdf k_hsm) (\<lambda>km.
        st_then (st_do (now_unix_secs H)) (\<lambda>now.
        st_then (st_err CVault (on_rng (vault_create H kdf salt (blob_to_bytes k_hsm_blob)
            (blob_to_bytes seed_blob) (metadata_new now) km))) (\<lambda>v.
        st_then (write_vault_file H (vault_to_bytes v)) (\<lambda>_.
        st_then (st_do (set_totp_config cfg)) (\<lambda>_.
        st_then (st_lift (map_err CVault (open_index H v km))) (\<lambda>ix.
        st_then (st_do (build_unlocked H km seed ix)) (\<lambda>ua.
          st_lift (Inr (ua, build_provisioning_uri (base32 H) seed cfg)))))))))))))) s)"

section \<open>Unlock\<close>

text \<open>A rejected credential: the failure is recorded, then reported.\<close>

definition reject_unless :: "bool \<Rightarrow> ('d app \<Rightarrow> unit \<times> 'd app) \<Rightarrow> 'd app \<Rightarrow> (unlock_error + unit) \<times> 'd app" where
  "reject_unless ok record_step =
     (if ok then st_lift (Inr ()) else st_then (st_do record_step) (\<lambda>_. st_lift (Inl BadCredentials)))"

definition native_lockout :: "('d, 'm) host_scheme \<Rightarrow> lockout_state \<Rightarrow> timestamp \<Rightarrow> 'd app \<Rightarrow> unlock_error + unit" where
  "native_lockout H st now s =
     (case ks_lockout_status (store H) (a_device s) of
        Inr (LockedOutStatus retry_after) \<Rightarrow>
          Inl (LockedOut (case retry_after of Some d \<Rightarrow> d
             | None \<Rightarrow> (case remaining st now of Some d \<Rightarrow> d | None \<Rightarrow> HSM_LOCKOUT_FALLBACK)))
      | _ \<Rightarrow> Inr ())"

datatype gate = Gate (gate_vault: vault) (gate_state: lockout_state) (gate_now: timestamp)

definition unlock_gate :: "('d, 'm) host_scheme \<Rightarrow> 'd app \<Rightarrow> (unlock_error + gate) \<times> 'd app" where
  "unlock_gate H =
     st_then (st_err MalformedVault (read_vault_file H)) (\<lambda>bytes.
     st_then (st_lift (map_err (\<lambda>e. MalformedVault (CVault e)) (vault_from_bytes bytes))) (\<lambda>v.
     st_then (st_lift (if within_limits (kdf_params_of v) then Inr ()
         else Inl (MalformedVault (CCrypto (Kdf ''vault KDF parameters are outside the permitted range''))))) (\<lambda>_.
     st_then (st_do (clock_now H)) (\<lambda>now.
     st_then (st_do (merge_lockout (lockout_new (rl_counter v) (rl_last_failure v)))) (\<lambda>st.
     st_then (\<lambda>s. (native_lockout H st now s, s)) (\<lambda>_.
     st_lift (case remaining st now of Some d \<Rightarrow> Inl (LockedOut d) | None \<Rightarrow> Inr (Gate v st now))))))))"

definition unlock_factors :: "('d, 'm) host_scheme \<Rightarrow> secret_string \<Rightarrow> ustring \<Rightarrow> prompter \<Rightarrow> gate \<Rightarrow> 'd app \<Rightarrow>
    (unlock_error + bytes \<times> bytes) \<times> 'd app" where
  "unlock_factors H password code p gt =
     (let v = gate_vault gt; rec = record_failure H v (gate_state gt) (gate_now gt) in
     st_then (unwrap_slot H VaultKey (k_hsm_wrap_blob v) p) (\<lambda>k_hsm.
     st_then (unwrap_slot H TotpSeed (totp_seed_wrap_blob v) p) (\<lambda>seed.
     st_then (st_do (verify_totp H seed code)) (\<lambda>totp.
     st_then (reject_unless (is_ok totp) rec) (\<lambda>_.
     st_then (st_err (\<lambda>_. BadCredentials)
         (derive_master_from_bytes H password (vault_salt v) (kdf_params_of v) k_hsm)) (\<lambda>km.
     st_then (reject_unless (is_ok (verify_probe H v km)) rec) (\<lambda>_.
     st_lift (Inr (km, seed)))))))))"

definition clear_lockout :: "('d, 'm) host_scheme \<Rightarrow> vault \<Rightarrow> 'd app \<Rightarrow> unit \<times> 'd app" where
  "clear_lockout H v s =
     (let s1 = s\<lparr>a_lockout_mem := lockout_reset\<rparr> in
      if rl_counter v \<noteq> 0 \<or> rl_last_failure v \<noteq> 0
      then ((), snd (write_vault_file H (vault_to_bytes
             (set_rate_limit (lk_counter lockout_reset) (lk_last_failure lockout_reset) v)) s1))
      else ((), s1))"

definition unlock_finish :: "('d, 'm) host_scheme \<Rightarrow> vault \<Rightarrow> bytes \<Rightarrow> bytes \<Rightarrow> 'd app \<Rightarrow>
    (unlock_error + unlocked_app) \<times> 'd app" where
  "unlock_finish H v km seed =
     st_then (st_lift (map_err (\<lambda>e. MalformedVault (CVault e)) (open_index H v km))) (\<lambda>ix.
     st_then (st_do (clear_lockout H v)) (\<lambda>_.
     st_do (build_unlocked H km seed ix)))"

definition unlock :: "('d, 'm) host_scheme \<Rightarrow> secret_string \<Rightarrow> ustring \<Rightarrow> prompter \<Rightarrow> 'd app \<Rightarrow>
    (unlock_error + unlocked_app) \<times> 'd app" where
  "unlock H password code p s =
     (if ks_kind (store H) = KSoftwareMock \<and> \<not> a_allow_software_hsm s then (Inl USoftwareHsmRefused, s)
      else st_then (unlock_gate H) (\<lambda>gt.
           st_then (unlock_factors H password code p gt) (\<lambda>(km, seed).
           unlock_finish H (gate_vault gt) km seed)) s)"

section \<open>Recovery import\<close>

definition import_entry_parts :: "('d, 'm) host_scheme \<Rightarrow> recovery_entry \<Rightarrow>
    core_error + entry_id \<times> ustring \<times> entry_policy \<times> entry_record" where
  "import_entry_parts H e =
     and_then (ok_or (CRecovery (RMalformedPayload ''entry policy bytes are not valid postcard''))
         (policy_de H (re_policy e))) (\<lambda>policy.
       Inr (EntryId (re_id e), re_label e, policy,
         \<lparr>er_username = re_username e, er_password = re_password e, er_url = re_url e, er_notes = re_notes e\<rparr>))"

text \<open>\<open>vault.add_or_update_entry(..)?\<close> on a vault held in a local variable.\<close>

definition put_entry :: "('d, 'm) host_scheme \<Rightarrow> bytes \<Rightarrow> entry_id \<Rightarrow> ustring \<Rightarrow> entry_policy \<Rightarrow> entry_record \<Rightarrow>
    vault \<Rightarrow> 'd app \<Rightarrow> (core_error + vault) \<times> 'd app" where
  "put_entry H km i label policy r v = on_rng (\<lambda>g.
     (case add_or_update_entry H km i label policy r (v, g) of
        (x, v', g') \<Rightarrow> (map_err CVault (and_then x (\<lambda>_. Inr v')), g')))"

fun import_entries :: "('d, 'm) host_scheme \<Rightarrow> bytes \<Rightarrow> recovery_entry list \<Rightarrow> vault \<Rightarrow> 'd app \<Rightarrow>
    (core_error + vault) \<times> 'd app" where
  "import_entries H km [] v = st_lift (Inr v)"
| "import_entries H km (e # es) v =
     st_then (st_lift (import_entry_parts H e)) (\<lambda>(i, label, policy, r).
     st_then (put_entry H km i label policy r v) (\<lambda>v'. import_entries H km es v'))"

definition import_recovery :: "('d, 'm) host_scheme \<Rightarrow> bytes \<Rightarrow> secret_string \<Rightarrow> kdf_params \<Rightarrow> totp_config \<Rightarrow>
    prompter \<Rightarrow> 'd app \<Rightarrow> (core_error + unlocked_app \<times> ustring) \<times> 'd app" where
  "import_recovery H file password kdf cfg p s =
     (case check_backend_allowed H s of
        Inl e \<Rightarrow> (Inl e, s)
      | Inr _ \<Rightarrow>
        st_then (st_do (available_memory_kib H)) (\<lambda>avail.
        st_then (st_lift (map_err CRecovery (import_within_memory H file password avail))) (\<lambda>payload.
        st_then (st_do (on_rng (random_secret H KEY_LEN))) (\<lambda>k_hsm.
        st_then (enroll_slot H VaultKey k_hsm p) (\<lambda>k_hsm_blob.
        st_then (enroll_slot H TotpSeed (totp_seed payload) p) (\<lambda>seed_blob.
        st_then (st_do (on_rng (random_secret H KEY_LEN))) (\<lambda>salt.
        st_then (derive_master H password salt kdf k_hsm) (\<lambda>km.
        st_then (st_do (now_unix_secs H)) (\<lambda>now.
        st_then (st_err CVault (on_rng (vault_create H kdf salt (blob_to_bytes k_hsm_blob)
            (blob_to_bytes seed_blob) (metadata_new now) km))) (\<lambda>v0.
        st_then (import_entries H km (entries payload) v0) (\<lambda>v.
        st_then (write_vault_file H (vault_to_bytes v)) (\<lambda>_.
        st_then (st_do (set_totp_config cfg)) (\<lambda>_.
        st_then (st_lift (map_err CVault (open_index H v km))) (\<lambda>ix.
        st_then (st_do (build_unlocked H km (totp_seed payload) ix)) (\<lambda>ua.
          st_lift (Inr (ua, build_provisioning_uri (base32 H) (totp_seed payload) cfg)))))))))))))))) s)"

end
