(* ===== verification/Clipboard.thy ===== *)
theory Clipboard
  imports CoreTypes
begin

text \<open>
  \<open>passman-core\<close>, \<open>clipboard.rs\<close>, the clear logic of \<open>unlocked.rs\<close>, and the desktop adapter
  \<open>passman-gtk\<close>, \<open>clipboard.rs\<close>.

  The \<open>Clipboard\<close> trait is the record \<open>clipboard\<close> of its three operations on a state \<open>'c\<close>; what the
  trait's documentation promises of them is the locale \<open>clipboard_laws\<close>, under which the clear step
  is analysed once.  The adapter is modelled over the parameters \<open>arboard\<close> (third party) and SHA-256,
  and interprets the locale.
\<close>

section \<open>The interface\<close>

record clipboard_cookie =
  ck_digest :: bytes
  ck_written_at :: timestamp

datatype clear_outcome = Cleared | StillOurs | Replaced | EmptyClipboard | Unavailable

record 'c clipboard =
  cb_write :: "secret_string \<Rightarrow> 'c \<Rightarrow> (core_error + clipboard_cookie) \<times> 'c"
  cb_read_digest :: "'c \<Rightarrow> (core_error + bytes option) \<times> 'c"
  cb_set_text :: "ustring \<Rightarrow> 'c \<Rightarrow> (core_error + unit) \<times> 'c"

definition FACTS :: "ustring list" where
  "FACTS =
     [ustr ''Honey never spoils.'',
      ustr ''Octopuses have three hearts.'',
      ustr ''A group of flamingos is called a flamboyance.'',
      ustr ''Bananas are botanically berries.'',
      ustr ''Sharks predate trees.'',
      ustr ''Wombat droppings are cube-shaped.'',
      ustr ''The Eiffel Tower grows taller in summer.'',
      ustr ''A bolt of lightning is hotter than the Sun's surface.'',
      ustr ''Sea otters hold hands while they sleep.'',
      ustr ''Honeybees can recognize human faces.'',
      ustr ''There are more stars than grains of sand on Earth.'',
      ustr ''A day on Venus is longer than its year.'']"

definition random_fact :: "'m crypto_scheme \<Rightarrow> rng \<Rightarrow> ustring \<times> rng" where
  "random_fact C g =
     (let (byte, g') = random_secret C 1 g in (FACTS ! (unat (byte ! 0) mod length FACTS), g'))"

definition clear_clipboard_impl :: "'m crypto_scheme \<Rightarrow> 'c clipboard \<Rightarrow> clipboard_cookie \<Rightarrow> bool \<Rightarrow>
    rng \<times> 'c \<Rightarrow> clear_outcome \<times> rng \<times> 'c" where
  "clear_clipboard_impl C K cookie fact_overwrite = (\<lambda>(g, c).
     (case cb_read_digest K c of
        (Inl _, c1) \<Rightarrow> (Unavailable, g, c1)
      | (Inr None, c1) \<Rightarrow> (EmptyClipboard, g, c1)
      | (Inr (Some current), c1) \<Rightarrow>
          if \<not> ct_eq current (ck_digest cookie) then (Replaced, g, c1)
          else if \<not> fact_overwrite then (StillOurs, g, c1)
          else (case random_fact C g of (text, g') \<Rightarrow>
            (case cb_set_text K text c1 of
               (Inr _, c2) \<Rightarrow> (Cleared, g', c2)
             | (Inl _, c2) \<Rightarrow> (Unavailable, g', c2)))))"

section \<open>The clear step under the trait's contract\<close>

lemma FACTS_length: "length FACTS = 12"
  by (simp only: FACTS_def list.size)

lemma random_fact_pool: "fst (random_fact C g) \<in> set FACTS"
  by (simp add: random_fact_def split_def Let_def FACTS_length)

text \<open>\<open>content\<close> is the text on the clipboard, if any; \<open>dig\<close> the digest of a text.\<close>

locale clipboard_laws =
  fixes K :: "'c clipboard" and content :: "'c \<Rightarrow> ustring option" and dig :: "ustring \<Rightarrow> bytes"
  assumes write_law: "cb_write K t c = (Inr ck, c') \<Longrightarrow> content c' = Some t \<and> ck_digest ck = dig t"
    and read_law: "cb_read_digest K c = (Inr d, c') \<Longrightarrow> content c' = content c \<and> d = map_option dig (content c)"
    and read_keeps: "cb_read_digest K c = (r, c') \<Longrightarrow> content c' = content c"
    and set_law: "cb_set_text K t c = (Inr u, c') \<Longrightarrow> content c' = Some t"
begin

lemma clear_outcomes:
  assumes "clear_clipboard_impl C K ck fo (g, c) = (out, g', c')"
  shows "case out of
      Cleared \<Rightarrow> fo \<and> map_option dig (content c) = Some (ck_digest ck) \<and> (\<exists>t\<in>set FACTS. content c' = Some t)
    | StillOurs \<Rightarrow> \<not> fo \<and> map_option dig (content c) = Some (ck_digest ck) \<and> content c' = content c
    | Replaced \<Rightarrow> map_option dig (content c) \<noteq> Some (ck_digest ck) \<and> content c' = content c
    | EmptyClipboard \<Rightarrow> content c = None \<and> content c' = None
    | Unavailable \<Rightarrow> True"
proof -
  obtain r c1 where r: "cb_read_digest K c = (r, c1)" by fastforce
  obtain t h where t: "random_fact C g = (t, h)" by fastforce
  obtain x c2 where s: "cb_set_text K t c1 = (x, c2)" by fastforce
  have m: "t \<in> set FACTS" using random_fact_pool [of C g] t by simp
  consider (err) e where "r = Inl e" | (none) "r = Inr None" | (some) d where "r = Inr (Some d)"
  proof (cases r)
    case (Inl e)
    then show thesis by (rule that(1))
  next
    case (Inr x)
    then show thesis using that(2,3) by (cases x) simp_all
  qed
  then show ?thesis
  proof cases
    case err
    then have "out = Unavailable" using assms r by (simp add: clear_clipboard_impl_def)
    then show ?thesis by simp
  next
    case none
    then have "out = EmptyClipboard" "c' = c1" using assms r by (simp_all add: clear_clipboard_impl_def)
    then show ?thesis using none r read_law [of c None c1] by simp
  next
    case some
    then have d: "content c1 = content c" "map_option dig (content c) = Some d"
      using read_law [of c "Some d" c1] r by auto
    note e = assms [unfolded clear_clipboard_impl_def split_conv r some prod.case sum.case option.case ct_eq_iff t s]
    show ?thesis
    proof (cases "d = ck_digest ck \<and> fo")
      case True
      then show ?thesis using e d m set_law [of t c1 _ c2] s by (cases x) auto
    next
      case False
      then show ?thesis using e d by (auto split: if_splits)
    qed
  qed
qed

text \<open>A copied text is overwritten as long as nothing else has been put on the clipboard.\<close>

lemma copy_then_clear:
  assumes "cb_write K t c = (Inr ck, c1)" and "content c2 = content c1"
    and "clear_clipboard_impl C K ck True (g, c2) = (out, g', c')" and "out \<noteq> Unavailable"
  shows "out = Cleared \<and> (\<exists>f\<in>set FACTS. content c' = Some f)"
  using clear_outcomes [OF assms(3)] write_law [OF assms(1)] assms(2,4) by (cases out) auto

end

text \<open>A clipboard that is never out of reach: no operation of the interface fails.\<close>

locale clipboard_up = clipboard_laws +
  assumes write_up: "\<exists>ck c'. cb_write K t c = (Inr ck, c')"
    and read_up: "\<exists>d c'. cb_read_digest K c = (Inr d, c')"
    and set_up: "\<exists>c'. cb_set_text K t c = (Inr (), c')"
begin

lemma clear_available: "fst (clear_clipboard_impl C K ck fo x) \<noteq> Unavailable"
proof -
  obtain g c where x: "x = (g, c)" by (cases x)
  obtain d c1 where r: "cb_read_digest K c = (Inr d, c1)" using read_up by blast
  obtain t h where t: "random_fact C g = (t, h)" by fastforce
  obtain c2 where s: "cb_set_text K t c1 = (Inr (), c2)" using set_up by blast
  show ?thesis by (simp add: clear_clipboard_impl_def x r t s split: option.split)
qed

lemma clear_own:
  assumes "clear_clipboard_impl C K ck True (g, c) = (out, g', c')" and "content c = Some t" and "ck_digest ck = dig t"
  shows "\<exists>f\<in>set FACTS. content c' = Some f"
  using clear_outcomes [OF assms(1)] clear_available [of C ck True "(g, c)"] assms by (cases out) auto

lemma clear_any:
  assumes "clear_clipboard_impl C K ck fo (g, c) = (out, g', c')"
  shows "content c' = content c \<or> (\<exists>f\<in>set FACTS. content c' = Some f)"
  using clear_outcomes [OF assms] clear_available [of C ck fo "(g, c)"] assms by (cases out) auto

end

section \<open>The desktop adapter\<close>

datatype get_text_result = GotText ustring | ContentNotAvailable | GetFailed

record 'o arboard =
  ab_new :: "'o \<Rightarrow> bool \<times> 'o"
  ab_set_text :: "ustring \<Rightarrow> 'o \<Rightarrow> bool \<times> 'o"
  ab_get_text :: "'o \<Rightarrow> get_text_result \<times> 'o"
  sha256 :: "bytes \<Rightarrow> bytes"
  shell_clock :: "nat \<Rightarrow> timestamp"

text \<open>The adapter: whether the connection is open, the operating system's side, and how often the
  clock has been read.\<close>

record 'o system_clipboard =
  sc_open :: bool
  sc_os :: 'o
  sc_reads :: nat

definition system_clipboard_new :: "'o \<Rightarrow> 'o system_clipboard" where
  "system_clipboard_new os = \<lparr>sc_open = False, sc_os = os, sc_reads = 0\<rparr>"

definition text_digest :: "'o arboard \<Rightarrow> ustring \<Rightarrow> bytes" where
  "text_digest A t = sha256 A (utf8_enc t)"

text \<open>Run \<open>f\<close> on the connection, opening it first; \<open>failed\<close> is the result of a refused opening.\<close>

definition sc_with :: "'o arboard \<Rightarrow> 'r \<Rightarrow> ('o \<Rightarrow> 'r \<times> 'o) \<Rightarrow> 'o system_clipboard \<Rightarrow> 'r \<times> 'o system_clipboard" where
  "sc_with A failed f c =
     (case (if sc_open c then (True, sc_os c) else ab_new A (sc_os c)) of
        (False, os) \<Rightarrow> (failed, c\<lparr>sc_os := os\<rparr>)
      | (True, os) \<Rightarrow> (case f os of (r, os') \<Rightarrow> (r, c\<lparr>sc_open := True, sc_os := os'\<rparr>)))"

definition sc_write :: "'o arboard \<Rightarrow> secret_string \<Rightarrow> 'o system_clipboard \<Rightarrow>
    (core_error + clipboard_cookie) \<times> 'o system_clipboard" where
  "sc_write A secret c =
     (case sc_with A False (ab_set_text A secret) c of
        (False, c') \<Rightarrow> (Inl (CIo ''clipboard write''), c')
      | (True, c') \<Rightarrow> (Inr \<lparr>ck_digest = text_digest A secret, ck_written_at = shell_clock A (sc_reads c')\<rparr>,
          c'\<lparr>sc_reads := sc_reads c' + 1\<rparr>))"

definition sc_read_digest :: "'o arboard \<Rightarrow> 'o system_clipboard \<Rightarrow> (core_error + bytes option) \<times> 'o system_clipboard" where
  "sc_read_digest A c =
     (case sc_with A GetFailed (ab_get_text A) c of
        (GotText t, c') \<Rightarrow> (Inr (Some (text_digest A t)), c')
      | (ContentNotAvailable, c') \<Rightarrow> (Inr None, c')
      | (GetFailed, c') \<Rightarrow> (Inl (CIo ''clipboard read''), c'))"

definition sc_set_text :: "'o arboard \<Rightarrow> ustring \<Rightarrow> 'o system_clipboard \<Rightarrow> (core_error + unit) \<times> 'o system_clipboard" where
  "sc_set_text A t c =
     (case sc_with A False (ab_set_text A t) c of
        (False, c') \<Rightarrow> (Inl (CIo ''clipboard overwrite''), c')
      | (True, c') \<Rightarrow> (Inr (), c'))"

definition system_clipboard_ops :: "'o arboard \<Rightarrow> 'o system_clipboard clipboard" where
  "system_clipboard_ops A =
     \<lparr>cb_write = sc_write A, cb_read_digest = sc_read_digest A, cb_set_text = sc_set_text A\<rparr>"

text \<open>What \<open>arboard\<close> documents: opening a connection and reading leave the clipboard alone, a read
  returns its text, and a successful write puts the text there.\<close>

definition arboard_ok :: "'o arboard \<Rightarrow> ('o \<Rightarrow> ustring option) \<Rightarrow> bool" where
  "arboard_ok A text_on \<longleftrightarrow>
     (\<forall>os. text_on (snd (ab_new A os)) = text_on os) \<and>
     (\<forall>os. text_on (snd (ab_get_text A os)) = text_on os) \<and>
     (\<forall>os. case fst (ab_get_text A os) of GotText t \<Rightarrow> text_on os = Some t
        | ContentNotAvailable \<Rightarrow> text_on os = None | GetFailed \<Rightarrow> True) \<and>
     (\<forall>t os. fst (ab_set_text A t os) \<longrightarrow> text_on (snd (ab_set_text A t os)) = Some t)"

lemma sc_with_cases:
  assumes "sc_with A failed f c = (r, c')"
  obtains (refused) os where "ab_new A (sc_os c) = (False, os)" "r = failed" "c' = c\<lparr>sc_os := os\<rparr>"
  | (ran) os os' where "os = sc_os c \<or> ab_new A (sc_os c) = (True, os)" "f os = (r, os')"
      "c' = c\<lparr>sc_open := True, sc_os := os'\<rparr>"
  using assms by (auto simp: sc_with_def split: prod.splits bool.splits if_splits)

lemma arboard_okD:
  assumes "arboard_ok A text_on"
  shows "ab_new A os = (b, os') \<Longrightarrow> text_on os' = text_on os"
    and "ab_get_text A os = (r, os') \<Longrightarrow> text_on os' = text_on os"
    and "ab_get_text A os = (GotText t, os') \<Longrightarrow> text_on os = Some t"
    and "ab_get_text A os = (ContentNotAvailable, os') \<Longrightarrow> text_on os = None"
    and "ab_set_text A t os = (True, os') \<Longrightarrow> text_on os' = Some t"
proof -
  note a = assms [unfolded arboard_ok_def]
  show "ab_new A os = (b, os') \<Longrightarrow> text_on os' = text_on os"
    using a by (auto dest!: conjunct1 spec [of _ os])
  show "ab_get_text A os = (r, os') \<Longrightarrow> text_on os' = text_on os"
    using a by (auto dest!: conjunct2 [THEN conjunct1] spec [of _ os])
  have c: "case fst (ab_get_text A os) of GotText t \<Rightarrow> text_on os = Some t
      | ContentNotAvailable \<Rightarrow> text_on os = None | GetFailed \<Rightarrow> True" using a by blast
  show "ab_get_text A os = (GotText t, os') \<Longrightarrow> text_on os = Some t" using c by simp
  show "ab_get_text A os = (ContentNotAvailable, os') \<Longrightarrow> text_on os = None" using c by simp
  have "fst (ab_set_text A t os) \<longrightarrow> text_on (snd (ab_set_text A t os)) = Some t" using a by blast
  then show "ab_set_text A t os = (True, os') \<Longrightarrow> text_on os' = Some t" by simp
qed

lemma sc_read_with:
  assumes "arboard_ok A text_on" and "sc_with A GetFailed (ab_get_text A) c = (r, c')"
  shows "text_on (sc_os c') = text_on (sc_os c) \<and> (case r of GotText t \<Rightarrow> text_on (sc_os c) = Some t
    | ContentNotAvailable \<Rightarrow> text_on (sc_os c) = None | GetFailed \<Rightarrow> True)"
  using assms(2)
proof (cases rule: sc_with_cases)
  case (refused os)
  then show ?thesis using arboard_okD(1) [OF assms(1)] by auto
next
  case (ran os os')
  then have o: "text_on os = text_on (sc_os c)" using arboard_okD(1) [OF assms(1)] by auto
  show ?thesis using o ran arboard_okD(2-4) [OF assms(1)] by (cases r) auto
qed

lemma sc_set_with:
  assumes "arboard_ok A text_on" and "sc_with A False (ab_set_text A t) c = (True, c')"
  shows "text_on (sc_os c') = Some t"
  using assms(2)
proof (cases rule: sc_with_cases)
  case (ran os os')
  then show ?thesis using arboard_okD(5) [OF assms(1)] by simp
qed simp

lemma system_clipboard_laws:
  assumes "arboard_ok A text_on"
  shows "clipboard_laws (system_clipboard_ops A) (\<lambda>c. text_on (sc_os c)) (text_digest A)"
proof
  fix t :: ustring and c c' :: "'a system_clipboard" and ck d r and u :: unit
  show "text_on (sc_os c') = Some t \<and> ck_digest ck = text_digest A t"
    if "cb_write (system_clipboard_ops A) t c = (Inr ck, c')"
    using that sc_set_with [OF assms, of t c]
    by (auto simp: system_clipboard_ops_def sc_write_def split: prod.splits bool.splits)
  have rd: "text_on (sc_os c') = text_on (sc_os c) \<and> (\<forall>d. r = Inr d \<longrightarrow> d = map_option (text_digest A) (text_on (sc_os c)))"
    if "cb_read_digest (system_clipboard_ops A) c = (r, c')" for r
    using that sc_read_with [OF assms, of c]
    by (fastforce simp: system_clipboard_ops_def sc_read_digest_def split: prod.splits get_text_result.splits)
  show "text_on (sc_os c') = text_on (sc_os c) \<and> d = map_option (text_digest A) (text_on (sc_os c))"
    if "cb_read_digest (system_clipboard_ops A) c = (Inr d, c')" using rd [OF that] by simp
  show "text_on (sc_os c') = text_on (sc_os c)"
    if "cb_read_digest (system_clipboard_ops A) c = (r, c')" using rd [OF that] by simp
  show "text_on (sc_os c') = Some t"
    if "cb_set_text (system_clipboard_ops A) t c = (Inr u, c')"
    using that sc_set_with [OF assms, of t c]
    by (auto simp: system_clipboard_ops_def sc_set_text_def split: prod.splits bool.splits)
qed

text \<open>A clipboard that always works, with a digest that pads the text.\<close>

definition toy_arboard :: "ustring option arboard" where
  "toy_arboard = \<lparr>ab_new = (\<lambda>os. (True, os)), ab_set_text = (\<lambda>t os. (True, Some t)),
     ab_get_text = (\<lambda>os. (case os of Some t \<Rightarrow> GotText t | None \<Rightarrow> ContentNotAvailable, os)),
     sha256 = (\<lambda>b. take 32 (b @ replicate 32 0)), shell_clock = (\<lambda>_. 30)\<rparr>"

lemma toy_arboard_ok: "arboard_ok toy_arboard id"
  by (auto simp: arboard_ok_def toy_arboard_def split: option.split)

text \<open>The adapter is never out of reach when neither \<open>Clipboard::new\<close> nor a read or write fails.\<close>

definition arboard_up :: "'o arboard \<Rightarrow> bool" where
  "arboard_up A \<longleftrightarrow> (\<forall>os. fst (ab_new A os)) \<and> (\<forall>t os. fst (ab_set_text A t os)) \<and>
     (\<forall>os. fst (ab_get_text A os) \<noteq> GetFailed)"

lemma sc_with_up:
  assumes "\<forall>os. fst (ab_new A os)" and "\<forall>os. P (fst (f os))"
  shows "\<exists>r c'. sc_with A failed f c = (r, c') \<and> P r"
proof -
  obtain os where "(if sc_open c then (True, sc_os c) else ab_new A (sc_os c)) = (True, os)"
    using assms(1) by (metis prod.collapse)
  moreover obtain r os' where "f os = (r, os')" by fastforce
  moreover have "P r" using assms(2) calculation(2) by (metis fst_conv)
  ultimately show ?thesis by (simp add: sc_with_def)
qed

lemma system_clipboard_up:
  assumes "arboard_ok A text_on" and "arboard_up A"
  shows "clipboard_up (system_clipboard_ops A) (\<lambda>c. text_on (sc_os c)) (text_digest A)"
proof (intro clipboard_up.intro clipboard_up_axioms.intro)
  show "clipboard_laws (system_clipboard_ops A) (\<lambda>c. text_on (sc_os c)) (text_digest A)"
    by (rule system_clipboard_laws [OF assms(1)])
  have set: "\<exists>c'. sc_with A False (ab_set_text A t) c = (True, c')" for t c
    using sc_with_up [of A "\<lambda>b. b" "ab_set_text A t" False c] assms(2) unfolding arboard_up_def by auto
  have get: "\<exists>r c'. sc_with A GetFailed (ab_get_text A) c = (r, c') \<and> r \<noteq> GetFailed" for c
    using sc_with_up [of A "\<lambda>r. r \<noteq> GetFailed"] assms(2) unfolding arboard_up_def by auto
  show "\<exists>ck c'. cb_write (system_clipboard_ops A) t c = (Inr ck, c')" for t c
    using set [of t c] by (auto simp: system_clipboard_ops_def sc_write_def)
  show "\<exists>d c'. cb_read_digest (system_clipboard_ops A) c = (Inr d, c')" for c
    using get [of c] by (auto simp: system_clipboard_ops_def sc_read_digest_def split: get_text_result.split)
  show "\<exists>c'. cb_set_text (system_clipboard_ops A) t c = (Inr (), c')" for t c
    using set [of t c] by (auto simp: system_clipboard_ops_def sc_set_text_def)
qed

lemma toy_arboard_up: "arboard_up toy_arboard"
  by (simp add: arboard_up_def toy_arboard_def split: option.split)

interpretation toy_clip: clipboard_up "system_clipboard_ops toy_arboard" "\<lambda>c. id (sc_os c)" "text_digest toy_arboard"
  by (rule system_clipboard_up [OF toy_arboard_ok toy_arboard_up])

end
