(* ===== verification/Unlocked.thy ===== *)
theory Unlocked
  imports App Clipboard
begin

text \<open>
  \<open>passman-core\<close>, \<open>unlocked.rs\<close>: the operations of an unlocked session.  A session is the pair of the
  application it borrows and its own fields; an operation is a step on that pair, and one that also
  uses a clipboard a step on the pair and the clipboard's state.  The vault file is read anew by
  every operation that needs it.
\<close>

section \<open>Steps on part of a state\<close>

definition on_fst :: "('s \<Rightarrow> 'r \<times> 's) \<Rightarrow> 's \<times> 't \<Rightarrow> 'r \<times> 's \<times> 't" where
  "on_fst f x = (case f (fst x) of (r, s') \<Rightarrow> (r, s', snd x))"

definition on_snd :: "('t \<Rightarrow> 'r \<times> 't) \<Rightarrow> 's \<times> 't \<Rightarrow> 'r \<times> 's \<times> 't" where
  "on_snd f x = (case f (snd x) of (r, t') \<Rightarrow> (r, fst x, t'))"

text \<open>A step that depends on the session's own fields.\<close>

definition with_session :: "(unlocked_app \<Rightarrow> 's \<times> unlocked_app \<Rightarrow> 'r) \<Rightarrow> 's \<times> unlocked_app \<Rightarrow> 'r" where
  "with_session f x = f (snd x) x"

definition set_session :: "(unlocked_app \<Rightarrow> unlocked_app) \<Rightarrow> 's \<times> unlocked_app \<Rightarrow> unit \<times> 's \<times> unlocked_app" where
  "set_session f = on_snd (\<lambda>ua. ((), f ua))"

definition POST_COPY_SECS :: "64 word" where "POST_COPY_SECS = 30"

datatype reveal_field = Username | Password | Url | Notes

record entry_handle =
  eh_id :: entry_id
  eh_label :: ustring

section \<open>Expiry\<close>

definition session_now :: "('d, 'm) host_scheme \<Rightarrow> 'd app \<times> unlocked_app \<Rightarrow> timestamp \<times> 'd app \<times> unlocked_app" where
  "session_now H = on_fst (clock_now H)"

definition session_now_i64 :: "('d, 'm) host_scheme \<Rightarrow> 'd app \<times> unlocked_app \<Rightarrow> 64 word \<times> 'd app \<times> unlocked_app" where
  "session_now_i64 H x = (case session_now H x of (now, x') \<Rightarrow> (i64_sat now, x'))"

definition is_expired :: "('d, 'm) host_scheme \<Rightarrow> 'd app \<times> unlocked_app \<Rightarrow> bool \<times> 'd app \<times> unlocked_app" where
  "is_expired H x = (case session_now H x of (now, x') \<Rightarrow> (session_expiry (snd x) \<le> now, x'))"

definition ensure_unlocked :: "('d, 'm) host_scheme \<Rightarrow> 'd app \<times> unlocked_app \<Rightarrow>
    (core_error + unit) \<times> 'd app \<times> unlocked_app" where
  "ensure_unlocked H x =
     (case session_now H x of (now, x') \<Rightarrow>
        (if session_expiry (snd x) \<le> now then Inl SessionLocked else Inr (), x'))"

section \<open>Reading\<close>

definition load_vault :: "('d, 'm) host_scheme \<Rightarrow> 'd app \<times> unlocked_app \<Rightarrow>
    (core_error + vault) \<times> 'd app \<times> unlocked_app" where
  "load_vault H = on_fst (st_then (read_vault_file H) (\<lambda>b. st_lift (map_err CVault (vault_from_bytes b))))"

definition list_entries :: "('d, 'm) host_scheme \<Rightarrow> 'd app \<times> unlocked_app \<Rightarrow>
    (core_error + entry_handle list) \<times> 'd app \<times> unlocked_app" where
  "list_entries H =
     st_then (ensure_unlocked H) (\<lambda>_. with_session (\<lambda>ua.
       st_lift (Inr (map (\<lambda>e. \<lparr>eh_id = ie_id e, eh_label = ie_label e\<rparr>) (ua_index ua)))))"

definition session_decrypt :: "('d, 'm) host_scheme \<Rightarrow> entry_id \<Rightarrow> 'd app \<times> unlocked_app \<Rightarrow>
    (core_error + entry_record) \<times> 'd app \<times> unlocked_app" where
  "session_decrypt H i =
     st_then (ensure_unlocked H) (\<lambda>_.
     st_then (load_vault H) (\<lambda>v. with_session (\<lambda>ua.
       st_lift (map_err CVault (decrypt_entry H v (k_master ua) i)))))"

definition with_revealed :: "('d, 'm) host_scheme \<Rightarrow> entry_id \<Rightarrow> (entry_record \<Rightarrow> 'r) \<Rightarrow> 'd app \<times> unlocked_app \<Rightarrow>
    (core_error + 'r) \<times> 'd app \<times> unlocked_app" where
  "with_revealed H i f = st_then (session_decrypt H i) (\<lambda>r. st_lift (Inr (f r)))"

fun select_field :: "entry_record \<Rightarrow> reveal_field \<Rightarrow> secret_string" where
  "select_field r Username = er_username r"
| "select_field r Password = er_password r"
| "select_field r Url = er_url r"
| "select_field r Notes = er_notes r"

section \<open>The clipboard\<close>

definition clamp_session :: "('d, 'm) host_scheme \<Rightarrow> 'd app \<times> unlocked_app \<Rightarrow> unit \<times> 'd app \<times> unlocked_app" where
  "clamp_session H x =
     (case session_now H x of (now, x') \<Rightarrow>
        set_session (\<lambda>ua. ua\<lparr>session_expiry := min (session_expiry ua) (sat_add64 now POST_COPY_SECS)\<rparr>) x')"

definition copy_to_clipboard :: "('d, 'm) host_scheme \<Rightarrow> 'c clipboard \<Rightarrow> entry_id \<Rightarrow> reveal_field \<Rightarrow>
    ('d app \<times> unlocked_app) \<times> 'c \<Rightarrow> (core_error + clipboard_cookie) \<times> ('d app \<times> unlocked_app) \<times> 'c" where
  "copy_to_clipboard H K i field =
     st_then (on_fst (session_decrypt H i)) (\<lambda>r.
     st_then (on_snd (cb_write K (select_field r field))) (\<lambda>cookie.
     st_then (st_do (on_fst (clamp_session H))) (\<lambda>_. st_lift (Inr cookie))))"

definition clear_clipboard_with :: "('d, 'm) host_scheme \<Rightarrow> 'c clipboard \<Rightarrow> clipboard_cookie \<Rightarrow> bool \<Rightarrow>
    ('d app \<times> unlocked_app) \<times> 'c \<Rightarrow> clear_outcome \<times> ('d app \<times> unlocked_app) \<times> 'c" where
  "clear_clipboard_with H K cookie fact_overwrite = (\<lambda>((s, ua), c).
     (case clear_clipboard_impl H K cookie fact_overwrite (a_rng s, c) of
        (out, g', c') \<Rightarrow> (out, (s\<lparr>a_rng := g'\<rparr>, ua), c')))"

definition clear_clipboard :: "('d, 'm) host_scheme \<Rightarrow> 'c clipboard \<Rightarrow> clipboard_cookie \<Rightarrow>
    ('d app \<times> unlocked_app) \<times> 'c \<Rightarrow> clear_outcome \<times> ('d app \<times> unlocked_app) \<times> 'c" where
  "clear_clipboard H K cookie = clear_clipboard_with H K cookie True"

section \<open>Mutation\<close>

definition refresh_index :: "('d, 'm) host_scheme \<Rightarrow> vault \<Rightarrow> 'd app \<times> unlocked_app \<Rightarrow>
    (core_error + unit) \<times> 'd app \<times> unlocked_app" where
  "refresh_index H v = with_session (\<lambda>ua.
     st_then (st_lift (map_err CVault (open_index H v (k_master ua)))) (\<lambda>ix.
       st_do (set_session (\<lambda>ua. ua\<lparr>ua_index := ix\<rparr>))))"

definition persist_and_refresh :: "('d, 'm) host_scheme \<Rightarrow> vault \<Rightarrow> 'd app \<times> unlocked_app \<Rightarrow>
    (core_error + unit) \<times> 'd app \<times> unlocked_app" where
  "persist_and_refresh H v = st_then (on_fst (write_vault_file H (vault_to_bytes v))) (\<lambda>_. refresh_index H v)"

definition upsert_entry :: "('d, 'm) host_scheme \<Rightarrow> entry_id \<Rightarrow> ustring \<Rightarrow> entry_policy \<Rightarrow> entry_record \<Rightarrow>
    'd app \<times> unlocked_app \<Rightarrow> (core_error + unit) \<times> 'd app \<times> unlocked_app" where
  "upsert_entry H i label policy r =
     st_then (load_vault H) (\<lambda>v. with_session (\<lambda>ua.
     st_then (on_fst (put_entry H (k_master ua) i label policy r v)) (\<lambda>v'. persist_and_refresh H v')))"

definition add_entry :: "('d, 'm) host_scheme \<Rightarrow> ustring \<Rightarrow> entry_policy \<Rightarrow> entry_record \<Rightarrow>
    'd app \<times> unlocked_app \<Rightarrow> (core_error + entry_id) \<times> 'd app \<times> unlocked_app" where
  "add_entry H label policy r =
     st_then (ensure_unlocked H) (\<lambda>_.
     st_then (st_do (on_fst (on_rng (entry_id_generate H)))) (\<lambda>i.
     st_then (upsert_entry H i label policy r) (\<lambda>_. st_lift (Inr i))))"

definition update_entry :: "('d, 'm) host_scheme \<Rightarrow> entry_id \<Rightarrow> ustring \<Rightarrow> entry_policy \<Rightarrow> entry_record \<Rightarrow>
    'd app \<times> unlocked_app \<Rightarrow> (core_error + unit) \<times> 'd app \<times> unlocked_app" where
  "update_entry H i label policy r =
     st_then (ensure_unlocked H) (\<lambda>_. with_session (\<lambda>ua.
       if index_get (ua_index ua) i = None then st_lift (Inl (CVault EntryNotFound))
       else upsert_entry H i label policy r))"

text \<open>\<open>vault.remove_entry(..)?\<close> on a vault held in a local variable.\<close>

definition drop_entry :: "('d, 'm) host_scheme \<Rightarrow> bytes \<Rightarrow> entry_id \<Rightarrow> vault \<Rightarrow> 'd app \<Rightarrow> (core_error + vault) \<times> 'd app" where
  "drop_entry H km i v = on_rng (\<lambda>g.
     (case Vault.remove_entry H km i (v, g) of
        (x, v', g') \<Rightarrow> (map_err CVault (and_then x (\<lambda>_. Inr v')), g')))"

definition session_remove :: "('d, 'm) host_scheme \<Rightarrow> entry_id \<Rightarrow> 'd app \<times> unlocked_app \<Rightarrow>
    (core_error + unit) \<times> 'd app \<times> unlocked_app" where
  "session_remove H i =
     st_then (ensure_unlocked H) (\<lambda>_.
     st_then (load_vault H) (\<lambda>v. with_session (\<lambda>ua.
     st_then (on_fst (drop_entry H (k_master ua) i v)) (\<lambda>v'. persist_and_refresh H v'))))"

section \<open>Policy and verification\<close>

text \<open>\<open>generate\<close> may draw forever, so the operation is partial.\<close>

definition generate_password :: "('d, 'm) host_scheme \<Rightarrow> generation_request \<Rightarrow> 'd app \<times> unlocked_app \<Rightarrow>
    ((core_error + secret_string) \<times> 'd app \<times> unlocked_app) option" where
  "generate_password H req x =
     (case ensure_unlocked H x of
        (Inl e, x') \<Rightarrow> Some (Inl e, x')
      | (Inr _, (s, ua)) \<Rightarrow> Option.bind (generate H req (a_rng s)) (\<lambda>(r, g').
          Some (map_err CPolicy r, s\<lparr>a_rng := g'\<rparr>, ua)))"

definition estimate_master_strength :: "('d, 'm) host_scheme \<Rightarrow> ustring \<Rightarrow> ustring list \<Rightarrow> 'd app \<times> unlocked_app \<Rightarrow>
    (core_error + master_entropy) \<times> 'd app \<times> unlocked_app" where
  "estimate_master_strength H password user_inputs =
     st_then (ensure_unlocked H) (\<lambda>_.
     st_then (load_vault H) (\<lambda>v. st_lift (Inr (estimate_master (strength H) password user_inputs (kdf_params_of v)))))"

definition verify_totp_code :: "('d, 'm) host_scheme \<Rightarrow> ustring \<Rightarrow> 'd app \<times> unlocked_app \<Rightarrow> bool \<times> 'd app \<times> unlocked_app" where
  "verify_totp_code H code = with_session (\<lambda>ua x.
     (case on_fst (verify_totp H (ua_totp_seed ua) code) x of (r, x') \<Rightarrow> (is_ok r, x')))"

section \<open>Changing the master password\<close>

text \<open>Decrypt every row under the old key and put it into the new vault.\<close>

fun copy_entries :: "('d, 'm) host_scheme \<Rightarrow> vault \<Rightarrow> bytes \<Rightarrow> bytes \<Rightarrow> index_entry list \<Rightarrow> vault \<Rightarrow> 'd app \<Rightarrow>
    (core_error + vault) \<times> 'd app" where
  "copy_entries H source old new [] v = st_lift (Inr v)"
| "copy_entries H source old new (row # rows) v =
     st_then (st_lift (map_err CVault (decrypt_entry H source old (ie_id row)))) (\<lambda>r.
     st_then (put_entry H new (ie_id row) (ie_label row) (ie_policy row) r v) (\<lambda>v'.
       copy_entries H source old new rows v'))"

definition reencrypt_vault :: "('d, 'm) host_scheme \<Rightarrow> vault \<Rightarrow> bytes \<Rightarrow> kdf_params \<Rightarrow> bytes \<Rightarrow>
    'd app \<times> unlocked_app \<Rightarrow> (core_error + vault) \<times> 'd app \<times> unlocked_app" where
  "reencrypt_vault H source new_salt kdf new_master =
     st_then (st_do (session_now_i64 H)) (\<lambda>now. with_session (\<lambda>ua.
     st_then (on_fst (st_err CVault (on_rng (vault_create H kdf new_salt (k_hsm_wrap_blob source)
         (totp_seed_wrap_blob source) ((vmetadata source)\<lparr>last_password_change := now\<rparr>) new_master)))) (\<lambda>v0.
     on_fst (copy_entries H source (k_master ua) new_master (ua_index ua) v0))))"

text \<open>Everything before the write: check the old password, derive the new key, rebuild the vault.\<close>

definition change_rebuild :: "('d, 'm) host_scheme \<Rightarrow> secret_string \<Rightarrow> secret_string \<Rightarrow> kdf_params \<Rightarrow>
    prompter \<Rightarrow> 'd app \<times> unlocked_app \<Rightarrow> (core_error + bool \<times> bytes \<times> vault) \<times> 'd app \<times> unlocked_app" where
  "change_rebuild H old new kdf p =
     st_then (ensure_unlocked H) (\<lambda>_.
     st_then (load_vault H) (\<lambda>v.
     st_then (on_fst (unwrap_slot_core H VaultKey (k_hsm_wrap_blob v) p)) (\<lambda>k_hsm.
     st_then (on_fst (derive_master_from_bytes H old (vault_salt v) (kdf_params_of v) k_hsm)) (\<lambda>old_master.
     st_then (st_lift (map_err CVault (verify_probe H v old_master))) (\<lambda>_.
     st_then (st_do (on_fst (on_rng (random_secret H KEY_LEN)))) (\<lambda>new_salt.
     st_then (on_fst (derive_master_from_bytes H new new_salt kdf k_hsm)) (\<lambda>new_master.
     st_then (reencrypt_vault H v new_salt kdf new_master) (\<lambda>rebuilt.
       st_lift (Inr (last_export_at (vmetadata v) \<noteq> None, new_master, rebuilt))))))))))"

definition change_master_password :: "('d, 'm) host_scheme \<Rightarrow> secret_string \<Rightarrow> secret_string \<Rightarrow> kdf_params \<Rightarrow>
    prompter \<Rightarrow> 'd app \<times> unlocked_app \<Rightarrow> (core_error + bool) \<times> 'd app \<times> unlocked_app" where
  "change_master_password H old new kdf p =
     st_then (change_rebuild H old new kdf p) (\<lambda>(existing_export, new_master, rebuilt).
     st_then (on_fst (write_vault_file H (vault_to_bytes rebuilt))) (\<lambda>_.
     st_then (st_do (set_session (\<lambda>ua. ua\<lparr>k_master := new_master\<rparr>))) (\<lambda>_.
     st_then (refresh_index H rebuilt) (\<lambda>_.
       st_lift (Inr existing_export)))))"

section \<open>Recovery export\<close>

definition recovery_entry_from :: "('d, 'm) host_scheme \<Rightarrow> index_entry \<Rightarrow> entry_record \<Rightarrow> core_error + recovery_entry" where
  "recovery_entry_from H row r =
     and_then (ok_or (CVault (MalformedRecord ''failed to serialize EntryPolicy for export'')) (policy_ser H (ie_policy row)))
       (\<lambda>policy_bytes. Inr \<lparr>re_id = id_bytes (ie_id row), re_label = ie_label row, re_username = er_username r,
          re_password = er_password r, re_url = er_url r, re_notes = er_notes r, re_policy = policy_bytes\<rparr>)"

fun export_entries :: "('d, 'm) host_scheme \<Rightarrow> vault \<Rightarrow> bytes \<Rightarrow> index_entry list \<Rightarrow> core_error + recovery_entry list" where
  "export_entries H v km [] = Inr []"
| "export_entries H v km (row # rows) =
     and_then (map_err CVault (decrypt_entry H v km (ie_id row))) (\<lambda>r.
     and_then (recovery_entry_from H row r) (\<lambda>e.
     and_then (export_entries H v km rows) (\<lambda>es. Inr (e # es))))"

text \<open>The fresh re-authentication of an export: both slots, a code, and the password's key.\<close>

definition export_reauth :: "('d, 'm) host_scheme \<Rightarrow> vault \<Rightarrow> secret_string \<Rightarrow> ustring \<Rightarrow> prompter \<Rightarrow> 'd app \<Rightarrow>
    (core_error + bytes \<times> bytes) \<times> 'd app" where
  "export_reauth H v master code p =
     st_then (unwrap_slot_core H VaultKey (k_hsm_wrap_blob v) p) (\<lambda>k_hsm.
     st_then (unwrap_slot_core H TotpSeed (totp_seed_wrap_blob v) p) (\<lambda>seed.
     st_then (st_err (\<lambda>_. CVault (VCrypto AeadAuth)) (verify_totp H seed code)) (\<lambda>_.
     st_then (derive_master_from_bytes H master (vault_salt v) (kdf_params_of v) k_hsm) (\<lambda>reauth_master.
     st_then (st_lift (map_err CVault (verify_probe H v reauth_master))) (\<lambda>_.
       st_lift (Inr (reauth_master, seed)))))))"

text \<open>Everything before the vault is touched: gate, re-authentication, payload, encryption.\<close>

definition export_file :: "('d, 'm) host_scheme \<Rightarrow> secret_string \<Rightarrow> ustring \<Rightarrow> recovery_preset \<Rightarrow> prompter \<Rightarrow>
    'd app \<times> unlocked_app \<Rightarrow> (core_error + vault \<times> bytes) \<times> 'd app \<times> unlocked_app" where
  "export_file H master code preset p =
     st_then (ensure_unlocked H) (\<lambda>_.
     st_then (load_vault H) (\<lambda>v.
     st_then (st_lift (if allows_export (classify (me_bits (estimate_master (strength H) master [] (kdf_params_of v)))) then Inr ()
         else Inl WeakPasswordForExport)) (\<lambda>_.
     st_then (on_fst (export_reauth H v master code p)) (\<lambda>(reauth_master, seed).
     st_then (st_lift (ok_or (CHsm (MalformedBlob ''unwrapped TOTP seed is not 32 bytes'')) (into_key seed))) (\<lambda>seed_arr.
     with_session (\<lambda>ua.
     st_then (st_lift (export_entries H v reauth_master (ua_index ua))) (\<lambda>es.
     st_then (st_do (on_fst (available_memory_kib H))) (\<lambda>avail.
     st_then (on_fst (st_err CRecovery (on_rng (export_within_memory H
         \<lparr>totp_seed = seed_arr, original_vault_kdf = kdf_params_of v, entries = es\<rparr>
         master (preset_params preset) avail)))) (\<lambda>file.
       st_lift (Inr (v, file)))))))))))"

definition export_recovery :: "('d, 'm) host_scheme \<Rightarrow> secret_string \<Rightarrow> ustring \<Rightarrow> recovery_preset \<Rightarrow> prompter \<Rightarrow>
    'd app \<times> unlocked_app \<Rightarrow> (core_error + bytes) \<times> 'd app \<times> unlocked_app" where
  "export_recovery H master code preset p =
     st_then (export_file H master code preset p) (\<lambda>(v, file).
     st_then (st_do (session_now_i64 H)) (\<lambda>now.
     st_then (on_fst (write_vault_file H (vault_to_bytes
         (set_metadata ((vmetadata v)\<lparr>last_export_at := Some now\<rparr>) v)))) (\<lambda>_.
       st_lift (Inr file))))"

end
