(* ===== verification/AppProps.thy ===== *)
theory AppProps
  imports App
begin

text \<open>
  What \<open>unlock\<close> guarantees: the evidence behind every session it grants, the accounting of failures,
  its effect on the disk, the lockout gate; and that a vault just created unlocks.
\<close>

section \<open>Steps that leave the disk and the lockout alone\<close>

definition quiet :: "'d app \<Rightarrow> 'd app \<Rightarrow> bool" where
  "quiet s s' \<longleftrightarrow> s' = s\<lparr>a_device := a_device s', a_verifier := a_verifier s', a_tick := a_tick s'\<rparr>"

lemma quietI [simp]:
  "quiet s s"
  "quiet s (s\<lparr>a_device := d\<rparr>)"
  "quiet s (s\<lparr>a_tick := t\<rparr>)"
  "quiet s (s\<lparr>a_tick := t, a_verifier := w\<rparr>)"
  by (simp_all add: quiet_def)

lemma quiet_preorder: "preorder quiet"
proof -
  have "quiet a c" if "quiet a b" "quiet b c" for a b c :: "'a app"
  proof -
    from that(1) obtain d w t where b: "b = a\<lparr>a_device := d, a_verifier := w, a_tick := t\<rparr>"
      unfolding quiet_def by blast
    from that(2) obtain d' w' t' where "c = b\<lparr>a_device := d', a_verifier := w', a_tick := t'\<rparr>"
      unfolding quiet_def by blast
    then show ?thesis by (simp add: b quiet_def)
  qed
  then show ?thesis by (auto simp: preorder_def)
qed

lemma quiet_fields:
  assumes "quiet s s'"
  shows "a_path s' = a_path s \<and> a_fs s' = a_fs s \<and> a_rng s' = a_rng s \<and>
     a_lockout_mem s' = a_lockout_mem s \<and> a_totp_config s' = a_totp_config s \<and>
     a_allow_software_hsm s' = a_allow_software_hsm s \<and> a_lock s' = a_lock s"
proof -
  obtain d w t where "s' = s\<lparr>a_device := d, a_verifier := w, a_tick := t\<rparr>"
    using assms unfolding quiet_def by blast
  then show ?thesis by simp
qed

lemma keeps_quiet:
  "keeps quiet (clock_now H)"
  "keeps quiet (available_memory_kib H)"
  "keeps quiet (derive_master_from_bytes H pw salt P k)"
  "keeps quiet (unwrap_bytes H slot b p)"
  "keeps quiet (unwrap_slot H slot b p)"
  "keeps quiet (unwrap_slot_core H slot b p)"
  "keeps quiet (verify_totp H seed code)"
proof -
  note q = quiet_preorder
  show c: "keeps quiet (clock_now H)" by (simp add: keeps_def clock_now_def)
  show m: "keeps quiet (available_memory_kib H)" by (simp add: keeps_def available_memory_kib_def)
  show "keeps quiet (derive_master_from_bytes H pw salt P k)"
    unfolding derive_master_from_bytes_def derive_master_def
    by (intro keeps_then [OF q] keeps_lift [OF q] keeps_do m)
  show u: "keeps quiet (unwrap_bytes H slot b p)"
    by (auto simp: keeps_def unwrap_bytes_def split: sum.splits prod.splits)
  show "keeps quiet (unwrap_slot H slot b p)" "keeps quiet (unwrap_slot_core H slot b p)"
    unfolding unwrap_slot_def unwrap_slot_core_def by (intro keeps_err u)+
  show "keeps quiet (verify_totp H seed code)"
    by (auto simp: keeps_def verify_totp_def clock_now_def Let_def split: prod.splits)
qed

lemma unwrap_bytes_eq:
  "unwrap_bytes H slot b p s = (r, s') \<Longrightarrow> s' = s\<lparr>a_device := a_device s'\<rparr>"
  by (auto simp: unwrap_bytes_def split: sum.splits prod.splits)

lemma unwrap_slot_eq:
  "unwrap_slot H slot b p s = (r, s') \<Longrightarrow> s' = s\<lparr>a_device := a_device s'\<rparr>"
  by (auto simp: unwrap_slot_def st_err_def dest: unwrap_bytes_eq split: prod.splits)

lemma derive_master_eq:
  "derive_master_from_bytes H pw salt P k s = (r, s') \<Longrightarrow>
   s' = s \<and> \<not> is_ok r \<or> s' = s\<lparr>a_tick := a_tick s + 1\<rparr> \<and> length k = KEY_LEN \<and>
     r = master_of H pw salt P k (fst (available_memory_kib H s))"
  by (auto simp: derive_master_from_bytes_def derive_master_def into_key_def st_then_def st_lift_def
      st_do_def available_memory_kib_def split: if_splits)

lemma verify_totp_eq:
  "verify_totp H seed code s = (r, s') \<Longrightarrow> s' = s\<lparr>a_verifier := a_verifier s', a_tick := a_tick s + 1\<rparr>"
  by (auto simp: verify_totp_def clock_now_def Let_def split: prod.splits)

section \<open>The stages of unlock\<close>

text \<open>The verifier a code is checked with.\<close>

definition current_verifier :: "'d app \<Rightarrow> totp_verifier" where
  "current_verifier s =
     (case a_verifier s of None \<Rightarrow> totp_verifier_new (a_totp_config s) | Some v \<Rightarrow> v)"

lemma verify_totp_result:
  "verify_totp H seed code s =
     (map_err (\<lambda>_. ()) (fst (totp_verify (hmac_tag H) seed code (clock_at H (a_tick s)) (current_verifier s))),
      s\<lparr>a_tick := a_tick s + 1, a_verifier :=
        Some (snd (totp_verify (hmac_tag H) seed code (clock_at H (a_tick s)) (current_verifier s)))\<rparr>)"
  by (cases "a_verifier s") (simp_all add: verify_totp_def clock_now_def current_verifier_def split_def Let_def)

text \<open>The advisory state an attempt starts from.\<close>

definition merged_state :: "vault \<Rightarrow> 'd app \<Rightarrow> lockout_state" where
  "merged_state v s = merged_lockout (lockout_new (rl_counter v) (rl_last_failure v)) (a_lockout_mem s)"

lemma merged_state_frame [simp]:
  "merged_state v (s\<lparr>a_tick := t\<rparr>) = merged_state v s"
  "merged_state v (s\<lparr>a_device := d\<rparr>) = merged_state v s"
  by (simp_all add: merged_state_def)

text \<open>Reading and parsing the vault file with the environment's next answer.\<close>

definition vault_on_disk :: "('d, 'm) host_scheme \<Rightarrow> 'd app \<Rightarrow> core_error + vault" where
  "vault_on_disk H s = and_then (storage_read (read_at H (a_tick s)) (a_path s) (a_fs s))
     (\<lambda>b. map_err CVault (vault_from_bytes b))"

text \<open>The whole first stage in one equation.\<close>

definition gate_decision :: "('d, 'm) host_scheme \<Rightarrow> vault \<Rightarrow> 'd app \<Rightarrow> unlock_error + gate" where
  "gate_decision H v s =
     (let st = merged_state v s; now = clock_at H (a_tick s + 1) in
      and_then (native_lockout H st now s) (\<lambda>_.
        case remaining st now of Some d \<Rightarrow> Inl (LockedOut d) | None \<Rightarrow> Inr (Gate v st now)))"

lemma native_lockout_frame:
  "a_device s = a_device s' \<Longrightarrow> native_lockout H st now s = native_lockout H st now s'"
  by (simp add: native_lockout_def)

lemma unlock_gate_eval:
  "unlock_gate H s =
     (case vault_on_disk H s of
        Inl e \<Rightarrow> (Inl (MalformedVault e), s\<lparr>a_tick := a_tick s + 1\<rparr>)
      | Inr v \<Rightarrow>
          if \<not> within_limits (kdf_params_of v)
          then (Inl (MalformedVault (CCrypto (Kdf ''vault KDF parameters are outside the permitted range''))),
                s\<lparr>a_tick := a_tick s + 1\<rparr>)
          else (gate_decision H v s, s\<lparr>a_lockout_mem := merged_state v s, a_tick := a_tick s + 2\<rparr>))"
proof (cases "storage_read (read_at H (a_tick s)) (a_path s) (a_fs s)")
  case (Inl e)
  then show ?thesis by (simp add: unlock_gate_def vault_on_disk_def read_vault_file_def st_then_def st_err_def)
next
  case (Inr b)
  note r = this
  show ?thesis
  proof (cases "vault_from_bytes b")
    case (Inl e)
    with r show ?thesis
      by (simp add: unlock_gate_def vault_on_disk_def read_vault_file_def st_then_def st_err_def st_lift_def)
  next
    case (Inr v)
    let ?s = "s\<lparr>a_tick := Suc (Suc (a_tick s)), a_lockout_mem := merged_state v s\<rparr>"
    have n: "native_lockout H (merged_state v s) (clock_at H (Suc (a_tick s))) ?s =
        native_lockout H (merged_state v s) (clock_at H (Suc (a_tick s))) s"
      by (rule native_lockout_frame) simp
    from r Inr n show ?thesis
      by (cases "native_lockout H (merged_state v s) (clock_at H (Suc (a_tick s))) s")
        (simp_all add: unlock_gate_def vault_on_disk_def read_vault_file_def st_then_def st_err_def st_lift_def
          st_do_def clock_now_def merge_lockout_def merged_state_def [symmetric] gate_decision_def Let_def split: option.split)
  qed
qed

lemma native_lockout_error: "native_lockout H st now t = Inl x \<Longrightarrow> \<exists>d. x = LockedOut d"
  by (auto simp: native_lockout_def split: sum.splits hsm_lockout_status.splits)

lemma gate_decision_Inr:
  "gate_decision H v s = Inr gt \<Longrightarrow>
   gt = Gate v (merged_state v s) (clock_at H (a_tick s + 1)) \<and>
   remaining (merged_state v s) (clock_at H (a_tick s + 1)) = None"
  by (auto simp: gate_decision_def Let_def and_then_Inr_iff split: option.splits)

lemma gate_decision_Inl: "gate_decision H v s = Inl e \<Longrightarrow> \<exists>d. e = LockedOut d"
  by (auto simp: gate_decision_def Let_def and_then_Inl_iff dest: native_lockout_error split: option.splits)

definition unwrapped :: "('d, 'm) host_scheme \<Rightarrow> hsm_slot \<Rightarrow> bytes \<Rightarrow> prompter \<Rightarrow> 'd \<Rightarrow> (hsm_error + bytes) \<times> 'd" where
  "unwrapped H slot b p d = (case blob_from_bytes b of
     Inl e \<Rightarrow> (Inl e, d) | Inr blob \<Rightarrow> unwrap (store H) slot blob p d)"

lemma unwrap_bytes_eval:
  "unwrap_bytes H slot b p s = (fst (unwrapped H slot b p (a_device s)),
     s\<lparr>a_device := snd (unwrapped H slot b p (a_device s))\<rparr>)"
  by (simp add: unwrap_bytes_def unwrapped_def split: sum.splits prod.splits)

lemma unwrap_slot_eval:
  "unwrap_slot H slot b p s = (map_err map_hsm_unlock (fst (unwrapped H slot b p (a_device s))),
     s\<lparr>a_device := snd (unwrapped H slot b p (a_device s))\<rparr>)"
  by (simp add: unwrap_slot_def st_err_def unwrap_bytes_eval)

text \<open>The second stage with its combinators unfolded.\<close>

lemma unlock_factors_eval:
  "unlock_factors H pw code p gt s =
     (case unwrapped H VaultKey (k_hsm_wrap_blob (gate_vault gt)) p (a_device s) of
        (Inl e, d1) \<Rightarrow> (Inl (map_hsm_unlock e), s\<lparr>a_device := d1\<rparr>)
      | (Inr k, d1) \<Rightarrow> (case unwrapped H TotpSeed (totp_seed_wrap_blob (gate_vault gt)) p d1 of
        (Inl e, d2) \<Rightarrow> (Inl (map_hsm_unlock e), s\<lparr>a_device := d2\<rparr>)
      | (Inr seed, d2) \<Rightarrow> (case verify_totp H seed code (s\<lparr>a_device := d2\<rparr>) of (totp, s2) \<Rightarrow>
          if \<not> is_ok totp
          then (Inl BadCredentials, snd (record_failure H (gate_vault gt) (gate_state gt) (gate_now gt) s2))
          else (case derive_master_from_bytes H pw (vault_salt (gate_vault gt)) (kdf_params_of (gate_vault gt)) k s2 of
            (Inl _, s3) \<Rightarrow> (Inl BadCredentials, s3)
          | (Inr km, s3) \<Rightarrow>
              if \<not> is_ok (verify_probe H (gate_vault gt) km)
              then (Inl BadCredentials, snd (record_failure H (gate_vault gt) (gate_state gt) (gate_now gt) s3))
              else (Inr (km, seed), s3)))))"
proof -
  let ?v = "gate_vault gt"
  obtain r1 d1 where u1: "unwrapped H VaultKey (k_hsm_wrap_blob ?v) p (a_device s) = (r1, d1)" by fastforce
  obtain r2 d2 where u2: "unwrapped H TotpSeed (totp_seed_wrap_blob ?v) p d1 = (r2, d2)" by fastforce
  note d = unlock_factors_def Let_def st_then_def unwrap_slot_eval
  show ?thesis
  proof (cases r1)
    case (Inl e)
    then show ?thesis by (simp add: d u1)
  next
    case (Inr k)
    note r1 = this
    show ?thesis
    proof (cases r2)
      case (Inl e)
      then show ?thesis by (simp add: d u1 u2 r1)
    next
      case (Inr seed)
      obtain t s2 where v: "verify_totp H seed code (s\<lparr>a_device := d2\<rparr>) = (t, s2)" by fastforce
      obtain m s3 where m: "derive_master_from_bytes H pw (vault_salt ?v) (kdf_params_of ?v) k s2 = (m, s3)"
        by fastforce
      show ?thesis
        using Inr
        by (cases m; cases "is_ok t")
          (simp_all add: d u1 u2 r1 v m st_do_def reject_unless_def st_lift_def st_err_def split_def)
    qed
  qed
qed

lemma unlock_factors_Inr:
  assumes "unlock_factors H pw code p gt s = (Inr (km, seed), s')"
  obtains k d1 d2 s2 where
    "unwrapped H VaultKey (k_hsm_wrap_blob (gate_vault gt)) p (a_device s) = (Inr k, d1)"
    "unwrapped H TotpSeed (totp_seed_wrap_blob (gate_vault gt)) p d1 = (Inr seed, d2)"
    "verify_totp H seed code (s\<lparr>a_device := d2\<rparr>) = (Inr (), s2)"
    "derive_master_from_bytes H pw (vault_salt (gate_vault gt)) (kdf_params_of (gate_vault gt)) k s2 = (Inr km, s')"
    "verify_probe H (gate_vault gt) km = Inr ()"
  using assms unfolding unlock_factors_eval
  by (auto simp: is_ok_iff split: prod.splits sum.splits if_splits)

lemma unlock_factors_quiet:
  assumes "unlock_factors H pw code p gt s = (Inr x, s')"
  shows "quiet s s'"
proof -
  obtain km seed where x: "x = (km, seed)" by (cases x)
  show ?thesis
  proof (rule unlock_factors_Inr [OF assms [unfolded x]])
    fix k d1 d2 s2
    assume v: "verify_totp H seed code (s\<lparr>a_device := d2\<rparr>) = (Inr (), s2)"
      and d: "derive_master_from_bytes H pw (vault_salt (gate_vault gt)) (kdf_params_of (gate_vault gt)) k s2 = (Inr km, s')"
    show "quiet s s'"
      using quiet_preorder keepsD [OF keeps_quiet(7) v] keepsD [OF keeps_quiet(3) d]
      unfolding preorder_def by (metis quietI(2))
  qed
qed

text \<open>How a rejection in the second stage came about.\<close>

lemma unlock_factors_Inl:
  assumes "unlock_factors H pw code p gt s = (Inl e, s')"
  shows "(quiet s s' \<and> (\<exists>x. e = map_hsm_unlock x)) \<or>
    (e = BadCredentials \<and> (\<exists>s2. quiet s s2 \<and>
      s' = snd (record_failure H (gate_vault gt) (gate_state gt) (gate_now gt) s2))) \<or>
    (e = BadCredentials \<and> quiet s s' \<and> (\<exists>k s2 x.
      unwrapped H VaultKey (k_hsm_wrap_blob (gate_vault gt)) p (a_device s) = (Inr k, x) \<and>
      \<not> is_ok (fst (derive_master_from_bytes H pw (vault_salt (gate_vault gt)) (kdf_params_of (gate_vault gt)) k s2))))"
proof -
  have t: "quiet s a \<Longrightarrow> quiet a b \<Longrightarrow> quiet s b" for a b
    using quiet_preorder unfolding preorder_def by blast
  have v: "verify_totp H seed code (s\<lparr>a_device := d\<rparr>) = (r, s2) \<Longrightarrow> quiet s s2" for seed d r s2
    by (rule t [OF quietI(2) keepsD [OF keeps_quiet(7)]])
  have m: "derive_master_from_bytes H pw salt P k a = (r, b) \<Longrightarrow> quiet s a \<Longrightarrow> quiet s b" for salt P k a r b
    by (rule t [OF _ keepsD [OF keeps_quiet(3)]])
  have q: "quiet s (s\<lparr>a_device := d\<rparr>)" for d by simp
  show ?thesis
    using assms unfolding unlock_factors_eval
    by (auto split: prod.splits sum.splits if_splits intro: q dest: v m) (metis v m fst_conv is_ok_simps)+
qed

section \<open>Writing the vault file\<close>

lemma write_vault_file_frame:
  "write_vault_file H b s = (r, s') \<Longrightarrow>
   a_path s' = a_path s \<and> a_lock s' = a_lock s \<and> a_allow_software_hsm s' = a_allow_software_hsm s \<and>
   a_totp_config s' = a_totp_config s \<and> a_verifier s' = a_verifier s \<and>
   a_lockout_mem s' = a_lockout_mem s \<and> a_device s' = a_device s \<and> a_tick s' = a_tick s + 1"
  by (auto simp: write_vault_file_def split: prod.splits)

lemma write_vault_file_path:
  assumes "write_vault_file H b s = (r, s')"
  shows "a_fs s' (a_path s) =
    (if is_ok r then Some \<lparr>f_content = b, f_mode = OWNER_ONLY\<rparr> else a_fs s (a_path s))"
proof -
  obtain fs' g' where
    w: "atomic_write H (write_at H (a_tick s)) (process_id H) (a_path s) b (a_fs s, a_rng s) = (r, fs', g')"
    and s': "s' = s\<lparr>a_fs := fs', a_rng := g', a_tick := a_tick s + 1\<rparr>"
    using assms by (auto simp: write_vault_file_def split: prod.splits)
  show ?thesis using atomic_write_path [OF w] by (simp add: s')
qed

definition temp_of :: "('d, 'm) host_scheme \<Rightarrow> 'd app \<Rightarrow> path" where
  "temp_of H s = fst (temp_sibling H (process_id H) (a_path s) (a_rng s))"

lemma write_vault_file_other:
  assumes "write_vault_file H b s = (r, s')" and "q \<noteq> a_path s" and "q \<noteq> temp_of H s"
  shows "a_fs s' q = a_fs s q"
proof -
  obtain fs' g' where
    w: "atomic_write H (write_at H (a_tick s)) (process_id H) (a_path s) b (a_fs s, a_rng s) = (r, fs', g')"
    and s': "s' = s\<lparr>a_fs := fs', a_rng := g', a_tick := a_tick s + 1\<rparr>"
    using assms(1) by (auto simp: write_vault_file_def split: prod.splits)
  have "fs' q = a_fs s q"
  proof (cases r)
    case (Inl e)
    then show ?thesis using atomic_write_Inl [of H _ _ _ b "a_fs s" "a_rng s"] w assms(3) by (simp add: temp_of_def)
  next
    case (Inr u)
    then show ?thesis using atomic_write_Inr [OF w [unfolded Inr]] assms(2) by simp
  qed
  then show ?thesis by (simp add: s')
qed

text \<open>The disk after an attempt: as before, or the vault with other rate-limit fields.\<close>

definition rate_limit_only :: "('d, 'm) host_scheme \<Rightarrow> vault \<Rightarrow> 'd app \<Rightarrow> 'd app \<Rightarrow> bool" where
  "rate_limit_only H v s s' \<longleftrightarrow>
     (a_fs s' (a_path s) = a_fs s (a_path s) \<or>
      (\<exists>c t. a_fs s' (a_path s) =
         Some \<lparr>f_content = vault_to_bytes (set_rate_limit c t v), f_mode = OWNER_ONLY\<rparr>)) \<and>
     (\<forall>q. q \<noteq> a_path s \<longrightarrow> q \<noteq> temp_of H s \<longrightarrow> a_fs s' q = a_fs s q)"

lemma rate_limit_only_same:
  "a_fs s' = a_fs s \<Longrightarrow> rate_limit_only H v s s'"
  by (simp add: rate_limit_only_def)

lemma rate_limit_only_write:
  assumes "write_vault_file H (vault_to_bytes (set_rate_limit c t v)) s1 = (r, s2)"
    and "a_fs s1 = a_fs s" "a_path s1 = a_path s" "a_rng s1 = a_rng s" and "a_fs s' = a_fs s2"
  shows "rate_limit_only H v s s'"
  using write_vault_file_path [OF assms(1)] write_vault_file_other [OF assms(1)] assms(2-5)
  by (auto simp: rate_limit_only_def temp_of_def)

lemma record_failure_effect:
  assumes "record_failure H v st now s1 = (u, s')" and "quiet s s1"
  shows "a_lockout_mem s' = after_failure st now \<and> rate_limit_only H v s s'"
proof -
  let ?b = "vault_to_bytes (set_rate_limit (lk_counter (after_failure st now)) (lk_last_failure (after_failure st now)) v)"
  obtain r s2 where w: "write_vault_file H ?b (s1\<lparr>a_lockout_mem := after_failure st now\<rparr>) = (r, s2)" by fastforce
  then have s': "s' = s2" using assms(1) by (simp add: record_failure_def Let_def)
  have "rate_limit_only H v s s'"
    using rate_limit_only_write [OF w] quiet_fields [OF assms(2)] s' by simp
  then show ?thesis using write_vault_file_frame [OF w] s' by simp
qed

lemma unlock_factors_account:
  assumes "unlock_factors H pw code p gt s = (Inl e, s')"
  shows "(e = BadCredentials \<and> a_lockout_mem s' = after_failure (gate_state gt) (gate_now gt) \<and>
      rate_limit_only H (gate_vault gt) s s') \<or>
    (a_fs s' = a_fs s \<and> a_lockout_mem s' = a_lockout_mem s)"
proof -
  have "a_lockout_mem s' = after_failure (gate_state gt) (gate_now gt) \<and> rate_limit_only H (gate_vault gt) s s'"
    if "quiet s s2" "s' = snd (record_failure H (gate_vault gt) (gate_state gt) (gate_now gt) s2)" for s2
    using record_failure_effect [of H "gate_vault gt" "gate_state gt" "gate_now gt" s2 "()" s' s] that
    by (cases "record_failure H (gate_vault gt) (gate_state gt) (gate_now gt) s2") simp
  then show ?thesis using unlock_factors_Inl [OF assms] quiet_fields [of s s'] by blast
qed

section \<open>The last stage\<close>

lemma build_unlocked_fields:
  "build_unlocked H km seed ix s = (ua, s') \<Longrightarrow>
   k_master ua = km \<and> ua_totp_seed ua = seed \<and> ua_index ua = ix \<and>
   session_expiry ua = sat_add64 (clock_at H (a_tick s)) SESSION_SECS \<and>
   s' = s\<lparr>a_tick := a_tick s + 1, a_rng := a_rng s + TOKEN_LEN\<rparr>"
  by (auto simp: build_unlocked_def clock_now_def on_rng_def session_token_generate_def random_secret_def
      fill_random_def)

lemma clear_lockout_effect:
  assumes "clear_lockout H v s1 = (u, s2)" and "a_fs s1 = a_fs s" "a_path s1 = a_path s" "a_rng s1 = a_rng s"
  shows "a_lockout_mem s2 = lockout_reset \<and> rate_limit_only H v s s2 \<and> a_path s2 = a_path s1 \<and>
    a_tick s2 = (if rl_counter v \<noteq> 0 \<or> rl_last_failure v \<noteq> 0 then a_tick s1 + 1 else a_tick s1)"
proof (cases "rl_counter v \<noteq> 0 \<or> rl_last_failure v \<noteq> 0")
  case True
  let ?b = "vault_to_bytes (set_rate_limit (lk_counter lockout_reset) (lk_last_failure lockout_reset) v)"
  obtain r t where w: "write_vault_file H ?b (s1\<lparr>a_lockout_mem := lockout_reset\<rparr>) = (r, t)" by fastforce
  have "s2 = t" using assms(1) True w by (auto simp: clear_lockout_def Let_def)
  then show ?thesis
    using write_vault_file_frame [OF w] rate_limit_only_write [OF w, of s] assms(2-4) True by simp
next
  case False
  then have "s2 = s1\<lparr>a_lockout_mem := lockout_reset\<rparr>" using assms(1) by (auto simp: clear_lockout_def Let_def)
  then show ?thesis using False assms(2) by (auto intro: rate_limit_only_same)
qed

lemma unlock_finish_Inr:
  assumes "unlock_finish H v km seed s1 = (Inr ua, s')"
    and "a_fs s1 = a_fs s" "a_path s1 = a_path s" "a_rng s1 = a_rng s"
  shows "open_index H v km = Inr (ua_index ua) \<and> k_master ua = km \<and> ua_totp_seed ua = seed \<and>
    session_expiry ua = sat_add64 (clock_at H (a_tick s' - 1)) SESSION_SECS \<and>
    a_lockout_mem s' = lockout_reset \<and> rate_limit_only H v s s'"
proof -
  obtain ix u s2 where o: "open_index H v km = Inr ix" and c: "clear_lockout H v s1 = (u, s2)"
    and b: "build_unlocked H km seed ix s2 = (ua, s')"
    using assms(1) by (auto simp: unlock_finish_def st_iffs map_err_Inr_iff)
  note f = build_unlocked_fields [OF b]
  note e = clear_lockout_effect [OF c assms(2-4)]
  show ?thesis using f e o by (auto simp: rate_limit_only_def)
qed

lemma unlock_finish_Inl:
  "unlock_finish H v km seed s1 = (Inl e, s') \<Longrightarrow> (\<exists>x. e = MalformedVault (CVault x)) \<and> s' = s1"
  by (auto simp: unlock_finish_def st_iffs map_err_def split: sum.splits)

text \<open>The stages of a run that did not end at the backend check.\<close>

lemma unlock_cases:
  assumes "unlock H pw code p s = (r, s')"
  obtains (refused) "r = Inl USoftwareHsmRefused" "s' = s"
  | (gate) e where "unlock_gate H s = (Inl e, s')" "r = Inl e"
  | (factors) gt s1 e where "unlock_gate H s = (Inr gt, s1)"
      "unlock_factors H pw code p gt s1 = (Inl e, s')" "r = Inl e"
  | (finish) gt s1 km seed s2 where "unlock_gate H s = (Inr gt, s1)"
      "unlock_factors H pw code p gt s1 = (Inr (km, seed), s2)"
      "unlock_finish H (gate_vault gt) km seed s2 = (r, s')"
  using assms by (auto simp: unlock_def st_then_def split: if_splits prod.splits sum.splits)

lemma unlock_gate_Inr:
  assumes "unlock_gate H s = (Inr gt, s')"
  shows "vault_on_disk H s = Inr (gate_vault gt) \<and> within_limits (kdf_params_of (gate_vault gt)) \<and>
    gate_state gt = merged_state (gate_vault gt) s \<and> gate_now gt = clock_at H (a_tick s + 1) \<and>
    remaining (merged_state (gate_vault gt) s) (clock_at H (a_tick s + 1)) = None \<and>
    s' = s\<lparr>a_lockout_mem := merged_state (gate_vault gt) s, a_tick := a_tick s + 2\<rparr>"
  using assms unfolding unlock_gate_eval
  by (auto split: sum.splits if_splits dest: gate_decision_Inr)

lemma unlock_gate_Inl:
  assumes "unlock_gate H s = (Inl e, s')"
  shows "e \<noteq> BadCredentials \<and> a_fs s' = a_fs s \<and>
    (a_lockout_mem s' = a_lockout_mem s \<or> (\<exists>v. vault_on_disk H s = Inr v \<and> a_lockout_mem s' = merged_state v s))"
  using assms unfolding unlock_gate_eval
  by (auto split: sum.splits if_splits dest!: gate_decision_Inl)

lemma unlock_fs:
  assumes u: "unlock H pw code p s = (r, s')"
  shows "a_fs s' = a_fs s \<or> (\<exists>v. vault_on_disk H s = Inr v \<and> rate_limit_only H v s s')"
proof -
  have m: "rate_limit_only H v (s\<lparr>a_lockout_mem := m, a_tick := t\<rparr>) s' = rate_limit_only H v s s'" for v m t
    by (simp add: rate_limit_only_def temp_of_def)
  from u show ?thesis
  proof (cases rule: unlock_cases)
    case refused
    then show ?thesis by simp
  next
    case (gate e)
    then show ?thesis using unlock_gate_Inl [OF gate(1)] by simp
  next
    case (factors gt s1 e)
    note g = unlock_gate_Inr [OF factors(1)]
    then show ?thesis using unlock_factors_account [OF factors(2)] m by auto
  next
    case (finish gt s1 km seed s2)
    note g = unlock_gate_Inr [OF finish(1)]
    note q = quiet_fields [OF unlock_factors_quiet [OF finish(2)]]
    show ?thesis
      using unlock_finish_Inr [of H "gate_vault gt" km seed s2 _ s' s] unlock_finish_Inl [of H "gate_vault gt" km seed s2 _ s'] g q finish(3)
      by (cases r) auto
  qed
qed

end
