(* ===== verification/Lifecycle.thy ===== *)
theory Lifecycle
  imports AppProps HsmMock
begin

text \<open>
  A vault that is \<open>provisioned\<close> under a password: the file on disk, the device and the password fit
  together.  Creation and recovery import establish it, failed and successful attempts keep it, and
  while it holds a cooperating environment can always unlock.
\<close>

section \<open>Provisioned vaults\<close>

text \<open>The password and some hardware key the vault's blob holds derive the master key.\<close>

definition keyed :: "(hsm_slot \<Rightarrow> wrapped_blob \<Rightarrow> bytes \<Rightarrow> 'd \<Rightarrow> bool) \<Rightarrow> ('d, 'm) host_scheme \<Rightarrow> secret_string \<Rightarrow>
    bytes \<Rightarrow> vault \<Rightarrow> 'd \<Rightarrow> bool" where
  "keyed opens H pw km v d \<longleftrightarrow> (\<exists>k kb avail. k_hsm_wrap_blob v = blob_to_bytes kb \<and> blob_ok kb \<and>
     opens VaultKey kb k d \<and> length k = KEY_LEN \<and>
     master_of H pw (vault_salt v) (kdf_params_of v) k avail = Inr km)"

definition seeded :: "(hsm_slot \<Rightarrow> wrapped_blob \<Rightarrow> bytes \<Rightarrow> 'd \<Rightarrow> bool) \<Rightarrow> bytes \<Rightarrow> vault \<Rightarrow> 'd \<Rightarrow> bool" where
  "seeded opens seed v d \<longleftrightarrow> (\<exists>sb. totp_seed_wrap_blob v = blob_to_bytes sb \<and> blob_ok sb \<and>
     opens TotpSeed sb seed d)"

definition stored :: "vault \<Rightarrow> 'd app \<Rightarrow> bool" where
  "stored v s \<longleftrightarrow> vault_wf v \<and> (\<exists>f. a_fs s (a_path s) = Some f \<and> f_content f = vault_to_bytes v)"

definition provisioned :: "(hsm_slot \<Rightarrow> wrapped_blob \<Rightarrow> bytes \<Rightarrow> 'd \<Rightarrow> bool) \<Rightarrow> ('d, 'm) host_scheme \<Rightarrow>
    secret_string \<Rightarrow> bytes \<Rightarrow> bytes \<Rightarrow> vault \<Rightarrow> 'd app \<Rightarrow> bool" where
  "provisioned opens H pw km seed v s \<longleftrightarrow>
     stored v s \<and> verify_probe H v km = Inr () \<and> is_ok (open_index H v km) \<and>
     keyed opens H pw km v (a_device s) \<and> seeded opens seed v (a_device s)"

section \<open>A cooperating environment\<close>

definition memory_fits :: "kdf_params \<Rightarrow> 64 word option \<Rightarrow> bool" where
  "memory_fits P avail \<longleftrightarrow> (case avail of None \<Rightarrow> True | Some a \<Rightarrow> memory_cost_fits (m_kib P) a)"

definition reads_vault :: "('d, 'm) host_scheme \<Rightarrow> vault \<Rightarrow> 'd app \<Rightarrow> bool" where
  "reads_vault H v s \<longleftrightarrow> io_stat (read_at H (a_tick s)) \<and> io_read (read_at H (a_tick s)) \<and>
     length (vault_to_bytes v) \<le> MAX_VAULT_BYTES"

definition cooperates :: "(prompter \<Rightarrow> 'd \<Rightarrow> bool) \<Rightarrow> ('d, 'm) host_scheme \<Rightarrow> vault \<Rightarrow> bytes \<Rightarrow> ustring \<Rightarrow>
    prompter \<Rightarrow> 'd app \<Rightarrow> bool" where
  "cooperates willing H v seed code p s \<longleftrightarrow>
     is_ok (check_backend_allowed H s) \<and> reads_vault H v s \<and>
     is_ok (gate_decision H v s) \<and> willing p (a_device s) \<and>
     fst (totp_verify (hmac_tag H) seed code (clock_at H (a_tick s + 2)) (current_verifier s)) = Inr () \<and>
     memory_fits (kdf_params_of v) (fst (available_memory_kib H (s\<lparr>a_tick := a_tick s + 3\<rparr>)))"

lemma stored_on_disk: "stored v s \<Longrightarrow> reads_vault H v s \<Longrightarrow> vault_on_disk H s = Inr v"
  by (auto simp: stored_def reads_vault_def vault_on_disk_def storage_read_def vault_from_to_bytes)

lemma master_of_within: "master_of C pw salt P k avail = Inr km \<Longrightarrow> within_limits P"
  by (auto simp: master_of_def and_then_Inr_iff map_err_Inr_iff dest: argon2id_Inr)

lemma master_of_memory:
  assumes "master_of C pw salt P k avail = Inr km" and "memory_fits P avail'"
  shows "master_of C pw salt P k avail' = Inr km"
  using assms
  by (auto simp: master_of_def argon2id_within_memory_def memory_fits_def and_then_Inr_iff map_err_Inr_iff
      split: if_splits option.splits)

section \<open>What every step keeps\<close>

text \<open>The path stays, and every blob that opens still opens.\<close>

definition slots_kept :: "(hsm_slot \<Rightarrow> wrapped_blob \<Rightarrow> bytes \<Rightarrow> 'd \<Rightarrow> bool) \<Rightarrow> 'd app \<Rightarrow> 'd app \<Rightarrow> bool" where
  "slots_kept opens s s' \<longleftrightarrow> a_path s' = a_path s \<and>
     (\<forall>slot b m. opens slot b m (a_device s) \<longrightarrow> opens slot b m (a_device s'))"

lemma slots_kept_preorder: "preorder (slots_kept opens)"
  by (auto simp: preorder_def slots_kept_def)

lemma slots_kept_same: "a_path s' = a_path s \<Longrightarrow> a_device s' = a_device s \<Longrightarrow> slots_kept opens s s'"
  by (simp add: slots_kept_def)

lemma keeps_slots_same:
  "(\<And>s. a_path (snd (m s)) = a_path s \<and> a_device (snd (m s)) = a_device s) \<Longrightarrow> keeps (slots_kept opens) m"
  by (simp add: keeps_def slots_kept_same)

lemma keeps_slots_basic:
  "keeps (slots_kept opens) (clock_now H)"
  "keeps (slots_kept opens) (now_unix_secs H)"
  "keeps (slots_kept opens) (on_rng f)"
  "keeps (slots_kept opens) (read_vault_file H)"
  "keeps (slots_kept opens) (write_vault_file H b)"
  "keeps (slots_kept opens) (available_memory_kib H)"
  "keeps (slots_kept opens) (verify_totp H seed code)"
  "keeps (slots_kept opens) (merge_lockout st)"
  "keeps (slots_kept opens) (record_failure H v st now)"
  "keeps (slots_kept opens) (clear_lockout H v)"
  "keeps (slots_kept opens) (set_totp_config cfg)"
  "keeps (slots_kept opens) (build_unlocked H km seed ix)"
  by (rule keeps_slots_same;
      simp add: clock_now_def now_unix_secs_def on_rng_def read_vault_file_def write_vault_file_def
        available_memory_kib_def verify_totp_def merge_lockout_def record_failure_def clear_lockout_def
        set_totp_config_def build_unlocked_def Let_def split_def)+

lemma keeps_slots_unwrap:
  assumes "slot_store (store H) opens willing fresh"
  shows "keeps (slots_kept opens) (unwrap_bytes H slot b p)"
  using slot_store.unwrap_keeps [OF assms]
  by (auto simp: keeps_def slots_kept_def unwrap_bytes_def split: sum.splits prod.splits)

lemmas keeps_slots_rules = keeps_rules [where R = "slots_kept opens" for opens]

lemma keeps_slots_derive:
  "keeps (slots_kept opens) (derive_master H pw salt P k)"
  "keeps (slots_kept opens) (derive_master_from_bytes H pw salt P k)"
  unfolding derive_master_def derive_master_from_bytes_def
  by (intro keeps_rules slots_kept_preorder keeps_slots_basic)+

lemma keeps_slots_unlock:
  assumes st: "slot_store (store H) opens willing fresh"
  shows "keeps (slots_kept opens) (unlock H pw code p)"
proof -
  note basics = keeps_rules slots_kept_preorder keeps_slots_basic keeps_slots_derive keeps_slots_unwrap [OF st]
  have r: "keeps (slots_kept opens) (reject_unless ok (record_failure H v st now))" for ok v st now
    unfolding reject_unless_def by (auto intro!: basics)
  have n: "keeps (slots_kept opens) (\<lambda>s. (native_lockout H st now s, s))" for st now
    by (simp add: keeps_def slots_kept_def)
  have g: "keeps (slots_kept opens) (unlock_gate H)"
    unfolding unlock_gate_def by (intro basics n)
  have f: "keeps (slots_kept opens) (unlock_factors H pw code p gt)" for gt
    unfolding unlock_factors_def Let_def unwrap_slot_def by (intro basics r)
  have x: "keeps (slots_kept opens) (unlock_finish H v km seed)" for v km seed
    unfolding unlock_finish_def by (intro basics)
  have "keeps (slots_kept opens) (st_then (unlock_gate H) (\<lambda>gt.
           st_then (unlock_factors H pw code p gt) (\<lambda>(km, seed). unlock_finish H (gate_vault gt) km seed)))"
    by (intro basics g f) (auto intro: x)
  then show ?thesis unfolding unlock_def keeps_def slots_kept_def by auto
qed

lemma keyed_kept: "keyed opens H pw km v (a_device s) \<Longrightarrow> slots_kept opens s s' \<Longrightarrow> keyed opens H pw km v (a_device s')"
  unfolding keyed_def slots_kept_def by blast

lemma seeded_kept: "seeded opens seed v (a_device s) \<Longrightarrow> slots_kept opens s s' \<Longrightarrow> seeded opens seed v (a_device s')"
  unfolding seeded_def slots_kept_def by blast

lemma provisioned_frame:
  assumes "provisioned opens H pw km seed v s" and "slots_kept opens s s'"
    and "a_fs s' (a_path s) = a_fs s (a_path s)"
  shows "provisioned opens H pw km seed v s'"
  using assms keyed_kept [OF _ assms(2)] seeded_kept [OF _ assms(2)]
  by (auto simp: provisioned_def stored_def slots_kept_def)

lemma set_rate_limit_keyed [simp]:
  "keyed opens H pw km (set_rate_limit c t v) d = keyed opens H pw km v d"
  "seeded opens seed (set_rate_limit c t v) d = seeded opens seed v d"
  by (simp_all add: keyed_def seeded_def set_rate_limit_def)

lemma provisioned_rate_limit:
  assumes "provisioned opens H pw km seed v s" and "slots_kept opens s s'" and "rate_limit_only H v s s'"
  shows "\<exists>c t. provisioned opens H pw km seed (set_rate_limit c t v) s'"
proof -
  have own: "set_rate_limit (rl_counter v) (rl_last_failure v) v = v" by (simp add: set_rate_limit_def)
  from assms(3) consider "a_fs s' (a_path s) = a_fs s (a_path s)"
    | c t where "a_fs s' (a_path s) = Some \<lparr>f_content = vault_to_bytes (set_rate_limit c t v), f_mode = OWNER_ONLY\<rparr>"
    by (auto simp: rate_limit_only_def)
  then show ?thesis
  proof cases
    case 1
    then show ?thesis using provisioned_frame [OF assms(1,2)] own by metis
  next
    case 2
    have "provisioned opens H pw km seed (set_rate_limit c t v) s'"
      using assms(1,2) 2 setters_wf(2) keyed_kept [OF _ assms(2)] seeded_kept [OF _ assms(2)]
      by (auto simp: provisioned_def stored_def slots_kept_def)
    then show ?thesis by blast
  qed
qed

lemma stored_unique: "stored v s \<Longrightarrow> vault_on_disk H s = Inr v' \<Longrightarrow> v' = v"
  by (auto simp: stored_def vault_on_disk_def storage_read_def and_then_Inr_iff map_err_Inr_iff
      vault_from_to_bytes ok_or_Inr_iff split: if_splits)

lemma unlock_keeps_provisioned:
  assumes "slot_store (store H) opens willing fresh" and "provisioned opens H pw km seed v s"
    and "unlock H pw' code p s = (r, s')"
  shows "\<exists>c t. provisioned opens H pw km seed (set_rate_limit c t v) s'"
proof -
  have k: "slots_kept opens s s'" by (rule keepsD [OF keeps_slots_unlock [OF assms(1)] assms(3)])
  have own: "set_rate_limit (rl_counter v) (rl_last_failure v) v = v" by (simp add: set_rate_limit_def)
  from unlock_fs [OF assms(3)] show ?thesis
  proof
    assume "a_fs s' = a_fs s"
    then show ?thesis using provisioned_frame [OF assms(2) k] own by metis
  next
    assume "\<exists>v. vault_on_disk H s = Inr v \<and> rate_limit_only H v s s'"
    then obtain w where w: "vault_on_disk H s = Inr w" "rate_limit_only H w s s'" by blast
    have "w = v" using stored_unique [OF _ w(1)] assms(2) by (simp add: provisioned_def)
    then show ?thesis using provisioned_rate_limit [OF assms(2) k] w(2) by simp
  qed
qed

section \<open>A provisioned vault unlocks\<close>

lemma keyed_unwraps:
  assumes st: "slot_store (store H) opens willing fresh" and k: "keyed opens H pw km v d" and s: "seeded opens seed v d"
    and w: "willing p d"
  shows "\<exists>k d1 d2 avail. unwrapped H VaultKey (k_hsm_wrap_blob v) p d = (Inr k, d1) \<and> length k = KEY_LEN \<and>
    master_of H pw (vault_salt v) (kdf_params_of v) k avail = Inr km \<and>
    unwrapped H TotpSeed (totp_seed_wrap_blob v) p d1 = (Inr seed, d2)"
proof -
  obtain k kb avail where kb: "k_hsm_wrap_blob v = blob_to_bytes kb" "blob_ok kb" "opens VaultKey kb k d"
    "length k = KEY_LEN" "master_of H pw (vault_salt v) (kdf_params_of v) k avail = Inr km"
    using k by (auto simp: keyed_def)
  obtain sb where sb: "totp_seed_wrap_blob v = blob_to_bytes sb" "blob_ok sb" "opens TotpSeed sb seed d"
    using s by (auto simp: seeded_def)
  obtain d1 where u1: "unwrap (store H) VaultKey kb p d = (Inr k, d1)" "willing p d1"
    using slot_store.unwrap_opens [OF st kb(3) w] by blast
  have "opens TotpSeed sb seed d1" by (rule slot_store.unwrap_keeps [OF st sb(3) u1(1)])
  then obtain d2 where "unwrap (store H) TotpSeed sb p d1 = (Inr seed, d2)"
    using slot_store.unwrap_opens [OF st _ u1(2)] by blast
  then show ?thesis using u1 kb sb by (auto simp: unwrapped_def blob_from_to_bytes)
qed

lemma unlock_finish_total:
  assumes "open_index H v km = Inr ix"
  shows "\<exists>ua s'. unlock_finish H v km seed s = (Inr ua, s') \<and> k_master ua = km \<and> ua_totp_seed ua = seed \<and>
    ua_index ua = ix \<and> a_lockout_mem s' = lockout_reset"
proof -
  obtain s2 where c: "clear_lockout H v s = ((), s2)" by (cases "clear_lockout H v s") simp
  obtain ua s' where b: "build_unlocked H km seed ix s2 = (ua, s')" by fastforce
  have "a_lockout_mem s2 = lockout_reset" using clear_lockout_effect [OF c, of s] by simp
  then show ?thesis
    using assms c b build_unlocked_fields [OF b] by (auto simp: unlock_finish_def st_then_def st_do_def st_lift_def)
qed

lemma provisioned_unlocks:
  assumes st: "slot_store (store H) opens willing fresh" and pr: "provisioned opens H pw km seed v s"
    and co: "cooperates willing H v seed code p s"
  shows "\<exists>ua s'. unlock H pw code p s = (Inr ua, s') \<and> k_master ua = km \<and> ua_totp_seed ua = seed \<and>
    open_index H v km = Inr (ua_index ua) \<and> a_lockout_mem s' = lockout_reset"
proof -
  have vd: "vault_on_disk H s = Inr v" using pr co stored_on_disk by (auto simp: provisioned_def cooperates_def)
  obtain ix where ix: "open_index H v km = Inr ix" using pr by (auto simp: provisioned_def is_ok_iff)
  have K: "keyed opens H pw km v (a_device s)" and S: "seeded opens seed v (a_device s)"
    and P: "verify_probe H v km = Inr ()" using pr by (simp_all add: provisioned_def)
  have W: "willing p (a_device s)" using co by (simp add: cooperates_def)
  obtain k d1 d2 avail where u: "unwrapped H VaultKey (k_hsm_wrap_blob v) p (a_device s) = (Inr k, d1)"
    "length k = KEY_LEN" "master_of H pw (vault_salt v) (kdf_params_of v) k avail = Inr km"
    "unwrapped H TotpSeed (totp_seed_wrap_blob v) p d1 = (Inr seed, d2)"
    using keyed_unwraps [OF st K S W] by blast
  have wl: "within_limits (kdf_params_of v)" by (rule master_of_within [OF u(3)])
  obtain gt where gt: "gate_decision H v s = Inr gt" using co by (auto simp: cooperates_def is_ok_iff)
  have gv: "gate_vault gt = v" using gate_decision_Inr [OF gt] by simp
  let ?s1 = "s\<lparr>a_lockout_mem := merged_state v s, a_tick := a_tick s + 2\<rparr>"
  have G: "unlock_gate H s = (Inr gt, ?s1)" using vd wl gt by (simp add: unlock_gate_eval)
  have cv: "current_verifier (?s1\<lparr>a_device := d2\<rparr>) = current_verifier s"
    by (simp add: current_verifier_def split: option.split)
  obtain s2 where V: "verify_totp H seed code (?s1\<lparr>a_device := d2\<rparr>) = (Inr (), s2)" and t: "a_tick s2 = a_tick s + 3"
    using co unfolding verify_totp_result cv by (simp add: cooperates_def)
  have "master_of H pw (vault_salt v) (kdf_params_of v) k (fst (available_memory_kib H s2)) = Inr km"
    using master_of_memory [OF u(3)] co t by (simp add: cooperates_def available_memory_kib_def)
  then obtain s3 where D: "derive_master_from_bytes H pw (vault_salt v) (kdf_params_of v) k s2 = (Inr km, s3)"
    using u(2) by (simp add: derive_master_from_bytes_def derive_master_def into_key_def st_then_def st_lift_def
        st_do_def split_def)
  have "unlock_factors H pw code p gt ?s1 = (Inr (km, seed), s3)"
    using u V D P by (simp add: unlock_factors_eval gv)
  moreover have "\<not> (ks_kind (store H) = KSoftwareMock \<and> \<not> a_allow_software_hsm s)"
    using co by (auto simp: cooperates_def check_backend_allowed_def split: if_splits)
  ultimately have "unlock H pw code p s = unlock_finish H v km seed s3"
    using G gv by (auto simp: unlock_def st_then_def)
  then show ?thesis using unlock_finish_total [OF ix, of seed s3] ix by auto
qed

section \<open>Creation and import provision\<close>

text \<open>Enrollment names drawn after a blob was made do not collide with it.\<close>

definition fresh_after :: "(wrapped_blob \<Rightarrow> rng \<Rightarrow> bool) \<Rightarrow> ('d, 'm) host_scheme \<Rightarrow> bool" where
  "fresh_after fresh H \<longleftrightarrow> (\<forall>m p d g b d' g'. ks_enroll (store H) VaultKey m p (d, g) = (Inr b, d', g') \<longrightarrow> fresh b g')"

lemma enroll_slot_Inr:
  "enroll_slot H slot m p s = (Inr b, s') \<Longrightarrow>
   ks_enroll (store H) slot m p (a_device s, a_rng s) = (Inr b, a_device s', a_rng s') \<and>
   a_path s' = a_path s \<and> a_fs s' = a_fs s \<and> a_tick s' = a_tick s \<and> a_lockout_mem s' = a_lockout_mem s \<and>
   a_allow_software_hsm s' = a_allow_software_hsm s"
  by (auto simp: enroll_slot_def map_err_Inr_iff split: prod.splits)

lemma enrolled_pair:
  assumes st: "slot_store (store H) opens willing fresh" and fr: "fresh_after fresh H"
    and a: "enroll_slot H VaultKey k p s = (Inr kb, s1)" and b: "enroll_slot H TotpSeed seed p s1 = (Inr sb, s2)"
  shows "opens VaultKey kb k (a_device s2) \<and> opens TotpSeed sb seed (a_device s2) \<and> blob_ok kb \<and> blob_ok sb"
proof -
  have e1: "ks_enroll (store H) VaultKey k p (a_device s, a_rng s) = (Inr kb, a_device s1, a_rng s1)"
    using enroll_slot_Inr [OF a] by simp
  have e2: "ks_enroll (store H) TotpSeed seed p (a_device s1, a_rng s1) = (Inr sb, a_device s2, a_rng s2)"
    using enroll_slot_Inr [OF b] by simp
  have "fresh kb (a_rng s1)" using fr e1 by (auto simp: fresh_after_def)
  then show ?thesis
    using slot_store.two_slots [OF st e1 e2] slot_store.enroll_kind [OF st e1] slot_store.enroll_kind [OF st e2]
    by blast
qed

lemma random_secret_step:
  "on_rng (random_secret H n) s = (k, s') \<Longrightarrow> length k = n \<and> a_path s' = a_path s \<and> a_device s' = a_device s \<and>
     a_fs s' = a_fs s \<and> a_tick s' = a_tick s \<and> a_lockout_mem s' = a_lockout_mem s \<and>
     a_allow_software_hsm s' = a_allow_software_hsm s"
  by (auto simp: on_rng_def random_secret_def fill_random_def)

lemma derive_master_Inr:
  "derive_master H pw salt P k s = (Inr km, s') \<Longrightarrow>
   s' = s\<lparr>a_tick := a_tick s + 1\<rparr> \<and> (\<exists>avail. master_of H pw salt P k avail = Inr km)"
  by (auto simp: derive_master_def st_iffs available_memory_kib_def)

text \<open>A vault made from enrolled blobs and written to the file is provisioned.\<close>

lemma provisionedI:
  assumes "opens VaultKey kb k (a_device s)" "opens TotpSeed sb seed (a_device s)" "blob_ok kb" "blob_ok sb"
    and "length k = KEY_LEN" and "master_of H pw salt P k avail = Inr km"
    and "k_hsm_wrap_blob v = blob_to_bytes kb" "totp_seed_wrap_blob v = blob_to_bytes sb"
    and "vault_salt v = salt" "kdf_params_of v = P"
    and "vault_wf v" "verify_probe H v km = Inr ()" "is_ok (open_index H v km)"
    and "write_vault_file H (vault_to_bytes v) s = (Inr (), s')"
  shows "provisioned opens H pw km seed v s'"
proof -
  have f: "a_path s' = a_path s" "a_device s' = a_device s"
    "a_fs s' (a_path s) = Some \<lparr>f_content = vault_to_bytes v, f_mode = OWNER_ONLY\<rparr>"
    using write_vault_file_frame [OF assms(14)] write_vault_file_path [OF assms(14)] by simp_all
  then show ?thesis
    using assms(1-13) unfolding provisioned_def stored_def keyed_def seeded_def by auto
qed

lemma build_unlocked_provisioned:
  assumes "provisioned opens H pw km seed v s" and "build_unlocked H km' seed' ix s1 = (ua, s')"
    and "s1 = s\<lparr>a_totp_config := cfg, a_verifier := None\<rparr>"
  shows "provisioned opens H pw km seed v s'"
  using assms(1,3) build_unlocked_fields [OF assms(2)] by (auto simp: provisioned_def stored_def)

lemma create_vault_provisions:
  assumes e: "env_ok H" and st: "slot_store (store H) opens willing fresh" and fr: "fresh_after fresh H"
    and c: "create_vault H pw kdf cfg p s = (Inr (ua, uri), s')"
  shows "\<exists>v. provisioned opens H pw (k_master ua) (ua_totp_seed ua) v s' \<and> kdf_params_of v = kdf \<and>
    rl_counter v = 0 \<and> rl_last_failure v = 0 \<and> store_view H (k_master ua) v = Map.empty \<and>
    length (ua_totp_seed ua) = KEY_LEN \<and> uri = build_provisioning_uri (base32 H) (ua_totp_seed ua) cfg \<and>
    a_lockout_mem s' = a_lockout_mem s \<and> a_verifier s' = None \<and> a_totp_config s' = cfg \<and> ua_index ua = [] \<and>
    a_path s' = a_path s \<and> a_allow_software_hsm s' = a_allow_software_hsm s \<and>
    (\<exists>salt kb sb meta g g'. length salt = 32 \<and> vault_create H kdf salt kb sb meta (k_master ua) g = (Inr v, g'))"
proof -
  obtain k seed kb sb salt km now v ix s1 s2 s3 s4 s5 s6 s7 s8 s9 where
    k: "on_rng (random_secret H KEY_LEN) s = (k, s1)" and sd: "on_rng (random_secret H KEY_LEN) s1 = (seed, s2)"
    and kb: "enroll_slot H VaultKey k p s2 = (Inr kb, s3)" and sb: "enroll_slot H TotpSeed seed p s3 = (Inr sb, s4)"
    and sa: "on_rng (random_secret H KEY_LEN) s4 = (salt, s5)"
    and km: "derive_master H pw salt kdf k s5 = (Inr km, s6)" and nw: "now_unix_secs H s6 = (now, s7)"
    and v: "on_rng (vault_create H kdf salt (blob_to_bytes kb) (blob_to_bytes sb) (metadata_new now) km) s7 = (Inr v, s8)"
    and w: "write_vault_file H (vault_to_bytes v) s8 = (Inr (), s9)"
    and ix: "open_index H v km = Inr ix"
    and b: "build_unlocked H km seed ix (s9\<lparr>a_totp_config := cfg, a_verifier := None\<rparr>) = (ua, s')"
    and uri: "uri = build_provisioning_uri (base32 H) seed cfg"
    using c by (auto simp: create_vault_def st_iffs set_totp_config_def map_err_Inr_iff split: sum.splits)
  obtain g' where vc: "vault_create H kdf salt (blob_to_bytes kb) (blob_to_bytes sb) (metadata_new now) km (a_rng s7)
      = (Inr v, g')" and s8: "s8 = s7\<lparr>a_rng := g'\<rparr>"
    using v by (auto simp: on_rng_def split: prod.splits)
  note new = vault_create_Inr [OF vc e]
  note ua = build_unlocked_fields [OF b]
  note f = write_vault_file_frame [OF w] random_secret_step [OF k] random_secret_step [OF sd] random_secret_step [OF sa]
    enroll_slot_Inr [OF kb] enroll_slot_Inr [OF sb] derive_master_Inr [OF km]
  have s7: "a_device s7 = a_device s4" "a_lockout_mem s7 = a_lockout_mem s"
    using nw f by (auto simp: now_unix_secs_def clock_now_def)
  obtain avail where avail: "master_of H pw salt kdf k avail = Inr km" using derive_master_Inr [OF km] by blast
  have "provisioned opens H pw km seed v s9"
  proof (rule provisionedI [where kb = kb and k = k and sb = sb and salt = salt and P = kdf])
    have "opens VaultKey kb k (a_device s4) \<and> opens TotpSeed sb seed (a_device s4) \<and> blob_ok kb \<and> blob_ok sb"
      by (rule enrolled_pair [OF st fr kb sb])
    then show "opens VaultKey kb k (a_device s8)" "opens TotpSeed sb seed (a_device s8)" "blob_ok kb" "blob_ok sb"
      using s7 s8 by simp_all
    show "length k = KEY_LEN" using random_secret_step [OF k] by simp
    show "master_of H pw salt kdf k avail = Inr km" by (rule avail)
    have "length salt = SALT_LEN" using random_secret_step [OF sa] by (simp add: KEY_LEN_def SALT_LEN_def)
    then show "vault_wf v" by (rule vault_create_wf [OF vc e])
  qed (use new w in simp_all)
  then have "provisioned opens H pw (k_master ua) (ua_totp_seed ua) v s'"
    using build_unlocked_provisioned [OF _ b] ua by simp
  moreover have "ix = []" using new(2) ix by simp
  moreover have "length seed = KEY_LEN" using random_secret_step [OF sd] by simp
  moreover have "a_lockout_mem s' = a_lockout_mem s" using write_vault_file_frame [OF w] ua s7 s8 by simp
  moreover have "a_path s' = a_path s" "a_allow_software_hsm s' = a_allow_software_hsm s"
    using write_vault_file_frame [OF w] ua s8 nw derive_master_Inr [OF km] random_secret_step [OF k]
      random_secret_step [OF sd] random_secret_step [OF sa] enroll_slot_Inr [OF kb] enroll_slot_Inr [OF sb]
    by (auto simp: now_unix_secs_def clock_now_def)
  moreover have "length salt = 32" using random_secret_step [OF sa] by (simp add: KEY_LEN_def)
  moreover have "k_master ua = km" using ua by simp
  ultimately show ?thesis using new(3,4,8,9) ua uri vc by (intro exI [of _ v] conjI) (simp_all, blast)
qed

section \<open>Success\<close>

text \<open>No leftover temporary sibling is in the way of a write.\<close>

definition no_temps :: "('d, 'm) host_scheme \<Rightarrow> 'd app \<Rightarrow> bool" where
  "no_temps H s \<longleftrightarrow> a_path s \<noteq> [] \<and> (\<forall>g. a_fs s (fst (temp_sibling H (process_id H) (a_path s) g)) = None)"

definition write_fine :: "write_io \<Rightarrow> bool" where
  "write_fine io \<longleftrightarrow> io_create io \<and> io_written io = None \<and> io_sync io \<and> io_rename io"

lemma write_vault_file_ok:
  assumes "no_temps H s" and "write_fine (write_at H (a_tick s))"
  shows "\<exists>s'. write_vault_file H b s = (Inr (), s')"
proof -
  obtain tmp g' where t: "temp_sibling H (process_id H) (a_path s) (a_rng s) = (tmp, g')" by fastforce
  have "a_fs s tmp = None" using assms(1) t by (auto simp: no_temps_def dest: spec [of _ "a_rng s"])
  then show ?thesis
    using assms t by (simp add: write_vault_file_def atomic_write_def no_temps_def parent_of_def write_temp_def
        write_fine_def split_def Let_def)
qed

definition enrolls :: "('d, 'm) host_scheme \<Rightarrow> prompter \<Rightarrow> bool" where
  "enrolls H p \<longleftrightarrow> (\<forall>slot m x. length m = KEY_LEN \<longrightarrow> (\<exists>b d' g'. ks_enroll (store H) slot m p x = (Inr b, d', g') \<and>
     length (blob_to_bytes b) \<le> MAX_HSM_BLOB_LEN))"

definition derives :: "('d, 'm) host_scheme \<Rightarrow> secret_string \<Rightarrow> kdf_params \<Rightarrow> bool" where
  "derives H pw P \<longleftrightarrow> (\<forall>salt k s. is_ok (master_of H pw salt P k (fst (available_memory_kib H s))))"

lemma enroll_slot_ok:
  assumes "enrolls H p" and "length m = KEY_LEN"
  shows "\<exists>b s'. enroll_slot H slot m p s = (Inr b, s') \<and> length (blob_to_bytes b) \<le> MAX_HSM_BLOB_LEN"
proof -
  obtain b d' g' where "ks_enroll (store H) slot m p (a_device s, a_rng s) = (Inr b, d', g')"
    "length (blob_to_bytes b) \<le> MAX_HSM_BLOB_LEN" using assms unfolding enrolls_def by blast
  then show ?thesis by (simp add: enroll_slot_def)
qed

lemma derive_master_ok: "derives H pw P \<Longrightarrow> \<exists>km s'. derive_master H pw salt P k s = (Inr km, s')"
  by (auto simp: derives_def derive_master_def st_then_def st_do_def st_lift_def is_ok_iff split_def)

lemma create_vault_total:
  assumes h: "is_ok (check_backend_allowed H s)" and en: "enrolls H p" and de: "derives H pw kdf"
    and c: "aead_total H" "env_ok H" "postcard_ser H [] = Some pb"
    and w: "no_temps H s" "\<forall>t. write_fine (write_at H t)"
  shows "\<exists>ua uri s'. create_vault H pw kdf cfg p s = (Inr (ua, uri), s')"
proof -
  obtain k s1 where k: "on_rng (random_secret H KEY_LEN) s = (k, s1)" by fastforce
  obtain seed s2 where sd: "on_rng (random_secret H KEY_LEN) s1 = (seed, s2)" by fastforce
  have l: "length k = KEY_LEN" "length seed = KEY_LEN" using random_secret_step [OF k] random_secret_step [OF sd] by simp_all
  obtain kb s3 where kb: "enroll_slot H VaultKey k p s2 = (Inr kb, s3)" "length (blob_to_bytes kb) \<le> MAX_HSM_BLOB_LEN"
    using enroll_slot_ok [OF en l(1)] by blast
  obtain sb s4 where sb: "enroll_slot H TotpSeed seed p s3 = (Inr sb, s4)" "length (blob_to_bytes sb) \<le> MAX_HSM_BLOB_LEN"
    using enroll_slot_ok [OF en l(2)] by blast
  obtain salt s5 where sa: "on_rng (random_secret H KEY_LEN) s4 = (salt, s5)" by fastforce
  obtain km s6 where km: "derive_master H pw salt kdf k s5 = (Inr km, s6)" using derive_master_ok [OF de] by blast
  obtain now s7 where nw: "now_unix_secs H s6 = (now, s7)" by fastforce
  obtain v g' where vc: "vault_create H kdf salt (blob_to_bytes kb) (blob_to_bytes sb) (metadata_new now) km (a_rng s7)
      = (Inr v, g')"
    using vault_create_total [OF c kb(2) sb(2)] by blast
  let ?s8 = "s7\<lparr>a_rng := g'\<rparr>"
  have v: "on_rng (vault_create H kdf salt (blob_to_bytes kb) (blob_to_bytes sb) (metadata_new now) km) s7 = (Inr v, ?s8)"
    using vc by (simp add: on_rng_def)
  have "a_path s7 = a_path s6 \<and> a_fs s7 = a_fs s6" using nw by (auto simp: now_unix_secs_def clock_now_def)
  then have "a_path ?s8 = a_path s \<and> a_fs ?s8 = a_fs s"
    using derive_master_Inr [OF km] random_secret_step [OF sa] enroll_slot_Inr [OF sb(1)] enroll_slot_Inr [OF kb(1)]
      random_secret_step [OF k] random_secret_step [OF sd] by simp
  then have "no_temps H ?s8" using w(1) by (simp add: no_temps_def)
  then obtain s9 where wr: "write_vault_file H (vault_to_bytes v) ?s8 = (Inr (), s9)"
    using write_vault_file_ok w(2) by blast
  have ix: "open_index H v km = Inr []" by (rule vault_create_Inr(2) [OF vc c(2)])
  obtain ua s10 where b: "build_unlocked H km seed [] (s9\<lparr>a_totp_config := cfg, a_verifier := None\<rparr>) = (ua, s10)"
    by fastforce
  have "create_vault H pw kdf cfg p s = (Inr (ua, build_provisioning_uri (base32 H) seed cfg), s10)"
    using h k sd kb sb sa km nw v wr ix b
    by (auto simp: create_vault_def st_then_def st_do_def st_err_def st_lift_def set_totp_config_def is_ok_iff)
  then show ?thesis by blast
qed

text \<open>A new vault is small.\<close>

lemma seal_index_size:
  assumes "seal_index E ix fv km g = (Inr (n, ct), g')" and "aead_ok E" and "postcard_ser E ix = Some pb"
  shows "length ct < length pb + 276"
proof -
  have "aead_encrypt E (hkdf_expand E km INDEX_INFO) n [fv]
      (if fv = FORMAT_VERSION_LEGACY_V1 then pb else pad_index_plaintext pb) = Inr ct"
    using assms(1,3) by (auto simp: seal_index_def Let_def split_def split: sum.splits)
  from aead_encrypt_length [OF assms(2) this] show ?thesis
    using index_pad.pad_bounds [of pb] by (simp add: BUCKET_def split: if_splits)
qed

lemma vault_create_size:
  assumes c: "vault_create E P salt kb sb meta km g = (Inr v, g')" and e: "env_ok E"
    and s: "length salt = 32" and pb: "postcard_ser E [] = Some pb" "length pb \<le> 1000"
  shows "length (vault_to_bytes v) \<le> MAX_VAULT_BYTES"
proof -
  note new = vault_create_Inr [OF c e]
  obtain g1 n ct where si: "seal_index E index_new FORMAT_VERSION km g1 = (Inr (n, ct), g')"
    and ct: "sealed_index_ct v = ct"
    using c by (auto simp: vault_create_def Let_def split: prod.splits sum.splits option.splits)
  have "aead_ok E" using e by (simp add: env_ok_def)
  then have "length ct < length pb + 276" using seal_index_size [OF si] pb(1) by (simp add: index_new_def)
  then have "length (sealed_index_ct v) < 1300" using ct pb(2) by simp
  moreover have "length kb < 65536" "length sb < 65536" using new(13,14) by (simp_all add: MAX_HSM_BLOB_LEN_def)
  ultimately show ?thesis
    using new s by (simp add: vault_to_bytes_def push_u16_prefixed_def push_u32_prefixed_def MAX_VAULT_BYTES_def)
qed

end
