(* ===== verification/Demo.thy ===== *)
theory Demo
  imports Lifecycle
begin

text \<open>
  A concrete host on which the properties of the application are witnessed: the toy primitives, the
  software backend with a fixed key, a policy serializer that knows the default policy, a clock that
  stands at 30 seconds, ample memory, and a disk that never fails.
\<close>

definition demo_estimator :: estimator where
  "demo_estimator = \<lparr>zx_guesses_log10 = (\<lambda>pw inputs. Finite (of_nat (length pw))), zx_guesses = (\<lambda>pw inputs. word_of_nat (10 ^ length pw)),
     zx_feedback = (\<lambda>pw inputs. None), f64_round = Finite, f64_sqrt = id, f64_log2 = id\<rparr>"

definition demo_host :: "unit host" where
  "demo_host = vault_env.extend demo_env
     \<lparr>policy_ser = (\<lambda>p. if p = policy_default then Some [0] else None),
      policy_de = (\<lambda>b. if b = [0] then Some policy_default else None),
      base32 = hex_lower, hmac_tag = toy_hmac, strength = demo_estimator,
      store = mock_store toy_crypto demo_mock, process_id = 7, clock_at = (\<lambda>t. 30), meminfo_at = (\<lambda>t. None),
      read_at = (\<lambda>t. \<lparr>io_stat = True, io_read = True\<rparr>), write_at = (\<lambda>t. io_fine)\<rparr>"

definition demo_prompter :: prompter where
  "demo_prompter = mock_prompter OutcomeAuthenticated"

definition demo_app :: "unit app" where
  "demo_app = \<lparr>a_path = [ustr ''vault''], a_lock = \<lparr>il_path = [ustr ''vault.lock''], il_locked = True\<rparr>,
     a_allow_software_hsm = True, a_totp_config = totp_config_default, a_verifier = None,
     a_lockout_mem = lockout_reset, a_fs = Map.empty, a_device = (), a_rng = 0, a_tick = 0\<rparr>"

lemma demo_host_fields [simp]:
  "hmac_tag demo_host = toy_hmac" "store demo_host = mock_store toy_crypto demo_mock"
  "base32 demo_host = hex_lower" "strength demo_host = demo_estimator"
  "clock_at demo_host t = 30" "meminfo_at demo_host t = None" "write_at demo_host t = io_fine"
  "read_at demo_host t = \<lparr>io_stat = True, io_read = True\<rparr>"
  "policy_ser demo_host q = (if q = policy_default then Some [0] else None)"
  "policy_de demo_host b = (if b = [0] then Some policy_default else None)"
  by (simp_all add: demo_host_def vault_env.defs)

lemma demo_host_env:
  "xchacha_enc demo_host = xchacha_enc demo_env" "xchacha_dec demo_host = xchacha_dec demo_env"
  "postcard_ser demo_host = postcard_ser demo_env" "postcard_de demo_host = postcard_de demo_env"
  "argon2_hash demo_host = argon2_hash demo_env" "hkdf_extract_expand demo_host = hkdf_extract_expand demo_env"
  "hkdf_prk_expand demo_host = hkdf_prk_expand demo_env" "uuid_v4 demo_host = uuid_v4 demo_env"
  "os_random demo_host = os_random demo_env"
  by (simp_all add: demo_host_def vault_env.defs)

lemma demo_host_ok:
  "env_ok demo_host" "aead_total demo_host" "kdf_ok demo_host" "uuid_ok demo_host" "policy_codec_ok demo_host"
  "postcard_ser demo_host [] = Some [0]" "postcard_ser demo_host [demo_row] = Some [1]"
proof -
  note d = demo_env_facts
  show "env_ok demo_host" using d(1)
    by (simp add: env_ok_def aead_ok_def postcard_ok_def postcard_fits_def demo_host_env)
  show "aead_total demo_host" using d(2) by (simp add: aead_total_def demo_host_env)
  show "kdf_ok demo_host" using toy_env_ok(3) [of "[[], [demo_row]]"]
    by (simp add: kdf_ok_def demo_host_env demo_env_def)
  show "uuid_ok demo_host" using d(3) by (simp add: uuid_ok_def demo_host_env)
  show "policy_codec_ok demo_host" by (simp add: policy_codec_ok_def)
  show "postcard_ser demo_host [] = Some [0]" "postcard_ser demo_host [demo_row] = Some [1]"
    using d(4,5) by (simp_all add: demo_host_env)
qed

lemma demo_argon2: "argon2_hash demo_host pw s m t p = Inr (replicate 32 (toy_sum (pw @ s)))"
  by (simp add: demo_host_env demo_env_def toy_env_def crypto.defs toy_crypto_def)

lemma demo_derives: "derives demo_host pw KDF_LOW"
  by (simp add: derives_def available_memory_kib_def master_of_def argon2id_within_memory_def demo_argon2
      KDF_LOW_def within_limits_def MAX_P_def MAX_T_def MAX_M_KIB_def sat_mul32_def)

abbreviation demo_opens :: "hsm_slot \<Rightarrow> wrapped_blob \<Rightarrow> bytes \<Rightarrow> unit \<Rightarrow> bool" where
  "demo_opens \<equiv> mock_opens toy_crypto demo_mock"

lemma demo_store: "slot_store (store demo_host) demo_opens prompt_passes never_collides"
proof -
  have "bound_slot_store (store demo_host) demo_opens prompt_passes never_collides"
    unfolding demo_host_fields by (rule mock_slot_store) (rule toy_crypto_ok)
  then show ?thesis by (rule bound_slot_store.axioms(1))
qed

lemma demo_fresh: "fresh_after never_collides demo_host"
  by (simp add: fresh_after_def never_collides_def)

lemma demo_prompt: "drive_prompt demo_prompter r = Inr ()"
  by (simp add: drive_prompt_def demo_prompter_def mock_prompter_def)

lemma demo_willing: "prompt_passes demo_prompter d"
  by (simp add: prompt_passes_def demo_prompt)

lemma demo_enrolls: "enrolls demo_host demo_prompter"
proof -
  have "\<exists>b d' g'. mock_enroll toy_crypto demo_mock slot m demo_prompter x = (Inr b, d', g') \<and>
      length (blob_to_bytes b) \<le> MAX_HSM_BLOB_LEN"
    if m: "length m = KEY_LEN" for slot m and x :: "unit \<times> rng"
  proof -
    obtain d g where x: "x = (d, g)" by (cases x)
    let ?n = "fst (random_nonce toy_crypto g)"
    have "length m < 2 ^ 37" using m by (simp add: KEY_LEN_def)
    then obtain ct where ct: "aead_encrypt toy_crypto (mk_key demo_mock) ?n (mock_aad slot) m = Inr ct"
      using aead_encrypt_total [OF toy_crypto_ok(2)] by blast
    have l: "length ct = 48" using aead_encrypt_length [OF toy_crypto_ok(1) ct] m by (simp add: KEY_LEN_def)
    have "blob_from_parts KSoftwareMock ([slot_tag slot] @ ?n @ ct) =
        Inr \<lparr>wb_kind = KSoftwareMock, wb_payload = [slot_tag slot] @ ?n @ ct\<rparr>"
      using l by (simp add: blob_from_parts_def)
    then show ?thesis
      using ct l by (simp add: x mock_enroll_def check_forced_def demo_mock_def demo_prompt split_def Let_def
          blob_to_bytes_def MAX_HSM_BLOB_LEN_def)
  qed
  then show ?thesis by (simp add: enrolls_def mock_store_def)
qed

lemma demo_app_ready: "is_ok (check_backend_allowed demo_host demo_app)" "no_temps demo_host demo_app"
  "write_fine (write_at demo_host t)"
  by (simp_all add: check_backend_allowed_def demo_app_def no_temps_def write_fine_def io_fine_def)

text \<open>The vault the demonstrations start from.\<close>

lemma demo_created:
  obtains ua uri s where
    "create_vault demo_host pw KDF_LOW totp_config_default demo_prompter demo_app = (Inr (ua, uri), s)"
proof -
  have "\<forall>t. write_fine (write_at demo_host t)" using demo_app_ready(3) by blast
  then show thesis
    using create_vault_total [OF demo_app_ready(1) demo_enrolls demo_derives demo_host_ok(2,1,6) demo_app_ready(2)] that
    by blast
qed

end
