(* ===== verification/UnlockProps.thy ===== *)
theory UnlockProps
  imports Demo
begin

text \<open>
  The guarantees of the locked application: the evidence behind every session \<open>unlock\<close> grants, the
  accounting of failures and their persistence across restarts, the effect on the disk, the lockout
  gate, and that a created vault can always be unlocked again.
\<close>

section \<open>Attempts and restarts\<close>

text \<open>A new process over the same file, device and random source: \<open>App::open\<close> starts from a fresh
  in-process state.\<close>

definition restart :: "'d app \<Rightarrow> 'd app" where
  "restart s = s\<lparr>a_totp_config := totp_config_default, a_verifier := None, a_lockout_mem := lockout_reset\<rparr>"

datatype attempt = Try secret_string ustring prompter | Restart

fun run_attempts :: "('d, 'm) host_scheme \<Rightarrow> attempt list \<Rightarrow> 'd app \<Rightarrow> 'd app" where
  "run_attempts H [] s = s"
| "run_attempts H (Try pw code p # es) s = run_attempts H es (snd (unlock H pw code p s))"
| "run_attempts H (Restart # es) s = run_attempts H es (restart s)"

lemma restart_provisioned:
  "provisioned opens H pw km seed v s \<Longrightarrow> provisioned opens H pw km seed v (restart s)"
  by (simp add: provisioned_def stored_def restart_def)

lemma attempts_keep_provisioned:
  assumes st: "slot_store (store H) opens willing fresh" and "provisioned opens H pw km seed v s"
  shows "\<exists>v'. provisioned opens H pw km seed v' (run_attempts H es s)"
  using assms(2)
proof (induction es arbitrary: s v)
  case Nil
  then show ?case by auto
next
  case (Cons e es)
  show ?case
  proof (cases e)
    case (Try pw' code p)
    obtain r s' where u: "unlock H pw' code p s = (r, s')" by fastforce
    show ?thesis using unlock_keeps_provisioned [OF st Cons.prems u] Cons.IH by (auto simp: Try u)
  next
    case Restart
    then show ?thesis using Cons.IH [OF restart_provisioned [OF Cons.prems]] by simp
  qed
qed

lemma merged_reset:
  "0 \<le> last_at st \<Longrightarrow> merged_lockout st lockout_reset = st"
  by (simp add: merged_lockout_def lockout_reset_def lockout_new_def last_at_def)

lemma lockout_eta: "lockout_new (lk_counter st) (lk_last_failure st) = st"
  by (cases st) (simp add: lockout_new_def)

lemma last_at_after_nonneg: "0 \<le> last_at (after_failure st now)"
proof (cases "unat now < 2 ^ 63")
  case True
  then show ?thesis by (simp add: last_at_after)
next
  case False
  then show ?thesis by (simp add: last_at_def after_failure_def i64_sat_def)
qed

section \<open>Properties\<close>

text \<open>What a granted session rests on.\<close>

lemma unlock_evidence:
  assumes "unlock H pw code p s = (Inr ua, s')"
  shows "\<exists>v k d1 d2. vault_on_disk H s = Inr v \<and> within_limits (kdf_params_of v) \<and>
    remaining (merged_state v s) (clock_at H (a_tick s + 1)) = None \<and>
    unwrapped H VaultKey (k_hsm_wrap_blob v) p (a_device s) = (Inr k, d1) \<and>
    unwrapped H TotpSeed (totp_seed_wrap_blob v) p d1 = (Inr (ua_totp_seed ua), d2) \<and>
    fst (totp_verify (hmac_tag H) (ua_totp_seed ua) code (clock_at H (a_tick s + 2)) (current_verifier s)) = Inr () \<and>
    master_of H pw (vault_salt v) (kdf_params_of v) k
      (fst (available_memory_kib H (s\<lparr>a_tick := a_tick s + 3\<rparr>))) = Inr (k_master ua) \<and>
    verify_probe H v (k_master ua) = Inr () \<and> open_index H v (k_master ua) = Inr (ua_index ua) \<and>
    session_expiry ua = sat_add64 (clock_at H (a_tick s' - 1)) SESSION_SECS"
  using assms
proof (cases rule: unlock_cases)
  case (finish gt s1 km seed s2)
  note g = unlock_gate_Inr [OF finish(1)]
  note q = quiet_fields [OF unlock_factors_quiet [OF finish(2)]]
  have fin: "open_index H (gate_vault gt) km = Inr (ua_index ua)" "k_master ua = km" "ua_totp_seed ua = seed"
    "session_expiry ua = sat_add64 (clock_at H (a_tick s' - 1)) SESSION_SECS"
    using unlock_finish_Inr [OF finish(3), of s1] q by auto
  from finish(2) show ?thesis
  proof (rule unlock_factors_Inr)
    fix k d1 d2 s3
    assume u: "unwrapped H VaultKey (k_hsm_wrap_blob (gate_vault gt)) p (a_device s1) = (Inr k, d1)"
      "unwrapped H TotpSeed (totp_seed_wrap_blob (gate_vault gt)) p d1 = (Inr seed, d2)"
      and v: "verify_totp H seed code (s1\<lparr>a_device := d2\<rparr>) = (Inr (), s3)"
      and m: "derive_master_from_bytes H pw (vault_salt (gate_vault gt)) (kdf_params_of (gate_vault gt)) k s3 = (Inr km, s2)"
      and pr: "verify_probe H (gate_vault gt) km = Inr ()"
    have cv: "current_verifier (s1\<lparr>a_device := d2\<rparr>) = current_verifier s"
      using g by (simp add: current_verifier_def split: option.split)
    have t: "fst (totp_verify (hmac_tag H) seed code (clock_at H (a_tick s + 2)) (current_verifier s)) = Inr ()"
      and t3: "a_tick s3 = a_tick s + 3"
      using v g unfolding verify_totp_result cv by (auto simp: map_err_Inr_iff)
    have "fst (available_memory_kib H s3) = fst (available_memory_kib H (s\<lparr>a_tick := a_tick s + 3\<rparr>))"
      by (simp add: available_memory_kib_def t3)
    then have "master_of H pw (vault_salt (gate_vault gt)) (kdf_params_of (gate_vault gt)) k
        (fst (available_memory_kib H (s\<lparr>a_tick := a_tick s + 3\<rparr>))) = Inr km"
      using derive_master_eq [OF m] by auto
    then show ?thesis using g u t pr fin by auto
  qed
qed simp_all



text \<open>Whatever an attempt does, the vault file afterwards is the one before, or parses to the same
  vault with other rate-limit fields and owner-only mode; no other file than the temporary sibling
  is touched.\<close>

lemma unlock_disk:
  "case unlock H pw code p s of (r, s') \<Rightarrow>
     (a_fs s' (a_path s) = a_fs s (a_path s) \<or>
      (\<exists>v c t f. vault_on_disk H s = Inr v \<and> a_fs s' (a_path s) = Some f \<and> f_mode f = OWNER_ONLY \<and>
         vault_from_bytes (f_content f) = Inr (set_rate_limit c t v))) \<and>
     {q. a_fs s' q \<noteq> a_fs s q} \<subseteq> {a_path s, temp_of H s}"
proof -
  obtain r s' where u: "unlock H pw code p s = (r, s')" by fastforce
  have wf: "vault_from_bytes (vault_to_bytes (set_rate_limit c t v)) = Inr (set_rate_limit c t v)"
    if vd: "vault_on_disk H s = Inr v" for v c t
  proof -
    obtain b where "vault_from_bytes b = Inr v"
      using vd by (auto simp: vault_on_disk_def and_then_Inr_iff map_err_Inr_iff)
    then have "vault_wf v" by (auto dest: vault_from_bytes_Inr)
    then show ?thesis by (intro vault_from_to_bytes setters_wf(2))
  qed
  from unlock_fs [OF u] show ?thesis
  proof
    assume "a_fs s' = a_fs s"
    then show ?thesis by (simp add: u)
  next
    assume "\<exists>v. vault_on_disk H s = Inr v \<and> rate_limit_only H v s s'"
    then obtain v where v: "vault_on_disk H s = Inr v" "rate_limit_only H v s s'" by blast
    note wf' = wf [OF v(1)]
    have "{q. a_fs s' q \<noteq> a_fs s q} \<subseteq> {a_path s, temp_of H s}"
      using v(2) by (auto simp: rate_limit_only_def)
    moreover have "a_fs s' (a_path s) = a_fs s (a_path s) \<or> (\<exists>c t f. a_fs s' (a_path s) = Some f \<and>
        f_mode f = OWNER_ONLY \<and> vault_from_bytes (f_content f) = Inr (set_rate_limit c t v))"
      using v(2) wf' unfolding rate_limit_only_def by (metis file_data.select_convs)
    ultimately show ?thesis using v(1) by (auto simp: u)
  qed
qed

text \<open>C39. While the merged advisory window is open, an attempt is refused before any unwrap, prompt, code
  check, key derivation or write: only the clock has been read and the merged state adopted.\<close>

theorem lockout_blocks:
  assumes "vault_on_disk H s = Inr v" and "within_limits (kdf_params_of v)"
    and "remaining (merged_state v s) (clock_at H (a_tick s + 1)) = Some d"
    and "is_ok (check_backend_allowed H s)"
  shows "\<exists>wait. unlock H pw code p s =
    (Inl (LockedOut wait), s\<lparr>a_lockout_mem := merged_state v s, a_tick := a_tick s + 2\<rparr>)"
proof -
  have "\<not> is_ok (gate_decision H v s)"
    using assms(3) by (auto simp: gate_decision_def Let_def is_ok_iff and_then_Inr_iff)
  then obtain e where e: "gate_decision H v s = Inl e" by (auto simp: is_ok_iff) (metis sum.exhaust)
  obtain wait where "e = LockedOut wait" using gate_decision_Inl [OF e] by blast
  then show ?thesis
    using assms(1,2,4) e by (auto simp: unlock_def st_then_def unlock_gate_eval check_backend_allowed_def split: if_splits)
qed

text \<open>A derivation the host refuses (too little memory) is reported as \<open>BadCredentials\<close> without being
  counted: both slots have been unwrapped and the code consumed, but neither the advisory state nor
  the disk moves.\<close>

lemma derivation_failure_uncounted:
  assumes "unlock_gate H s = (Inr gt, s1)"
    and "unwrapped H VaultKey (k_hsm_wrap_blob (gate_vault gt)) p (a_device s) = (Inr k, d1)"
    and "unwrapped H TotpSeed (totp_seed_wrap_blob (gate_vault gt)) p d1 = (Inr seed, d2)"
    and "verify_totp H seed code (s1\<lparr>a_device := d2\<rparr>) = (Inr (), s2)"
    and "derive_master_from_bytes H pw (vault_salt (gate_vault gt)) (kdf_params_of (gate_vault gt)) k s2 = (Inl e, s3)"
    and "is_ok (check_backend_allowed H s)"
  shows "unlock H pw code p s = (Inl BadCredentials, s3) \<and> a_fs s3 = a_fs s \<and>
    a_lockout_mem s3 = merged_state (gate_vault gt) s \<and> a_verifier s3 = a_verifier s2"
proof -
  note g = unlock_gate_Inr [OF assms(1)]
  have d: "a_device s1 = a_device s" using g by simp
  have "s3 = s2 \<or> s3 = s2\<lparr>a_tick := a_tick s2 + 1\<rparr>" using derive_master_eq [OF assms(5)] by auto
  moreover have "a_fs s2 = a_fs s \<and> a_lockout_mem s2 = merged_state (gate_vault gt) s"
    using quiet_fields [OF keepsD [OF keeps_quiet(7) assms(4)]] g by simp
  ultimately show ?thesis
    using assms d by (auto simp: unlock_def st_then_def unlock_factors_eval check_backend_allowed_def split: if_splits)
qed

text \<open>C40. A recorded failure survives the process: once the write of the header succeeds, an application
  restarted on the file starts its next attempt from exactly the escalated state, so its lockout
  window is the one the old process would have enforced.\<close>

theorem failure_survives_restart:
  assumes "vault_wf v" and "no_temps H s" and "write_fine (write_at H (a_tick s))"
    and "io_stat (read_at H (a_tick s + 1))" "io_read (read_at H (a_tick s + 1))"
    and "length (vault_to_bytes v) \<le> MAX_VAULT_BYTES"
    and "record_failure H v st now s = (u, s')"
  shows "\<exists>v'. vault_on_disk H (restart s') = Inr v' \<and> merged_state v' (restart s') = after_failure st now"
proof -
  let ?st = "after_failure st now"
  let ?v = "set_rate_limit (lk_counter ?st) (lk_last_failure ?st) v"
  have "no_temps H (s\<lparr>a_lockout_mem := ?st\<rparr>)" using assms(2) by (simp add: no_temps_def)
  then obtain s2 where w: "write_vault_file H (vault_to_bytes ?v) (s\<lparr>a_lockout_mem := ?st\<rparr>) = (Inr (), s2)"
    using write_vault_file_ok [of H "s\<lparr>a_lockout_mem := ?st\<rparr>"] assms(3) by auto
  have s': "s' = s2" using assms(7) w by (simp add: record_failure_def Let_def)
  note f = write_vault_file_frame [OF w] write_vault_file_path [OF w]
  have wf: "vault_wf ?v" by (rule setters_wf(2) [OF assms(1)])
  have l: "length (vault_to_bytes ?v) = length (vault_to_bytes v)"
    by (simp add: vault_to_bytes_def set_rate_limit_def push_u16_prefixed_def)
  have "stored ?v (restart s')" using wf f s' by (simp add: stored_def restart_def)
  moreover have "reads_vault H ?v (restart s')" using assms(4-6) f s' l by (simp add: reads_vault_def restart_def)
  ultimately have "vault_on_disk H (restart s') = Inr ?v" by (rule stored_on_disk)
  moreover have "merged_state ?v (restart s') = ?st"
    using merged_reset [OF last_at_after_nonneg [of st now]]
    by (simp add: merged_state_def restart_def set_rate_limit_def lockout_eta)
  ultimately show ?thesis by blast
qed

section \<open>Witnesses\<close>

lemma demo_codes:
  "totp_verify toy_hmac seed (ustr ''000001'') 30 (totp_verifier_new totp_config_default) =
     (Inr (), \<lparr>tv_config = totp_config_default, last_accepted_step = Some 1\<rparr>)"
  "fst (totp_verify toy_hmac seed (ustr ''000002'') 30 \<lparr>tv_config = totp_config_default, last_accepted_step = Some 1\<rparr>) = Inr ()"
proof -
  have u: "[0..<8] = [0, 1, 2, 3, 4, 5, 6, 7 :: nat]" by (simp add: upt_rec)
  have b: "to_be64 0 = [0, 0, 0, 0, 0, 0, 0, 0]" "to_be64 1 = [0, 0, 0, 0, 0, 0, 0, 1]" "to_be64 2 = [0, 0, 0, 0, 0, 0, 0, 2]"
    by (simp_all add: to_be64_def le_bytes_def u)
  have h: "toy_hmac Sha1 seed [0, 0, 0, 0, 0, 0, 0, c] = [0, 0, 0, 0, 0, 0, 0, c, 0, 0, 0, 0, 0, 0, 0, 0, 0, 0, 0, 4]" for c
    by (simp add: toy_hmac_def Let_def eval_nat_numeral)
  have t: "truncate_tag (toy_hmac Sha1 seed (to_be64 0)) = 0" "truncate_tag (toy_hmac Sha1 seed (to_be64 1)) = 1"
    "truncate_tag (toy_hmac Sha1 seed (to_be64 2)) = 2"
    unfolding b h by (simp_all add: truncate_tag_def of_le.simps Let_def)
  have c: "step_code toy_hmac totp_config_default seed 0 = utf8_enc (ustr ''000000'')"
    "step_code toy_hmac totp_config_default seed 1 = utf8_enc (ustr ''000001'')"
    "step_code toy_hmac totp_config_default seed 2 = utf8_enc (ustr ''000002'')"
    using t by (simp_all add: step_code_def hotp_value_def POW10_def totp_config_default_def format_padded_def ustr_def
        utf8_enc_def enc1_def b8_def)
  have w: "window_steps totp_config_default 30 = [0, 1, 2]"
    by (simp add: window_steps_def totp_config_default_def current_step_def sat_sub64_def sat_add64_def step_range_def
        upt_rec)
  have x: "utf8_enc (ustr ''000001'') \<noteq> utf8_enc (ustr ''000000'')" "utf8_enc (ustr ''000001'') \<noteq> utf8_enc (ustr ''000002'')"
    "utf8_enc (ustr ''000002'') \<noteq> utf8_enc (ustr ''000000'')"
    "code_wf totp_config_default (ustr ''000001'')" "code_wf totp_config_default (ustr ''000002'')"
    by (simp_all add: ustr_def utf8_enc_def enc1_def b8_def code_wf_def totp_config_default_def)
  show "totp_verify toy_hmac seed (ustr ''000001'') 30 (totp_verifier_new totp_config_default) =
     (Inr (), \<lparr>tv_config = totp_config_default, last_accepted_step = Some 1\<rparr>)"
    "fst (totp_verify toy_hmac seed (ustr ''000002'') 30 \<lparr>tv_config = totp_config_default, last_accepted_step = Some 1\<rparr>) = Inr ()"
    using c w x by (simp_all add: totp_verify_unfold totp_verifier_new_def word_le_nat_alt)
qed

lemma demo_code: "fst (totp_verify toy_hmac seed (ustr ''000001'') 30 (totp_verifier_new totp_config_default)) = Inr ()"
  by (simp add: demo_codes)

lemma demo_native: "gate_decision demo_host v s = Inr (Gate v (merged_state v s) 30) \<or> merged_state v s \<noteq> lockout_reset"
  by (auto simp: gate_decision_def native_lockout_def mock_store_def mock_lockout_status_def demo_mock_def
      lockout_reset_def remaining_def lockout_minutes_def FREE_ATTEMPTS_def)

lemma demo_unlockable:
  obtains pw ua uri s0 v where
    "create_vault demo_host pw KDF_LOW totp_config_default demo_prompter demo_app = (Inr (ua, uri), s0)"
    "provisioned demo_opens demo_host pw (k_master ua) (ua_totp_seed ua) v s0"
    "cooperates prompt_passes demo_host v (ua_totp_seed ua) (ustr ''000001'') demo_prompter s0"
    "rl_counter v = 0" "rl_last_failure v = 0" "a_lockout_mem s0 = lockout_reset" "kdf_params_of v = KDF_LOW"
    "store_view demo_host (k_master ua) v = Map.empty"
proof -
  let ?pw = "ustr ''correct horse''"
  obtain ua uri s0 where c: "create_vault demo_host ?pw KDF_LOW totp_config_default demo_prompter demo_app = (Inr (ua, uri), s0)"
    by (rule demo_created)
  obtain v where v: "provisioned demo_opens demo_host ?pw (k_master ua) (ua_totp_seed ua) v s0"
      "rl_counter v = 0" "rl_last_failure v = 0" "store_view demo_host (k_master ua) v = Map.empty"
      "kdf_params_of v = KDF_LOW"
    and a': "a_lockout_mem s0 = a_lockout_mem demo_app" "a_verifier s0 = None" "a_totp_config s0 = totp_config_default"
      "a_allow_software_hsm s0 = a_allow_software_hsm demo_app"
    and sz: "\<exists>salt kb sb meta g g'. length salt = 32 \<and>
       vault_create demo_host KDF_LOW salt kb sb meta (k_master ua) g = (Inr v, g')"
    using create_vault_provisions [OF demo_host_ok(1) demo_store demo_fresh c] by (elim exE conjE) blast
  have a: "a_lockout_mem s0 = lockout_reset" "a_verifier s0 = None" "a_totp_config s0 = totp_config_default"
      "a_allow_software_hsm s0" using a' by (simp_all add: demo_app_def)
  have "length (vault_to_bytes v) \<le> MAX_VAULT_BYTES"
    using sz vault_create_size [OF _ demo_host_ok(1) _ demo_host_ok(6)] by auto
  then have r: "reads_vault demo_host v s0" by (simp add: reads_vault_def)
  have m: "merged_state v s0 = lockout_reset"
    using v(2,3) a(1) by (simp add: merged_state_def lockout_new_def merged_lockout_def lockout_reset_def)
  have "cooperates prompt_passes demo_host v (ua_totp_seed ua) (ustr ''000001'') demo_prompter s0"
    using demo_code [of "ua_totp_seed ua"] demo_native [of v s0] r m a demo_willing
    by (simp add: cooperates_def check_backend_allowed_def current_verifier_def memory_fits_def
        available_memory_kib_def)
  then show thesis using that [OF c v(1)] v a by blast
qed


lemma lockout_blocks_witness:
  "\<exists>s wait s'. unlock demo_host [] [] demo_prompter s = (Inl (LockedOut wait), s') \<and> a_device s' = a_device s \<and> a_fs s' = a_fs s"
proof -
  obtain pw s0 v0 and ua0 :: unlocked_app where p: "provisioned demo_opens demo_host pw (k_master ua0) (ua_totp_seed ua0) v0 s0"
    and co: "cooperates prompt_passes demo_host v0 (ua_totp_seed ua0) (ustr ''000001'') demo_prompter s0"
    and r: "rl_counter v0 = 0" "rl_last_failure v0 = 0"
    by (rule demo_unlockable) blast
  let ?s = "s0\<lparr>a_lockout_mem := \<lparr>lk_counter = 3, lk_last_failure = 20\<rparr>\<rparr>"
  have "vault_on_disk demo_host s0 = Inr v0" using p co stored_on_disk by (auto simp: provisioned_def cooperates_def)
  then have v: "vault_on_disk demo_host ?s = Inr v0" by (simp add: vault_on_disk_def)
  obtain k avail where "master_of demo_host pw (vault_salt v0) (kdf_params_of v0) k avail = Inr (k_master ua0)"
    using p by (auto simp: provisioned_def keyed_def)
  then have w: "within_limits (kdf_params_of v0)" by (rule master_of_within)
  have m: "merged_state v0 ?s = \<lparr>lk_counter = 3, lk_last_failure = 20\<rparr>"
    using r by (simp add: merged_state_def merged_lockout_def lockout_new_def)
  have rem: "remaining (merged_state v0 ?s) (clock_at demo_host (a_tick ?s + 1)) = Some (from_secs 590)"
    unfolding m by (simp add: remaining_def lockout_minutes_def FREE_ATTEMPTS_def CAP_AT_ATTEMPTS_def MAX_LOCKOUT_MIN_def
        sat_mul64_def SECS_PER_MIN_def sat_add64_def)
  have b: "is_ok (check_backend_allowed demo_host ?s)" using co by (simp add: cooperates_def check_backend_allowed_def)
  show ?thesis using lockout_blocks [OF v w rem b, of "[]" "[]" demo_prompter] by force
qed

lemma derivation_failure_uncounted_witness:
  "\<exists>H :: unit host. \<exists>s pw s'. unlock H pw (ustr ''000001'') demo_prompter s = (Inl BadCredentials, s') \<and>
     a_fs s' = a_fs s \<and> a_lockout_mem s' = lockout_reset \<and>
     (\<exists>ua t. unlock demo_host pw (ustr ''000001'') demo_prompter s = (Inr ua, t))"
proof -
  obtain pw s0 v0 and ua0 :: unlocked_app where p: "provisioned demo_opens demo_host pw (k_master ua0) (ua_totp_seed ua0) v0 s0"
    and co: "cooperates prompt_passes demo_host v0 (ua_totp_seed ua0) (ustr ''000001'') demo_prompter s0"
    and r: "rl_counter v0 = 0" "rl_last_failure v0 = 0" "a_lockout_mem s0 = lockout_reset" "kdf_params_of v0 = KDF_LOW"
    by (rule demo_unlockable) blast
  let ?H = "demo_host\<lparr>meminfo_at := \<lambda>_. Some (ustr ''MemAvailable: 9 kB'')\<rparr>"
  obtain ua t where u: "unlock demo_host pw (ustr ''000001'') demo_prompter s0 = (Inr ua, t)"
    using provisioned_unlocks [OF demo_store p co] by blast
  have mem: "mem_available (str_lines (ustr ''MemAvailable: 9 kB'')) = Some 9"
    by (simp add: ustr_def str_lines_def strip_cr_def strip_prefix_def first_word_def is_whitespace_def parse_u64_def
        digits_value_def Let_def)
  have m: "merged_state v0 s0 = lockout_reset"
    using r by (simp add: merged_state_def merged_lockout_def lockout_new_def lockout_reset_def)
  have "vault_on_disk demo_host s0 = Inr v0" using p co stored_on_disk by (auto simp: provisioned_def cooperates_def)
  then have vd: "vault_on_disk ?H s0 = Inr v0" by (simp add: vault_on_disk_def)
  have "gate_decision ?H v0 s0 = Inr (Gate v0 lockout_reset 30)"
    using demo_native [of v0 s0] m by (simp add: gate_decision_def native_lockout_def)
  moreover have "within_limits (kdf_params_of v0)" using r(4) demo_derives [of "[]"]
    by (auto simp: derives_def is_ok_iff dest: master_of_within)
  ultimately have G: "unlock_gate ?H s0 = (Inr (Gate v0 lockout_reset 30), s0\<lparr>a_lockout_mem := lockout_reset, a_tick := a_tick s0 + 2\<rparr>)"
    using vd m by (simp add: unlock_gate_eval)
  have K: "keyed demo_opens demo_host pw (k_master ua0) v0 (a_device s0)"
    and S: "seeded demo_opens (ua_totp_seed ua0) v0 (a_device s0)" using p by (simp_all add: provisioned_def)
  obtain k d1 d2 where U: "unwrapped demo_host VaultKey (k_hsm_wrap_blob v0) demo_prompter (a_device s0) = (Inr k, d1)"
    "length k = KEY_LEN" "unwrapped demo_host TotpSeed (totp_seed_wrap_blob v0) demo_prompter d1 = (Inr (ua_totp_seed ua0), d2)"
    using keyed_unwraps [OF demo_store K S demo_willing] by blast
  have U': "unwrapped ?H sl b q d = unwrapped demo_host sl b q d" for sl b q d
    by (cases "blob_from_bytes b") (simp_all add: unwrapped_def)
  let ?s1 = "s0\<lparr>a_lockout_mem := lockout_reset, a_tick := a_tick s0 + 2, a_device := d2\<rparr>"
  have cv: "current_verifier ?s1 = current_verifier s0" by (simp add: current_verifier_def split: option.split)
  obtain s2 where V: "verify_totp ?H (ua_totp_seed ua0) (ustr ''000001'') ?s1 = (Inr (), s2)"
    using co unfolding verify_totp_result cv by (simp add: cooperates_def)
  have D: "\<exists>e s3. derive_master_from_bytes ?H pw (vault_salt v0) (kdf_params_of v0) k s2 = (Inl e, s3)"
    using U(2) r(4) mem by (simp add: derive_master_from_bytes_def derive_master_def into_key_def st_then_def st_lift_def
        st_do_def available_memory_kib_def master_of_def argon2id_within_memory_def memory_cost_fits_def KDF_LOW_def)
  then obtain e s3 where D: "derive_master_from_bytes ?H pw (vault_salt v0) (kdf_params_of v0) k s2 = (Inl e, s3)" by blast
  have b: "is_ok (check_backend_allowed ?H s0)" using co by (simp add: cooperates_def check_backend_allowed_def)
  have "unlock ?H pw (ustr ''000001'') demo_prompter s0 = (Inl BadCredentials, s3) \<and> a_fs s3 = a_fs s0 \<and>
      a_lockout_mem s3 = lockout_reset"
    using derivation_failure_uncounted [OF G, of demo_prompter k d1 "ua_totp_seed ua0" d2 "ustr ''000001''" s2 pw e s3]
      U V D b m by (simp add: U')
  then show ?thesis using u by blast
qed

lemma failure_survives_restart_witness:
  "\<exists>v'. vault_on_disk demo_host (restart (snd (record_failure demo_host demo_vault lockout_reset 30 demo_app))) = Inr v' \<and>
     rl_counter v' = 1 \<and> rl_last_failure v' = 30"
proof -
  obtain t where t: "record_failure demo_host demo_vault lockout_reset 30 demo_app = ((), t)"
    by (cases "record_failure demo_host demo_vault lockout_reset 30 demo_app") simp
  have "length (vault_to_bytes demo_vault) \<le> MAX_VAULT_BYTES"
    by (simp add: demo_vault_def vault_to_bytes_def push_u16_prefixed_def push_u32_prefixed_def MAX_VAULT_BYTES_def
        envelope_bytes_def demo_id_def)
  then obtain v' where v': "vault_on_disk demo_host (restart t) = Inr v'"
    "merged_state v' (restart t) = after_failure lockout_reset 30"
    using failure_survives_restart [OF demo_vault_wf demo_app_ready(2,3) _ _ _ t] by auto
  let ?m = "\<lparr>lk_counter = max (rl_counter v') 0, lk_last_failure = if sint (rl_last_failure v') < 0 then 0 else rl_last_failure v'\<rparr>"
  have "after_failure lockout_reset 30 = ?m"
    using v'(2) by (simp add: merged_state_def restart_def merged_lockout_def lockout_new_def lockout_reset_def
        split: if_splits)
  moreover have "after_failure lockout_reset 30 = \<lparr>lk_counter = 1, lk_last_failure = 30\<rparr>"
    by (simp add: after_failure_def lockout_reset_def sat_add64_def i64_sat_def)
  ultimately have "rl_counter v' = 1 \<and> rl_last_failure v' = 30" by (auto split: if_splits simp: max_def)
  then show ?thesis using v'(1) t by simp
qed

end
