(* ===== verification/SessionProps.thy ===== *)
theory SessionProps
  imports Unlocked UnlockProps
begin

text \<open>
  The time bound of a session.  The reachable states of a session are those of the step relation
  \<open>session_call\<close>, one rule per public operation; its hard expiry never moves later, a copy moves it
  closer, and past it every guarded operation is refused without an effect.
\<close>

section \<open>Calls on a session\<close>

text \<open>\<open>admits\<close> restricts the records stored, \<open>honest\<close> the prompts of a password change; both are arbitrary here.\<close>

inductive session_call :: "('d, 'm) host_scheme \<Rightarrow> 'c clipboard \<Rightarrow> (entry_record \<Rightarrow> bool) \<Rightarrow> (prompter \<Rightarrow> 'd \<Rightarrow> bool) \<Rightarrow>
    ('d app \<times> unlocked_app) \<times> 'c \<Rightarrow> ('d app \<times> unlocked_app) \<times> 'c \<Rightarrow> bool" for H K admits honest where
  call_list: "on_fst (list_entries H) x = (r, y) \<Longrightarrow> session_call H K admits honest x y"
| call_reveal: "on_fst (with_revealed H i (\<lambda>r. select_field r f)) x = (r, y) \<Longrightarrow> session_call H K admits honest x y"
| call_copy: "copy_to_clipboard H K i f x = (r, y) \<Longrightarrow> session_call H K admits honest x y"
| call_clear: "clear_clipboard_with H K ck fo x = (out, y) \<Longrightarrow> session_call H K admits honest x y"
| call_add: "admits rec \<Longrightarrow> on_fst (add_entry H l pol rec) x = (r, y) \<Longrightarrow> session_call H K admits honest x y"
| call_update: "admits rec \<Longrightarrow> on_fst (update_entry H i l pol rec) x = (r, y) \<Longrightarrow> session_call H K admits honest x y"
| call_remove: "on_fst (session_remove H i) x = (r, y) \<Longrightarrow> session_call H K admits honest x y"
| call_generate: "generate_password H req (fst x) = Some (r, y) \<Longrightarrow> session_call H K admits honest x (y, snd x)"
| call_estimate: "on_fst (estimate_master_strength H pw ins) x = (r, y) \<Longrightarrow> session_call H K admits honest x y"
| call_verify: "on_fst (verify_totp_code H code) x = (b, y) \<Longrightarrow> session_call H K admits honest x y"
| call_change: "honest p (a_device (fst (fst x))) \<Longrightarrow> on_fst (change_master_password H old new kdf p) x = (r, y) \<Longrightarrow> session_call H K admits honest x y"
| call_export: "on_fst (export_recovery H pw code preset p) x = (r, y) \<Longrightarrow> session_call H K admits honest x y"
| call_expired: "on_fst (is_expired H) x = (b, y) \<Longrightarrow> session_call H K admits honest x y"

section \<open>Relations kept by the steps of a session\<close>

lemma keeps_on_fst: "keeps R f \<Longrightarrow> keeps (\<lambda>x y. R (fst x) (fst y) \<and> snd y = snd x) (on_fst f)"
  by (simp add: keeps_def on_fst_def split_def)

lemma keeps_weaken: "keeps R f \<Longrightarrow> (\<And>x y. R x y \<Longrightarrow> Q x y) \<Longrightarrow> keeps Q f"
  by (simp add: keeps_def)

lemma keeps_with_session: "(\<And>ua. keeps R (f ua)) \<Longrightarrow> keeps R (with_session f)"
  by (simp add: keeps_def with_session_def)

lemma keeps_if: "keeps R f \<Longrightarrow> keeps R g \<Longrightarrow> keeps R (if b then f else g)"
  by simp

lemma keeps_case_prod: "(\<And>a b. keeps R (f a b)) \<Longrightarrow> keeps R (case p of (a, b) \<Rightarrow> f a b)"
  by (simp split: prod.split)

text \<open>A relation between the session's fields before and after an operation.  It has to allow what the
  operations do to them: a new index, a new key, an earlier expiry.  Every operation then keeps it.\<close>

locale session_relation =
  fixes R :: "unlocked_app \<Rightarrow> unlocked_app \<Rightarrow> bool"
  assumes reflexive: "R u u" and transitive: "R u v \<Longrightarrow> R v w \<Longrightarrow> R u w"
    and index_allowed: "R u (u\<lparr>ua_index := ix\<rparr>)" and key_allowed: "R u (u\<lparr>k_master := km\<rparr>)"
    and sooner_allowed: "e \<le> session_expiry u \<Longrightarrow> R u (u\<lparr>session_expiry := e\<rparr>)"
begin

definition fields :: "'s \<times> unlocked_app \<Rightarrow> 's \<times> unlocked_app \<Rightarrow> bool" where
  "fields x y \<longleftrightarrow> R (snd x) (snd y)"

lemma fields_preorder: "preorder fields"
  by (auto simp: preorder_def fields_def intro: reflexive transitive)

lemma fields_fst: "keeps fields (on_fst f)"
  by (simp add: keeps_def on_fst_def fields_def split_def reflexive)

lemma fields_set: "(\<And>ua. R ua (f ua)) \<Longrightarrow> keeps fields (set_session f)"
  by (simp add: keeps_def set_session_def on_snd_def fields_def)

lemma fields_ensure: "keeps fields (ensure_unlocked H)" "keeps fields (session_now H)"
    "keeps fields (session_now_i64 H)" "keeps fields (is_expired H)" "keeps fields (load_vault H)"
    "keeps fields (clamp_session H)" "keeps fields (verify_totp_code H code)"
  by (auto simp: keeps_def ensure_unlocked_def session_now_def session_now_i64_def is_expired_def on_fst_def
      load_vault_def clamp_session_def set_session_def on_snd_def fields_def verify_totp_code_def with_session_def
      reflexive intro: sooner_allowed split: prod.splits)

lemmas fields_rules = keeps_rules keeps_with_session keeps_if fields_preorder fields_fst fields_ensure

lemma fields_refresh: "keeps fields (refresh_index H v)"
  unfolding refresh_index_def by (intro fields_rules fields_set index_allowed)

lemma fields_persist: "keeps fields (persist_and_refresh H v)"
  unfolding persist_and_refresh_def by (intro fields_rules fields_refresh)

lemma fields_upsert: "keeps fields (upsert_entry H i l p r)"
  unfolding upsert_entry_def by (intro fields_rules fields_persist)

lemma fields_decrypt: "keeps fields (session_decrypt H i)"
  unfolding session_decrypt_def by (intro fields_rules)

lemma fields_reencrypt: "keeps fields (reencrypt_vault H v salt kdf km)"
  unfolding reencrypt_vault_def by (intro fields_rules)

lemma fields_stages:
  "keeps fields (change_rebuild H old new kdf pr)"
  "keeps fields (export_file H pw code preset pr)"
  unfolding change_rebuild_def export_file_def
  by (intro fields_rules fields_reencrypt keeps_case_prod)+

lemma fields_ops:
  "keeps fields (list_entries H)"
  "keeps fields (with_revealed H i f)"
  "keeps fields (add_entry H l p r)"
  "keeps fields (update_entry H i l p r)"
  "keeps fields (session_remove H i)"
  "keeps fields (estimate_master_strength H pw ins)"
  "keeps fields (change_master_password H old new kdf pr)"
  "keeps fields (export_recovery H pw code preset pr)"
  unfolding list_entries_def with_revealed_def add_entry_def update_entry_def session_remove_def
    estimate_master_strength_def change_master_password_def export_recovery_def
  by (intro fields_rules fields_set index_allowed key_allowed fields_upsert fields_persist fields_decrypt fields_stages
      fields_refresh keeps_case_prod)+

lemma fields_copy:
  assumes "copy_to_clipboard H K i f x = (r, y)"
  shows "R (snd (fst x)) (snd (fst y))"
proof -
  obtain d z where d: "session_decrypt H i (fst x) = (d, z)" by (cases "session_decrypt H i (fst x)") simp
  obtain w where w: "clamp_session H z = ((), w)" by (cases "clamp_session H z") simp
  have z: "R (snd (fst x)) (snd z)" using keepsD [OF fields_decrypt d] by (simp add: fields_def)
  have "R (snd z) (snd w)" using keepsD [OF fields_ensure(6) w] by (simp add: fields_def)
  then show ?thesis using assms d w z transitive [OF z]
    by (auto simp: copy_to_clipboard_def on_fst_def on_snd_def st_do_def st_then_def st_lift_def split: prod.splits sum.splits)
qed

lemma fields_generate: "generate_password H req x = Some (r, y) \<Longrightarrow> R (snd x) (snd y)"
  using keepsD [OF fields_ensure(1), of H x]
  by (auto simp: generate_password_def fields_def bind_eq_Some_conv split: prod.splits sum.splits)

lemma fields_call: "session_call H K admits honest x y \<Longrightarrow> R (snd (fst x)) (snd (fst y))"
proof (induction rule: session_call.induct)
  case (call_copy i f x r y)
  then show ?case using fields_copy by blast
next
  case (call_clear ck fo x out y)
  then show ?case by (auto simp: clear_clipboard_with_def reflexive split: prod.splits)
next
  case (call_generate req x r y)
  then show ?case using fields_generate by fastforce
qed (auto simp: on_fst_def fields_def split: prod.splits
    dest!: keepsD [OF fields_ops(1)] keepsD [OF fields_ops(2)] keepsD [OF fields_ops(3)]
      keepsD [OF fields_ops(4)] keepsD [OF fields_ops(5)] keepsD [OF fields_ops(6)]
      keepsD [OF fields_ops(7)] keepsD [OF fields_ops(8)] keepsD [OF fields_ensure(4)]
      keepsD [OF fields_ensure(7)])

lemma fields_calls: "(session_call H K admits honest)\<^sup>*\<^sup>* x y \<Longrightarrow> R (snd (fst x)) (snd (fst y))"
  by (induction rule: rtranclp_induct) (auto intro: reflexive transitive dest: fields_call)

end

text \<open>The hard bound: the expiry does not move later.  The secrets that identify a session stay.\<close>

interpretation deadline: session_relation "\<lambda>u w. session_expiry w \<le> session_expiry u"
  by unfold_locales auto

interpretation identity: session_relation "\<lambda>u w. ua_totp_seed w = ua_totp_seed u \<and> session_token w = session_token u"
  by unfold_locales auto

lemma copy_to_clipboard_expiry:
  assumes "copy_to_clipboard H K i f x = (r, y)"
  shows "session_expiry (snd (fst y)) \<le> session_expiry (snd (fst x)) \<and>
    (is_ok r \<longrightarrow> session_expiry (snd (fst y)) \<le> sat_add64 (clock_at H (a_tick (fst (fst y)) - 1)) POST_COPY_SECS)"
proof -
  obtain d z where d: "session_decrypt H i (fst x) = (d, z)" by (cases "session_decrypt H i (fst x)") simp
  have z: "session_expiry (snd z) \<le> session_expiry (snd (fst x))"
    using keepsD [OF deadline.fields_decrypt d] by (simp add: deadline.fields_def)
  show ?thesis
    using assms z
    by (auto simp: copy_to_clipboard_def on_fst_def on_snd_def st_do_def d clamp_session_def session_now_def
        clock_now_def set_session_def st_then_def st_lift_def intro: min.coboundedI1 split: prod.splits sum.splits)
qed

text \<open>What a refusal is: the error, and nothing but one reading of the clock.\<close>

definition refuses :: "('d app \<times> unlocked_app \<Rightarrow> (core_error + 'r) \<times> 'd app \<times> unlocked_app) \<Rightarrow>
    'd app \<times> unlocked_app \<Rightarrow> bool" where
  "refuses m x \<longleftrightarrow> m x = (Inl SessionLocked, (fst x)\<lparr>a_tick := a_tick (fst x) + 1\<rparr>, snd x)"

lemma expired_ensure:
  "session_expiry (snd x) \<le> clock_at H (a_tick (fst x)) \<Longrightarrow> refuses (ensure_unlocked H) x"
  by (simp add: refuses_def ensure_unlocked_def session_now_def on_fst_def clock_now_def)

lemma refuses_then: "refuses m x \<Longrightarrow> refuses (st_then m f) x"
  by (simp add: refuses_def)

section \<open>Property\<close>

text \<open>C21. The timeout is hard: whatever sequence of operations a session has served, from the time it
  was due to expire when it was granted every guarded operation is refused with \<open>Locked\<close>, and
  neither the disk, the device, the randomness, the clipboard nor the session changes.\<close>

theorem session_hard_timeout:
  assumes "(session_call H K admits honest)\<^sup>*\<^sup>* x (y, c)"
    and "session_expiry (snd (fst x)) \<le> clock_at H (a_tick (fst y))"
  shows "refuses (list_entries H) y \<and> refuses (with_revealed H i g) y \<and>
    refuses (add_entry H l pol rec) y \<and> refuses (update_entry H i l pol rec) y \<and>
    refuses (session_remove H i) y \<and> refuses (estimate_master_strength H pw ins) y \<and>
    refuses (change_master_password H old new kdf p) y \<and> refuses (export_recovery H pw code preset p) y \<and>
    generate_password H req y = Some (Inl SessionLocked, (fst y)\<lparr>a_tick := a_tick (fst y) + 1\<rparr>, snd y) \<and>
    copy_to_clipboard H K i f (y, c) = (Inl SessionLocked, ((fst y)\<lparr>a_tick := a_tick (fst y) + 1\<rparr>, snd y), c)"
proof -
  have "session_expiry (snd y) \<le> session_expiry (snd (fst x))" using deadline.fields_calls [OF assms(1)] by simp
  then have e: "refuses (ensure_unlocked H) y" by (intro expired_ensure) (use assms(2) in simp)
  have d: "refuses (session_decrypt H i) y" unfolding session_decrypt_def by (rule refuses_then [OF e])
  show ?thesis
    using e d refuses_then [OF e] refuses_then [OF d] refuses_then [OF refuses_then [OF e]]
    by (simp add: list_entries_def with_revealed_def add_entry_def update_entry_def session_remove_def
        estimate_master_strength_def change_master_password_def export_recovery_def change_rebuild_def export_file_def)
      (simp add: refuses_def generate_password_def copy_to_clipboard_def on_fst_def st_then_def)
qed

lemma session_hard_timeout_witness:
  "\<exists>H :: unit host. \<exists>x y c. (session_call H (system_clipboard_ops toy_arboard) (\<lambda>_. True) (\<lambda>_ _. True))\<^sup>*\<^sup>* x (y, c) \<and>
     clock_at H (a_tick (fst (fst x))) < session_expiry (snd (fst x)) \<and>
     session_remove H demo_id y = (Inl SessionLocked, (fst y)\<lparr>a_tick := 2\<rparr>, snd y)"
proof -
  let ?H = "demo_host\<lparr>clock_at := \<lambda>t. if t = 0 then 30 else 200\<rparr>" and ?K = "system_clipboard_ops toy_arboard"
  let ?ua = "\<lparr>k_master = replicate 32 9, ua_totp_seed = [], ua_index = [demo_row], session_expiry = 150, session_token = []\<rparr>"
  let ?x = "((demo_app, ?ua), system_clipboard_new None)"
  let ?y = "((demo_app\<lparr>a_tick := 1\<rparr>, ?ua), system_clipboard_new None)"
  have "on_fst (list_entries ?H) ?x = (Inr [\<lparr>eh_id = demo_id, eh_label = ustr ''mail''\<rparr>], ?y)"
    by (simp add: on_fst_def list_entries_def ensure_unlocked_def session_now_def clock_now_def demo_app_def
        with_session_def st_lift_def demo_row_def st_then_def)
  then have r: "(session_call ?H ?K (\<lambda>_. True) (\<lambda>_ _. True))\<^sup>*\<^sup>* ?x (fst ?y, snd ?y)"
    using call_list [of ?H ?x _ ?y ?K] by auto
  have t: "session_expiry (snd (fst ?x)) \<le> clock_at ?H (a_tick (fst (fst ?y)))" by simp
  have "refuses (session_remove ?H demo_id) (fst ?y)"
    using session_hard_timeout [OF r t] by blast
  then show ?thesis using r
    by (intro exI [of _ ?H] exI [of _ ?x] exI [of _ "fst ?y"] exI [of _ "snd ?y"])
      (simp add: refuses_def demo_app_def)
qed

end
