(* ===== verification/SessionStore.thy ===== *)
theory SessionStore
  imports SessionProps
begin

text \<open>
  What a session does to the vault.  \<open>in_session\<close> ties the session's key and index to the vault on
  disk and to the password that unlocks it; under it every operation is a step of the abstract store:
  a map from identifiers to entries, and the current password.
\<close>

section \<open>Session and vault in agreement\<close>

definition in_session :: "(hsm_slot \<Rightarrow> wrapped_blob \<Rightarrow> bytes \<Rightarrow> 'd \<Rightarrow> bool) \<Rightarrow> ('d, 'm) host_scheme \<Rightarrow>
    secret_string \<Rightarrow> vault \<Rightarrow> 'd app \<times> unlocked_app \<Rightarrow> bool" where
  "in_session opens H pw v x \<longleftrightarrow>
     provisioned opens H pw (k_master (snd x)) (ua_totp_seed (snd x)) v (fst x) \<and>
     open_index H v (k_master (snd x)) = Inr (ua_index (snd x))"

abbreviation session_view :: "('d, 'm) host_scheme \<Rightarrow> vault \<Rightarrow> 'd app \<times> unlocked_app \<Rightarrow> entry_id \<rightharpoonup> entry_view" where
  "session_view H v x \<equiv> store_view H (k_master (snd x)) v"

section \<open>Steps that leave the vault file alone\<close>

definition same_fs :: "'d app \<Rightarrow> 'd app \<Rightarrow> bool" where
  "same_fs s s' \<longleftrightarrow> a_fs s' = a_fs s"

lemma same_fs_preorder: "preorder same_fs"
  by (simp add: preorder_def same_fs_def)

lemma keeps_fs_basic:
  "keeps same_fs (clock_now H)"
  "keeps same_fs (now_unix_secs H)"
  "keeps same_fs (on_rng f)"
  "keeps same_fs (read_vault_file H)"
  "keeps same_fs (available_memory_kib H)"
  "keeps same_fs (verify_totp H seed code)"
  "keeps same_fs (unwrap_bytes H slot b p)"
  by (auto simp: keeps_def same_fs_def clock_now_def now_unix_secs_def on_rng_def read_vault_file_def
      available_memory_kib_def verify_totp_def unwrap_bytes_def Let_def split: prod.splits sum.splits)

lemma keeps_fs_derive: "keeps same_fs (derive_master_from_bytes H pw salt P k)"
  unfolding derive_master_from_bytes_def derive_master_def
  by (intro keeps_rules same_fs_preorder keeps_fs_basic)

definition undisturbed :: "(hsm_slot \<Rightarrow> wrapped_blob \<Rightarrow> bytes \<Rightarrow> 'd \<Rightarrow> bool) \<Rightarrow> 'd app \<times> unlocked_app \<Rightarrow>
    'd app \<times> unlocked_app \<Rightarrow> bool" where
  "undisturbed opens x y \<longleftrightarrow> slots_kept opens (fst x) (fst y) \<and> same_fs (fst x) (fst y) \<and>
     k_master (snd y) = k_master (snd x) \<and> ua_totp_seed (snd y) = ua_totp_seed (snd x) \<and>
     ua_index (snd y) = ua_index (snd x)"

lemma undisturbed_preorder: "preorder (undisturbed opens)"
  by (auto simp: preorder_def undisturbed_def slots_kept_def same_fs_def)

lemma in_session_undisturbed: "in_session opens H pw v x \<Longrightarrow> undisturbed opens x y \<Longrightarrow> in_session opens H pw v y"
  unfolding in_session_def undisturbed_def
  using provisioned_frame [of opens H pw _ _ v "fst x" "fst y"] by (simp add: same_fs_def)

lemma keeps_undisturbed_fst:
  "keeps (slots_kept opens) f \<Longrightarrow> keeps same_fs f \<Longrightarrow> keeps (undisturbed opens) (on_fst f)"
  by (simp add: keeps_def on_fst_def undisturbed_def split_def)

lemma keeps_undisturbed_basic:
  "keeps (undisturbed opens) (session_now H)"
  "keeps (undisturbed opens) (on_fst (on_rng f))"
  "keeps (undisturbed opens) (on_fst (derive_master_from_bytes H pw salt P k))"
  "keeps (undisturbed opens) (on_fst (available_memory_kib H))"
  "keeps (undisturbed opens) (on_fst (verify_totp H seed code))"
  "keeps (undisturbed opens) (on_fst (st_err h (on_rng f')))"
  unfolding session_now_def
  by (intro keeps_undisturbed_fst keeps_slots_basic keeps_slots_derive keeps_fs_basic keeps_fs_derive keeps_err)+

lemma keeps_undisturbed_load: "keeps (undisturbed opens) (load_vault H)"
  unfolding load_vault_def
  by (intro keeps_undisturbed_fst keeps_rules slots_kept_preorder same_fs_preorder keeps_slots_basic keeps_fs_basic)

lemma keeps_undisturbed_now:
  "keeps (undisturbed opens) (session_now_i64 H)"
  "keeps (undisturbed opens) (is_expired H)"
  "keeps (undisturbed opens) (ensure_unlocked H)"
  using keeps_undisturbed_basic(1) [of opens H]
  by (auto simp: keeps_def session_now_i64_def is_expired_def ensure_unlocked_def split_def)

lemma keeps_undisturbed_put: "keeps (undisturbed opens) (on_fst (put_entry H km i l p r v))"
  unfolding put_entry_def by (rule keeps_undisturbed_basic(2))

lemma keeps_undisturbed_drop: "keeps (undisturbed opens) (on_fst (drop_entry H km i v))"
  unfolding drop_entry_def by (rule keeps_undisturbed_basic(2))

lemmas undisturbed_rules = keeps_rules keeps_with_session keeps_if undisturbed_preorder keeps_undisturbed_basic
  keeps_undisturbed_load keeps_undisturbed_now keeps_undisturbed_put keeps_undisturbed_drop

lemma keeps_undisturbed_decrypt: "keeps (undisturbed opens) (session_decrypt H i)"
  unfolding session_decrypt_def by (intro undisturbed_rules)

lemma keeps_undisturbed_reads:
  "keeps (undisturbed opens) (list_entries H)"
  "keeps (undisturbed opens) (with_revealed H i f)"
  "keeps (undisturbed opens) (estimate_master_strength H pw ins)"
  unfolding list_entries_def with_revealed_def estimate_master_strength_def
  by (intro undisturbed_rules keeps_undisturbed_decrypt)+

lemma keeps_undisturbed_verify: "keeps (undisturbed opens) (verify_totp_code H code)"
proof -
  have "keeps (undisturbed opens) (\<lambda>x. case on_fst (verify_totp H seed code) x of (r, x') \<Rightarrow> (is_ok r, x'))" for seed
    using keeps_undisturbed_basic(5) [of opens H seed code] by (simp add: keeps_def split_def)
  then show ?thesis unfolding verify_totp_code_def by (intro keeps_with_session)
qed

lemma keeps_undisturbed_clamp: "keeps (undisturbed opens) (clamp_session H)"
  using keeps_undisturbed_basic(1) [of opens H]
  by (auto simp: keeps_def clamp_session_def set_session_def on_snd_def undisturbed_def split_def)

lemma keeps_undisturbed_unwrap:
  assumes "slot_store (store H) opens willing fresh"
  shows "keeps (undisturbed opens) (on_fst (unwrap_slot_core H slot b p))"
  unfolding unwrap_slot_core_def
  by (intro keeps_undisturbed_fst keeps_err keeps_slots_unwrap [OF assms] keeps_fs_basic)

section \<open>Writing a changed vault\<close>

text \<open>The parts of a vault its credentials depend on.\<close>

definition same_lock :: "vault \<Rightarrow> vault \<Rightarrow> bool" where
  "same_lock v v' \<longleftrightarrow> k_hsm_wrap_blob v' = k_hsm_wrap_blob v \<and> totp_seed_wrap_blob v' = totp_seed_wrap_blob v \<and>
     vault_salt v' = vault_salt v \<and> kdf_params_of v' = kdf_params_of v"

text \<open>The same credentials open both vaults.\<close>

definition same_door :: "('d, 'm) host_scheme \<Rightarrow> vault \<Rightarrow> vault \<Rightarrow> bool" where
  "same_door H v v' \<longleftrightarrow> same_lock v v' \<and> (\<forall>k. verify_probe H v' k = verify_probe H v k)"

lemma same_door_refl [simp]: "same_door H v v"
  by (simp add: same_door_def same_lock_def)

lemma same_door_if [simp]: "same_door H v (if b then v' else v) \<longleftrightarrow> b \<longrightarrow> same_door H v v'"
  by simp

lemma same_door_trans: "same_door H u v \<Longrightarrow> same_door H v w \<Longrightarrow> same_door H u w"
  by (simp add: same_door_def same_lock_def)

abbreviation same_keys :: "'s \<times> unlocked_app \<Rightarrow> 's \<times> unlocked_app \<Rightarrow> bool" where
  "same_keys x y \<equiv> k_master (snd y) = k_master (snd x) \<and> ua_totp_seed (snd y) = ua_totp_seed (snd x)"

lemma same_lock_keyed:
  "same_lock v v' \<Longrightarrow> keyed opens H pw km v d \<Longrightarrow> keyed opens H pw km v' d"
  "same_lock v v' \<Longrightarrow> seeded opens seed v d \<Longrightarrow> seeded opens seed v' d"
  by (simp_all add: same_lock_def keyed_def seeded_def)

lemma write_provisioned:
  assumes "provisioned opens H pw km seed v s" and "same_lock v v'" and "vault_wf v'"
    and "verify_probe H v' km = Inr ()" and "is_ok (open_index H v' km)"
    and "write_vault_file H (vault_to_bytes v') s = (r, s')"
  shows "provisioned opens H pw km seed (if is_ok r then v' else v) s'"
proof -
  note f = write_vault_file_frame [OF assms(6)] write_vault_file_path [OF assms(6)]
  show ?thesis
  proof (cases "is_ok r")
    case True
    then show ?thesis
      using assms(1,3-5) f same_lock_keyed [OF assms(2)] by (auto simp: provisioned_def stored_def)
  next
    case False
    then show ?thesis using provisioned_frame [OF assms(1), of s'] f by (simp add: slots_kept_same)
  qed
qed

lemma load_vault_in_session:
  assumes "in_session opens H pw v x" and "load_vault H x = (r, y)"
  shows "(r = Inr v \<or> (\<exists>e. r = Inl e)) \<and> in_session opens H pw v y \<and> snd y = snd x \<and>
    (is_ok r \<longrightarrow> length (vault_to_bytes v) \<le> MAX_VAULT_BYTES)"
proof -
  have y: "in_session opens H pw v y"
    by (rule in_session_undisturbed [OF assms(1) keepsD [OF keeps_undisturbed_load assms(2)]])
  have st: "stored v (fst x)" using assms(1) by (simp add: in_session_def provisioned_def)
  have r: "r = vault_on_disk H (fst x)" "snd y = snd x"
    using assms(2) by (auto simp: load_vault_def on_fst_def read_vault_file_def st_then_def st_lift_def
        vault_on_disk_def split: prod.splits sum.splits)
  have "length (vault_to_bytes v) \<le> MAX_VAULT_BYTES" if "is_ok r"
    using that st unfolding r
    by (auto simp: stored_def vault_on_disk_def storage_read_def is_ok_iff and_then_Inr_iff split: if_splits)
  moreover have "r = Inr v \<or> (\<exists>e. r = Inl e)" using r(1) stored_unique [OF st] by (cases "vault_on_disk H (fst x)") auto
  ultimately show ?thesis using y r(2) by blast
qed

lemma persist_in_session:
  assumes "in_session opens H pw v x" and "same_lock v v'" and "vault_wf v'"
    and "verify_probe H v' (k_master (snd x)) = Inr ()" and "open_index H v' (k_master (snd x)) = Inr ix"
    and "persist_and_refresh H v' x = (r, y)"
  shows "in_session opens H pw (if is_ok r then v' else v) y \<and> same_keys x y"
proof -
  obtain s ua where x: "x = (s, ua)" by (cases x)
  obtain w s' where w: "write_vault_file H (vault_to_bytes v') s = (w, s')" by fastforce
  have p: "provisioned opens H pw (k_master ua) (ua_totp_seed ua) v s" using assms(1) by (simp add: in_session_def x)
  have o: "is_ok (open_index H v' (k_master ua))" "verify_probe H v' (k_master ua) = Inr ()"
    using assms(4,5) by (simp_all add: x)
  note wp = write_provisioned [OF p assms(2,3) o(2,1) w]
  show ?thesis
  proof (cases w)
    case (Inl e)
    then have "r = Inl e" "y = (s', ua)"
      using assms(6) w by (simp_all add: persist_and_refresh_def st_then_def on_fst_def x)
    then show ?thesis using wp Inl assms(1) by (simp add: in_session_def x)
  next
    case (Inr u)
    then have "r = Inr ()" "y = (s', ua\<lparr>ua_index := ix\<rparr>)"
      using assms(5,6) w by (simp_all add: persist_and_refresh_def refresh_index_def st_then_def on_fst_def on_snd_def
          set_session_def with_session_def st_lift_def st_do_def x)
    then show ?thesis using wp Inr assms(5) by (simp add: in_session_def x)
  qed
qed

section \<open>Mutations\<close>

lemma envelopes_bound: "length (envelopes v) \<le> length (vault_to_bytes v)"
proof -
  have "length es \<le> length (concat (map envelope_bytes es))" for es :: "entry_envelope list"
    by (induction es) (simp_all add: envelope_bytes_def)
  then have "length (envelopes v) \<le> length (concat (map envelope_bytes (envelopes v)))" .
  then show ?thesis by (simp add: vault_to_bytes_def)
qed

lemma in_session_vault:
  assumes "in_session opens H pw v x"
  shows "vault_wf v" "verify_probe H v (k_master (snd x)) = Inr ()"
    "open_index H v (k_master (snd x)) = Inr (ua_index (snd x))"
  using assms by (simp_all add: in_session_def provisioned_def stored_def)

lemma put_entry_Inr:
  "put_entry H km i l p r v s = (Inr v', s') \<Longrightarrow> \<exists>g g'. add_or_update_entry H km i l p r (v, g) = (Inr (), v', g')"
  by (auto simp: put_entry_def on_rng_def map_err_Inr_iff and_then_Inr_iff split: prod.splits)

lemma on_fst_iff: "on_fst f x = (r, y) \<longleftrightarrow> f (fst x) = (r, fst y) \<and> snd y = snd x"
  by (cases y) (auto simp: on_fst_def split: prod.splits)

lemma drop_entry_Inr:
  "drop_entry H km i v s = (Inr v', s') \<Longrightarrow> \<exists>g g'. Vault.remove_entry H km i (v, g) = (Inr (), v', g')"
  by (auto simp: drop_entry_def on_rng_def map_err_Inr_iff and_then_Inr_iff split: prod.splits)

text \<open>The records a session is given: Rust strings of a size that fits the length fields.\<close>

definition storable :: "entry_record \<Rightarrow> bool" where
  "storable r \<longleftrightarrow> record_ok r \<and> record_len r < 2 ^ 31"

lemma upsert_in_session:
  assumes e: "env_ok H" and s: "in_session opens H pw v x" and r: "storable r" and i: "id_ok i"
    and u: "upsert_entry H i l p r x = (res, y)"
  shows "\<exists>v'. in_session opens H pw v' y \<and> same_keys x y \<and> same_door H v v' \<and>
    session_view H v' y = (if is_ok res then (session_view H v x)(i \<mapsto> (l, p, r)) else session_view H v x)"
proof -
  obtain lv x1 where l: "load_vault H x = (lv, x1)" by (cases "load_vault H x") simp
  note ld = load_vault_in_session [OF s l]
  show ?thesis
  proof (cases lv)
    case (Inl err)
    then show ?thesis using u l ld by (auto simp: upsert_entry_def)
  next
    case (Inr w)
    then have w: "lv = Inr v" and x1: "snd x1 = snd x" "in_session opens H pw v x1" using ld by auto
    let ?km = "k_master (snd x)"
    obtain pe x2 where p2: "on_fst (put_entry H ?km i l p r v) x1 = (pe, x2)"
      by (cases "on_fst (put_entry H ?km i l p r v) x1") simp
    have x2: "in_session opens H pw v x2" "snd x2 = snd x"
      using in_session_undisturbed [OF x1(2) keepsD [OF keeps_undisturbed_put p2]] p2 x1
      by (auto simp: on_fst_def split: prod.splits)
    show ?thesis
    proof (cases pe)
      case (Inl err)
      then show ?thesis using u l w p2 x1 x2 by (auto simp: upsert_entry_def with_session_def)
    next
      case (Inr v')
      obtain g g' where a: "add_or_update_entry H ?km i l p r (v, g) = (Inr (), v', g')"
        using p2 Inr put_entry_Inr [of H ?km i l p r v "fst x1" v' "fst x2"] by (auto simp: on_fst_iff)
      note v = in_session_vault [OF s]
      have rl: "record_ok r" "record_len r < 2 ^ 31" "record_len r < 2 ^ 32" using r by (simp_all add: storable_def)
      note au = add_or_update_Inr [OF a e v(3) rl(1,3)]
      have "length (envelopes v) \<le> MAX_VAULT_BYTES" using envelopes_bound [of v] ld w by simp
      then have n: "length (envelopes v) + 1 < 2 ^ 32" by (simp add: MAX_VAULT_BYTES_def)
      have wf: "vault_wf v'" by (rule add_or_update_wf [OF a e v(1) i rl(1,2) n])
      have sl: "same_lock v v'" using au(3) by (auto simp: same_lock_def)
      have sd: "same_door H v v'" using au(3) sl by (auto simp: verify_probe_def same_door_def)
      have vp: "verify_probe H v' (k_master (snd x2)) = Inr ()" using sd v(2) x2(2) by (simp add: same_door_def)
      have pr: "persist_and_refresh H v' x2 = (res, y)"
        using u l w p2 Inr x1 by (simp add: upsert_entry_def with_session_def)
      have oi: "open_index H v' (k_master (snd x2)) = Inr (snd (index_upsert \<lparr>ie_id = i, ie_label = l, ie_policy = p\<rparr> (ua_index (snd x))))"
        using au(1) x2 by simp
      note pi = persist_in_session [OF x2(1) sl wf vp oi pr]
      have "store_view H ?km v' = (store_view H ?km v)(i \<mapsto> (l, p, r))"
        by (rule store_view_add [OF a e v(3) rl(1,3)])
      then show ?thesis using pi x2 sd by (intro exI [of _ "if is_ok res then v' else v"]) auto
    qed
  qed
qed

lemma ensure_in_session:
  assumes "in_session opens H pw v x" and "ensure_unlocked H x = (r, y)"
  shows "in_session opens H pw v y \<and> snd y = snd x"
  using in_session_undisturbed [OF assms(1) keepsD [OF keeps_undisturbed_now(3) assms(2)]] assms(2)
  by (auto simp: ensure_unlocked_def session_now_def on_fst_def split: prod.splits)

lemma add_in_session:
  assumes e: "env_ok H" "uuid_ok H" and s: "in_session opens H pw v x" and r: "storable r"
    and u: "add_entry H l p r x = (res, y)"
  shows "\<exists>v'. in_session opens H pw v' y \<and> same_keys x y \<and> same_door H v v' \<and>
    session_view H v' y = (case res of Inr i \<Rightarrow> (session_view H v x)(i \<mapsto> (l, p, r)) | Inl _ \<Rightarrow> session_view H v x)"
proof -
  obtain en x1 where e1: "ensure_unlocked H x = (en, x1)" by (cases "ensure_unlocked H x") simp
  note s1 = ensure_in_session [OF s e1]
  obtain i x2 where g: "on_fst (on_rng (entry_id_generate H)) x1 = (i, x2)"
    by (cases "on_fst (on_rng (entry_id_generate H)) x1") simp
  have s2: "in_session opens H pw v x2"
    by (rule in_session_undisturbed [OF _ keepsD [OF keeps_undisturbed_basic(2) g]]) (use s1 in simp)
  have x2: "snd x2 = snd x" "id_ok i"
    using g s1 entry_id_generate_ok [OF e(2)] by (auto simp: on_fst_def on_rng_def split: prod.splits) (metis fst_conv)
  show ?thesis
  proof (cases en)
    case (Inl err)
    then show ?thesis using u e1 s1 by (auto simp: add_entry_def)
  next
    case (Inr q)
    obtain ur x3 where up: "upsert_entry H i l p r x2 = (ur, x3)" by (cases "upsert_entry H i l p r x2") simp
    have "res = (case ur of Inl a \<Rightarrow> Inl a | Inr _ \<Rightarrow> Inr i) \<and> y = x3"
      using u e1 Inr g up by (cases ur) (simp_all add: add_entry_def st_then_def st_do_def st_lift_def)
    then show ?thesis using upsert_in_session [OF e(1) s2 r x2(2) up] x2(1) by (cases ur) auto
  qed
qed

lemma index_get_None: "index_get ix i = None \<longleftrightarrow> i \<notin> ie_id ` set ix"
  by (auto simp: index_get_def find_None_all)

lemma session_ids_ok:
  assumes "in_session opens H pw v x" and "i \<in> ie_id ` set (ua_index (snd x))"
  shows "id_ok i \<and> i \<in> ev_id ` set (envelopes v)"
proof -
  have "i \<in> ev_id ` set (envelopes v)"
    using in_session_vault(3) [OF assms(1)] assms(2) by (simp add: open_index_iff)
  moreover have "list_all envelope_wf (envelopes v)" using in_session_vault(1) [OF assms(1)] by (simp add: vault_wf_def)
  ultimately show ?thesis by (auto simp: list_all_iff envelope_wf_def)
qed

lemma update_in_session:
  assumes e: "env_ok H" and s: "in_session opens H pw v x" and r: "storable r"
    and u: "update_entry H i l p r x = (res, y)"
  shows "\<exists>v'. in_session opens H pw v' y \<and> same_keys x y \<and> same_door H v v' \<and>
    session_view H v' y = (if is_ok res then (session_view H v x)(i \<mapsto> (l, p, r)) else session_view H v x) \<and>
    (is_ok res \<longrightarrow> index_get (ua_index (snd x)) i \<noteq> None)"
proof -
  obtain en x1 where e1: "ensure_unlocked H x = (en, x1)" by (cases "ensure_unlocked H x") simp
  note s1 = ensure_in_session [OF s e1]
  consider (err) a where "en = Inl a" | (absent) "is_ok en" "index_get (ua_index (snd x)) i = None"
    | (present) "is_ok en" "index_get (ua_index (snd x)) i \<noteq> None" by (cases en) auto
  then show ?thesis
  proof cases
    case err
    then show ?thesis using u e1 s1 by (auto simp: update_entry_def)
  next
    case absent
    then have "res = Inl (CVault EntryNotFound) \<and> y = x1"
      using u e1 s1 by (auto simp: update_entry_def with_session_def st_lift_def is_ok_iff)
    then show ?thesis using s1 by auto
  next
    case present
    then have up: "upsert_entry H i l p r x1 = (res, y)"
      using u e1 s1 by (auto simp: update_entry_def with_session_def is_ok_iff)
    have i: "id_ok i" using session_ids_ok [OF s] present(2) unfolding index_get_None by blast
    show ?thesis using upsert_in_session [OF e _ r i up] s1 present(2) by auto
  qed
qed

lemma remove_in_session:
  assumes e: "env_ok H" and s: "in_session opens H pw v x" and u: "session_remove H i x = (res, y)"
  shows "\<exists>v'. in_session opens H pw v' y \<and> same_keys x y \<and> same_door H v v' \<and>
    session_view H v' y = (if is_ok res then (session_view H v x)(i := None) else session_view H v x)"
proof -
  obtain en x0 where e1: "ensure_unlocked H x = (en, x0)" by (cases "ensure_unlocked H x") simp
  note s0 = ensure_in_session [OF s e1]
  obtain lv x1 where l: "load_vault H x0 = (lv, x1)" by (cases "load_vault H x0") simp
  have ld: "(lv = Inr v \<or> (\<exists>a. lv = Inl a)) \<and> in_session opens H pw v x1 \<and> snd x1 = snd x"
    using load_vault_in_session [OF _ l] s0 by metis
  consider (expired) a where "en = Inl a" | (unread) a where "is_ok en" "lv = Inl a" | (read) "is_ok en" "lv = Inr v"
    using ld by (cases en) auto
  then show ?thesis
  proof cases
    case expired
    then show ?thesis using u e1 s0 by (auto simp: session_remove_def)
  next
    case unread
    then have "res = Inl a \<and> y = x1" using u e1 l by (auto simp: session_remove_def is_ok_iff)
    then show ?thesis using ld by auto
  next
    case read
    let ?km = "k_master (snd x)"
    obtain de x2 where d: "on_fst (drop_entry H ?km i v) x1 = (de, x2)" by (cases "on_fst (drop_entry H ?km i v) x1") simp
    have x2: "in_session opens H pw v x2" "snd x2 = snd x"
      using in_session_undisturbed [OF _ keepsD [OF keeps_undisturbed_drop d]] d ld
      by (auto simp: on_fst_def split: prod.splits)
    have st: "st_then (on_fst (drop_entry H ?km i v)) (\<lambda>v'. persist_and_refresh H v') x1 = (res, y)"
      using u e1 l read ld by (auto simp: session_remove_def with_session_def is_ok_iff)
    show ?thesis
    proof (cases de)
      case (Inl a)
      then show ?thesis using st d x2 by auto
    next
      case (Inr v')
      obtain g g' where a: "Vault.remove_entry H ?km i (v, g) = (Inr (), v', g')"
        using d Inr drop_entry_Inr [of H ?km i v "fst x1" v' "fst x2"] by (auto simp: on_fst_iff)
      note v = in_session_vault [OF s]
      note rm = remove_entry_Inr [OF a e v(3)]
      have wf: "vault_wf v'" by (rule remove_entry_wf [OF a e v(1)])
      have sl: "same_lock v v'" using rm(5) by (auto simp: same_lock_def)
      have sd: "same_door H v v'" using rm(5) sl by (auto simp: verify_probe_def same_door_def)
      have vp: "verify_probe H v' (k_master (snd x2)) = Inr ()" using sd v(2) x2(2) by (simp add: same_door_def)
      have oi: "open_index H v' (k_master (snd x2)) = Inr (snd (index_remove i (ua_index (snd x))))" using rm(1) x2 by simp
      have pr: "persist_and_refresh H v' x2 = (res, y)" using st d Inr by simp
      note pi = persist_in_session [OF x2(1) sl wf vp oi pr]
      have "store_view H ?km v' = (store_view H ?km v)(i := None)" by (rule store_view_remove [OF a e v(3)])
      then show ?thesis using pi x2 sd by (intro exI [of _ "if is_ok res then v' else v"]) auto
    qed
  qed
qed

end
