(* ===== verification/Rekey.thy ===== *)
theory Rekey
  imports SessionStore
begin

text \<open>
  Changing the master password: the entries of the session's vault are carried into a new vault under
  a new key, which the new password and the same hardware key derive.
\<close>

section \<open>Putting a list of entries\<close>

fun put_all :: "('d, 'm) host_scheme \<Rightarrow> bytes \<Rightarrow> (entry_id \<times> entry_view) list \<Rightarrow> vault \<Rightarrow> 'd app \<Rightarrow>
    (core_error + vault) \<times> 'd app" where
  "put_all H km [] v = st_lift (Inr v)"
| "put_all H km ((i, l, p, r) # es) v = st_then (put_entry H km i l p r v) (put_all H km es)"

definition puttable :: "entry_id \<times> entry_view \<Rightarrow> bool" where
  "puttable e = (case e of (i, l, p, r) \<Rightarrow> id_ok i \<and> storable r)"

lemma put_all_Inr:
  assumes e: "env_ok H" and o: "is_ok (open_index H v km)" and w: "vault_wf v" and p: "list_all puttable es"
    and n: "length (envelopes v) + length es < 2 ^ 32" and a: "put_all H km es v s = (Inr v', s')"
  shows "vault_wf v' \<and> is_ok (open_index H v' km) \<and> same_lock v v' \<and> verify_probe H v' km = verify_probe H v km \<and>
    vmetadata v' = vmetadata v \<and> store_view H km v' = store_view H km v ++ map_of (rev es) \<and>
    undisturbed opens (s, ua) (s', ua)"
  using o w p n a
proof (induction es arbitrary: v s)
  case Nil
  then show ?case using undisturbed_preorder [of opens] by (simp add: st_iffs same_lock_def preorder_def)
next
  case (Cons entry es)
  obtain i l q r where en: "entry = (i, l, q, r)" by (cases entry) auto
  obtain v1 s1 where st: "put_entry H km i l q r v s = (Inr v1, s1)" "put_all H km es v1 s1 = (Inr v', s')"
    using Cons.prems(5) by (auto simp: en st_iffs)
  obtain g g' where ad: "add_or_update_entry H km i l q r (v, g) = (Inr (), v1, g')"
    using put_entry_Inr [OF st(1)] by blast
  obtain ix where ix: "open_index H v km = Inr ix" using Cons.prems(1) by (auto simp: is_ok_iff)
  have r: "record_ok r" "record_len r < 2 ^ 31" "record_len r < 2 ^ 32" "id_ok i"
    using Cons.prems(3) by (simp_all add: en puttable_def storable_def)
  note au = add_or_update_Inr [OF ad e ix r(1,3)]
  have n1: "length (envelopes v) + 1 < 2 ^ 32" using Cons.prems(4) by simp
  have w1: "vault_wf v1" by (rule add_or_update_wf [OF ad e Cons.prems(2) r(4,1,2) n1])
  have l1: "length (envelopes v1) \<le> Suc (length (envelopes v))"
    using ad length_put_envelope reseal_index_Inr(2) [OF _ e]
    by (fastforce simp: add_or_update_entry_def Let_def split: prod.splits sum.splits)
  have u1: "undisturbed opens (s, ua) (s1, ua)"
    using keepsD [OF keeps_undisturbed_put [of opens H km i l q r v], of "(s, ua)" "Inr v1" "(s1, ua)"] st(1)
    by (simp add: on_fst_def)
  have sl: "same_lock v v1" "vmetadata v1 = vmetadata v" "verify_probe H v1 km = verify_probe H v km"
    using au(3) by (auto simp: same_lock_def verify_probe_def)
  have sv: "store_view H km v1 = (store_view H km v)(i \<mapsto> (l, q, r))" by (rule store_view_add [OF ad e ix r(1,3)])
  have ih: "vault_wf v' \<and> is_ok (open_index H v' km) \<and> same_lock v1 v' \<and> verify_probe H v' km = verify_probe H v1 km \<and>
    vmetadata v' = vmetadata v1 \<and> store_view H km v' = store_view H km v1 ++ map_of (rev es) \<and>
    undisturbed opens (s1, ua) (s', ua)"
    using Cons.prems(3,4) l1 w1 au(1) st(2) by (intro Cons.IH) simp_all
  have "undisturbed opens (s, ua) (s', ua)" using u1 ih undisturbed_preorder [of opens] unfolding preorder_def by blast
  moreover have "store_view H km v' = store_view H km v ++ map_of (rev (entry # es))"
    using ih sv by (simp add: en map_add_def fun_eq_iff split: option.split)
  ultimately show ?case using ih sl by (auto simp: same_lock_def)
qed

lemma map_of_rev_distinct: "distinct (map fst es) \<Longrightarrow> map_of (rev es) = map_of es"
proof (induction es)
  case (Cons e es)
  obtain i x where e: "e = (i, x)" by (cases e)
  have "map_of (rev es) i = None" using Cons.prems Cons.IH by (simp add: e map_of_eq_None_iff)
  then show ?case using Cons by (auto simp: e map_add_def fun_eq_iff split: option.split)
qed simp

section \<open>The rows of a vault\<close>

text \<open>An entry read back from a row of the index.\<close>

definition row_entry :: "('d, 'm) host_scheme \<Rightarrow> vault \<Rightarrow> bytes \<Rightarrow> index_entry \<Rightarrow> entry_id \<times> entry_view \<Rightarrow> bool" where
  "row_entry H v km row e \<longleftrightarrow> (\<exists>r. decrypt_entry H v km (ie_id row) = Inr r \<and>
     e = (ie_id row, ie_label row, ie_policy row, r))"

lemma row_entries_view:
  assumes "list_all2 (row_entry H v km) rows es"
  shows "map_of es i = (case index_get rows i of None \<Rightarrow> None
     | Some row \<Rightarrow> (case decrypt_entry H v km i of Inl _ \<Rightarrow> None | Inr r \<Rightarrow> Some (ie_label row, ie_policy row, r)))"
  using assms
proof induction
  case (Cons row rows e es)
  then show ?case by (auto simp: row_entry_def index_get_def)
qed (simp add: index_get_def)

lemma row_entries_ids: "list_all2 (row_entry H v km) rows es \<Longrightarrow> map fst es = map ie_id rows"
  by (induction rule: list_all2_induct) (auto simp: row_entry_def)

lemma open_index_lengths:
  assumes "open_index H v km = Inr ix"
  shows "length ix = length (envelopes v)"
proof -
  have d: "distinct (map ie_id ix)" "distinct (map ev_id (envelopes v))" "set (map ie_id ix) = set (map ev_id (envelopes v))"
    using assms by (simp_all add: open_index_iff)
  show ?thesis using distinct_card [OF d(1)] distinct_card [OF d(2)] d(3) by simp
qed

lemma row_entries_store:
  assumes "open_index H v km = Inr rows" and "list_all2 (row_entry H v km) rows es"
  shows "map_of es = store_view H km v"
  using row_entries_view [OF assms(2)] by (auto simp: store_view_def assms(1) fun_eq_iff split: option.split)

text \<open>The contents of a store are records of Rust strings that fit the length fields.\<close>

definition tidy :: "(entry_id \<rightharpoonup> entry_view) \<Rightarrow> bool" where
  "tidy m \<longleftrightarrow> (\<forall>i l p r. m i = Some (l, p, r) \<longrightarrow> storable r)"

lemma tidy_upd [simp]: "tidy m \<Longrightarrow> storable r \<Longrightarrow> tidy (m(i \<mapsto> (l, p, r)))" "tidy m \<Longrightarrow> tidy (m(i := None))"
  by (auto simp: tidy_def)

lemma row_entries_puttable:
  assumes s: "in_session opens H pw v x" and l: "list_all2 (row_entry H v (k_master (snd x))) (ua_index (snd x)) es"
    and t: "tidy (session_view H v x)"
  shows "list_all puttable es"
proof -
  have m: "map_of es = session_view H v x" by (rule row_entries_store [OF in_session_vault(3) [OF s] l])
  have "distinct (map fst es)"
    using in_session_vault(3) [OF s] row_entries_ids [OF l] by (simp add: open_index_iff)
  then have "storable r" if "(i, lb, p, r) \<in> set es" for i lb p r
    using that t m by (metis map_of_is_SomeI tidy_def)
  moreover have "id_ok i" if "(i, y) \<in> set es" for i y
  proof -
    have "i \<in> set (map fst es)" using that by force
    then show ?thesis using session_ids_ok [OF s] row_entries_ids [OF l] by simp
  qed
  ultimately show ?thesis by (auto simp: list_all_iff puttable_def)
qed

lemma copy_entries_put:
  "copy_entries H source old new rows v s = (Inr v', s') \<Longrightarrow>
   \<exists>es. list_all2 (row_entry H source old) rows es \<and> put_all H new es v s = (Inr v', s')"
proof (induction rows arbitrary: v s)
  case Nil
  then show ?case by simp
next
  case (Cons row rows)
  obtain r v1 s1 where d: "decrypt_entry H source old (ie_id row) = Inr r"
    and p: "put_entry H new (ie_id row) (ie_label row) (ie_policy row) r v s = (Inr v1, s1)"
    and c: "copy_entries H source old new rows v1 s1 = (Inr v', s')"
    using Cons.prems by (auto simp: st_iffs map_err_Inr_iff)
  obtain es where "list_all2 (row_entry H source old) rows es" "put_all H new es v1 s1 = (Inr v', s')"
    using Cons.IH [OF c] by blast
  moreover have "row_entry H source old row (ie_id row, ie_label row, ie_policy row, r)" using d by (simp add: row_entry_def)
  ultimately show ?case
    using p by (intro exI [of _ "(ie_id row, ie_label row, ie_policy row, r) # es"]) simp
qed

lemma keeps_undisturbed_copy: "keeps (undisturbed opens) (on_fst (copy_entries H source old new rows v))"
proof -
  have "keeps (slots_kept opens) (copy_entries H source old new rows v) \<and> keeps same_fs (copy_entries H source old new rows v)"
    by (induction rows arbitrary: v)
      (auto intro!: keeps_rules slots_kept_preorder same_fs_preorder keeps_slots_basic keeps_fs_basic simp: put_entry_def)
  then show ?thesis by (blast intro: keeps_undisturbed_fst)
qed

lemma keeps_undisturbed_reencrypt: "keeps (undisturbed opens) (reencrypt_vault H v salt kdf km)"
  unfolding reencrypt_vault_def by (intro undisturbed_rules keeps_undisturbed_copy)

lemma keeps_undisturbed_rebuild:
  assumes "slot_store (store H) opens willing fresh"
  shows "keeps (undisturbed opens) (change_rebuild H old new kdf p)"
  unfolding change_rebuild_def by (intro undisturbed_rules keeps_undisturbed_reencrypt keeps_undisturbed_unwrap [OF assms])

text \<open>The rebuilt vault holds the same entries under the new key.\<close>

lemma reencrypt_vault_Inr:
  assumes e: "env_ok H" and s: "in_session opens H pw v x" and t: "tidy (session_view H v x)"
    and sz: "length (vault_to_bytes v) \<le> MAX_VAULT_BYTES" and sa: "length salt = SALT_LEN"
    and r: "reencrypt_vault H v salt kdf km x = (Inr v', y)"
  shows "vault_wf v' \<and> is_ok (open_index H v' km) \<and> verify_probe H v' km = Inr () \<and>
    store_view H km v' = session_view H v x \<and> kdf_params_of v' = kdf \<and> vault_salt v' = salt \<and>
    k_hsm_wrap_blob v' = k_hsm_wrap_blob v \<and> totp_seed_wrap_blob v' = totp_seed_wrap_blob v \<and>
    last_export_at (vmetadata v') = last_export_at (vmetadata v)"
proof -
  obtain now x1 v0 x2 where n: "session_now_i64 H x = (now, x1)"
    and c: "on_fst (st_err CVault (on_rng (vault_create H kdf salt (k_hsm_wrap_blob v) (totp_seed_wrap_blob v)
       ((vmetadata v)\<lparr>last_password_change := now\<rparr>) km))) x1 = (Inr v0, x2)"
    and cp: "on_fst (copy_entries H v (k_master (snd x1)) km (ua_index (snd x1)) v0) x2 = (Inr v', y)"
    using r by (auto simp: reencrypt_vault_def st_iffs with_session_def)
  have x1: "snd x1 = snd x" using n by (auto simp: session_now_i64_def session_now_def on_fst_def split: prod.splits)
  obtain g g' where vc: "vault_create H kdf salt (k_hsm_wrap_blob v) (totp_seed_wrap_blob v)
       ((vmetadata v)\<lparr>last_password_change := now\<rparr>) km g = (Inr v0, g')"
    using c by (auto simp: on_fst_iff st_iffs on_rng_def split: prod.splits)
  note new = vault_create_Inr [OF vc e]
  obtain es where es: "list_all2 (row_entry H v (k_master (snd x))) (ua_index (snd x)) es"
    and pa: "put_all H km es v0 (fst x2) = (Inr v', fst y)"
    using cp copy_entries_put [of H v "k_master (snd x)" km "ua_index (snd x)" v0 "fst x2" v' "fst y"] x1
    by (auto simp: on_fst_iff)
  have "length es = length (envelopes v)"
    using open_index_lengths [OF in_session_vault(3) [OF s]] list_all2_lengthD [OF es] by simp
  then have l: "length (envelopes v0) + length es < 2 ^ 32"
    using envelopes_bound [of v] sz new(12) by (simp add: MAX_VAULT_BYTES_def)
  have o: "is_ok (open_index H v0 km)" using new(2) by simp
  have d: "distinct (map fst es)" using in_session_vault(3) [OF s] row_entries_ids [OF es] by (simp add: open_index_iff)
  note p = put_all_Inr [OF e o vault_create_wf [OF vc e sa] row_entries_puttable [OF s es t] l pa]
  have "store_view H km v' = map_of es" using p new(3) map_of_rev_distinct [OF d] by simp
  then show ?thesis
    using p new row_entries_store [OF in_session_vault(3) [OF s] es] by (simp add: same_lock_def)
qed

section \<open>The change\<close>

lemma slots_keptD: "slots_kept opens s s' \<Longrightarrow> opens slot b m (a_device s) \<Longrightarrow> opens slot b m (a_device s')"
  by (simp add: slots_kept_def)

lemma same_device:
  "ensure_unlocked H x = (r, y) \<Longrightarrow> a_device (fst y) = a_device (fst x)"
  "load_vault H x = (r', y) \<Longrightarrow> a_device (fst y) = a_device (fst x)"
  by (auto simp: ensure_unlocked_def session_now_def on_fst_def clock_now_def load_vault_def read_vault_file_def
      st_then_def st_lift_def split: prod.splits sum.splits)

text \<open>The device gives back the key the vault's blob holds.\<close>

lemma unwrap_session_key:
  assumes st: "slot_store (store H) opens willing fresh" and s: "in_session opens H pw v x"
    and w: "willing p (a_device (fst x))"
    and u: "on_fst (unwrap_slot_core H VaultKey (k_hsm_wrap_blob v) p) x = (r, y)"
  shows "\<exists>k kb. r = Inr k \<and> k_hsm_wrap_blob v = blob_to_bytes kb \<and> blob_ok kb \<and> opens VaultKey kb k (a_device (fst x)) \<and>
    length k = KEY_LEN \<and> willing p (a_device (fst y)) \<and>
    (\<exists>avail. master_of H pw (vault_salt v) (kdf_params_of v) k avail = Inr (k_master (snd x)))"
proof -
  obtain k kb avail where k: "k_hsm_wrap_blob v = blob_to_bytes kb" "blob_ok kb" "opens VaultKey kb k (a_device (fst x))"
    "length k = KEY_LEN" "master_of H pw (vault_salt v) (kdf_params_of v) k avail = Inr (k_master (snd x))"
    using s by (auto simp: in_session_def provisioned_def keyed_def)
  obtain d where "unwrap (store H) VaultKey kb p (a_device (fst x)) = (Inr k, d)" "willing p d"
    using slot_store.unwrap_opens [OF st k(3) w] by blast
  then have "unwrap_slot_core H VaultKey (k_hsm_wrap_blob v) p (fst x) = (Inr k, (fst x)\<lparr>a_device := d\<rparr>)"
    using k(1,2) by (simp add: unwrap_slot_core_def st_err_def unwrap_bytes_eval unwrapped_def blob_from_to_bytes)
  then have "r = Inr k" "fst y = (fst x)\<lparr>a_device := d\<rparr>" using u by (simp_all add: on_fst_iff)
  then have "r = Inr k \<and> willing p (a_device (fst y))" using \<open>willing p d\<close> by simp
  then show ?thesis using k by blast
qed

lemma change_rebuild_Inr:
  assumes e: "env_ok H" and st: "slot_store (store H) opens willing fresh" and s: "in_session opens H pw v x"
    and t: "tidy (session_view H v x)" and w: "willing p (a_device (fst x))"
    and c: "change_rebuild H old new kdf p x = (Inr (stale, nk, v'), y)"
  shows "stale = (last_export_at (vmetadata v) \<noteq> None) \<and> vault_wf v' \<and> is_ok (open_index H v' nk) \<and>
    verify_probe H v' nk = Inr () \<and> store_view H nk v' = session_view H v x \<and> kdf_params_of v' = kdf \<and>
    last_export_at (vmetadata v') = last_export_at (vmetadata v) \<and>
    keyed opens H new nk v' (a_device (fst y)) \<and> seeded opens (ua_totp_seed (snd x)) v' (a_device (fst y)) \<and>
    (\<exists>om k avail. master_of H old (vault_salt v) (kdf_params_of v) k avail = Inr om \<and> verify_probe H v om = Inr ())"
proof -
  obtain x1 lv x2 k x3 om x4 salt x5 x6 where
    en: "ensure_unlocked H x = (Inr (), x1)" and ld: "load_vault H x1 = (Inr lv, x2)"
    and uw: "on_fst (unwrap_slot_core H VaultKey (k_hsm_wrap_blob lv) p) x2 = (Inr k, x3)"
    and dr: "on_fst (derive_master_from_bytes H old (vault_salt lv) (kdf_params_of lv) k) x3 = (Inr om, x4)"
    and pr: "verify_probe H lv om = Inr ()"
    and rs: "on_fst (on_rng (random_secret H KEY_LEN)) x4 = (salt, x5)"
    and dn: "on_fst (derive_master_from_bytes H new salt kdf k) x5 = (Inr nk, x6)"
    and re: "reencrypt_vault H lv salt kdf nk x6 = (Inr v', y)"
    and sl: "stale = (last_export_at (vmetadata lv) \<noteq> None)"
    using c by (auto simp: change_rebuild_def st_iffs map_err_Inr_iff)
  note s1 = ensure_in_session [OF s en]
  note l2 = load_vault_in_session [OF s1 [THEN conjunct1] ld]
  have lv: "lv = v" and s2: "in_session opens H pw v x2" and sz: "length (vault_to_bytes v) \<le> MAX_VAULT_BYTES"
    and x2: "snd x2 = snd x" using l2 s1 by auto
  have w2: "willing p (a_device (fst x2))" using w same_device(1) [OF en] same_device(2) [OF ld] by simp
  obtain kb where kb: "k_hsm_wrap_blob v = blob_to_bytes kb" "blob_ok kb" "opens VaultKey kb k (a_device (fst x2))" "length k = KEY_LEN"
    using unwrap_session_key [OF st s2 w2 uw [unfolded lv]] by auto
  have u3: "undisturbed opens x2 x3" by (rule keepsD [OF keeps_undisturbed_unwrap [OF st] uw])
  have u4: "undisturbed opens x3 x4" by (rule keepsD [OF keeps_undisturbed_basic(3) dr])
  have u5: "undisturbed opens x4 x5" by (rule keepsD [OF keeps_undisturbed_basic(2) rs])
  have u6: "undisturbed opens x5 x6" by (rule keepsD [OF keeps_undisturbed_basic(3) dn])
  have u7: "undisturbed opens x6 y" by (rule keepsD [OF keeps_undisturbed_reencrypt re])
  have tr: "undisturbed opens a b \<Longrightarrow> undisturbed opens b d \<Longrightarrow> undisturbed opens a d" for a b d
    using undisturbed_preorder [of opens] unfolding preorder_def by blast
  have u26: "undisturbed opens x2 x6" using u3 u4 u5 u6 tr by blast
  have u2y: "undisturbed opens x2 y" using u26 u7 tr by blast
  have s6: "in_session opens H pw v x6" and sy: "in_session opens H pw v y"
    using in_session_undisturbed [OF s2] u26 u2y by blast+
  have x6: "k_master (snd x6) = k_master (snd x)" "ua_totp_seed (snd y) = ua_totp_seed (snd x)"
    using u26 u2y x2 by (simp_all add: undisturbed_def)
  have sa: "length salt = SALT_LEN"
    using rs random_secret_step [of H KEY_LEN "fst x4" salt "fst x5"] by (simp add: on_fst_iff KEY_LEN_def SALT_LEN_def)
  have t6: "tidy (session_view H v x6)" using t x6 by simp
  note r = reencrypt_vault_Inr [OF e s6 t6 sz sa re [unfolded lv]]
  have oy: "opens VaultKey kb k (a_device (fst y))"
    by (rule slots_keptD [of opens "fst x2"]) (use u2y kb(3) in \<open>simp_all add: undisturbed_def\<close>)
  obtain av where mn: "master_of H new salt kdf k av = Inr nk"
    using dn derive_master_eq [of H new salt kdf k "fst x5" "Inr nk" "fst x6"] by (auto simp: on_fst_iff)
  obtain av' where mo: "master_of H old (vault_salt v) (kdf_params_of v) k av' = Inr om"
    using dr derive_master_eq [of H old "vault_salt v" "kdf_params_of v" k "fst x3" "Inr om" "fst x4"]
    by (auto simp: on_fst_iff lv)
  have ky: "keyed opens H new nk v' (a_device (fst y))"
    using r kb oy mn unfolding keyed_def by (intro exI [of _ k] exI [of _ kb] exI [of _ av]) simp
  have "seeded opens (ua_totp_seed (snd x)) v (a_device (fst y))"
    using sy x6(2) by (simp add: in_session_def provisioned_def)
  then have sd: "seeded opens (ua_totp_seed (snd x)) v' (a_device (fst y))" using r by (simp add: seeded_def)
  show ?thesis using r ky sd sl mo pr x6 by (auto simp: lv)
qed

lemma change_in_session:
  assumes e: "env_ok H" and st: "slot_store (store H) opens willing fresh" and s: "in_session opens H pw v x"
    and t: "tidy (session_view H v x)" and w: "willing p (a_device (fst x))"
    and c: "change_master_password H old new kdf p x = (res, y)"
  shows "case res of
      Inl err \<Rightarrow> in_session opens H pw v y \<and> k_master (snd y) = k_master (snd x)
    | Inr stale \<Rightarrow> stale = (last_export_at (vmetadata v) \<noteq> None) \<and>
        (\<exists>v'. in_session opens H new v' y \<and> session_view H v' y = session_view H v x \<and> kdf_params_of v' = kdf \<and>
          last_export_at (vmetadata v') = last_export_at (vmetadata v) \<and>
          (\<exists>om k avail. master_of H old (vault_salt v) (kdf_params_of v) k avail = Inr om \<and> verify_probe H v om = Inr ()))"
proof -
  obtain q z where q: "change_rebuild H old new kdf p x = (q, z)" by (cases "change_rebuild H old new kdf p x") simp
  have uz: "undisturbed opens x z" by (rule keepsD [OF keeps_undisturbed_rebuild [OF st] q])
  have sz: "in_session opens H pw v z" "k_master (snd z) = k_master (snd x)" "ua_totp_seed (snd z) = ua_totp_seed (snd x)"
    using in_session_undisturbed [OF s uz] uz by (simp_all add: undisturbed_def)
  show ?thesis
  proof (cases q)
    case (Inl err)
    then have "res = Inl err" "y = z" using c q by (simp_all add: change_master_password_def)
    then show ?thesis using sz by simp
  next
    case (Inr a)
    then obtain stale nk v' where a: "q = Inr (stale, nk, v')" by (cases a) auto
    note r = change_rebuild_Inr [OF e st s t w q [unfolded a]]
    obtain ix where ix: "open_index H v' nk = Inr ix" using r by (auto simp: is_ok_iff)
    obtain m ua where z: "z = (m, ua)" by (cases z)
    obtain wr m' where wv: "write_vault_file H (vault_to_bytes v') m = (wr, m')" by fastforce
    note f = write_vault_file_frame [OF wv] write_vault_file_path [OF wv]
    show ?thesis
    proof (cases wr)
      case (Inl err)
      then have "res = Inl err" "y = (m', ua)"
        using c q a wv by (simp_all add: change_master_password_def st_then_def on_fst_def z)
      moreover have "in_session opens H pw v (m', ua)"
      proof -
        have "provisioned opens H pw (k_master ua) (ua_totp_seed ua) v m" using sz(1) by (simp add: in_session_def z)
        then have "provisioned opens H pw (k_master ua) (ua_totp_seed ua) v m'"
          by (rule provisioned_frame) (use f Inl in \<open>simp_all add: slots_kept_same\<close>)
        then show ?thesis using sz(1) by (simp add: in_session_def z)
      qed
      ultimately show ?thesis using sz(2) z by simp
    next
      case (Inr u)
      have yres: "res = Inr stale" "y = (m', ua\<lparr>k_master := nk, ua_index := ix\<rparr>)"
        using c q a wv Inr ix by (simp_all add: change_master_password_def st_then_def on_fst_def on_snd_def z
            set_session_def st_do_def refresh_index_def with_session_def st_lift_def)
      have "in_session opens H new v' y"
        using r f Inr ix sz(3) by (simp add: yres z in_session_def provisioned_def stored_def)
      then show ?thesis using r by (auto simp: yres)
    qed
  qed
qed

end
