(* ===== verification/Exchange.thy ===== *)
theory Exchange
  imports Rekey
begin

text \<open>
  Export and import: what a session writes into a recovery file, that exporting leaves its vault
  alone but for the export date, and that importing the file restores the entries and the seed.
\<close>

section \<open>Export keeps the session\<close>

lemma keeps_slots_reauth:
  assumes "slot_store (store H) opens willing fresh"
  shows "keeps (slots_kept opens) (export_reauth H v pw code p)" "keeps same_fs (export_reauth H v pw code p)"
  unfolding export_reauth_def unwrap_slot_core_def
  by (intro keeps_rules slots_kept_preorder same_fs_preorder keeps_slots_unwrap [OF assms] keeps_slots_basic
      keeps_slots_derive keeps_fs_basic keeps_fs_derive)+

lemma keeps_undisturbed_export:
  assumes "slot_store (store H) opens willing fresh"
  shows "keeps (undisturbed opens) (export_file H pw code preset p)"
  unfolding export_file_def
  by (intro undisturbed_rules keeps_case_prod keeps_undisturbed_fst [OF keeps_slots_reauth [OF assms]])

lemma set_metadata_lock [simp]: "same_lock v (set_metadata m v)"
  by (simp add: same_lock_def set_metadata_def)

lemma store_view_metadata [simp]: "store_view E km (set_metadata m v) = store_view E km v"
proof (rule ext)
  fix i
  have "decrypt_entry E (set_metadata m v) km i = decrypt_entry E v km i"
    by (rule decrypt_entry_frame) (simp_all add: set_metadata_def)
  then show "store_view E km (set_metadata m v) i = store_view E km v i"
    by (simp add: store_view_def split: sum.split option.split)
qed

lemma export_file_vault:
  assumes s: "in_session opens H pw v x" and c: "export_file H pw' code preset p x = (Inr (w, file), y)"
  shows "w = v"
proof -
  obtain x1 x2 where en: "ensure_unlocked H x = (Inr (), x1)" and ld: "load_vault H x1 = (Inr w, x2)"
    using c by (auto simp: export_file_def st_iffs with_session_def split: prod.splits)
  show ?thesis using load_vault_in_session [OF _ ld] ensure_in_session [OF s en] by auto
qed

lemma export_in_session:
  assumes st: "slot_store (store H) opens willing fresh" and s: "in_session opens H pw v x"
    and c: "export_recovery H pw' code preset p x = (res, y)"
  shows "\<exists>v'. in_session opens H pw v' y \<and> session_view H v' y = session_view H v x \<and> same_keys x y \<and> same_door H v v'"
proof -
  obtain q z where q: "export_file H pw' code preset p x = (q, z)" by (cases "export_file H pw' code preset p x") simp
  have uz: "undisturbed opens x z" by (rule keepsD [OF keeps_undisturbed_export [OF st] q])
  have sz: "in_session opens H pw v z" "same_keys x z"
    using in_session_undisturbed [OF s uz] uz by (simp_all add: undisturbed_def)
  show ?thesis
  proof (cases q)
    case (Inl err)
    then have "y = z" using c q by (simp add: export_recovery_def)
    then show ?thesis using sz by auto
  next
    case (Inr a)
    then obtain b where a: "q = Inr (v, b)" using export_file_vault [OF s] q by (cases a) auto
    obtain now z1 where n: "session_now_i64 H z = (now, z1)" by (cases "session_now_i64 H z") simp
    have u1: "undisturbed opens z z1" by (rule keepsD [OF keeps_undisturbed_now(1) n])
    have s1: "in_session opens H pw v z1" "same_keys x z1"
      using in_session_undisturbed [OF sz(1) u1] u1 sz(2) by (simp_all add: undisturbed_def)
    let ?v = "set_metadata ((vmetadata v)\<lparr>last_export_at := Some now\<rparr>) v"
    obtain wr m where w: "write_vault_file H (vault_to_bytes ?v) (fst z1) = (wr, m)" by fastforce
    have y: "y = (m, snd z1)"
      using c q a n w by (cases wr) (simp_all add: export_recovery_def st_then_def st_do_def on_fst_def st_lift_def)
    note v = in_session_vault [OF s1(1)]
    have p: "provisioned opens H pw (k_master (snd z1)) (ua_totp_seed (snd z1)) v (fst z1)"
      using s1(1) by (simp add: in_session_def)
    have "provisioned opens H pw (k_master (snd z1)) (ua_totp_seed (snd z1)) (if is_ok wr then ?v else v) m"
      by (rule write_provisioned [OF p _ setters_wf(1) [OF v(1)] _ _ w]) (use v in simp_all)
    moreover have "same_door H v ?v" by (simp add: same_door_def)
    ultimately show ?thesis using v(3) s1(2)
      by (intro exI [of _ "if is_ok wr then ?v else v"]) (simp add: y in_session_def)
  qed
qed

section \<open>What the file holds\<close>

text \<open>A recovery entry that carries one entry of the vault.\<close>

definition carries :: "('d, 'm) host_scheme \<Rightarrow> entry_id \<times> entry_view \<Rightarrow> recovery_entry \<Rightarrow> bool" where
  "carries H e x \<longleftrightarrow> (case e of (i, l, p, r) \<Rightarrow> re_id x = id_bytes i \<and> re_label x = l \<and> re_username x = er_username r \<and>
     re_password x = er_password r \<and> re_url x = er_url r \<and> re_notes x = er_notes r \<and>
     policy_ser H p = Some (re_policy x))"

lemma export_entries_Inr:
  "export_entries H v km rows = Inr xs \<Longrightarrow>
   \<exists>es. list_all2 (row_entry H v km) rows es \<and> list_all2 (carries H) es xs"
proof (induction rows arbitrary: xs)
  case (Cons row rows)
  obtain r b ys where d: "decrypt_entry H v km (ie_id row) = Inr r" and b: "policy_ser H (ie_policy row) = Some b"
    and y: "export_entries H v km rows = Inr ys"
    and xs: "xs = \<lparr>re_id = id_bytes (ie_id row), re_label = ie_label row, re_username = er_username r,
          re_password = er_password r, re_url = er_url r, re_notes = er_notes r, re_policy = b\<rparr> # ys"
    using Cons.prems by (auto simp: and_then_Inr_iff map_err_Inr_iff recovery_entry_from_def ok_or_Inr_iff)
  obtain es where es: "list_all2 (row_entry H v km) rows es" "list_all2 (carries H) es ys" using Cons.IH [OF y] by blast
  have "row_entry H v km row (ie_id row, ie_label row, ie_policy row, r)" using d by (simp add: row_entry_def)
  moreover have "carries H (ie_id row, ie_label row, ie_policy row, r) (hd xs)" using b xs by (simp add: carries_def)
  ultimately show ?case using es xs
    by (intro exI [of _ "(ie_id row, ie_label row, ie_policy row, r) # es"]) simp
qed simp

lemma carried_parts:
  assumes "carries H e x" and "policy_codec_ok H"
  shows "import_entry_parts H x = Inr e"
proof -
  obtain i l p r where e: "e = (i, l, p, r)" by (cases e) auto
  have "policy_de H (re_policy x) = Some p" using assms by (auto simp: e carries_def policy_codec_ok_def)
  then show ?thesis using assms(1) by (cases i; cases r) (simp add: e carries_def import_entry_parts_def)
qed

lemma import_entries_put:
  assumes "list_all2 (carries H) es xs" and "policy_codec_ok H"
  shows "import_entries H km xs v s = put_all H km es v s"
  using assms(1)
proof (induction es xs arbitrary: v s rule: list_all2_induct)
  case (Cons e es x xs)
  obtain i l p r where e: "e = (i, l, p, r)" by (cases e) auto
  have "import_entry_parts H x = Inr e" by (rule carried_parts [OF Cons.hyps(1) assms(2)])
  then show ?case using Cons.IH by (simp add: e st_then_def st_lift_def split: sum.split prod.split)
qed simp

text \<open>Labels and serialized policies fit their length prefixes.\<close>

definition portable :: "('d, 'm) host_scheme \<Rightarrow> (entry_id \<rightharpoonup> entry_view) \<Rightarrow> bool" where
  "portable H m \<longleftrightarrow> tidy m \<and> (\<forall>i l p r. m i = Some (l, p, r) \<longrightarrow>
     text_fits l \<and> (\<forall>b. policy_ser H p = Some b \<longrightarrow> length b < 2 ^ 32))"

lemma storable_fields:
  assumes "storable r"
  shows "text_fits (er_username r) \<and> text_fits (er_password r) \<and> text_fits (er_url r) \<and> text_fits (er_notes r)"
  using assms
  by (simp add: storable_def record_ok_def record_fields_def record_len_def text_fits_def expose_bytes_def)

lemma carried_wf:
  assumes "carries H (i, l, p, r) x" and "id_ok i" "storable r" "text_fits l" "length (re_policy x) < 2 ^ 32"
  shows "recovery_entry_wf x"
  using assms storable_fields [OF assms(3)]
  by (simp add: carries_def recovery_entry_wf_def id_ok_def ENTRY_ID_LEN_def RECOVERY_ID_LEN_def)

lemma master_of_unique:
  "master_of C pw salt P k a = Inr x \<Longrightarrow> master_of C pw salt P k b = Inr y \<Longrightarrow> x = y"
  by (auto simp: master_of_def argon2id_within_memory_def and_then_Inr_iff map_err_Inr_iff split: if_splits option.splits)

lemma unwrap_session_seed:
  assumes st: "slot_store (store H) opens willing fresh" and s: "in_session opens H pw v x"
    and w: "willing p (a_device (fst x))"
    and u: "unwrap_slot_core H TotpSeed (totp_seed_wrap_blob v) p (fst x) = (r, s')"
  shows "r = Inr (ua_totp_seed (snd x))"
proof -
  obtain sb where sb: "totp_seed_wrap_blob v = blob_to_bytes sb" "blob_ok sb"
    "opens TotpSeed sb (ua_totp_seed (snd x)) (a_device (fst x))"
    using s by (auto simp: in_session_def provisioned_def seeded_def)
  obtain d where "unwrap (store H) TotpSeed sb p (a_device (fst x)) = (Inr (ua_totp_seed (snd x)), d)"
    using slot_store.unwrap_opens [OF st sb(3) w] by blast
  then have "unwrap_slot_core H TotpSeed (totp_seed_wrap_blob v) p (fst x) = (Inr (ua_totp_seed (snd x)), (fst x)\<lparr>a_device := d\<rparr>)"
    using sb(1,2) by (simp add: unwrap_slot_core_def st_err_def unwrap_bytes_eval unwrapped_def blob_from_to_bytes)
  then show ?thesis using u by simp
qed

text \<open>With the session's own password and a prompt that passes, re-authentication yields the session's
  key and seed.\<close>

lemma export_reauth_Inr:
  assumes st: "slot_store (store H) opens willing fresh" and s: "in_session opens H pw v x"
    and w: "willing p (a_device (fst x))"
    and r: "export_reauth H v pw code p (fst x) = (Inr (rm, seed), s')"
  shows "rm = k_master (snd x) \<and> seed = ua_totp_seed (snd x)"
proof -
  obtain k s1 s2 s3 where u: "unwrap_slot_core H VaultKey (k_hsm_wrap_blob v) p (fst x) = (Inr k, s1)"
    and t: "unwrap_slot_core H TotpSeed (totp_seed_wrap_blob v) p s1 = (Inr seed, s2)"
    and d: "derive_master_from_bytes H pw (vault_salt v) (kdf_params_of v) k s3 = (Inr rm, s')"
    using r by (auto simp: export_reauth_def st_iffs)
  have u': "on_fst (unwrap_slot_core H VaultKey (k_hsm_wrap_blob v) p) x = (Inr k, (s1, snd x))" using u by (simp add: on_fst_def)
  obtain av where k: "master_of H pw (vault_salt v) (kdf_params_of v) k av = Inr (k_master (snd x))"
    and w1: "willing p (a_device s1)" using unwrap_session_key [OF st s w u'] by auto
  have s1: "in_session opens H pw v (s1, snd x)"
    by (rule in_session_undisturbed [OF s keepsD [OF keeps_undisturbed_unwrap [OF st] u']])
  have "rm = k_master (snd x)"
    using derive_master_eq [OF d]
      master_of_unique [OF k, of "fst (available_memory_kib H s3)" rm] by auto
  moreover have "seed = ua_totp_seed (snd x)"
    using unwrap_session_seed [OF st s1, of p "Inr seed" s2] w1 t by simp
  ultimately show ?thesis by blast
qed

lemma export_file_Inr:
  assumes st: "slot_store (store H) opens willing fresh" and s: "in_session opens H pw v x"
    and w: "willing p (a_device (fst x))" and c: "export_file H pw code preset p x = (Inr (v', file), y)"
  shows "allows_export (classify (master_bits (strength H) pw [])) \<and>
    length (vault_to_bytes v) \<le> MAX_VAULT_BYTES \<and> length (ua_totp_seed (snd x)) = KEY_LEN \<and>
    (\<exists>es xs avail g g'. list_all2 (row_entry H v (k_master (snd x))) (ua_index (snd x)) es \<and> list_all2 (carries H) es xs \<and>
      export_within_memory H \<lparr>totp_seed = ua_totp_seed (snd x), original_vault_kdf = kdf_params_of v, entries = xs\<rparr>
        pw (preset_params preset) avail g = (Inr file, g'))"
proof -
  obtain x1 lv x2 rm seed x3 arr xs avail x4 where
    en: "ensure_unlocked H x = (Inr (), x1)" and ld: "load_vault H x1 = (Inr lv, x2)"
    and ae: "allows_export (classify (master_bits (strength H) pw []))"
    and ra: "on_fst (export_reauth H lv pw code p) x2 = (Inr (rm, seed), x3)"
    and ik: "into_key seed = Some arr" and ee: "export_entries H lv rm (ua_index (snd x3)) = Inr xs"
    and ew: "on_fst (st_err CRecovery (on_rng (export_within_memory H
         \<lparr>totp_seed = arr, original_vault_kdf = kdf_params_of lv, entries = xs\<rparr> pw (preset_params preset) avail))) x4
       = (Inr file, y)"
    using c by (auto simp: export_file_def st_iffs with_session_def ok_or_Inr_iff split: prod.splits if_splits)
  note s1 = ensure_in_session [OF s en]
  have l2: "lv = v" "in_session opens H pw v x2" "snd x2 = snd x" "length (vault_to_bytes v) \<le> MAX_VAULT_BYTES"
    using load_vault_in_session [OF _ ld] s1 by auto
  have w2: "willing p (a_device (fst x2))" using w same_device(1) [OF en] same_device(2) [OF ld] by simp
  have r: "export_reauth H v pw code p (fst x2) = (Inr (rm, seed), fst x3)" "snd x3 = snd x"
    using ra l2 by (simp_all add: on_fst_iff)
  have k: "rm = k_master (snd x)" "seed = ua_totp_seed (snd x)"
    using export_reauth_Inr [OF st l2(2) w2 r(1)] l2(3) by simp_all
  have arr: "arr = ua_totp_seed (snd x)" "length (ua_totp_seed (snd x)) = KEY_LEN"
    using ik k by (auto simp: into_key_def split: if_splits)
  obtain es where es: "list_all2 (row_entry H v (k_master (snd x))) (ua_index (snd x)) es" "list_all2 (carries H) es xs"
    using export_entries_Inr [OF ee] l2 k r(2) by auto
  obtain g g' where "export_within_memory H \<lparr>totp_seed = ua_totp_seed (snd x), original_vault_kdf = kdf_params_of v, entries = xs\<rparr>
      pw (preset_params preset) avail g = (Inr file, g')"
    using ew arr l2(1) by (auto simp: on_fst_iff st_iffs on_rng_def split: prod.splits)
  then show ?thesis using ae l2(4) arr(2) es by blast
qed

section \<open>Import restores\<close>

lemma import_memory_irrelevant:
  assumes "import_within_memory C file pw a = Inr x" and "import_within_memory C file pw None = Inr y"
  shows "x = y"
proof -
  have "import_within_memory C file pw None = Inr x"
    using assms(1) derive_fits [of C pw _ _ a _ None]
    by (auto simp: import_phases open_sealed_def and_then_Inr_iff)
  then show ?thesis using assms(2) by simp
qed

lemma import_recovery_provisions:
  assumes e: "env_ok H" and st: "slot_store (store H) opens willing fresh" and fr: "fresh_after fresh H"
    and pc: "policy_codec_ok H" and im: "import_within_memory H file pw None = Inr payload"
    and es: "list_all2 (carries H) es (entries payload)" "list_all puttable es" "length es < 2 ^ 32"
    and c: "import_recovery H file pw kdf cfg p s = (Inr (ua, uri), s')"
  shows "\<exists>v. provisioned opens H pw (k_master ua) (ua_totp_seed ua) v s' \<and> kdf_params_of v = kdf \<and>
    open_index H v (k_master ua) = Inr (ua_index ua) \<and> store_view H (k_master ua) v = map_of (rev es) \<and>
    ua_totp_seed ua = totp_seed payload \<and> uri = build_provisioning_uri (base32 H) (totp_seed payload) cfg"
proof -
  obtain avail s0 pl k kb sb salt km now v0 v ix s1 s2 s3 s4 s5 s6 s7 s8 s9 where
    av: "available_memory_kib H s = (avail, s0)" and ip: "import_within_memory H file pw avail = Inr pl"
    and k: "on_rng (random_secret H KEY_LEN) s0 = (k, s1)"
    and kb: "enroll_slot H VaultKey k p s1 = (Inr kb, s2)" and sb: "enroll_slot H TotpSeed (totp_seed pl) p s2 = (Inr sb, s3)"
    and sa: "on_rng (random_secret H KEY_LEN) s3 = (salt, s4)"
    and km: "derive_master H pw salt kdf k s4 = (Inr km, s5)" and nw: "now_unix_secs H s5 = (now, s6)"
    and v0: "on_rng (vault_create H kdf salt (blob_to_bytes kb) (blob_to_bytes sb) (metadata_new now) km) s6 = (Inr v0, s7)"
    and ie: "import_entries H km (entries pl) v0 s7 = (Inr v, s8)"
    and wr: "write_vault_file H (vault_to_bytes v) s8 = (Inr (), s9)"
    and ix: "open_index H v km = Inr ix"
    and b: "build_unlocked H km (totp_seed pl) ix (s9\<lparr>a_totp_config := cfg, a_verifier := None\<rparr>) = (ua, s')"
    and uri: "uri = build_provisioning_uri (base32 H) (totp_seed pl) cfg"
    using c by (auto simp: import_recovery_def st_iffs set_totp_config_def map_err_Inr_iff split: sum.splits)
  have pl: "pl = payload" by (rule import_memory_irrelevant [OF ip im])
  obtain g' where vc: "vault_create H kdf salt (blob_to_bytes kb) (blob_to_bytes sb) (metadata_new now) km (a_rng s6)
      = (Inr v0, g')" and s7: "s7 = s6\<lparr>a_rng := g'\<rparr>"
    using v0 by (auto simp: on_rng_def split: prod.splits)
  note new = vault_create_Inr [OF vc e]
  note ua = build_unlocked_fields [OF b]
  have sl: "length salt = SALT_LEN" using random_secret_step [OF sa] by (simp add: KEY_LEN_def SALT_LEN_def)
  have pa: "put_all H km es v0 s7 = (Inr v, s8)" using ie import_entries_put [OF es(1) pc] by (simp add: pl)
  have o0: "is_ok (open_index H v0 km)" using new(2) by simp
  have n0: "length (envelopes v0) + length es < 2 ^ 32" using new(12) es(3) by simp
  note put = put_all_Inr [OF e o0 vault_create_wf [OF vc e sl] es(2) n0 pa, of opens]
  have sk: "slots_kept opens s7 s8" using put by (auto simp: undisturbed_def)
  have dv: "a_device s7 = a_device s3"
    using s7 nw random_secret_step [OF sa] derive_master_Inr [OF km] by (auto simp: now_unix_secs_def clock_now_def)
  have ob: "opens VaultKey kb k (a_device s3) \<and> opens TotpSeed sb (totp_seed pl) (a_device s3) \<and> blob_ok kb \<and> blob_ok sb"
    by (rule enrolled_pair [OF st fr kb sb])
  obtain avail' where av': "master_of H pw salt kdf k avail' = Inr km" using derive_master_Inr [OF km] by blast
  have "provisioned opens H pw km (totp_seed pl) v s9"
  proof (rule provisionedI [where kb = kb and k = k and sb = sb and salt = salt and P = kdf])
    show "opens VaultKey kb k (a_device s8)" "opens TotpSeed sb (totp_seed pl) (a_device s8)"
      using ob dv slots_keptD [OF sk] by simp_all
    show "blob_ok kb" "blob_ok sb" using ob by simp_all
    show "length k = KEY_LEN" using random_secret_step [OF k] by simp
    show "master_of H pw salt kdf k avail' = Inr km" by (rule av')
  qed (use put new ix wr in \<open>simp_all add: same_lock_def\<close>)
  then have "provisioned opens H pw (k_master ua) (ua_totp_seed ua) v s'"
    using build_unlocked_provisioned [OF _ b] ua by simp
  moreover have "kdf_params_of v = kdf" using put new by (simp add: same_lock_def)
  moreover have "store_view H km v = map_of (rev es)" using put new(3) by simp
  ultimately show ?thesis using ua ix uri pl by auto
qed

end
