(* ===== verification/SessionClaims.thy ===== *)
theory SessionClaims
  imports Exchange
begin

text \<open>
  The guarantees of an unlocked session: it implements an entry store with a password, mutations have
  exactly their documented effect, a password change and an export followed by an import lose nothing,
  and a vault edited in sessions still unlocks.
\<close>

section \<open>Every call is a step of the abstract store\<close>

text \<open>The abstract store: the current password and a finite map.\<close>

inductive store_step :: "secret_string \<times> (entry_id \<rightharpoonup> entry_view) \<Rightarrow> secret_string \<times> (entry_id \<rightharpoonup> entry_view) \<Rightarrow> bool" where
  step_stay: "store_step (pw, m) (pw, m)"
| step_put: "store_step (pw, m) (pw, m(i \<mapsto> e))"
| step_delete: "store_step (pw, m) (pw, m(i := None))"
| step_password: "store_step (pw, m) (pw', m)"

text \<open>What an operation may do to a session in agreement with its vault.  Only a password change, which
  needs a prompter of the kind \<open>honest\<close>, touches the credentials.\<close>

definition simulates :: "(hsm_slot \<Rightarrow> wrapped_blob \<Rightarrow> bytes \<Rightarrow> 'd \<Rightarrow> bool) \<Rightarrow> ('d, 'm) host_scheme \<Rightarrow> bool \<Rightarrow> secret_string \<Rightarrow>
    vault \<Rightarrow> 'd app \<times> unlocked_app \<Rightarrow> 'd app \<times> unlocked_app \<Rightarrow> bool" where
  "simulates opens H fixed pw v x y \<longleftrightarrow> (\<exists>pw' v'. in_session opens H pw' v' y \<and> tidy (session_view H v' y) \<and>
     store_step (pw, session_view H v x) (pw', session_view H v' y) \<and>
     (fixed \<longrightarrow> pw' = pw \<and> same_keys x y \<and> same_door H v v'))"

lemma simulates_same:
  assumes "in_session opens H pw v' y" and "tidy (session_view H v' y)"
    and "store_step (pw, session_view H v x) (pw, session_view H v' y)" and "same_keys x y" and "same_door H v v'"
  shows "simulates opens H fixed pw v x y"
  unfolding simulates_def using assms by blast

lemma simulates_undisturbed:
  assumes "in_session opens H pw v x" and "tidy (session_view H v x)" and "undisturbed opens x y"
  shows "simulates opens H fixed pw v x y"
proof -
  have k: "same_keys x y" using assms(3) by (simp add: undisturbed_def)
  show ?thesis
    by (rule simulates_same [OF in_session_undisturbed [OF assms(1,3)]]) (use assms(2) k step_stay in simp_all)
qed

lemma undisturbed_clear:
  "clear_clipboard_with H K ck fo x = (out, y) \<Longrightarrow> undisturbed opens (fst x) (fst y)"
  by (auto simp: clear_clipboard_with_def undisturbed_def same_fs_def slots_kept_def split: prod.splits)

lemma undisturbed_generate:
  assumes "generate_password H req x = Some (r, y)"
  shows "undisturbed opens x y"
proof -
  obtain e z where e: "ensure_unlocked H x = (e, z)" by (cases "ensure_unlocked H x") simp
  have u: "undisturbed opens x z" by (rule keepsD [OF keeps_undisturbed_now(3) e])
  show ?thesis using assms e u
    by (cases e) (auto simp: generate_password_def bind_eq_Some_conv undisturbed_def same_fs_def slots_kept_def split: prod.splits)
qed

lemma undisturbed_copy:
  assumes "copy_to_clipboard H K i f x = (r, y)"
  shows "undisturbed opens (fst x) (fst y)"
proof -
  have t: "undisturbed opens a b \<Longrightarrow> undisturbed opens b c \<Longrightarrow> undisturbed opens a c" for a b c
    using undisturbed_preorder [of opens] unfolding preorder_def by blast
  obtain d z zu where d: "session_decrypt H i (fst x) = (d, z, zu)" by (cases "session_decrypt H i (fst x)") auto
  have u: "undisturbed opens (fst x) (z, zu)" by (rule keepsD [OF keeps_undisturbed_decrypt d])
  obtain w wu where w: "clamp_session H (z, zu) = ((), w, wu)" by (cases "clamp_session H (z, zu)") auto
  have u': "undisturbed opens (z, zu) (w, wu)" by (rule keepsD [OF keeps_undisturbed_clamp w])
  have "fst y = (z, zu) \<or> fst y = (w, wu)"
    using assms by (auto simp: copy_to_clipboard_def on_fst_def on_snd_def st_do_def d w st_then_def st_lift_def
        split: prod.splits sum.splits)
  then show ?thesis using u t [OF u u'] by auto
qed

lemma on_fst_state: "on_fst f x = (r, y) \<Longrightarrow> f (fst x) = (r, fst y)"
  by (simp add: on_fst_iff)

lemma call_simulates:
  assumes e: "env_ok H" "uuid_ok H" and st: "slot_store (store H) opens willing fresh"
    and c: "session_call H K storable honest x y" and h: "\<And>p d. honest p d \<Longrightarrow> \<not> fixed \<and> willing p d"
    and s: "in_session opens H pw v (fst x)" and t: "tidy (session_view H v (fst x))"
  shows "simulates opens H fixed pw v (fst x) (fst y)"
  using c s t
proof cases
  case (call_list r)
  show ?thesis by (rule simulates_undisturbed [OF s t keepsD [OF keeps_undisturbed_reads(1) on_fst_state [OF call_list]]])
next
  case (call_reveal i f r)
  show ?thesis by (rule simulates_undisturbed [OF s t keepsD [OF keeps_undisturbed_reads(2) on_fst_state [OF call_reveal]]])
next
  case (call_copy i f r)
  show ?thesis by (rule simulates_undisturbed [OF s t undisturbed_copy [OF call_copy]])
next
  case (call_clear ck fo out)
  show ?thesis by (rule simulates_undisturbed [OF s t undisturbed_clear [OF call_clear]])
next
  case (call_add rec l p r)
  obtain v' where v': "in_session opens H pw v' (fst y)" "same_keys (fst x) (fst y)" "same_door H v v'"
    "session_view H v' (fst y) = (case r of Inr i \<Rightarrow> (session_view H v (fst x))(i \<mapsto> (l, p, rec)) | Inl _ \<Rightarrow> session_view H v (fst x))"
    using add_in_session [OF e s call_add(1) on_fst_state [OF call_add(2)]] by blast
  show ?thesis
    by (rule simulates_same [OF v'(1) _ _ v'(2,3)]) (use v'(4) t call_add(1) step_stay step_put in \<open>auto split: sum.split\<close>)
next
  case (call_update rec i l p r)
  obtain v' where v': "in_session opens H pw v' (fst y)" "same_keys (fst x) (fst y)" "same_door H v v'"
    "session_view H v' (fst y) = (if is_ok r then (session_view H v (fst x))(i \<mapsto> (l, p, rec)) else session_view H v (fst x))"
    using update_in_session [OF e(1) s call_update(1) on_fst_state [OF call_update(2)]] by blast
  show ?thesis
    by (rule simulates_same [OF v'(1) _ _ v'(2,3)]) (use v'(4) t call_update(1) step_stay step_put in auto)
next
  case (call_remove i r)
  obtain v' where v': "in_session opens H pw v' (fst y)" "same_keys (fst x) (fst y)" "same_door H v v'"
    "session_view H v' (fst y) = (if is_ok r then (session_view H v (fst x))(i := None) else session_view H v (fst x))"
    using remove_in_session [OF e(1) s on_fst_state [OF call_remove]] by blast
  show ?thesis by (rule simulates_same [OF v'(1) _ _ v'(2,3)]) (use v'(4) t step_stay step_delete in auto)
next
  case (call_generate req r z)
  show ?thesis using simulates_undisturbed [OF s t undisturbed_generate [OF call_generate(2)]] call_generate(1) by simp
next
  case (call_estimate pw' ins r)
  show ?thesis by (rule simulates_undisturbed [OF s t keepsD [OF keeps_undisturbed_reads(3) on_fst_state [OF call_estimate]]])
next
  case (call_verify code b)
  show ?thesis by (rule simulates_undisturbed [OF s t keepsD [OF keeps_undisturbed_verify on_fst_state [OF call_verify]]])
next
  case (call_change p old new kdf r)
  have nf: "\<not> fixed" and w: "willing p (a_device (fst (fst x)))" using h [OF call_change(1)] by simp_all
  note ch = change_in_session [OF e(1) st s t w on_fst_state [OF call_change(2)]]
  show ?thesis
  proof (cases r)
    case (Inl err)
    then show ?thesis using nf ch t step_stay [of pw "session_view H v (fst x)"]
      by (auto simp: simulates_def intro!: exI [of _ pw] exI [of _ v])
  next
    case (Inr stale)
    then obtain v' where "in_session opens H new v' (fst y)" "session_view H v' (fst y) = session_view H v (fst x)"
      using ch by auto
    then show ?thesis using nf t step_password [of pw "session_view H v (fst x)" new]
      by (auto simp: simulates_def intro!: exI [of _ new] exI [of _ v'])
  qed
next
  case (call_export pw' code preset p r)
  obtain v' where v': "in_session opens H pw v' (fst y)" "session_view H v' (fst y) = session_view H v (fst x)"
    "same_keys (fst x) (fst y)" "same_door H v v'"
    using export_in_session [OF st s on_fst_state [OF call_export]] by blast
  show ?thesis by (rule simulates_same [OF v'(1) _ _ v'(3,4)]) (use v'(2) t step_stay in simp_all)
next
  case (call_expired b)
  show ?thesis by (rule simulates_undisturbed [OF s t keepsD [OF keeps_undisturbed_now(2) on_fst_state [OF call_expired]]])
qed

lemma calls_simulate:
  assumes "env_ok H" "uuid_ok H" and "slot_store (store H) opens willing fresh"
    and "(session_call H K storable honest)\<^sup>*\<^sup>* x y" and "\<And>p d. honest p d \<Longrightarrow> \<not> fixed \<and> willing p d"
    and "in_session opens H pw v (fst x)" and "tidy (session_view H v (fst x))"
  shows "\<exists>pw' v'. in_session opens H pw' v' (fst y) \<and> tidy (session_view H v' (fst y)) \<and>
    store_step\<^sup>*\<^sup>* (pw, session_view H v (fst x)) (pw', session_view H v' (fst y)) \<and>
    (fixed \<longrightarrow> pw' = pw \<and> same_keys (fst x) (fst y) \<and> same_door H v v')"
  using assms(4)
proof (induction rule: rtranclp_induct)
  case base
  then show ?case using assms(6,7) by (intro exI [of _ pw] exI [of _ v]) simp
next
  case (step y z)
  then obtain pw' v' where h: "in_session opens H pw' v' (fst y)" "tidy (session_view H v' (fst y))"
    "store_step\<^sup>*\<^sup>* (pw, session_view H v (fst x)) (pw', session_view H v' (fst y))"
    and f: "fixed \<longrightarrow> pw' = pw \<and> same_keys (fst x) (fst y) \<and> same_door H v v'" by blast
  obtain pw'' v'' where n: "in_session opens H pw'' v'' (fst z)" "tidy (session_view H v'' (fst z))"
    "store_step (pw', session_view H v' (fst y)) (pw'', session_view H v'' (fst z))"
    and g: "fixed \<longrightarrow> pw'' = pw' \<and> same_keys (fst y) (fst z) \<and> same_door H v' v''"
    using call_simulates [OF assms(1-3) step(2) assms(5) h(1,2)] unfolding simulates_def by blast
  have "store_step\<^sup>*\<^sup>* (pw, session_view H v (fst x)) (pw'', session_view H v'' (fst z))"
    using h(3) n(3) by (rule rtranclp.rtrancl_into_rtrancl)
  moreover have "fixed \<longrightarrow> pw'' = pw \<and> same_keys (fst x) (fst z) \<and> same_door H v v''"
    using f g same_door_trans [of H v v' v''] by simp
  ultimately show ?case using n(1,2) by blast
qed

section \<open>Where sessions come from\<close>

lemma created_in_session:
  assumes "env_ok H" and "slot_store (store H) opens willing fresh" and "fresh_after fresh H"
    and "create_vault H pw kdf cfg p s = (Inr (ua, uri), s')"
  shows "\<exists>v. in_session opens H pw v (s', ua) \<and> session_view H v (s', ua) = Map.empty"
proof -
  obtain v where v: "provisioned opens H pw (k_master ua) (ua_totp_seed ua) v s'" "ua_index ua = []"
    "store_view H (k_master ua) v = Map.empty" "\<exists>salt kb sb meta g g'. vault_create H kdf salt kb sb meta (k_master ua) g = (Inr v, g')"
    using create_vault_provisions [OF assms] by blast
  then have "open_index H v (k_master ua) = Inr []" using vault_create_Inr(2) [OF _ assms(1)] by blast
  then show ?thesis using v by (intro exI [of _ v]) (simp add: in_session_def)
qed

lemma store_view_rate_limit [simp]: "store_view E km (set_rate_limit c t v) = store_view E km v"
proof (rule ext)
  fix i
  have "decrypt_entry E (set_rate_limit c t v) km i = decrypt_entry E v km i"
    by (rule decrypt_entry_frame) (simp_all add: set_rate_limit_def)
  then show "store_view E km (set_rate_limit c t v) i = store_view E km v i"
    by (simp add: store_view_def split: sum.split option.split)
qed

lemma unlocked_in_session:
  assumes st: "slot_store (store H) opens willing fresh" and pr: "provisioned opens H pw km seed v s"
    and co: "cooperates willing H v seed code p s"
  shows "\<exists>ua s' v'. unlock H pw code p s = (Inr ua, s') \<and> k_master ua = km \<and> in_session opens H pw v' (s', ua) \<and>
    session_view H v' (s', ua) = store_view H km v"
proof -
  obtain ua s' where u: "unlock H pw code p s = (Inr ua, s')" "k_master ua = km" "ua_totp_seed ua = seed"
    "open_index H v km = Inr (ua_index ua)"
    using provisioned_unlocks [OF st pr co] by blast
  obtain c t where "provisioned opens H pw km seed (set_rate_limit c t v) s'"
    using unlock_keeps_provisioned [OF st pr u(1)] by blast
  then show ?thesis using u by (intro exI [of _ ua] exI [of _ s'] exI [of _ "set_rate_limit c t v"]) (simp add: in_session_def)
qed

end
