(* ===== verification/SessionTotal.thy ===== *)
theory SessionTotal
  imports SessionClaims
begin

text \<open>
  When a session's operations succeed: with a working disk, a passing prompt and entries the
  serializer accepts, adding, changing the password and exporting return a result.
\<close>

section \<open>A cooperating environment of a session\<close>

definition session_live :: "('d, 'm) host_scheme \<Rightarrow> 'd app \<times> unlocked_app \<Rightarrow> bool" where
  "session_live H x \<longleftrightarrow> (\<forall>t. clock_at H t < session_expiry (snd x)) \<and> no_temps H (fst x) \<and>
     (\<forall>t. io_stat (read_at H t) \<and> io_read (read_at H t) \<and> write_fine (write_at H t))"

lemma temps_after_write:
  assumes "no_temps H s" and "write_vault_file H b s = (Inr u, s')"
  shows "no_temps H s'"
proof -
  obtain fs' g' where w: "atomic_write H (write_at H (a_tick s)) (process_id H) (a_path s) b (a_fs s, a_rng s) = (Inr u, fs', g')"
    and s': "s' = s\<lparr>a_fs := fs', a_rng := g', a_tick := a_tick s + 1\<rparr>"
    using assms(2) by (auto simp: write_vault_file_def split: prod.splits)
  have f: "fs' = (a_fs s)(a_path s \<mapsto> \<lparr>f_content = b, f_mode = OWNER_ONLY\<rparr>)" using atomic_write_Inr [OF w] by simp
  have "fst (temp_sibling H (process_id H) (a_path s) g) \<noteq> a_path s" for g
    using assms(1) temp_not_target [of "a_path s" H "process_id H" g] by (simp add: no_temps_def) (metis prod.collapse)
  then show ?thesis using assms(1) by (simp add: no_temps_def s' f)
qed

lemma live_frame:
  assumes "session_live H x" and "undisturbed opens x y" and "session_expiry (snd y) = session_expiry (snd x)"
  shows "session_live H y"
  using assms by (simp add: session_live_def no_temps_def undisturbed_def same_fs_def slots_kept_def)

lemma ensure_live:
  "session_live H x \<Longrightarrow> ensure_unlocked H x = (Inr (), (fst x)\<lparr>a_tick := a_tick (fst x) + 1\<rparr>, snd x)"
  by (simp add: session_live_def ensure_unlocked_def session_now_def on_fst_def clock_now_def not_le)

lemma load_live:
  assumes "session_live H x" and "in_session opens H pw v x" and "length (vault_to_bytes v) \<le> MAX_VAULT_BYTES"
  shows "load_vault H x = (Inr v, (fst x)\<lparr>a_tick := a_tick (fst x) + 1\<rparr>, snd x)"
proof -
  have "stored v (fst x)" using assms(2) by (simp add: in_session_def provisioned_def)
  moreover have "reads_vault H v (fst x)" using assms(1,3) by (simp add: reads_vault_def session_live_def)
  ultimately have "vault_on_disk H (fst x) = Inr v" by (rule stored_on_disk)
  then show ?thesis
    by (auto simp: load_vault_def on_fst_def read_vault_file_def st_then_def st_lift_def vault_on_disk_def and_then_Inr_iff)
qed

lemma live_ticks [simp]:
  "session_live H ((fst x)\<lparr>a_tick := t\<rparr>, snd x) = session_live H x"
  "in_session opens H pw v ((fst x)\<lparr>a_tick := t\<rparr>, snd x) = in_session opens H pw v x"
  by (simp_all add: session_live_def no_temps_def in_session_def provisioned_def stored_def)

lemma persist_live:
  assumes "session_live H x" and "open_index H v' (k_master (snd x)) = Inr ix"
  shows "\<exists>s'. persist_and_refresh H v' x = (Inr (), s', (snd x)\<lparr>ua_index := ix\<rparr>) \<and> session_live H (s', (snd x)\<lparr>ua_index := ix\<rparr>) \<and>
    write_vault_file H (vault_to_bytes v') (fst x) = (Inr (), s')"
proof -
  have w: "no_temps H (fst x)" "write_fine (write_at H (a_tick (fst x)))" using assms(1) by (simp_all add: session_live_def)
  obtain s' where s': "write_vault_file H (vault_to_bytes v') (fst x) = (Inr (), s')" using write_vault_file_ok [OF w] by blast
  have "no_temps H s'" by (rule temps_after_write [OF w(1) s'])
  then show ?thesis using s' assms
    by (simp add: persist_and_refresh_def refresh_index_def st_then_def on_fst_def on_snd_def set_session_def
        with_session_def st_lift_def st_do_def session_live_def)
qed

lemma add_entry_live:
  assumes e: "env_ok H" "aead_total H" and s: "in_session opens H pw v x" and l: "session_live H x"
    and r: "storable r" and sz: "length (vault_to_bytes v) \<le> MAX_VAULT_BYTES"
    and i: "fst (entry_id_generate H (a_rng (fst x))) = i"
    and ps: "postcard_ser H (snd (index_upsert \<lparr>ie_id = i, ie_label = lb, ie_policy = p\<rparr> (ua_index (snd x)))) = Some b"
  shows "\<exists>y v' g g'. add_entry H lb p r x = (Inr i, y) \<and> session_live H y \<and>
    add_or_update_entry H (k_master (snd x)) i lb p r (v, g) = (Inr (), v', g') \<and>
    (\<exists>f. a_fs (fst y) (a_path (fst y)) = Some f \<and> f_content f = vault_to_bytes v') \<and>
    a_verifier (fst y) = a_verifier (fst x) \<and> a_totp_config (fst y) = a_totp_config (fst x) \<and>
    a_device (fst y) = a_device (fst x) \<and> a_allow_software_hsm (fst y) = a_allow_software_hsm (fst x) \<and>
    k_master (snd y) = k_master (snd x) \<and> ua_totp_seed (snd y) = ua_totp_seed (snd x) \<and>
    ua_index (snd y) = snd (index_upsert \<lparr>ie_id = i, ie_label = lb, ie_policy = p\<rparr> (ua_index (snd x))) \<and>
    session_expiry (snd y) = session_expiry (snd x)"
proof -
  let ?ix = "snd (index_upsert \<lparr>ie_id = i, ie_label = lb, ie_policy = p\<rparr> (ua_index (snd x)))"
  obtain g where g: "entry_id_generate H (a_rng (fst x)) = (i, g)" using i by (cases "entry_id_generate H (a_rng (fst x))") simp
  let ?x1 = "((fst x)\<lparr>a_tick := a_tick (fst x) + 1, a_rng := g\<rparr>, snd x)"
  have l1: "session_live H ?x1" using l by (simp add: session_live_def no_temps_def)
  have s1: "in_session opens H pw v ?x1" using s by (simp add: in_session_def provisioned_def stored_def)
  have ld: "load_vault H ?x1 = (Inr v, (fst ?x1)\<lparr>a_tick := a_tick (fst ?x1) + 1\<rparr>, snd x)"
    using load_live [OF l1 s1 sz] by simp
  let ?x2 = "((fst ?x1)\<lparr>a_tick := a_tick (fst ?x1) + 1\<rparr>, snd x)"
  have rl: "record_ok r" "record_len r < 2 ^ 32" using r by (simp_all add: storable_def)
  obtain v' g' where a: "add_or_update_entry H (k_master (snd x)) i lb p r (v, g) = (Inr (), v', g')"
    using add_or_update_total [OF e(2,1) in_session_vault(3) [OF s] rl(2) ps] by blast
  have pe: "on_fst (put_entry H (k_master (snd x)) i lb p r v) ?x2 = (Inr v', (fst ?x2)\<lparr>a_rng := g'\<rparr>, snd x)"
    using a by (simp add: on_fst_def put_entry_def on_rng_def)
  let ?x3 = "((fst ?x2)\<lparr>a_rng := g'\<rparr>, snd x)"
  have l3: "session_live H ?x3" using l by (simp add: session_live_def no_temps_def)
  have oi: "open_index H v' (k_master (snd ?x3)) = Inr ?ix"
    using add_or_update_Inr(1) [OF a e(1) in_session_vault(3) [OF s] rl] by simp
  obtain s' where p': "persist_and_refresh H v' ?x3 = (Inr (), s', (snd x)\<lparr>ua_index := ?ix\<rparr>)"
    "session_live H (s', (snd x)\<lparr>ua_index := ?ix\<rparr>)" "write_vault_file H (vault_to_bytes v') (fst ?x3) = (Inr (), s')"
    using persist_live [OF l3 oi] by auto
  note f = write_vault_file_frame [OF p'(3)] write_vault_file_path [OF p'(3)]
  have "upsert_entry H i lb p r ?x1 = (Inr (), s', (snd x)\<lparr>ua_index := ?ix\<rparr>)"
    using ld pe p' by (simp add: upsert_entry_def with_session_def)
  then have "add_entry H lb p r x = (Inr i, s', (snd x)\<lparr>ua_index := ?ix\<rparr>)"
    using ensure_live [OF l] g by (simp add: add_entry_def st_do_def st_lift_def on_fst_def on_rng_def st_then_def)
  then show ?thesis using p'(2) f a by (intro exI conjI) (assumption | simp)+
qed

text \<open>Every row of the session decrypts.\<close>

definition readable :: "('d, 'm) host_scheme \<Rightarrow> vault \<Rightarrow> 'd app \<times> unlocked_app \<Rightarrow> bool" where
  "readable H v x \<longleftrightarrow> (\<forall>row\<in>set (ua_index (snd x)). is_ok (decrypt_entry H v (k_master (snd x)) (ie_id row)))"

lemma index_upsert_new:
  "ie_id row \<notin> ie_id ` set ix \<Longrightarrow> snd (index_upsert row ix) = ix @ [row]"
proof -
  assume "ie_id row \<notin> ie_id ` set ix"
  then have "List.find (\<lambda>x. ie_id x = ie_id row) ix = None" by (auto simp: find_None_all) (metis imageI)
  then show ?thesis by (simp add: index_upsert_def)
qed

definition entry_row :: "entry_id \<times> entry_view \<Rightarrow> index_entry" where
  "entry_row e = (case e of (i, l, p, r) \<Rightarrow> \<lparr>ie_id = i, ie_label = l, ie_policy = p\<rparr>)"

lemma entry_row_simps [simp]: "entry_row (i, l, p, r) = \<lparr>ie_id = i, ie_label = l, ie_policy = p\<rparr>"
  by (simp add: entry_row_def)

lemma entry_row_ids: "map ie_id (map entry_row es) = map fst es"
  by (induction es) (auto simp: entry_row_def)

lemma put_all_live:
  assumes e: "env_ok H" "aead_total H"
  shows "open_index H v km = Inr pre \<Longrightarrow> distinct (map ie_id pre @ map fst es) \<Longrightarrow> list_all puttable es \<Longrightarrow>
    \<forall>n. postcard_ser H (pre @ take n (map entry_row es)) \<noteq> None \<Longrightarrow>
    \<exists>v' s'. put_all H km es v s = (Inr v', s') \<and> open_index H v' km = Inr (pre @ map entry_row es) \<and>
      s' = s\<lparr>a_rng := a_rng s'\<rparr>"
proof (induction es arbitrary: pre v s)
  case Nil
  then show ?case by (simp add: st_lift_def)
next
  case (Cons entry es)
  obtain i l p r where en: "entry = (i, l, p, r)" by (cases entry) auto
  let ?row = "\<lparr>ie_id = i, ie_label = l, ie_policy = p\<rparr>"
  have r: "record_ok r" "record_len r < 2 ^ 32" using Cons.prems(3) by (simp_all add: en puttable_def storable_def)
  have up: "snd (index_upsert ?row pre) = pre @ [?row]"
    by (rule index_upsert_new) (use Cons.prems(2) in \<open>auto simp: en\<close>)
  obtain b where b: "postcard_ser H (snd (index_upsert ?row pre)) = Some b"
    using Cons.prems(4) [THEN spec, of 1] by (auto simp: up en)
  obtain v1 g1 where a: "add_or_update_entry H km i l p r (v, a_rng s) = (Inr (), v1, g1)"
    using add_or_update_total [OF e(2,1) Cons.prems(1) r(2) b] by blast
  have pe: "put_entry H km i l p r v s = (Inr v1, s\<lparr>a_rng := g1\<rparr>)" using a by (simp add: put_entry_def on_rng_def)
  have o: "open_index H v1 km = Inr (pre @ [?row])"
    using add_or_update_Inr(1) [OF a e(1) Cons.prems(1) r] by (simp add: up)
  have ps: "\<forall>n. postcard_ser H ((pre @ [?row]) @ take n (map entry_row es)) \<noteq> None"
  proof
    fix n
    show "postcard_ser H ((pre @ [?row]) @ take n (map entry_row es)) \<noteq> None"
      using Cons.prems(4) [THEN spec, of "Suc n"] by (simp add: en)
  qed
  have "distinct (map ie_id (pre @ [?row]) @ map fst es)" "list_all puttable es"
    using Cons.prems(2,3) by (simp_all add: en)
  then obtain v' s' where "put_all H km es v1 (s\<lparr>a_rng := g1\<rparr>) = (Inr v', s')"
    "open_index H v' km = Inr ((pre @ [?row]) @ map entry_row es)" "s' = (s\<lparr>a_rng := g1\<rparr>)\<lparr>a_rng := a_rng s'\<rparr>"
    using Cons.IH [OF o _ _ ps, of "s\<lparr>a_rng := g1\<rparr>"] by blast
  then show ?case using pe by (simp add: en st_then_def)
qed

lemma copy_entries_eq:
  "list_all2 (row_entry H source old) rows es \<Longrightarrow> copy_entries H source old new rows v s = put_all H new es v s"
proof (induction rows es arbitrary: v s rule: list_all2_induct)
  case (Cons row rows e es)
  then show ?case by (auto simp: row_entry_def st_then_def st_lift_def split: sum.split prod.split)
qed simp

lemma row_entries_rows: "list_all2 (row_entry H v km) rows es \<Longrightarrow> map entry_row es = rows"
  by (induction rule: list_all2_induct) (auto simp: row_entry_def)

text \<open>The entries of a readable session.\<close>

lemma readable_entries:
  assumes "readable H v x"
  shows "\<exists>es. list_all2 (row_entry H v (k_master (snd x))) (ua_index (snd x)) es"
proof -
  have "\<exists>es. list_all2 (row_entry H v km) rows es"
    if "\<forall>row\<in>set rows. is_ok (decrypt_entry H v km (ie_id row))" for km rows
    using that
  proof (induction rows)
    case Nil
    show ?case by (rule exI [of _ "[]"]) simp
  next
    case (Cons row rows)
    obtain r where r: "decrypt_entry H v km (ie_id row) = Inr r" using Cons.prems by (auto simp: is_ok_iff)
    obtain es where "list_all2 (row_entry H v km) rows es" using Cons by auto
    moreover have "row_entry H v km row (ie_id row, ie_label row, ie_policy row, r)" using r by (simp add: row_entry_def)
    ultimately show ?case by (intro exI [of _ "(ie_id row, ie_label row, ie_policy row, r) # es"]) simp
  qed
  then show ?thesis using assms by (simp add: readable_def)
qed

section \<open>Changing the password succeeds\<close>

lemma derive_live:
  assumes "derives H pw P" and "length k = KEY_LEN"
  shows "\<exists>km. derive_master_from_bytes H pw salt P k s = (Inr km, s\<lparr>a_tick := a_tick s + 1\<rparr>) \<and>
    master_of H pw salt P k (fst (available_memory_kib H s)) = Inr km"
proof -
  obtain km where "master_of H pw salt P k (fst (available_memory_kib H s)) = Inr km"
    using assms(1) unfolding derives_def is_ok_iff by blast
  then show ?thesis using assms(2)
    by (simp add: derive_master_from_bytes_def derive_master_def into_key_def st_then_def st_lift_def st_do_def available_memory_kib_def)
qed

text \<open>Both slots of a session's vault unwrap.\<close>

lemma unwraps_live:
  assumes st: "slot_store (store H) opens willing fresh" and s: "in_session opens H pw v (t, ua)"
    and w: "willing p (a_device t)"
  shows "\<exists>k d avail. unwrap_slot_core H VaultKey (k_hsm_wrap_blob v) p t = (Inr k, t\<lparr>a_device := d\<rparr>) \<and> length k = KEY_LEN \<and>
    willing p d \<and> in_session opens H pw v (t\<lparr>a_device := d\<rparr>, ua) \<and>
    master_of H pw (vault_salt v) (kdf_params_of v) k avail = Inr (k_master ua)"
proof -
  obtain r t' where u: "unwrap_slot_core H VaultKey (k_hsm_wrap_blob v) p t = (r, t')" by fastforce
  then have u': "on_fst (unwrap_slot_core H VaultKey (k_hsm_wrap_blob v) p) (t, ua) = (r, t', ua)" by (simp add: on_fst_def)
  obtain k where k: "r = Inr k" "length k = KEY_LEN" "willing p (a_device t')"
    "\<exists>avail. master_of H pw (vault_salt v) (kdf_params_of v) k avail = Inr (k_master ua)"
    using unwrap_session_key [OF st s _ u'] w by auto
  have "t' = t\<lparr>a_device := a_device t'\<rparr>"
    using u by (auto simp: unwrap_slot_core_def st_err_def unwrap_bytes_eval)
  moreover have "in_session opens H pw v (t', ua)"
    by (rule in_session_undisturbed [OF s keepsD [OF keeps_undisturbed_unwrap [OF st] u']])
  ultimately show ?thesis using u k by metis
qed

lemma change_rebuild_live:
  assumes e: "env_ok H" "aead_total H" and st: "slot_store (store H) opens willing fresh"
    and s: "in_session opens H pw v x" and l: "session_live H x" and t: "tidy (session_view H v x)" and rd: "readable H v x"
    and sz: "length (vault_to_bytes v) \<le> MAX_VAULT_BYTES" and w: "willing p (a_device (fst x))"
    and de: "derives H pw (kdf_params_of v)" "derives H new kdf"
    and ps: "\<forall>n. postcard_ser H (take n (ua_index (snd x))) \<noteq> None"
  shows "\<exists>stale nk v' y. change_rebuild H pw new kdf p x = (Inr (stale, nk, v'), y)"
proof -
  obtain m ua where x: "x = (m, ua)" by (cases x)
  let ?m1 = "m\<lparr>a_tick := a_tick m + 1\<rparr>" and ?m2 = "m\<lparr>a_tick := a_tick m + 2\<rparr>"
  have s2: "in_session opens H pw v (?m2, ua)" using s by (simp add: x in_session_def provisioned_def stored_def)
  have en: "ensure_unlocked H x = (Inr (), ?m1, ua)" using ensure_live [OF l] by (simp add: x)
  have "load_vault H (?m1, ua) = (Inr v, (fst (?m1, ua))\<lparr>a_tick := a_tick (fst (?m1, ua)) + 1\<rparr>, snd (?m1, ua))"
    by (rule load_live [OF _ _ sz, of _ _ opens pw]) (use l s in \<open>simp_all add: x session_live_def no_temps_def in_session_def provisioned_def stored_def\<close>)
  then have ld: "load_vault H (?m1, ua) = (Inr v, ?m2, ua)" by simp
  obtain k d avail where u: "unwrap_slot_core H VaultKey (k_hsm_wrap_blob v) p ?m2 = (Inr k, ?m2\<lparr>a_device := d\<rparr>)"
    and k: "length k = KEY_LEN" and mk: "master_of H pw (vault_salt v) (kdf_params_of v) k avail = Inr (k_master ua)"
    using unwraps_live [OF st s2, of p] w by (auto simp: x)
  let ?m3 = "?m2\<lparr>a_device := d\<rparr>"
  let ?m4 = "?m3\<lparr>a_tick := a_tick ?m3 + 1\<rparr>"
  obtain om where om: "derive_master_from_bytes H pw (vault_salt v) (kdf_params_of v) k ?m3 = (Inr om, ?m4)"
    "master_of H pw (vault_salt v) (kdf_params_of v) k (fst (available_memory_kib H ?m3)) = Inr om"
    using derive_live [OF de(1) k] by blast
  have "om = k_master ua" using master_of_unique [OF om(2) mk] .
  then have pr: "verify_probe H v om = Inr ()" using in_session_vault(2) [OF s] by (simp add: x)
  obtain salt m5 where sa: "on_rng (random_secret H KEY_LEN) ?m4 = (salt, m5)" by fastforce
  let ?m6 = "m5\<lparr>a_tick := a_tick m5 + 1\<rparr>"
  obtain nk where nk: "derive_master_from_bytes H new salt kdf k m5 = (Inr nk, ?m6)"
    using derive_live [OF de(2) k] by blast
  have "postcard_ser H [] \<noteq> None" using ps [THEN spec, of 0] by simp
  then obtain pb where pb: "postcard_ser H [] = Some pb" by blast
  have bl: "length (k_hsm_wrap_blob v) \<le> MAX_HSM_BLOB_LEN" "length (totp_seed_wrap_blob v) \<le> MAX_HSM_BLOB_LEN"
    using in_session_vault(1) [OF s] by (simp_all add: vault_wf_def)
  let ?meta = "(vmetadata v)\<lparr>last_password_change := i64_sat (clock_at H (a_tick ?m6))\<rparr>"
  obtain v0 g where vc: "vault_create H kdf salt (k_hsm_wrap_blob v) (totp_seed_wrap_blob v) ?meta nk (a_rng ?m6) = (Inr v0, g)"
    using vault_create_total [OF e(2,1) pb bl] by blast
  have oi: "open_index H v (k_master ua) = Inr (ua_index ua)" using in_session_vault(3) [OF s] by (simp add: x)
  obtain es where es: "list_all2 (row_entry H v (k_master ua)) (ua_index ua) es"
    using readable_entries [OF rd] by (auto simp: x)
  let ?m7 = "?m6\<lparr>a_tick := a_tick ?m6 + 1, a_rng := g\<rparr>"
  have pu: "list_all puttable es" by (rule row_entries_puttable [OF s _ t]) (use es in \<open>simp add: x\<close>)
  have ids: "distinct (map ie_id [] @ map fst es)" using oi row_entries_ids [OF es] by (simp add: open_index_iff)
  have pp: "\<forall>n. postcard_ser H ([] @ take n (map entry_row es)) \<noteq> None"
    using ps row_entries_rows [OF es] by (simp add: x)
  obtain v' s' where cp: "copy_entries H v (k_master ua) nk (ua_index ua) v0 ?m7 = (Inr v', s')"
    using put_all_live [OF e vault_create_Inr(2) [OF vc e(1)] ids pu pp, of ?m7] copy_entries_eq [OF es] by auto
  have re: "reencrypt_vault H v salt kdf nk (?m6, ua) = (Inr v', s', ua)"
    using vc cp by (simp add: reencrypt_vault_def session_now_i64_def session_now_def on_fst_def clock_now_def with_session_def
        st_then_def st_do_def st_err_def on_rng_def)
  have "change_rebuild H pw new kdf p x = (Inr (last_export_at (vmetadata v) \<noteq> None, nk, v'), s', ua)"
    using en ld u om(1) pr sa nk re by (simp add: change_rebuild_def on_fst_def st_then_def st_do_def st_lift_def)
  then show ?thesis by blast
qed

lemma rebuild_expiry:
  "change_rebuild H old new kdf p x = (r, y) \<Longrightarrow> no_temps H (fst x) \<Longrightarrow> slot_store (store H) opens willing fresh \<Longrightarrow> no_temps H (fst y)"
  using keepsD [OF keeps_undisturbed_rebuild, of H opens willing fresh old new kdf p x r y]
  by (simp add: undisturbed_def same_fs_def slots_kept_def no_temps_def)

lemma change_live:
  assumes "env_ok H" "aead_total H" and st: "slot_store (store H) opens willing fresh"
    and "in_session opens H pw v x" and l: "session_live H x" and "tidy (session_view H v x)" and "readable H v x"
    and "length (vault_to_bytes v) \<le> MAX_VAULT_BYTES" and "willing p (a_device (fst x))"
    and "derives H pw (kdf_params_of v)" "derives H new kdf"
    and "\<forall>n. postcard_ser H (take n (ua_index (snd x))) \<noteq> None"
  shows "\<exists>stale y. change_master_password H pw new kdf p x = (Inr stale, y)"
proof -
  obtain stale nk v' z where r: "change_rebuild H pw new kdf p x = (Inr (stale, nk, v'), z)"
    using change_rebuild_live [OF assms] by blast
  obtain m ua where z: "z = (m, ua)" by (cases z)
  have "no_temps H m" using rebuild_expiry [OF r _ st] l by (simp add: z session_live_def)
  then obtain m' where w: "write_vault_file H (vault_to_bytes v') m = (Inr (), m')"
    using write_vault_file_ok l unfolding session_live_def by blast
  obtain ix where "open_index H v' nk = Inr ix"
    using change_rebuild_Inr [OF assms(1,3,4,6,9) r] by (auto simp: is_ok_iff)
  then show ?thesis
    using r w by (simp add: change_master_password_def st_then_def on_fst_def on_snd_def z set_session_def st_do_def
        refresh_index_def with_session_def st_lift_def)
qed

section \<open>Exporting succeeds\<close>

definition exports :: "('d, 'm) host_scheme \<Rightarrow> secret_string \<Rightarrow> recovery_preset \<Rightarrow> bool" where
  "exports H pw preset \<longleftrightarrow> allows_export (classify (master_bits (strength H) pw [])) \<and>
     (\<forall>payload s g. \<exists>file g'. export_within_memory H payload pw (preset_params preset)
        (fst (available_memory_kib H s)) g = (Inr file, g'))"

lemma export_entries_live:
  assumes "\<forall>row\<in>set rows. is_ok (decrypt_entry H v km (ie_id row)) \<and> policy_ser H (ie_policy row) \<noteq> None"
  shows "is_ok (export_entries H v km rows)"
  using assms by (induction rows) (auto simp: is_ok_iff recovery_entry_from_def)

lemma export_live:
  assumes st: "slot_store (store H) opens willing fresh" and s: "in_session opens H pw v x" and l: "session_live H x"
    and rd: "readable H v x" and sz: "length (vault_to_bytes v) \<le> MAX_VAULT_BYTES" and w: "willing p (a_device (fst x))"
    and de: "derives H pw (kdf_params_of v)" and ex: "exports H pw preset" and ln: "length (ua_totp_seed (snd x)) = KEY_LEN"
    and ps: "\<forall>row\<in>set (ua_index (snd x)). policy_ser H (ie_policy row) \<noteq> None"
    and to: "fst (totp_verify (hmac_tag H) (ua_totp_seed (snd x)) code (clock_at H (a_tick (fst x) + 2)) (current_verifier (fst x))) = Inr ()"
  shows "\<exists>file y. export_recovery H pw code preset p x = (Inr file, y) \<and> no_temps H (fst y)"
proof -
  obtain m ua where x: "x = (m, ua)" by (cases x)
  let ?m1 = "m\<lparr>a_tick := a_tick m + 1\<rparr>" and ?m2 = "m\<lparr>a_tick := a_tick m + 2\<rparr>"
  have s2: "in_session opens H pw v (?m2, ua)" using s by (simp add: x in_session_def provisioned_def stored_def)
  have en: "ensure_unlocked H x = (Inr (), ?m1, ua)" using ensure_live [OF l] by (simp add: x)
  have "load_vault H (?m1, ua) = (Inr v, (fst (?m1, ua))\<lparr>a_tick := a_tick (fst (?m1, ua)) + 1\<rparr>, snd (?m1, ua))"
    by (rule load_live [OF _ _ sz, of _ _ opens pw]) (use l s in \<open>simp_all add: x session_live_def no_temps_def in_session_def provisioned_def stored_def\<close>)
  then have ld: "load_vault H (?m1, ua) = (Inr v, ?m2, ua)" by simp
  obtain k d avail where u: "unwrap_slot_core H VaultKey (k_hsm_wrap_blob v) p ?m2 = (Inr k, ?m2\<lparr>a_device := d\<rparr>)"
    and k: "length k = KEY_LEN" and wd: "willing p d" and s3: "in_session opens H pw v (?m2\<lparr>a_device := d\<rparr>, ua)"
    and mk: "master_of H pw (vault_salt v) (kdf_params_of v) k avail = Inr (k_master ua)"
    using unwraps_live [OF st s2, of p] w by (auto simp: x)
  let ?m3 = "?m2\<lparr>a_device := d\<rparr>"
  obtain r m4 where us: "unwrap_slot_core H TotpSeed (totp_seed_wrap_blob v) p ?m3 = (r, m4)" by fastforce
  then have r: "r = Inr (ua_totp_seed ua)" using unwrap_session_seed [OF st s3, of p r m4] wd by simp
  have m4: "m4 = ?m3\<lparr>a_device := a_device m4\<rparr>"
    using us by (auto simp: unwrap_slot_core_def st_err_def unwrap_bytes_eval)
  have cv: "current_verifier (?m3\<lparr>a_device := dd\<rparr>) = current_verifier m" for dd
    by (simp add: current_verifier_def split: option.split)
  have "fst (verify_totp H (ua_totp_seed ua) code (?m3\<lparr>a_device := a_device m4\<rparr>)) = Inr ()"
    using to unfolding verify_totp_result cv by (simp add: x)
  then obtain m5 where vt: "verify_totp H (ua_totp_seed ua) code m4 = (Inr (), m5)" using m4 by (metis prod.collapse)
  let ?m6 = "m5\<lparr>a_tick := a_tick m5 + 1\<rparr>"
  obtain om where om: "derive_master_from_bytes H pw (vault_salt v) (kdf_params_of v) k m5 = (Inr om, ?m6)"
    "master_of H pw (vault_salt v) (kdf_params_of v) k (fst (available_memory_kib H m5)) = Inr om"
    using derive_live [OF de k] by blast
  have ok: "om = k_master ua" using master_of_unique [OF om(2) mk] .
  have ra: "export_reauth H v pw code p ?m2 = (Inr (k_master ua, ua_totp_seed ua), ?m6)"
    using u us r vt om(1) ok in_session_vault(2) [OF s]
    by (simp add: x export_reauth_def st_then_def st_err_def st_lift_def)
  have "is_ok (export_entries H v (k_master ua) (ua_index ua))"
    by (rule export_entries_live) (use rd ps in \<open>auto simp: readable_def x\<close>)
  then obtain es where es: "export_entries H v (k_master ua) (ua_index ua) = Inr es" by (auto simp: is_ok_iff)
  let ?pl = "\<lparr>totp_seed = ua_totp_seed ua, original_vault_kdf = kdf_params_of v, entries = es\<rparr>"
  obtain f g' where f: "export_within_memory H ?pl pw (preset_params preset) (fst (available_memory_kib H ?m6)) (a_rng ?m6) = (Inr f, g')"
    using ex unfolding exports_def by blast
  have ef: "\<exists>m7. export_file H pw code preset p x = (Inr (v, f), m7, ua)"
    using en ld ra es f ex ln
    by (simp add: export_file_def on_fst_def st_then_def st_do_def st_lift_def with_session_def st_err_def on_rng_def
        available_memory_kib_def into_key_def x exports_def del: preset_params.simps)
  then obtain m7 where ef: "export_file H pw code preset p x = (Inr (v, f), m7, ua)" by blast
  have nt: "no_temps H (m7\<lparr>a_tick := t\<rparr>)" for t
    using keepsD [OF keeps_undisturbed_export [OF st] ef] l
    by (simp add: undisturbed_def same_fs_def slots_kept_def no_temps_def session_live_def)
  have wf: "write_fine (write_at H t)" for t using l by (simp add: session_live_def)
  let ?b = "vault_to_bytes (set_metadata ((vmetadata v)\<lparr>last_export_at := Some (i64_sat (clock_at H (a_tick m7)))\<rparr>) v)"
  obtain m8 where w8: "write_vault_file H ?b (m7\<lparr>a_tick := a_tick m7 + 1\<rparr>) = (Inr (), m8)"
    using write_vault_file_ok [OF nt wf] by blast
  then show ?thesis
    using ef temps_after_write [OF nt w8] by (simp add: export_recovery_def st_then_def st_do_def session_now_i64_def session_now_def on_fst_def clock_now_def st_lift_def)
qed

section \<open>Creation and import succeed\<close>

text \<open>A created session is live for its 120 seconds.\<close>

lemma created_live:
  assumes c: "create_vault H pw kdf cfg p s = (Inr (ua, uri), s')" and nt: "no_temps H s"
    and io: "\<forall>t. io_stat (read_at H t) \<and> io_read (read_at H t) \<and> write_fine (write_at H t)"
    and ck: "\<forall>t t'. clock_at H t < sat_add64 (clock_at H t') SESSION_SECS"
  shows "session_live H (s', ua)"
proof -
  obtain k seed kb sb salt km now v ix s1 s2 s3 s4 s5 s6 s7 s8 s9 where
    k: "on_rng (random_secret H KEY_LEN) s = (k, s1)" and sd: "on_rng (random_secret H KEY_LEN) s1 = (seed, s2)"
    and kb: "enroll_slot H VaultKey k p s2 = (Inr kb, s3)" and sb: "enroll_slot H TotpSeed seed p s3 = (Inr sb, s4)"
    and sa: "on_rng (random_secret H KEY_LEN) s4 = (salt, s5)"
    and km: "derive_master H pw salt kdf k s5 = (Inr km, s6)" and nw: "now_unix_secs H s6 = (now, s7)"
    and v: "on_rng (vault_create H kdf salt (blob_to_bytes kb) (blob_to_bytes sb) (metadata_new now) km) s7 = (Inr v, s8)"
    and w: "write_vault_file H (vault_to_bytes v) s8 = (Inr (), s9)"
    and b: "build_unlocked H km seed ix (s9\<lparr>a_totp_config := cfg, a_verifier := None\<rparr>) = (ua, s')"
    using c by (auto simp: create_vault_def st_iffs set_totp_config_def map_err_Inr_iff split: sum.splits)
  have "a_path s8 = a_path s7 \<and> a_fs s8 = a_fs s7" using v by (auto simp: on_rng_def split: prod.splits)
  moreover have "a_path s7 = a_path s6 \<and> a_fs s7 = a_fs s6" using nw by (auto simp: now_unix_secs_def clock_now_def)
  ultimately have "a_path s8 = a_path s \<and> a_fs s8 = a_fs s"
    using derive_master_Inr [OF km] random_secret_step [OF sa] enroll_slot_Inr [OF sb] enroll_slot_Inr [OF kb]
      random_secret_step [OF k] random_secret_step [OF sd] by simp
  then have "no_temps H s8" using nt by (simp add: no_temps_def)
  then have "no_temps H s9" by (rule temps_after_write [OF _ w])
  then show ?thesis using build_unlocked_fields [OF b] io ck by (simp add: session_live_def no_temps_def)
qed

lemma import_live:
  assumes h: "is_ok (check_backend_allowed H s)" and en: "enrolls H p" and de: "derives H pw kdf"
    and c: "aead_total H" "env_ok H" and pc: "policy_codec_ok H"
    and w: "no_temps H s" "\<forall>t. write_fine (write_at H t)"
    and im: "import_within_memory H file pw (fst (available_memory_kib H s)) = Inr payload"
    and es: "list_all2 (carries H) es (entries payload)" "list_all puttable es" "distinct (map fst es)"
    and ln: "length (totp_seed payload) = KEY_LEN" and ps: "\<forall>n. postcard_ser H (take n (map entry_row es)) \<noteq> None"
  shows "\<exists>ua uri s'. import_recovery H file pw kdf cfg p s = (Inr (ua, uri), s')"
proof -
  let ?s0 = "s\<lparr>a_tick := a_tick s + 1\<rparr>"
  obtain k s1 where k: "on_rng (random_secret H KEY_LEN) ?s0 = (k, s1)" by fastforce
  have l: "length k = KEY_LEN" using random_secret_step [OF k] by simp
  obtain kb s2 where kb: "enroll_slot H VaultKey k p s1 = (Inr kb, s2)" "length (blob_to_bytes kb) \<le> MAX_HSM_BLOB_LEN"
    using enroll_slot_ok [OF en l] by blast
  obtain sb s3 where sb: "enroll_slot H TotpSeed (totp_seed payload) p s2 = (Inr sb, s3)"
    "length (blob_to_bytes sb) \<le> MAX_HSM_BLOB_LEN" using enroll_slot_ok [OF en ln] by blast
  obtain salt s4 where sa: "on_rng (random_secret H KEY_LEN) s3 = (salt, s4)" by fastforce
  obtain km s5 where km: "derive_master H pw salt kdf k s4 = (Inr km, s5)" using derive_master_ok [OF de] by blast
  obtain now s6 where nw: "now_unix_secs H s5 = (now, s6)" by fastforce
  have "postcard_ser H [] \<noteq> None" using ps [THEN spec, of 0] by simp
  then obtain pb where pb: "postcard_ser H [] = Some pb" by blast
  obtain v0 g' where vc: "vault_create H kdf salt (blob_to_bytes kb) (blob_to_bytes sb) (metadata_new now) km (a_rng s6)
      = (Inr v0, g')"
    using vault_create_total [OF c pb kb(2) sb(2)] by blast
  let ?s7 = "s6\<lparr>a_rng := g'\<rparr>"
  have v: "on_rng (vault_create H kdf salt (blob_to_bytes kb) (blob_to_bytes sb) (metadata_new now) km) s6 = (Inr v0, ?s7)"
    using vc by (simp add: on_rng_def)
  have d: "distinct (map ie_id [] @ map fst es)" using es(3) by simp
  have ps': "\<forall>n. postcard_ser H ([] @ take n (map entry_row es)) \<noteq> None" using ps by simp
  obtain v1 s8 where pa: "put_all H km es v0 ?s7 = (Inr v1, s8)" "open_index H v1 km = Inr ([] @ map entry_row es)"
    "s8 = ?s7\<lparr>a_rng := a_rng s8\<rparr>"
    using put_all_live [OF c(2,1) vault_create_Inr(2) [OF vc c(2)] d es(2) ps', of ?s7] by blast
  have ie: "import_entries H km (entries payload) v0 ?s7 = (Inr v1, s8)" using pa(1) import_entries_put [OF es(1) pc] by simp
  have "a_path s8 = a_path ?s7" "a_fs s8 = a_fs ?s7" by (subst pa(3), simp)+
  moreover have "a_path s6 = a_path s5 \<and> a_fs s6 = a_fs s5" using nw by (auto simp: now_unix_secs_def clock_now_def)
  ultimately have "a_path s8 = a_path s \<and> a_fs s8 = a_fs s"
    using derive_master_Inr [OF km] random_secret_step [OF sa] enroll_slot_Inr [OF sb(1)] enroll_slot_Inr [OF kb(1)]
      random_secret_step [OF k] by simp
  then have "no_temps H s8" using w(1) by (simp add: no_temps_def)
  then obtain s9 where wr: "write_vault_file H (vault_to_bytes v1) s8 = (Inr (), s9)"
    using write_vault_file_ok w(2) by blast
  obtain ua s10 where b: "build_unlocked H km (totp_seed payload) (map entry_row es) (s9\<lparr>a_totp_config := cfg, a_verifier := None\<rparr>) = (ua, s10)"
    by fastforce
  obtain a where av: "available_memory_kib H s = (a, ?s0)" by (simp add: available_memory_kib_def)
  then have im': "import_within_memory H file pw a = Inr payload" using im by simp
  have "import_recovery H file pw kdf cfg p s = (Inr (ua, build_provisioning_uri (base32 H) (totp_seed payload) cfg), s10)"
    using h av im' k kb sb sa km nw v ie wr pa(2) b
    by (auto simp: import_recovery_def st_then_def st_do_def st_err_def st_lift_def set_totp_config_def is_ok_iff)
  then show ?thesis by blast
qed

end
