(* ===== verification/SessionGuarantees.thy ===== *)
theory SessionGuarantees
  imports SessionTotal
begin

text \<open>
  The properties of an unlocked session and their witnesses: the abstract store it implements, the
  exact effect of its mutations, the password change, the export and import of a vault, and the
  clearing of a copied secret.
\<close>

lemma copy_to_clipboard_Inr:
  assumes "copy_to_clipboard H K i field x = (Inr ck, y)"
  shows "\<exists>r x1. session_decrypt H i (fst x) = (Inr r, x1) \<and> cb_write K (select_field r field) (snd x) = (Inr ck, snd y)"
proof -
  obtain d x1 where d: "session_decrypt H i (fst x) = (d, x1)" by (cases "session_decrypt H i (fst x)") simp
  obtain z where z: "clamp_session H x1 = ((), z)" by (cases "clamp_session H x1") simp
  show ?thesis
  proof (cases d)
    case (Inl e)
    then show ?thesis using assms d by (simp add: copy_to_clipboard_def on_fst_def)
  next
    case (Inr r)
    obtain w c where w: "cb_write K (select_field r field) (snd x) = (w, c)" by fastforce
    then show ?thesis using assms d z Inr
      by (cases w; cases y) (simp_all add: copy_to_clipboard_def on_fst_def on_snd_def st_then_def st_do_def st_lift_def)
  qed
qed

text \<open>Attempts and restarts change nothing but the rate-limit fields.\<close>

lemma attempts_keep_vault:
  assumes st: "slot_store (store H) opens willing fresh" and "provisioned opens H pw km seed v s"
  shows "\<exists>c t. provisioned opens H pw km seed (set_rate_limit c t v) (run_attempts H es s)"
  using assms(2)
proof (induction es arbitrary: s v)
  case Nil
  have "set_rate_limit (rl_counter v) (rl_last_failure v) v = v" by (simp add: set_rate_limit_def)
  then show ?case using Nil by (metis run_attempts.simps(1))
next
  case (Cons e es)
  have again: "set_rate_limit c t (set_rate_limit c' t' v) = set_rate_limit c t v" for c t c' t'
    by (simp add: set_rate_limit_def)
  show ?case
  proof (cases e)
    case (Try pw' code p)
    obtain r s' where u: "unlock H pw' code p s = (r, s')" by fastforce
    obtain c t where "provisioned opens H pw km seed (set_rate_limit c t v) s'"
      using unlock_keeps_provisioned [OF st Cons.prems u] by blast
    then show ?thesis using Cons.IH [of "set_rate_limit c t v" s'] by (simp add: Try u again)
  next
    case Restart
    then show ?thesis using Cons.IH [OF restart_provisioned [OF Cons.prems]] by simp
  qed
qed

section \<open>Properties\<close>

text \<open>C16. A session implements an entry store with a password.  From creation on, after any sequence of
  operations with any results (failed writes, cancelled prompts, expiry included), the file on disk
  is a vault that opens under the session's key with exactly the index the session holds, its
  contents are reached by puts, deletions and password changes alone, and the current password with
  the enrolled hardware derives its key.\<close>

theorem session_refines_store:
  assumes "env_ok H" "uuid_ok H" and "slot_store (store H) opens willing fresh" and "fresh_after fresh H"
    and "create_vault H pw kdf cfg p s = (Inr (ua, uri), s0)"
    and "(session_call H K storable willing)\<^sup>*\<^sup>* ((s0, ua), c) (y, c')"
  shows "\<exists>pw' v. in_session opens H pw' v y \<and> store_step\<^sup>*\<^sup>* (pw, Map.empty) (pw', session_view H v y)"
proof -
  obtain v where v: "in_session opens H pw v (s0, ua)" "session_view H v (s0, ua) = Map.empty"
    using created_in_session [OF assms(1,3,4,5)] by blast
  then have t: "tidy (session_view H v (s0, ua))" by (simp add: tidy_def)
  show ?thesis
    using calls_simulate [OF assms(1-3,6), of False pw v] v t by auto
qed

text \<open>C18. Mutations have exactly their documented effect on the vault file: adding puts the entry under
  the returned identifier, updating replaces an entry the session lists, removing deletes it; when
  any of them fails, at whatever point, the contents of the file are the old ones, and the session's
  key and index still fit the file.\<close>

theorem session_mutations_exact:
  assumes "env_ok H" "uuid_ok H" and "in_session opens H pw v x" and "storable r"
  shows "(case add_entry H l p r x of (res, y) \<Rightarrow> \<exists>v'. in_session opens H pw v' y \<and> session_view H v' y =
      (case res of Inr i \<Rightarrow> (session_view H v x)(i \<mapsto> (l, p, r)) | Inl _ \<Rightarrow> session_view H v x)) \<and>
    (case update_entry H i l p r x of (res, y) \<Rightarrow> \<exists>v'. in_session opens H pw v' y \<and> session_view H v' y =
      (if is_ok res then (session_view H v x)(i \<mapsto> (l, p, r)) else session_view H v x) \<and>
      (is_ok res \<longrightarrow> index_get (ua_index (snd x)) i \<noteq> None)) \<and>
    (case session_remove H i x of (res, y) \<Rightarrow> \<exists>v'. in_session opens H pw v' y \<and> session_view H v' y =
      (if is_ok res then (session_view H v x)(i := None) else session_view H v x))"
proof -
  obtain ra ya where a: "add_entry H l p r x = (ra, ya)" by (cases "add_entry H l p r x") simp
  obtain ru yu where u: "update_entry H i l p r x = (ru, yu)" by (cases "update_entry H i l p r x") simp
  obtain rr yr where d: "session_remove H i x = (rr, yr)" by (cases "session_remove H i x") simp
  note ha = add_in_session [OF assms(1-4) a] and hu = update_in_session [OF assms(1,3,4) u]
    and hd = remove_in_session [OF assms(1,3) d]
  show ?thesis unfolding a u d prod.case using ha hu hd by blast
qed


text \<open>What an exported file restores, on any device.\<close>

lemma exported_restores:
  assumes e: "env_ok H" and st: "slot_store (store H) opens willing fresh" and fr: "fresh_after fresh H"
    and pc: "policy_codec_ok H" and s: "in_session opens H pw v x" and t: "portable H (session_view H v x)"
    and w: "willing p (a_device (fst x))"
    and ex: "export_recovery H pw code preset p x = (Inr file, y)" and sz: "length file < 2 ^ 32"
  shows "\<exists>payload es. import_within_memory H file pw None = Inr payload \<and> totp_seed payload = ua_totp_seed (snd x) \<and>
    list_all2 (carries H) es (entries payload) \<and> distinct (map fst es) \<and> map_of es = session_view H v x \<and>
    (\<forall>kdf cfg q t ua uri t'. import_recovery H file pw kdf cfg q t = (Inr (ua, uri), t') \<longrightarrow>
      (\<exists>v'. provisioned opens H pw (k_master ua) (ua_totp_seed (snd x)) v' t' \<and> kdf_params_of v' = kdf \<and>
        store_view H (k_master ua) v' = session_view H v x))"
proof -
  obtain w' z where f: "export_file H pw code preset p x = (Inr (w', file), z)"
    using ex by (auto simp: export_recovery_def st_iffs)
  obtain es xs avail g g' where es: "list_all2 (row_entry H v (k_master (snd x))) (ua_index (snd x)) es"
    and xs: "list_all2 (carries H) es xs" and ln: "length (ua_totp_seed (snd x)) = KEY_LEN"
    and vz: "length (vault_to_bytes v) \<le> MAX_VAULT_BYTES"
    and ew: "export_within_memory H \<lparr>totp_seed = ua_totp_seed (snd x), original_vault_kdf = kdf_params_of v, entries = xs\<rparr>
        pw (preset_params preset) avail g = (Inr file, g')"
    using export_file_Inr [OF st s w f] by blast
  let ?pl = "\<lparr>totp_seed = ua_totp_seed (snd x), original_vault_kdf = kdf_params_of v, entries = xs\<rparr>"
  note oi = in_session_vault(3) [OF s]
  have td: "tidy (session_view H v x)" using t by (simp add: portable_def)
  have pu: "list_all puttable es" by (rule row_entries_puttable [OF s es td])
  have mp: "map_of es = session_view H v x" by (rule row_entries_store [OF oi es])
  have ds: "distinct (map fst es)" using oi row_entries_ids [OF es] by (simp add: open_index_iff)
  have le: "length es < 2 ^ 32"
    using list_all2_lengthD [OF es] open_index_lengths [OF oi] envelopes_bound [of v] vz by (simp add: MAX_VAULT_BYTES_def)
  have "list_all recovery_entry_wf xs"
  proof -
    have "recovery_entry_wf a" if e: "carries H e a" "e \<in> set es" for e a
    proof -
      obtain i l q r where eq: "e = (i, l, q, r)" by (cases e) auto
      have "session_view H v x i = Some (l, q, r)" using e(2) ds mp by (metis eq map_of_is_SomeI)
      then have f: "text_fits l" "\<forall>b. policy_ser H q = Some b \<longrightarrow> length b < 2 ^ 32"
        using t unfolding portable_def by blast+
      have "policy_ser H q = Some (re_policy a)" using e(1) by (simp add: eq carries_def)
      moreover have "id_ok i" "storable r" using e(2) pu by (auto simp: eq list_all_iff puttable_def)
      ultimately show ?thesis using e(1) f by (intro carried_wf [of H i l q r]) (simp_all add: eq)
    qed
    note wf = this
    have "recovery_entry_wf (xs ! n)" if "n < length xs" for n
      using that xs list_all2_lengthD [OF xs] by (intro wf [of "es ! n"] list_all2_nthD2 [OF xs] nth_mem) simp_all
    then show ?thesis by (simp add: list_all_length)
  qed
  then have pw: "payload_wf ?pl"
    using ln le list_all2_lengthD [OF xs] by (simp add: payload_wf_def KEY_LEN_def TOTP_SEED_LEN_def)
  have sl: "seal H ?pl pw (preset_params preset) avail g = (Inr file, g')"
    using ew by (auto simp: export_within_memory_def split: if_splits)
  have "length (encode_payload ?pl) + 16 \<le> length file"
  proof -
    from sl obtain salt nonce k ct where "aead_encrypt H k nonce RECOVERY_AD (encode_payload ?pl) = Inr ct"
      "file = recovery_file (preset_params preset) salt nonce ct" by (rule seal_Inr)
    then show ?thesis using aead_encrypt_length [of H k nonce RECOVERY_AD _ ct] e
      by (auto simp: recovery_file_def env_ok_def simp del: preset_params.simps)
  qed
  then have "length (encode_payload ?pl) + 16 < 2 ^ 32" using sz by simp
  then have im: "import_within_memory H file pw None = Inr ?pl"
    using import_sealed [OF sl _ pw, of None] e by (simp add: env_ok_def)
  have es': "list_all2 (carries H) es (entries ?pl)" using xs by simp
  have "\<exists>v'. provisioned opens H pw (k_master ua) (ua_totp_seed (snd x)) v' t' \<and> kdf_params_of v' = kdf \<and>
        store_view H (k_master ua) v' = session_view H v x"
    if "import_recovery H file pw kdf cfg q t = (Inr (ua, uri), t')" for kdf cfg q t ua uri t'
    using import_recovery_provisions [OF e st fr pc im es' pu le that] mp map_of_rev_distinct [OF ds] by auto
  then show ?thesis using im es' ds mp by (intro exI [of _ ?pl] exI [of _ es]) simp
qed

text \<open>C20. Export then import restores the vault.  A file exported by a session holds what the session's
  vault holds: importing it under the same password, on any device and over any existing file,
  decrypts to one payload, and when the import succeeds the new file is provisioned under that
  password with exactly the exported entries and the same TOTP seed.\<close>

theorem export_import_restores:
  assumes e: "env_ok H" and st: "slot_store (store H) opens willing fresh" and fr: "fresh_after fresh H"
    and pc: "policy_codec_ok H" and s: "in_session opens H pw v x" and t: "portable H (session_view H v x)"
    and w: "willing p (a_device (fst x))"
    and ex: "export_recovery H pw code preset p x = (Inr file, y)" and sz: "length file < 2 ^ 32"
  shows "\<exists>payload es. import_within_memory H file pw None = Inr payload \<and> totp_seed payload = ua_totp_seed (snd x) \<and>
    list_all2 (carries H) es (entries payload) \<and> distinct (map fst es) \<and> map_of es = session_view H v x \<and>
    (\<forall>kdf cfg q t ua uri t'. import_recovery H file pw kdf cfg q t = (Inr (ua, uri), t') \<longrightarrow>
      (\<exists>v'. provisioned opens H pw (k_master ua) (ua_totp_seed (snd x)) v' t' \<and> kdf_params_of v' = kdf \<and>
        store_view H (k_master ua) v' = session_view H v x))"
  by (rule exported_restores [OF assms])

text \<open>C22. A copied secret does not stay.  On the desktop clipboard, a copy puts exactly the chosen field
  of the stored entry there and leaves the session at most 30 seconds; clearing with its receipt,
  even after the session has expired, replaces the secret by one of the facts unless the clipboard is
  out of reach; and a text of another digest that has replaced it is left alone.\<close>

theorem copied_secret_cleared:
  assumes "arboard_ok A text_on"
    and "copy_to_clipboard H (system_clipboard_ops A) i field (x, c) = (Inr ck, y, c1)"
    and "clear_clipboard H (system_clipboard_ops A) ck (z, c2) = (out, z', c3)"
  shows "(\<exists>r. fst (session_decrypt H i x) = Inr r \<and> text_on (sc_os c1) = Some (select_field r field)) \<and>
    session_expiry (snd y) \<le> sat_add64 (clock_at H (a_tick (fst y) - 1)) POST_COPY_SECS \<and>
    (text_on (sc_os c2) = text_on (sc_os c1) \<longrightarrow> out = Unavailable \<or>
       out = Cleared \<and> (\<exists>f\<in>set FACTS. text_on (sc_os c3) = Some f)) \<and>
    (map_option (text_digest A) (text_on (sc_os c2)) \<noteq> Some (ck_digest ck) \<longrightarrow>
       out = Unavailable \<or> text_on (sc_os c3) = text_on (sc_os c2))"
proof -
  let ?K = "system_clipboard_ops A"
  have L: "clipboard_laws ?K (\<lambda>c. text_on (sc_os c)) (text_digest A)" by (rule system_clipboard_laws [OF assms(1)])
  obtain r x1 where r: "session_decrypt H i x = (Inr r, x1)" and w: "cb_write ?K (select_field r field) c = (Inr ck, c1)"
    using copy_to_clipboard_Inr [OF assms(2)] by auto
  have wr: "text_on (sc_os c1) = Some (select_field r field) \<and> ck_digest ck = text_digest A (select_field r field)"
    by (rule clipboard_laws.write_law [OF L w])
  have ex: "session_expiry (snd y) \<le> sat_add64 (clock_at H (a_tick (fst y) - 1)) POST_COPY_SECS"
    using copy_to_clipboard_expiry [OF assms(2)] by simp
  obtain s ua where z: "z = (s, ua)" by (cases z)
  obtain g' where c: "clear_clipboard_impl H ?K ck True (a_rng s, c2) = (out, g', c3)"
    using assms(3) by (auto simp: z clear_clipboard_def clear_clipboard_with_def split: prod.splits)
  note o = clipboard_laws.clear_outcomes [OF L c]
  show ?thesis using wr ex o r by (cases out) auto
qed


section \<open>Witnesses\<close>

lemma demo_live: "\<forall>t. io_stat (read_at demo_host t) \<and> io_read (read_at demo_host t) \<and> write_fine (write_at demo_host t)"
  using demo_app_ready(3) by simp

lemma demo_clock: "\<forall>t t'. clock_at demo_host t < sat_add64 (clock_at demo_host t') SESSION_SECS"
  by (simp add: sat_add64_def SESSION_SECS_def)

text \<open>A session just created.\<close>

lemma demo_session:
  obtains ua :: unlocked_app and uri s0 v where
    "create_vault demo_host pw KDF_LOW totp_config_default demo_prompter demo_app = (Inr (ua, uri), s0)"
    "in_session demo_opens demo_host pw v (s0, ua)" "session_view demo_host v (s0, ua) = Map.empty"
    "session_live demo_host (s0, ua)" "ua_index ua = []" "length (vault_to_bytes v) \<le> MAX_VAULT_BYTES"
    "kdf_params_of v = KDF_LOW" "length (ua_totp_seed ua) = KEY_LEN" "a_verifier s0 = None"
    "a_totp_config s0 = totp_config_default" "envelopes v = []"
    "a_allow_software_hsm s0" "rl_counter v = 0" "rl_last_failure v = 0"
proof -
  obtain ua uri s0 where c: "create_vault demo_host pw KDF_LOW totp_config_default demo_prompter demo_app = (Inr (ua, uri), s0)"
    by (rule demo_created)
  obtain v where v: "provisioned demo_opens demo_host pw (k_master ua) (ua_totp_seed ua) v s0" "kdf_params_of v = KDF_LOW"
    "store_view demo_host (k_master ua) v = Map.empty" "ua_index ua = []" "length (ua_totp_seed ua) = KEY_LEN"
    "a_verifier s0 = None" "a_totp_config s0 = totp_config_default"
    "a_allow_software_hsm s0 = a_allow_software_hsm demo_app" "rl_counter v = 0" "rl_last_failure v = 0"
    and sz: "\<exists>salt kb sb meta g g'. length salt = 32 \<and>
       vault_create demo_host KDF_LOW salt kb sb meta (k_master ua) g = (Inr v, g')"
    using create_vault_provisions [OF demo_host_ok(1) demo_store demo_fresh c] by (elim exE conjE) blast
  obtain salt kb sb meta g g' where vc: "length salt = 32"
    "vault_create demo_host KDF_LOW salt kb sb meta (k_master ua) g = (Inr v, g')" using sz by blast
  have "length (vault_to_bytes v) \<le> MAX_VAULT_BYTES"
    by (rule vault_create_size [OF vc(2) demo_host_ok(1) vc(1) demo_host_ok(6)]) simp
  moreover have "session_live demo_host (s0, ua)"
    by (rule created_live [OF c demo_app_ready(2) demo_live demo_clock])
  moreover have "in_session demo_opens demo_host pw v (s0, ua)"
    using v(1,4) vault_create_Inr(2) [OF vc(2) demo_host_ok(1)] by (simp add: in_session_def)
  moreover have "envelopes v = []" by (rule vault_create_Inr(12) [OF vc(2) demo_host_ok(1)])
  ultimately show thesis using that [OF c] v by (simp add: demo_app_def)
qed

text \<open>The size of a vault with one small entry.\<close>

lemma one_entry_size:
  assumes a: "add_or_update_entry E km i l p r (v, g) = (Inr (), v', g')" and e: "env_ok E" and wf: "vault_wf v'"
    and v: "envelopes v = []" and ix: "open_index E v km = Inr []" and i: "length (id_bytes i) = 16"
    and r: "record_ok r" "record_len r < 1000"
    and ps: "postcard_ser E [\<lparr>ie_id = i, ie_label = l, ie_policy = p\<rparr>] = Some pb" "length pb \<le> 1000"
  shows "length (vault_to_bytes v') \<le> MAX_VAULT_BYTES"
proof -
  obtain env g1 ix1 where enc: "encrypt_entry E km (format_version v) i r g = (Inr env, g1)"
    and dx: "decrypt_index E (v\<lparr>envelopes := put_envelope env (envelopes v)\<rparr>) km = Inr ix1"
    and rs: "reseal_index E (snd (index_upsert \<lparr>ie_id = i, ie_label = l, ie_policy = p\<rparr> ix1)) km
        (v\<lparr>envelopes := put_envelope env (envelopes v)\<rparr>, g1) = (Inr (), v', g')"
    using a by (auto simp: add_or_update_entry_def Let_def split: prod.splits sum.splits)
  have "ix1 = []" using dx ix by (simp add: open_index_iff)
  then obtain n ct where si: "seal_index E [\<lparr>ie_id = i, ie_label = l, ie_policy = p\<rparr>] (format_version v) km g1 = (Inr (n, ct), g')"
    and v': "v' = v\<lparr>envelopes := put_envelope env (envelopes v), sealed_index_nonce := n, sealed_index_ct := ct\<rparr>"
    using rs by (auto simp: reseal_index_def index_upsert_def split: prod.splits sum.splits)
  have ao: "aead_ok E" using e by (simp add: env_ok_def)
  have ct: "length ct < 1300" using seal_index_size [OF si ao ps(1)] ps(2) by simp
  have r32: "record_len r < 2 ^ 32" using r(2) by simp
  note x = encrypt_entry_opens [OF enc e r(1) r32]
  have ect: "length (ev_ct env) < 2000"
    using x(3) r(2) div_ceil_tight [of BUCKET "4 + record_len r"] by (simp add: BUCKET_def)
  have en: "envelopes v' = [env]" using v v' by (simp add: put_envelope_def)
  have "length (envelope_bytes env) < 2100" using ect x(1,4) i by (simp add: envelope_bytes_def)
  moreover have "length (k_hsm_wrap_blob v') \<le> 65535" "length (totp_seed_wrap_blob v') \<le> 65535" "length (vault_salt v') = 32"
    "length (probe_nonce v') = 24" "length (probe_ct v') = 32" "length (sealed_index_nonce v') = 24"
    using wf by (simp_all add: vault_wf_def MAX_HSM_BLOB_LEN_def SALT_LEN_def NONCE_LEN_def PROBE_CT_LEN_def)
  moreover have "length (sealed_index_ct v') < 1300" using ct v' by simp
  ultimately show ?thesis
    by (simp add: vault_to_bytes_def push_u16_prefixed_def push_u32_prefixed_def MAX_VAULT_BYTES_def en)
qed

lemma demo_storable: "storable demo_record"
  using demo_record_facts by (simp add: storable_def)

lemma stored_inj:
  assumes "stored v s" and "stored w s"
  shows "v = w"
proof -
  have eq: "vault_to_bytes v = vault_to_bytes w" using assms unfolding stored_def by (elim conjE exE) simp
  have "vault_from_bytes (vault_to_bytes v) = Inr w" unfolding eq using assms(2) by (simp add: stored_def vault_from_to_bytes)
  moreover have "vault_from_bytes (vault_to_bytes v) = Inr v" using assms(1) by (simp add: stored_def vault_from_to_bytes)
  ultimately show ?thesis by (rule trans [OF sym, THEN sum.inject(2) [THEN iffD1], THEN sym])
qed

text \<open>A session with one entry.\<close>

lemma demo_entry_session:
  obtains ua :: unlocked_app and uri s0 y v where
    "create_vault demo_host pw KDF_LOW totp_config_default demo_prompter demo_app = (Inr (ua, uri), s0)"
    "add_entry demo_host (ustr ''mail'') policy_default demo_record (s0, ua) = (Inr demo_id, y)"
    "in_session demo_opens demo_host pw v y"
    "session_view demo_host v y = [demo_id \<mapsto> (ustr ''mail'', policy_default, demo_record)]"
    "session_live demo_host y" "ua_index (snd y) = [demo_row]" "readable demo_host v y"
    "length (vault_to_bytes v) \<le> MAX_VAULT_BYTES" "kdf_params_of v = KDF_LOW" "length (ua_totp_seed (snd y)) = KEY_LEN"
    "current_verifier (fst y) = totp_verifier_new totp_config_default"
    "a_allow_software_hsm (fst y)" "rl_counter v = 0" "rl_last_failure v = 0"
    "a_totp_config (fst y) = totp_config_default"
proof -
  obtain ua uri s0 v where c: "create_vault demo_host pw KDF_LOW totp_config_default demo_prompter demo_app = (Inr (ua, uri), s0)"
    and s: "in_session demo_opens demo_host pw v (s0, ua)" "session_view demo_host v (s0, ua) = Map.empty"
    "session_live demo_host (s0, ua)" "ua_index ua = []" "length (vault_to_bytes v) \<le> MAX_VAULT_BYTES"
    "kdf_params_of v = KDF_LOW" "length (ua_totp_seed ua) = KEY_LEN" "a_verifier s0 = None"
    "a_totp_config s0 = totp_config_default" "envelopes v = []"
    "a_allow_software_hsm s0" "rl_counter v = 0" "rl_last_failure v = 0"
    by (rule demo_session)
  let ?km = "k_master ua"
  have i: "fst (entry_id_generate demo_host (a_rng (fst (s0, ua)))) = demo_id"
    by (simp add: entry_id_generate_def split_def Let_def demo_id_def demo_host_env demo_env_def toy_env_def vault_env.defs crypto.defs)
  have up: "snd (index_upsert \<lparr>ie_id = demo_id, ie_label = ustr ''mail'', ie_policy = policy_default\<rparr> (ua_index (snd (s0, ua)))) = [demo_row]"
    using s(4) by (simp add: index_upsert_def demo_row_def)
  obtain y v' g g' where a: "add_entry demo_host (ustr ''mail'') policy_default demo_record (s0, ua) = (Inr demo_id, y)"
    "session_live demo_host y" "add_or_update_entry demo_host ?km demo_id (ustr ''mail'') policy_default demo_record (v, g) = (Inr (), v', g')"
    "\<exists>f. a_fs (fst y) (a_path (fst y)) = Some f \<and> f_content f = vault_to_bytes v'"
    "a_verifier (fst y) = None" "a_totp_config (fst y) = totp_config_default" "a_allow_software_hsm (fst y)"
    "k_master (snd y) = ?km" "ua_totp_seed (snd y) = ua_totp_seed ua" "ua_index (snd y) = [demo_row]"
    using add_entry_live [OF demo_host_ok(1,2) s(1,3) demo_storable s(5) i, of "ustr ''mail''" policy_default "[1]"]
      demo_host_ok(7) s(8,9,11) up by auto
  have oi: "open_index demo_host v ?km = Inr []" using in_session_vault(3) [OF s(1)] s(4) by simp
  have r: "record_ok demo_record" "record_len demo_record < 2 ^ 32" "record_len demo_record < 2 ^ 31"
    using demo_record_facts by simp_all
  note au = add_or_update_Inr [OF a(3) demo_host_ok(1) oi r(1,2)]
  have ido: "id_ok demo_id" by (simp add: id_ok_def demo_id_def ENTRY_ID_LEN_def)
  have n: "length (envelopes v) + 1 < 2 ^ 32" using s(10) by simp
  have wf: "vault_wf v'" by (rule add_or_update_wf [OF a(3) demo_host_ok(1) in_session_vault(1) [OF s(1)] ido r(1,3) n])
  obtain w where w: "in_session demo_opens demo_host pw w y"
    "session_view demo_host w y = [demo_id \<mapsto> (ustr ''mail'', policy_default, demo_record)]"
    using add_in_session [OF demo_host_ok(1,4) s(1) demo_storable a(1)] s(2) by auto
  have "stored v' (fst y)" using wf a(4) by (simp add: stored_def)
  moreover have "stored w (fst y)" using w(1) by (simp add: in_session_def provisioned_def)
  ultimately have wv: "w = v'" by (rule stored_inj [rotated])
  have sz: "length (vault_to_bytes v') \<le> MAX_VAULT_BYTES"
    by (rule one_entry_size [OF a(3) demo_host_ok(1) wf s(10) oi _ r(1), of "[1]"])
      (use demo_record_facts demo_host_ok(7) in \<open>simp_all add: demo_row_def demo_id_def\<close>)
  have k: "kdf_params_of v' = KDF_LOW" using au(3) s(6) by auto
  have "readable demo_host v' y" using a(8,10) au(2) [of demo_id] by (simp add: readable_def demo_row_def)
  moreover have "current_verifier (fst y) = totp_verifier_new totp_config_default" using a(5,6) by (simp add: current_verifier_def)
  moreover have "rl_counter v' = 0" "rl_last_failure v' = 0" using au(3) s(12,13) by auto
  ultimately show thesis using that [OF c a(1) w a(2,10)] wv sz k a(6,7,9) s(7) by simp
qed

lemma session_refines_store_witness:
  "\<exists>(ua :: unlocked_app) uri s0 y pw' v.
     create_vault demo_host [] KDF_LOW totp_config_default demo_prompter demo_app = (Inr (ua, uri), s0) \<and>
     add_entry demo_host (ustr ''mail'') policy_default demo_record (s0, ua) = (Inr demo_id, y) \<and>
     in_session demo_opens demo_host pw' v y \<and> store_step\<^sup>*\<^sup>* ([], Map.empty) (pw', session_view demo_host v y)"
proof -
  obtain uri s0 y and ua :: unlocked_app where
    c: "create_vault demo_host [] KDF_LOW totp_config_default demo_prompter demo_app = (Inr (ua, uri), s0)"
    and a: "add_entry demo_host (ustr ''mail'') policy_default demo_record (s0, ua) = (Inr demo_id, y)"
    by (rule demo_entry_session) blast
  let ?K = "system_clipboard_ops toy_arboard" and ?c = "system_clipboard_new None"
  have "on_fst (add_entry demo_host (ustr ''mail'') policy_default demo_record) ((s0, ua), ?c) = (Inr demo_id, (y, ?c))"
    using a by (simp add: on_fst_def)
  then have "session_call demo_host ?K storable prompt_passes ((s0, ua), ?c) (y, ?c)"
    by (rule session_call.call_add [where admits = storable, OF demo_storable])
  then have "(session_call demo_host ?K storable prompt_passes)\<^sup>*\<^sup>* ((s0, ua), ?c) (y, ?c)" by blast
  from session_refines_store [OF demo_host_ok(1,4) demo_store demo_fresh c this]
  obtain pw' v where "in_session demo_opens demo_host pw' v y" "store_step\<^sup>*\<^sup>* ([], Map.empty) (pw', session_view demo_host v y)"
    by blast
  with c a show ?thesis by (intro exI conjI)
qed

lemma session_mutations_exact_witness:
  "\<exists>y v'. in_session demo_opens demo_host [] v' y \<and>
     session_view demo_host v' y = [demo_id \<mapsto> (ustr ''mail'', policy_default, demo_record)]"
proof -
  obtain s0 v y and ua :: unlocked_app where s: "in_session demo_opens demo_host [] v (s0, ua)"
    "session_view demo_host v (s0, ua) = Map.empty" "session_live demo_host (s0, ua)" "ua_index ua = []"
    "length (vault_to_bytes v) \<le> MAX_VAULT_BYTES"
    by (rule demo_session) blast
  have i: "fst (entry_id_generate demo_host (a_rng (fst (s0, ua)))) = demo_id"
    by (simp add: entry_id_generate_def split_def Let_def demo_id_def demo_host_env demo_env_def toy_env_def vault_env.defs crypto.defs)
  have up: "snd (index_upsert \<lparr>ie_id = demo_id, ie_label = ustr ''mail'', ie_policy = policy_default\<rparr> (ua_index (snd (s0, ua)))) = [demo_row]"
    using s(4) by (simp add: index_upsert_def demo_row_def)
  obtain y where a: "add_entry demo_host (ustr ''mail'') policy_default demo_record (s0, ua) = (Inr demo_id, y)"
    using add_entry_live [OF demo_host_ok(1,2) s(1,3) demo_storable s(5) i, of "ustr ''mail''" policy_default "[1]"]
      demo_host_ok(7) up by auto
  have "\<exists>v'. in_session demo_opens demo_host [] v' y \<and>
      session_view demo_host v' y = [demo_id \<mapsto> (ustr ''mail'', policy_default, demo_record)]"
    using session_mutations_exact [OF demo_host_ok(1,4) s(1) demo_storable, of "ustr ''mail''" policy_default] a s(2) by auto
  then show ?thesis by blast
qed

lemma demo_prefixes: "postcard_ser demo_host (take n [demo_row]) \<noteq> None"
  using demo_host_ok(6,7) by (cases n) simp_all

lemma tidy_demo: "tidy [demo_id \<mapsto> (ustr ''mail'', policy_default, demo_record)]"
  using demo_storable by (simp add: tidy_def)


lemma map_of_single:
  assumes "distinct (map fst es)" and "map_of es = [k \<mapsto> x]"
  shows "es = [(k, x)]"
proof -
  have "set es = {(k, x)}" using map_of_eq_Some_iff [OF assms(1)] assms(2) by auto (metis fun_upd_apply option.inject option.distinct(1))+
  moreover have "distinct es" using assms(1) by (simp add: distinct_map)
  ultimately have "length es = 1" using distinct_card [of es] by simp
  then obtain a where "es = [a]" by (cases es) auto
  then show ?thesis using \<open>set es = {(k, x)}\<close> by simp
qed

lemma decrypt_live:
  assumes "session_live H x" and "in_session opens H pw v x" and "length (vault_to_bytes v) \<le> MAX_VAULT_BYTES"
    and "decrypt_entry H v (k_master (snd x)) i = Inr r"
  shows "\<exists>y. session_decrypt H i x = (Inr r, y) \<and> snd y = snd x \<and> a_fs (fst y) = a_fs (fst x) \<and> a_path (fst y) = a_path (fst x)"
proof -
  let ?x1 = "((fst x)\<lparr>a_tick := a_tick (fst x) + 1\<rparr>, snd x)"
  have "load_vault H ?x1 = (Inr v, (fst ?x1)\<lparr>a_tick := a_tick (fst ?x1) + 1\<rparr>, snd ?x1)"
    by (rule load_live [OF _ _ assms(3), of _ _ opens pw]) (use assms(1,2) in simp_all)
  then show ?thesis
    using ensure_live [OF assms(1)] assms(4) by (simp add: session_decrypt_def st_then_def with_session_def st_lift_def)
qed

lemma copied_secret_cleared_witness:
  "\<exists>y ck y' c1 z c3. copy_to_clipboard demo_host (system_clipboard_ops toy_arboard) demo_id Password (y, system_clipboard_new None)
       = (Inr ck, y', c1) \<and> sc_os c1 = Some (ustr ''s3cret'') \<and>
     clear_clipboard demo_host (system_clipboard_ops toy_arboard) ck (y', c1) = (Cleared, z, c3) \<and>
     (\<exists>f\<in>set FACTS. sc_os c3 = Some f)"
proof -
  let ?K = "system_clipboard_ops toy_arboard"
  obtain y v where s: "in_session demo_opens demo_host [] v y"
    "session_view demo_host v y = [demo_id \<mapsto> (ustr ''mail'', policy_default, demo_record)]"
    "session_live demo_host y" "length (vault_to_bytes v) \<le> MAX_VAULT_BYTES"
    by (rule demo_entry_session) blast
  have "session_view demo_host v y demo_id = Some (ustr ''mail'', policy_default, demo_record)" using s(2) by simp
  then have d: "decrypt_entry demo_host v (k_master (snd y)) demo_id = Inr demo_record"
    by (auto simp: store_view_def split: sum.splits option.splits)
  obtain x1 where sd: "session_decrypt demo_host demo_id y = (Inr demo_record, x1)"
    using decrypt_live [OF s(3,1,4) d] by blast
  have w: "\<exists>ck c1. cb_write ?K t (system_clipboard_new None) = (Inr ck, c1)" for t
    by (simp add: system_clipboard_ops_def sc_write_def sc_with_def toy_arboard_def system_clipboard_new_def)
  obtain ck c1 where w: "cb_write ?K (er_password demo_record) (system_clipboard_new None) = (Inr ck, c1)" using w by blast
  obtain y' where cl: "clamp_session demo_host x1 = ((), y')" by (cases "clamp_session demo_host x1") simp
  have cp: "copy_to_clipboard demo_host ?K demo_id Password (y, system_clipboard_new None) = (Inr ck, y', c1)"
    using sd w cl by (simp add: copy_to_clipboard_def on_fst_def on_snd_def st_then_def st_do_def st_lift_def)
  obtain out z c3 where ce: "clear_clipboard demo_host ?K ck (y', c1) = (out, z, c3)"
    by (cases "clear_clipboard demo_host ?K ck (y', c1)") auto
  note th = copied_secret_cleared [OF toy_arboard_ok cp ce]
  have pw: "er_password demo_record = ustr ''s3cret''" by (simp add: demo_record_def)
  have c1: "sc_os c1 = Some (ustr ''s3cret'')" using th sd pw by auto
  have "out \<noteq> Unavailable"
  proof -
    obtain g ua where y': "y' = (g, ua)" by (cases y')
    show ?thesis using ce c1
      by (auto simp: y' clear_clipboard_def clear_clipboard_with_def clear_clipboard_impl_def system_clipboard_ops_def
          sc_read_digest_def sc_set_text_def sc_with_def toy_arboard_def split: prod.splits if_splits)
  qed
  then have "out = Cleared \<and> (\<exists>f\<in>set FACTS. sc_os c3 = Some f)" using th by auto
  then show ?thesis using cp c1 ce by blast
qed


text \<open>A password strong enough to export with.\<close>

definition strong_password :: secret_string where
  "strong_password = ustr ''abcdefghijklmnopqrst''"

lemma strong_exports: "exports demo_host strong_password PresetFloor"
proof -
  have l: "length strong_password = 20" by (simp add: strong_password_def ustr_def)
  have "allows_export (classify (master_bits demo_estimator strong_password []))"
    unfolding allows_export_iff
    by (simp add: master_bits_def demo_estimator_def l LOG2_PER_LOG10_def f64_max0_def Let_def)
      (rule exI [of _ "37401585325715765 / 562949953421312"], simp)
  moreover have "\<exists>f g'. export_within_memory demo_host payload strong_password (preset_params PresetFloor)
      (fst (available_memory_kib demo_host s)) g = (Inr f, g')" for payload and s :: "unit app" and g
  proof -
    have f: "meets_floor (preset_params PresetFloor)" "within_limits (preset_params PresetFloor)" using preset_limits by blast+
    have x: "xchacha_enc demo_host k n a m = xchacha_enc toy_crypto k n a m" for k n a m
      by (simp add: demo_host_env demo_env_def toy_env_def crypto.defs)
    show ?thesis
      using f by (simp add: export_within_memory_def seal_def Let_def split_def derive_recovery_key_def
          argon2id_within_memory_def demo_argon2 aead_encrypt_def x available_memory_kib_def toy_crypto_def del: preset_params.simps)
  qed
  ultimately show ?thesis by (simp add: exports_def del: preset_params.simps)
qed

lemma export_file_length:
  assumes "env_ok C" and "export_within_memory C pl pw P avail g = (Inr f, g')"
  shows "length f = length (encode_payload pl) + 93"
proof -
  have "seal C pl pw P avail g = (Inr f, g')" using assms(2) by (auto simp: export_within_memory_def split: if_splits)
  then obtain salt nonce k ct where "length salt = RECOVERY_SALT_LEN" "length nonce = NONCE_LEN"
    "aead_encrypt C k nonce RECOVERY_AD (encode_payload pl) = Inr ct" "f = recovery_file P salt nonce ct"
    by (rule seal_Inr)
  then show ?thesis using aead_encrypt_length [of C k nonce RECOVERY_AD _ ct] assms(1)
    by (simp add: recovery_file_def env_ok_def MAGIC_length RECOVERY_SALT_LEN_def NONCE_LEN_def)
qed

lemma export_import_restores_witness:
  "\<exists>x f y ua uri t' v'. export_recovery demo_host strong_password (ustr ''000001'') PresetFloor demo_prompter x = (Inr f, y) \<and>
     import_recovery demo_host f strong_password KDF_LOW totp_config_default demo_prompter demo_app = (Inr (ua :: unlocked_app, uri), t') \<and>
     store_view demo_host (k_master ua) v' = [demo_id \<mapsto> (ustr ''mail'', policy_default, demo_record)]"
proof -
  obtain y v where s: "in_session demo_opens demo_host strong_password v y"
    "session_view demo_host v y = [demo_id \<mapsto> (ustr ''mail'', policy_default, demo_record)]"
    "session_live demo_host y" "ua_index (snd y) = [demo_row]" "readable demo_host v y"
    "length (vault_to_bytes v) \<le> MAX_VAULT_BYTES" "kdf_params_of v = KDF_LOW" "length (ua_totp_seed (snd y)) = KEY_LEN"
    "current_verifier (fst y) = totp_verifier_new totp_config_default"
    by (rule demo_entry_session) blast
  have w: "prompt_passes demo_prompter (a_device (fst y))" by (rule demo_willing)
  have de: "derives demo_host strong_password (kdf_params_of v)" using demo_derives s(7) by simp
  have ps: "\<forall>row\<in>set (ua_index (snd y)). policy_ser demo_host (ie_policy row) \<noteq> None" using s(4) by (simp add: demo_row_def)
  have to: "fst (totp_verify (hmac_tag demo_host) (ua_totp_seed (snd y)) (ustr ''000001'')
      (clock_at demo_host (a_tick (fst y) + 2)) (current_verifier (fst y))) = Inr ()"
    using demo_code by (simp add: s(9))
  obtain f z where ex: "export_recovery demo_host strong_password (ustr ''000001'') PresetFloor demo_prompter y = (Inr f, z)"
    using export_live [OF demo_store s(1,3,5,6) w de strong_exports s(8) ps to] by blast
  have po: "portable demo_host (session_view demo_host v y)"
    using tidy_demo by (simp add: s(2) portable_def text_fits_def ustr_def str_ok_def is_scalar_def utf8_enc_def enc1_def)
  obtain ef z1 where ef: "export_file demo_host strong_password (ustr ''000001'') PresetFloor demo_prompter y = (Inr (v, f), z1)"
    using ex export_file_vault [OF s(1)] by (fastforce simp: export_recovery_def st_iffs)
  have sz: "length f < 2 ^ 32"
  proof -
    obtain es xs avail g g' where es: "list_all2 (row_entry demo_host v (k_master (snd y))) [demo_row] es"
      and xs: "list_all2 (carries demo_host) es xs" and ew: "export_within_memory demo_host
        \<lparr>totp_seed = ua_totp_seed (snd y), original_vault_kdf = kdf_params_of v, entries = xs\<rparr>
        strong_password (preset_params PresetFloor) avail g = (Inr f, g')"
      using export_file_Inr [OF demo_store s(1) w ef] s(4) by auto
    obtain r where "decrypt_entry demo_host v (k_master (snd y)) demo_id = Inr r"
      and e: "es = [(demo_id, ustr ''mail'', policy_default, r)]"
      using es by (auto simp: list_all2_Cons1 row_entry_def demo_row_def)
    moreover have "session_view demo_host v y demo_id = Some (ustr ''mail'', policy_default, demo_record)" using s(2) by simp
    ultimately have r: "r = demo_record" by (auto simp: store_view_def split: sum.splits option.splits)
    obtain a where a: "xs = [a]" "carries demo_host (demo_id, ustr ''mail'', policy_default, demo_record) a"
      using xs by (auto simp: e r list_all2_Cons1)
    have "length (encode_recovery_entry a) < 200"
      using a(2) by (auto simp: eq_commute [of "[0]"] carries_def encode_recovery_entry_def rec_push_def demo_record_def demo_id_def ustr_def expose_bytes_def utf8_enc_def enc1_def)
    then show ?thesis
      using a(1) export_file_length [OF demo_host_ok(1) ew] s(8) by (simp add: encode_payload_def KEY_LEN_def)
  qed
  obtain payload es where p: "import_within_memory demo_host f strong_password None = Inr payload"
    "totp_seed payload = ua_totp_seed (snd y)" "list_all2 (carries demo_host) es (entries payload)" "distinct (map fst es)"
    "map_of es = session_view demo_host v y"
    and r: "\<forall>kdf cfg q t ua uri t'. import_recovery demo_host f strong_password kdf cfg q t = (Inr (ua, uri), t') \<longrightarrow>
      (\<exists>v'. provisioned demo_opens demo_host strong_password (k_master ua) (ua_totp_seed (snd y)) v' t' \<and> kdf_params_of v' = kdf \<and>
        store_view demo_host (k_master ua) v' = session_view demo_host v y)"
    using export_import_restores [OF demo_host_ok(1) demo_store demo_fresh demo_host_ok(5) s(1) po w ex sz] by blast
  have es: "es = [(demo_id, ustr ''mail'', policy_default, demo_record)]"
    using map_of_single [OF p(4)] p(5) s(2) by simp
  have pu: "list_all puttable es" using demo_storable by (simp add: es puttable_def id_ok_def demo_id_def ENTRY_ID_LEN_def)
  have im: "import_within_memory demo_host f strong_password (fst (available_memory_kib demo_host demo_app)) = Inr payload"
    using p(1) by (simp add: available_memory_kib_def)
  have ln: "length (totp_seed payload) = KEY_LEN" using p(2) s(8) by simp
  have pp: "\<forall>n. postcard_ser demo_host (take n (map entry_row es)) \<noteq> None"
    using demo_prefixes by (simp add: es demo_row_def)
  have wr: "\<forall>t. write_fine (write_at demo_host t)" using demo_app_ready(3) by blast
  obtain uri t' and ua :: unlocked_app where i: "import_recovery demo_host f strong_password KDF_LOW totp_config_default demo_prompter demo_app
      = (Inr (ua, uri), t')"
    using import_live [OF demo_app_ready(1) demo_enrolls demo_derives demo_host_ok(2,1,5) demo_app_ready(2) wr im p(3) pu p(4) ln pp]
    by blast
  show ?thesis using ex i r s(2) by metis
qed

end
