(* ===== verification/SessionTypes.thy ===== *)
theory SessionTypes
  imports SessionGuarantees
begin

text \<open>
  The types of a session's values that Rust has as fixed-size arrays or keeps by construction, as an
  invariant of every state a session reaches: key, seed and token of 32 bytes, identifiers of 16 bytes
  listed once each, and a well-formed vault on disk that holds exactly the listed entries.
\<close>

definition session_typed :: "vault \<Rightarrow> 'd app \<times> unlocked_app \<Rightarrow> bool" where
  "session_typed v x \<longleftrightarrow> length (k_master (snd x)) = KEY_LEN \<and> length (ua_totp_seed (snd x)) = KEY_LEN \<and>
     length (session_token (snd x)) = TOKEN_LEN \<and> distinct (map ie_id (ua_index (snd x))) \<and>
     (\<forall>row\<in>set (ua_index (snd x)). id_ok (ie_id row)) \<and> stored v (fst x) \<and> length (vault_salt v) = SALT_LEN \<and>
     distinct (map ev_id (envelopes v)) \<and> set (map ie_id (ua_index (snd x))) = set (map ev_id (envelopes v)) \<and>
     vault_from_bytes (vault_to_bytes v) = Inr v"

lemma master_of_length: "kdf_ok H \<Longrightarrow> master_of H pw salt P k avail = Inr km \<Longrightarrow> length km = KEY_LEN"
  by (auto simp: master_of_def and_then_Inr_iff hkdf_master_def kdf_ok_def KEY_LEN_def)

lemma in_session_typed:
  assumes "kdf_ok H" and s: "in_session opens H pw v x" and "length (ua_totp_seed (snd x)) = KEY_LEN"
    and "length (session_token (snd x)) = TOKEN_LEN"
  shows "session_typed v x"
proof -
  note o = in_session_vault(3) [OF s, unfolded open_index_iff]
  have st: "stored v (fst x)" using s by (simp add: in_session_def provisioned_def)
  have "length (k_master (snd x)) = KEY_LEN"
    using s master_of_length [OF assms(1)] by (auto simp: in_session_def provisioned_def keyed_def)
  moreover have "\<forall>row\<in>set (ua_index (snd x)). id_ok (ie_id row)" using session_ids_ok [OF s] by blast
  moreover have "vault_from_bytes (vault_to_bytes v) = Inr v" "length (vault_salt v) = SALT_LEN"
    using in_session_vault(1) [OF s] vault_from_to_bytes by (simp_all add: vault_wf_def)
  ultimately show ?thesis using assms(3,4) o st by (simp add: session_typed_def)
qed

lemma build_unlocked_token: "build_unlocked H km seed ix s = (ua, s') \<Longrightarrow> length (session_token ua) = TOKEN_LEN"
  by (auto simp: build_unlocked_def clock_now_def on_rng_def session_token_generate_def random_secret_def fill_random_def)

lemma create_vault_token:
  "create_vault H pw kdf cfg p s = (Inr (ua, uri), s') \<Longrightarrow> length (session_token ua) = TOKEN_LEN"
  by (auto simp: create_vault_def st_iffs intro: build_unlocked_token split: sum.splits)

section \<open>Property\<close>

text \<open>C17. Sessions are well typed.  From creation on, after any operations with any results, the master key
  and the TOTP seed have 32 bytes, the session token 32, every listed identifier 16 and none is
  listed twice; the file on disk is the encoding of a well-formed vault that parses back to it and
  whose envelopes are exactly the listed entries.\<close>

theorem session_well_typed:
  assumes "env_ok H" "uuid_ok H" "kdf_ok H" and "slot_store (store H) opens willing fresh" and "fresh_after fresh H"
    and "create_vault H pw kdf cfg p s = (Inr (ua, uri), s0)"
    and "(session_call H K storable willing)\<^sup>*\<^sup>* ((s0, ua), c) (y, c')"
  shows "\<exists>v. session_typed v y"
proof -
  obtain v where v: "in_session opens H pw v (s0, ua)" "session_view H v (s0, ua) = Map.empty"
    using created_in_session [OF assms(1,4,5,6)] by blast
  then have t: "tidy (session_view H v (s0, ua))" by (simp add: tidy_def)
  obtain pw' v' where v': "in_session opens H pw' v' y"
    using calls_simulate [OF assms(1,2,4,7), of False pw v] v t by auto
  have "length (ua_totp_seed ua) = KEY_LEN" using create_vault_provisions [OF assms(1,4,5,6)] by blast
  moreover have "ua_totp_seed (snd y) = ua_totp_seed ua \<and> session_token (snd y) = session_token ua"
    using identity.fields_calls [OF assms(7)] by simp
  ultimately show ?thesis
    using in_session_typed [OF assms(3) v'] create_vault_token [OF assms(6)] by auto
qed

lemma session_well_typed_witness:
  "\<exists>(ua :: unlocked_app) uri s0 y v.
     create_vault demo_host [] KDF_LOW totp_config_default demo_prompter demo_app = (Inr (ua, uri), s0) \<and>
     add_entry demo_host (ustr ''mail'') policy_default demo_record (s0, ua) = (Inr demo_id, y) \<and> session_typed v y"
proof -
  obtain uri s0 y and ua :: unlocked_app where
    c: "create_vault demo_host [] KDF_LOW totp_config_default demo_prompter demo_app = (Inr (ua, uri), s0)"
    and a: "add_entry demo_host (ustr ''mail'') policy_default demo_record (s0, ua) = (Inr demo_id, y)"
    by (rule demo_entry_session) blast
  let ?K = "system_clipboard_ops toy_arboard" and ?c = "system_clipboard_new None"
  have "on_fst (add_entry demo_host (ustr ''mail'') policy_default demo_record) ((s0, ua), ?c) = (Inr demo_id, (y, ?c))"
    using a by (simp add: on_fst_def)
  then have "session_call demo_host ?K storable prompt_passes ((s0, ua), ?c) (y, ?c)"
    by (rule session_call.call_add [where admits = storable, OF demo_storable])
  then have "(session_call demo_host ?K storable prompt_passes)\<^sup>*\<^sup>* ((s0, ua), ?c) (y, ?c)" by blast
  from session_well_typed [OF demo_host_ok(1,4,3) demo_store demo_fresh c this]
  obtain v where "session_typed v y" by blast
  with c a show ?thesis by (intro exI conjI)
qed

end
