(* ===== verification/Worker.thy ===== *)
theory Worker
  imports Unlocked Text "HOL-Library.Sublist"
begin

text \<open>
  \<open>passman-core\<close>, \<open>worker.rs\<close>: the session actor.  The worker thread owns the application; its locked
  loop and, inside it, the loop of an unlocked session consume what arrives on the request channel.
  One event is one answer of \<open>recv\<close> or \<open>recv_timeout\<close>: a request, an idle second, or a closed
  channel; an idle second is seen by the unlocked loop only, since the locked loop blocks in \<open>recv\<close>.
  A run over the events that have arrived ends in the state the worker waits in, or stopped.  The
  password generator may draw forever, so a run is partial.
\<close>

section \<open>Messages\<close>

datatype request =
    CreateVault secret_string kdf_params
  | UnlockVault secret_string ustring
  | Refresh
  | Reveal entry_id reveal_field
  | Copy entry_id reveal_field
  | ClearClipboard clipboard_cookie
  | GeneratePassword "16 word"
  | AddEntry ustring secret_string secret_string secret_string secret_string
  | RemoveEntry entry_id
  | ExportRecovery secret_string ustring recovery_preset
  | VerifyTotp ustring
  | LockSession
  | QuitWorker

datatype response =
    Created ustring "entry_handle list"
  | CreateFailed string
  | Unlocked "entry_handle list"
  | UnlockFailed string
  | Entries "entry_handle list"
  | Revealed reveal_field secret_string
  | Copied clipboard_cookie
  | Generated secret_string
  | LockedNow
  | RecoveryExported bytes
  | RecoveryExportFailed string
  | TotpChecked bool
  | OpError string

datatype event = Arrived request | IdleSecond | ChannelClosed

datatype flow = Continue | Lock | Quit

text \<open>What the worker is started with, and the response channel: \<open>sh_listening n\<close> says whether the
  receiver still exists when the \<open>n\<close>-th response is sent; only what it received is kept.\<close>

record 'c shell =
  sh_clipboard :: "'c clipboard option"
  sh_fact_overwrite :: bool
  sh_prompter :: prompter
  sh_listening :: "nat \<Rightarrow> bool"

record channel =
  ch_received :: "response list"
  ch_sends :: nat

definition ch_send :: "'c shell \<Rightarrow> response \<Rightarrow> channel \<Rightarrow> bool \<times> channel" where
  "ch_send W r h =
     (if sh_listening W (ch_sends h)
      then (True, \<lparr>ch_received = ch_received h @ [r], ch_sends = ch_sends h + 1\<rparr>)
      else (False, h\<lparr>ch_sends := ch_sends h + 1\<rparr>))"

section \<open>User-facing messages\<close>

definition KEYSTORE_REFUSED :: string where
  "KEYSTORE_REFUSED = ''This device's secure storage refused to use the vault key. Please try again.''"

fun create_message :: "core_error \<Rightarrow> string" where
  "create_message AlreadyRunning = ''Another passman instance is using this vault.''"
| "create_message SoftwareHsmRefused = ''This device has no acceptable hardware key store.''"
| "create_message (CHsm HardwareAbsent) =
     ''Set a screen lock (PIN, pattern or password) on this device first. passman needs it to protect its secure key.''"
| "create_message (CHsm (Backend _)) = KEYSTORE_REFUSED"
| "create_message _ = ''The vault could not be created.''"

fun unlock_message :: "unlock_error \<Rightarrow> string" where
  "unlock_message BadCredentials = ''Incorrect master password or TOTP code.''"
| "unlock_message (LockedOut left) =
     ''Locked out; try again in about '' @ show_nat (max (left div 1000000000) 1) @ '' s.''"
| "unlock_message UCancelled = ''Unlock cancelled.''"
| "unlock_message URetryable = ''Transient hardware error; please retry.''"
| "unlock_message RouteToRecovery = ''The hardware key is unavailable; recover from a backup.''"
| "unlock_message USoftwareHsmRefused = ''This vault uses a software backend (run with --allow-software-hsm).''"
| "unlock_message (UHsm (Backend _)) = KEYSTORE_REFUSED"
| "unlock_message _ = ''The vault could not be unlocked.''"

fun operation_message :: "core_error \<Rightarrow> string" where
  "operation_message (CVault EntryNotFound) = ''That entry no longer exists.''"
| "operation_message WeakPasswordForExport = ''The master password is too weak for a recovery export.''"
| "operation_message _ = ''The operation failed.''"

section \<open>The unlocked loop\<close>

text \<open>Its state: the session, the clipboard, the receipt of the last copy still believed live, and
  the response channel.\<close>

record ('d, 'c) serving =
  sv_session :: "'d app \<times> unlocked_app"
  sv_clip :: 'c
  sv_live :: "clipboard_cookie option"
  sv_chan :: channel

definition send_or_lock :: "'c shell \<Rightarrow> response \<Rightarrow> ('d, 'c) serving \<Rightarrow> ('d, 'c) serving" where
  "send_or_lock W r v = v\<lparr>sv_chan := snd (ch_send W r (sv_chan v))\<rparr>"

definition on_op_error :: "'c shell \<Rightarrow> core_error \<Rightarrow> ('d, 'c) serving \<Rightarrow> flow \<times> ('d, 'c) serving" where
  "on_op_error W e v =
     (if e = SessionLocked then (Lock, v) else (Continue, send_or_lock W (OpError (operation_message e)) v))"

text \<open>Answer an operation on the session: \<open>Ok(x) => send_or_lock(..), Err(e) => return on_op_error(..)\<close>.\<close>

definition answer :: "'c shell \<Rightarrow> ('r \<Rightarrow> response) \<Rightarrow> (core_error + 'r) \<times> ('d, 'c) serving \<Rightarrow> flow \<times> ('d, 'c) serving" where
  "answer W f x =
     (case x of (Inr r, v) \<Rightarrow> (Continue, send_or_lock W (f r) v) | (Inl e, v) \<Rightarrow> on_op_error W e v)"

definition in_sv :: "('d app \<times> unlocked_app \<Rightarrow> 'r \<times> 'd app \<times> unlocked_app) \<Rightarrow> ('d, 'c) serving \<Rightarrow>
    'r \<times> ('d, 'c) serving" where
  "in_sv f v = (case f (sv_session v) of (r, x) \<Rightarrow> (r, v\<lparr>sv_session := x\<rparr>))"

definition in_sv_clip :: "(('d app \<times> unlocked_app) \<times> 'c \<Rightarrow> 'r \<times> ('d app \<times> unlocked_app) \<times> 'c) \<Rightarrow>
    ('d, 'c) serving \<Rightarrow> 'r \<times> ('d, 'c) serving" where
  "in_sv_clip f v = (case f (sv_session v, sv_clip v) of (r, x, c) \<Rightarrow> (r, v\<lparr>sv_session := x, sv_clip := c\<rparr>))"

definition wipe_clipboard_on_exit :: "('d, 'm) host_scheme \<Rightarrow> 'c shell \<Rightarrow> ('d, 'c) serving \<Rightarrow> ('d, 'c) serving" where
  "wipe_clipboard_on_exit H W v =
     (case (sv_live v, sh_clipboard W) of
        (Some cookie, Some K) \<Rightarrow> snd (in_sv_clip (clear_clipboard_with H K cookie (sh_fact_overwrite W)) v)
      | _ \<Rightarrow> v)"

text \<open>The arms of \<open>handle_unlocked\<close> that use the clipboard or need more than one operation.\<close>

definition handle_copy :: "('d, 'm) host_scheme \<Rightarrow> 'c shell \<Rightarrow> entry_id \<Rightarrow> reveal_field \<Rightarrow>
    ('d, 'c) serving \<Rightarrow> flow \<times> ('d, 'c) serving" where
  "handle_copy H W i field v =
     (case sh_clipboard W of
        None \<Rightarrow> (Continue, send_or_lock W (OpError ''the clipboard is unavailable'') v)
      | Some K \<Rightarrow>
          (case in_sv_clip (copy_to_clipboard H K i field) v of
             (Inr cookie, v') \<Rightarrow> (Continue, send_or_lock W (Copied cookie) (v'\<lparr>sv_live := Some cookie\<rparr>))
           | (Inl e, v') \<Rightarrow> on_op_error W e v'))"

definition handle_clear :: "('d, 'm) host_scheme \<Rightarrow> 'c shell \<Rightarrow> clipboard_cookie \<Rightarrow>
    ('d, 'c) serving \<Rightarrow> flow \<times> ('d, 'c) serving" where
  "handle_clear H W cookie v =
     (Continue,
      (case sh_clipboard W of
         Some K \<Rightarrow> snd (in_sv_clip (clear_clipboard_with H K cookie (sh_fact_overwrite W)) v)
       | None \<Rightarrow> v)\<lparr>sv_live := None\<rparr>)"

text \<open>A mutation followed by a fresh listing.\<close>

definition then_list :: "('d, 'm) host_scheme \<Rightarrow> 'c shell \<Rightarrow>
    ('d app \<times> unlocked_app \<Rightarrow> (core_error + 'r) \<times> 'd app \<times> unlocked_app) \<Rightarrow>
    ('d, 'c) serving \<Rightarrow> flow \<times> ('d, 'c) serving" where
  "then_list H W f v =
     (case in_sv f v of
        (Inr _, v') \<Rightarrow> answer W Entries (in_sv (list_entries H) v')
      | (Inl e, v') \<Rightarrow> on_op_error W e v')"

definition handle_export :: "('d, 'm) host_scheme \<Rightarrow> 'c shell \<Rightarrow> secret_string \<Rightarrow> ustring \<Rightarrow> recovery_preset \<Rightarrow>
    ('d, 'c) serving \<Rightarrow> flow \<times> ('d, 'c) serving" where
  "handle_export H W master code preset v =
     (case in_sv (export_recovery H master (trim code) preset (sh_prompter W)) v of
        (Inr out, v') \<Rightarrow> (Continue, send_or_lock W (RecoveryExported out) v')
      | (Inl e, v') \<Rightarrow>
          if e = SessionLocked then (Lock, v')
          else (Continue, send_or_lock W (RecoveryExportFailed (operation_message e)) v'))"

fun handle_unlocked :: "('d, 'm) host_scheme \<Rightarrow> 'c shell \<Rightarrow> request \<Rightarrow> ('d, 'c) serving \<Rightarrow>
    (flow \<times> ('d, 'c) serving) option" where
  "handle_unlocked H W LockSession v = Some (Lock, v)"
| "handle_unlocked H W QuitWorker v = Some (Quit, v)"
| "handle_unlocked H W (CreateVault _ _) v = Some (Continue, v)"
| "handle_unlocked H W (UnlockVault _ _) v = Some (Continue, v)"
| "handle_unlocked H W Refresh v = Some (answer W Entries (in_sv (list_entries H) v))"
| "handle_unlocked H W (Reveal i field) v =
     Some (answer W (Revealed field) (in_sv (with_revealed H i (\<lambda>r. select_field r field)) v))"
| "handle_unlocked H W (Copy i field) v = Some (handle_copy H W i field v)"
| "handle_unlocked H W (ClearClipboard cookie) v = Some (handle_clear H W cookie v)"
| "handle_unlocked H W (GeneratePassword n) v =
     Option.bind (generate_password H
         \<lparr>gr_length = n, gr_charset = charset_default_vault, gr_required = one_of_each\<rparr> (sv_session v))
       (\<lambda>(r, x). Some (answer W Generated (r, v\<lparr>sv_session := x\<rparr>)))"
| "handle_unlocked H W (AddEntry label username password url notes) v =
     Some (then_list H W (add_entry H label policy_default
       \<lparr>er_username = username, er_password = password, er_url = url, er_notes = notes\<rparr>) v)"
| "handle_unlocked H W (RemoveEntry i) v = Some (then_list H W (session_remove H i) v)"
| "handle_unlocked H W (ExportRecovery master code preset) v = Some (handle_export H W master code preset v)"
| "handle_unlocked H W (VerifyTotp code) v =
     Some (case in_sv (verify_totp_code H (trim code)) v of
       (valid, v') \<Rightarrow> (Continue, send_or_lock W (TotpChecked valid) v'))"

text \<open>The loop: the flow it returns with and the events left, or \<open>None\<close> while it still waits.\<close>

fun unlocked_loop :: "('d, 'm) host_scheme \<Rightarrow> 'c shell \<Rightarrow> event list \<Rightarrow> ('d, 'c) serving \<Rightarrow>
    ((flow \<times> event list) option \<times> ('d, 'c) serving) option" where
  "unlocked_loop H W [] v = Some (None, v)"
| "unlocked_loop H W (Arrived request # es) v =
     Option.bind (handle_unlocked H W request v) (\<lambda>(flow, v').
       case flow of
         Continue \<Rightarrow> unlocked_loop H W es v'
       | Lock \<Rightarrow> Some (Some (Lock, es), wipe_clipboard_on_exit H W v')
       | Quit \<Rightarrow> Some (Some (Quit, es), wipe_clipboard_on_exit H W v'))"
| "unlocked_loop H W (IdleSecond # es) v =
     (case in_sv (is_expired H) v of
        (True, v') \<Rightarrow> Some (Some (Lock, es), wipe_clipboard_on_exit H W v')
      | (False, v') \<Rightarrow> unlocked_loop H W es v')"
| "unlocked_loop H W (ChannelClosed # es) v = Some (Some (Quit, es), wipe_clipboard_on_exit H W v)"

text \<open>What is left of the events is a proper end of them.\<close>

lemma left_Cons [simp]: "strict_suffix es (e # es)" "strict_suffix rest es \<Longrightarrow> strict_suffix rest (e # es)"
  by (auto simp: strict_suffix_def suffix_def)

lemma unlocked_loop_left:
  "unlocked_loop H W es v = Some (Some (flow, rest), v') \<Longrightarrow> strict_suffix rest es"
proof (induction H W es v rule: unlocked_loop.induct)
  case (2 H W request es v)
  then obtain f w where h: "handle_unlocked H W request v = Some (f, w)" by (auto simp: bind_eq_Some_conv)
  show ?case using 2(2) 2(1) [OF h refl] h by (cases f) auto
next
  case (3 H W es v)
  then show ?case by (auto split: prod.splits bool.splits)
qed simp_all

definition drive_unlocked :: "('d, 'm) host_scheme \<Rightarrow> 'c shell \<Rightarrow> event list \<Rightarrow> ('d, 'c) serving \<Rightarrow>
    ((bool \<times> event list) option \<times> ('d, 'c) serving) option" where
  "drive_unlocked H W es v =
     Option.bind (unlocked_loop H W es v) (\<lambda>(out, v').
       case out of
         None \<Rightarrow> Some (None, v')
       | Some (flow, rest) \<Rightarrow>
           (case flow of
              Quit \<Rightarrow> Some (Some (True, rest), v')
            | Lock \<Rightarrow> Some (Some (False, rest), send_or_lock W LockedNow v')
            | Continue \<Rightarrow> Some (Some (False, rest), send_or_lock W LockedNow v')))"

section \<open>The worker\<close>

datatype ('d, 'c) worker =
    WaitsLocked "'d app" 'c channel
  | WaitsUnlocked "('d, 'c) serving"
  | Stopped "'d app" 'c channel

text \<open>Both successful arms of the locked loop: announce the session, serve it, and stop or go on with
  the events that are left.\<close>

fun leave_session :: "(bool \<times> event list) option \<times> ('d, 'c) serving \<Rightarrow>
    (event list \<times> 'd app \<times> 'c \<times> channel) + ('d, 'c) worker" where
  "leave_session (None, v) = Inr (WaitsUnlocked v)"
| "leave_session (Some (True, rest), v) = Inr (Stopped (fst (sv_session v)) (sv_clip v) (sv_chan v))"
| "leave_session (Some (False, rest), v) = Inl (rest, fst (sv_session v), sv_clip v, sv_chan v)"

definition enter_session :: "('d, 'm) host_scheme \<Rightarrow> 'c shell \<Rightarrow> (entry_handle list \<Rightarrow> response) \<Rightarrow> event list \<Rightarrow>
    'd app \<times> unlocked_app \<Rightarrow> 'c \<Rightarrow> channel \<Rightarrow> ((event list \<times> 'd app \<times> 'c \<times> channel) + ('d, 'c) worker) option" where
  "enter_session H W announce es x c h =
     (case list_entries H x of (listing, x1) \<Rightarrow>
      case ch_send W (announce (case listing of Inr l \<Rightarrow> l | Inl _ \<Rightarrow> [])) h of (sent, h1) \<Rightarrow>
        if sent
        then map_option leave_session
          (drive_unlocked H W es \<lparr>sv_session = x1, sv_clip = c, sv_live = None, sv_chan = h1\<rparr>)
        else Some (Inr (Stopped (fst x1) c h1)))"

definition refuse_session :: "'c shell \<Rightarrow> response \<Rightarrow> event list \<Rightarrow> 'd app \<Rightarrow> 'c \<Rightarrow> channel \<Rightarrow>
    ((event list \<times> 'd app \<times> 'c \<times> channel) + ('d, 'c) worker) option" where
  "refuse_session W r es s c h =
     (case ch_send W r h of (sent, h') \<Rightarrow>
        Some (if sent then Inl (es, s, c, h') else Inr (Stopped s c h')))"

text \<open>One round of the locked loop.\<close>

fun locked_round :: "('d, 'm) host_scheme \<Rightarrow> 'c shell \<Rightarrow> event \<Rightarrow> event list \<Rightarrow> 'd app \<Rightarrow> 'c \<Rightarrow> channel \<Rightarrow>
    ((event list \<times> 'd app \<times> 'c \<times> channel) + ('d, 'c) worker) option" where
  "locked_round H W (Arrived (CreateVault master kdf)) es s c h =
     (case create_vault H master kdf totp_config_default (sh_prompter W) s of
        (Inr (ua, uri), s') \<Rightarrow> enter_session H W (Created uri) es (s', ua) c h
      | (Inl e, s') \<Rightarrow> refuse_session W (CreateFailed (create_message e)) es s' c h)"
| "locked_round H W (Arrived (UnlockVault master code)) es s c h =
     (case unlock H master (trim code) (sh_prompter W) s of
        (Inr ua, s') \<Rightarrow> enter_session H W Unlocked es (s', ua) c h
      | (Inl e, s') \<Rightarrow> refuse_session W (UnlockFailed (unlock_message e)) es s' c h)"
| "locked_round H W (Arrived QuitWorker) es s c h = Some (Inr (Stopped s c h))"
| "locked_round H W ChannelClosed es s c h = Some (Inr (Stopped s c h))"
| "locked_round H W (Arrived (ClearClipboard _)) es s c h = Some (Inl (es, s, c, h))"
| "locked_round H W IdleSecond es s c h = Some (Inl (es, s, c, h))"
| "locked_round H W (Arrived _) es s c h = Some (Inl (es, s, c, snd (ch_send W LockedNow h)))"

lemma drive_unlocked_left:
  assumes "drive_unlocked H W es v = Some (Some (q, rest), v')"
  shows "strict_suffix rest es"
proof -
  obtain out w where u: "unlocked_loop H W es v = Some (out, w)"
    using assms by (auto simp: drive_unlocked_def bind_eq_Some_conv)
  then obtain f where "out = Some (f, rest)"
    using assms by (cases out) (auto simp: drive_unlocked_def split: flow.splits)
  then show ?thesis using u unlocked_loop_left by blast
qed

lemma leave_session_Inl: "leave_session (out, v) = Inl (rest, y) \<Longrightarrow> out = Some (False, rest)"
  by (cases "(out, v)" rule: leave_session.cases) simp_all

lemma enter_session_Inl:
  assumes "enter_session H W f es x c h = Some (Inl (rest, y))"
  obtains l x1 h1 v where "list_entries H x = (l, x1)"
    "ch_send W (f (case l of Inr l \<Rightarrow> l | Inl _ \<Rightarrow> [])) h = (True, h1)"
    "drive_unlocked H W es \<lparr>sv_session = x1, sv_clip = c, sv_live = None, sv_chan = h1\<rparr> = Some (Some (False, rest), v)"
    "y = (fst (sv_session v), sv_clip v, sv_chan v)"
proof -
  obtain l x1 where l: "list_entries H x = (l, x1)" by (cases "list_entries H x")
  obtain b h1 where b: "ch_send W (f (case l of Inr l \<Rightarrow> l | Inl _ \<Rightarrow> [])) h = (b, h1)"
    by (cases "ch_send W (f (case l of Inr l \<Rightarrow> l | Inl _ \<Rightarrow> [])) h")
  note a = assms [unfolded enter_session_def l b prod.case]
  have b': b using a by (cases b) simp_all
  obtain out v where d: "drive_unlocked H W es \<lparr>sv_session = x1, sv_clip = c, sv_live = None, sv_chan = h1\<rparr> = Some (out, v)"
    and lv: "leave_session (out, v) = Inl (rest, y)" using a b' by (auto simp: map_option_eq_Some)
  note o = leave_session_Inl [OF lv]
  show thesis using that [OF l] b b' d lv o by simp
qed

lemma enter_session_left: "enter_session H W f es x c h = Some (Inl (rest, y)) \<Longrightarrow> strict_suffix rest es"
  by (elim enter_session_Inl drive_unlocked_left)

lemma refuse_session_left: "refuse_session W r es s c h = Some (Inl (rest, y)) \<Longrightarrow> rest = es"
  by (simp add: refuse_session_def split: prod.splits if_splits)

lemma locked_round_left:
  assumes "locked_round H W e es s c h = Some (Inl (rest, y))"
  shows "suffix rest es"
proof (cases e)
  case (Arrived r)
  show ?thesis
  proof (cases r)
    case (CreateVault m k)
    obtain x t where "create_vault H m k totp_config_default (sh_prompter W) s = (x, t)" by fastforce
    then show ?thesis using assms Arrived CreateVault
      by (cases x) (auto dest: refuse_session_left enter_session_left intro: suffix_order.less_imp_le)
  next
    case (UnlockVault m k)
    obtain x t where "unlock H m (trim k) (sh_prompter W) s = (x, t)" by fastforce
    then show ?thesis using assms Arrived UnlockVault
      by (cases x) (auto dest: refuse_session_left enter_session_left intro: suffix_order.less_imp_le)
  qed (use assms Arrived in simp_all)
qed (use assms in simp_all)

function run_worker :: "('d, 'm) host_scheme \<Rightarrow> 'c shell \<Rightarrow> event list \<Rightarrow> 'd app \<Rightarrow> 'c \<Rightarrow> channel \<Rightarrow>
    ('d, 'c) worker option" where
  "run_worker H W [] s c h = Some (WaitsLocked s c h)"
| "run_worker H W (e # es) s c h =
     (case locked_round H W e es s c h of
        None \<Rightarrow> None
      | Some (Inr w) \<Rightarrow> Some w
      | Some (Inl (rest, s', c', h')) \<Rightarrow> run_worker H W rest s' c' h')"
  by pat_completeness auto
termination
  by (relation "measure (\<lambda>(H, W, es, _). length es)") (auto simp: less_Suc_eq_le dest!: locked_round_left suffix_length_le)

end
