(* ===== verification/WorkerProtocol.thy ===== *)
theory WorkerProtocol
  imports Worker
begin

text \<open>
  The request and response protocol of the session actor: feeding the worker its events one batch
  after the other, what each event is answered with, and how the answers tell the shell whether a
  session is open.
\<close>

section \<open>Feeding a worker that waits\<close>

definition go_on :: "('d, 'm) host_scheme \<Rightarrow> 'c shell \<Rightarrow>
    ((event list \<times> 'd app \<times> 'c \<times> channel) + ('d, 'c) worker) option \<Rightarrow> ('d, 'c) worker option" where
  "go_on H W x = Option.bind x (\<lambda>y. case y of Inr w \<Rightarrow> Some w | Inl (rest, s, c, h) \<Rightarrow> run_worker H W rest s c h)"

fun resume :: "('d, 'm) host_scheme \<Rightarrow> 'c shell \<Rightarrow> event list \<Rightarrow> ('d, 'c) worker \<Rightarrow> ('d, 'c) worker option" where
  "resume H W es (WaitsLocked s c h) = run_worker H W es s c h"
| "resume H W es (WaitsUnlocked v) = go_on H W (map_option leave_session (drive_unlocked H W es v))"
| "resume H W es (Stopped s c h) = Some (Stopped s c h)"

lemma run_worker_round: "run_worker H W (e # es) s c h = go_on H W (locked_round H W e es s c h)"
  by (simp add: go_on_def split: option.split sum.split)

declare run_worker.simps(2) [simp del]

lemma go_on_simps [simp]:
  "go_on H W None = None" "go_on H W (Some (Inr w)) = Some w"
  "go_on H W (Some (Inl (rest, s, c, h))) = run_worker H W rest s c h"
  by (simp_all add: go_on_def)

lemma unlocked_loop_append:
  "unlocked_loop H W (es @ fs) v = Option.bind (unlocked_loop H W es v) (\<lambda>(out, v').
     case out of None \<Rightarrow> unlocked_loop H W fs v' | Some (f, rest) \<Rightarrow> Some (Some (f, rest @ fs), v'))"
proof (induction H W es v rule: unlocked_loop.induct)
  case (2 H W request es v)
  show ?case
  proof (cases "handle_unlocked H W request v")
    case (Some x)
    then show ?thesis using 2 by (cases x; cases "fst x") auto
  qed simp
next
  case (3 H W es v)
  obtain b w where "in_sv (is_expired H) v = (b, w)" by fastforce
  then show ?case using 3 by (cases b) auto
qed simp_all

lemma drive_unlocked_append:
  "drive_unlocked H W (es @ fs) v = Option.bind (drive_unlocked H W es v) (\<lambda>(out, v').
     case out of None \<Rightarrow> drive_unlocked H W fs v' | Some (q, rest) \<Rightarrow> Some (Some (q, rest @ fs), v'))"
proof (cases "unlocked_loop H W es v")
  case (Some x)
  obtain out w where x: "x = (out, w)" by (cases x)
  show ?thesis
  proof (cases out)
    case (Some y)
    obtain f rest where "y = (f, rest)" by (cases y)
    then show ?thesis using \<open>unlocked_loop H W es v = Some x\<close> x Some
      by (cases f) (simp_all add: drive_unlocked_def unlocked_loop_append)
  qed (simp add: drive_unlocked_def unlocked_loop_append \<open>unlocked_loop H W es v = Some x\<close> x)
qed (simp add: drive_unlocked_def unlocked_loop_append)

text \<open>What a round or a session is left with when more events follow.\<close>

definition more :: "('d, 'm) host_scheme \<Rightarrow> 'c shell \<Rightarrow> event list \<Rightarrow>
    ((event list \<times> 'd app \<times> 'c \<times> channel) + ('d, 'c) worker) option \<Rightarrow>
    ((event list \<times> 'd app \<times> 'c \<times> channel) + ('d, 'c) worker) option" where
  "more H W fs x = Option.bind x (\<lambda>y. case y of
       Inl (rest, z) \<Rightarrow> Some (Inl (rest @ fs, z))
     | Inr (WaitsUnlocked v) \<Rightarrow> map_option leave_session (drive_unlocked H W fs v)
     | Inr (WaitsLocked s c h) \<Rightarrow> Some (Inl (fs, s, c, h))
     | Inr (Stopped s c h) \<Rightarrow> Some (Inr (Stopped s c h)))"

lemma leave_more:
  "map_option leave_session (drive_unlocked H W (es @ fs) v) = more H W fs (map_option leave_session (drive_unlocked H W es v))"
proof (cases "drive_unlocked H W es v")
  case (Some x)
  then show ?thesis
    by (cases x rule: leave_session.cases) (simp_all add: drive_unlocked_append more_def)
qed (simp add: drive_unlocked_append more_def)

lemma enter_session_more: "enter_session H W f (es @ fs) x c h = more H W fs (enter_session H W f es x c h)"
  by (simp add: enter_session_def leave_more split: prod.split) (simp add: more_def)

lemma refuse_session_more: "refuse_session W r (es @ fs) s c h = more H W fs (refuse_session W r es s c h)"
  by (simp add: refuse_session_def more_def split: prod.split)

lemma locked_round_more: "locked_round H W e (es @ fs) s c h = more H W fs (locked_round H W e es s c h)"
proof (cases e)
  case (Arrived r)
  show ?thesis
  proof (cases r)
    case (CreateVault m k)
    show ?thesis unfolding Arrived CreateVault locked_round.simps
      by (simp split: prod.split sum.split add: enter_session_more refuse_session_more [of W _ es fs _ c h H])
  next
    case (UnlockVault m k)
    show ?thesis unfolding Arrived UnlockVault locked_round.simps
      by (simp split: prod.split sum.split add: enter_session_more refuse_session_more [of W _ es fs _ c h H])
  qed (simp_all add: Arrived more_def)
qed (simp_all add: more_def)

lemma go_on_more:
  assumes "\<And>rest s c h. x = Some (Inl (rest, s, c, h)) \<Longrightarrow>
    run_worker H W (rest @ fs) s c h = Option.bind (run_worker H W rest s c h) (resume H W fs)"
  shows "go_on H W (more H W fs x) = Option.bind (go_on H W x) (resume H W fs)"
proof (cases x)
  case (Some y)
  show ?thesis
  proof (cases y)
    case (Inl z)
    then show ?thesis using assms Some by (cases z) (simp add: more_def)
  next
    case (Inr w)
    then show ?thesis using Some by (cases w) (simp_all add: more_def)
  qed
qed (simp add: more_def)

lemma run_worker_append:
  "run_worker H W (es @ fs) s c h = Option.bind (run_worker H W es s c h) (resume H W fs)"
proof (induction "length es" arbitrary: es s c h rule: less_induct)
  case less
  show ?case
  proof (cases es)
    case (Cons e es')
    have "run_worker H W (rest @ fs) s' c' h' = Option.bind (run_worker H W rest s' c' h') (resume H W fs)"
      if "locked_round H W e es' s c h = Some (Inl (rest, s', c', h'))" for rest s' c' h'
      by (rule less) (use suffix_length_le [OF locked_round_left [OF that]] Cons in simp)
    then show ?thesis using go_on_more [of "locked_round H W e es' s c h" H W fs]
      by (simp add: Cons run_worker_round locked_round_more)
  qed simp
qed

text \<open>Serving a stream of events in two batches or at once is the same.\<close>

theorem resume_append: "resume H W (es @ fs) w = Option.bind (resume H W es w) (resume H W fs)"
  by (cases w) (simp_all add: run_worker_append leave_more go_on_more)

section \<open>What a request is answered with\<close>

fun received :: "('d, 'c) worker \<Rightarrow> response list" where
  "received (WaitsLocked s c h) = ch_received h"
| "received (WaitsUnlocked v) = ch_received (sv_chan v)"
| "received (Stopped s c h) = ch_received h"

fun is_unlocked :: "('d, 'c) worker \<Rightarrow> bool" where
  "is_unlocked (WaitsUnlocked v) = True"
| "is_unlocked _ = False"

fun has_stopped :: "('d, 'c) worker \<Rightarrow> bool" where
  "has_stopped (Stopped s c h) = True"
| "has_stopped _ = False"

text \<open>The responses that answer a request; \<open>LockedNow\<close> and, for most, an error may come instead.\<close>

fun fits :: "request \<Rightarrow> response \<Rightarrow> bool" where
  "fits (CreateVault _ _) a = (case a of Created _ _ \<Rightarrow> True | CreateFailed _ \<Rightarrow> True | _ \<Rightarrow> False)"
| "fits (UnlockVault _ _) a = (case a of Unlocked _ \<Rightarrow> True | UnlockFailed _ \<Rightarrow> True | _ \<Rightarrow> False)"
| "fits Refresh a = (case a of Entries _ \<Rightarrow> True | OpError _ \<Rightarrow> True | LockedNow \<Rightarrow> True | _ \<Rightarrow> False)"
| "fits (Reveal _ f) a = (case a of Revealed g _ \<Rightarrow> g = f | OpError _ \<Rightarrow> True | LockedNow \<Rightarrow> True | _ \<Rightarrow> False)"
| "fits (Copy _ _) a = (case a of Copied _ \<Rightarrow> True | OpError _ \<Rightarrow> True | LockedNow \<Rightarrow> True | _ \<Rightarrow> False)"
| "fits (GeneratePassword _) a = (case a of Generated _ \<Rightarrow> True | OpError _ \<Rightarrow> True | LockedNow \<Rightarrow> True | _ \<Rightarrow> False)"
| "fits (AddEntry _ _ _ _ _) a = (case a of Entries _ \<Rightarrow> True | OpError _ \<Rightarrow> True | LockedNow \<Rightarrow> True | _ \<Rightarrow> False)"
| "fits (RemoveEntry _) a = (case a of Entries _ \<Rightarrow> True | OpError _ \<Rightarrow> True | LockedNow \<Rightarrow> True | _ \<Rightarrow> False)"
| "fits (ExportRecovery _ _ _) a =
     (case a of RecoveryExported _ \<Rightarrow> True | RecoveryExportFailed _ \<Rightarrow> True | LockedNow \<Rightarrow> True | _ \<Rightarrow> False)"
| "fits (VerifyTotp _) a = (case a of TotpChecked _ \<Rightarrow> True | LockedNow \<Rightarrow> True | _ \<Rightarrow> False)"
| "fits LockSession a = (a = LockedNow)"
| "fits (ClearClipboard _) a = False"
| "fits QuitWorker a = False"

text \<open>The requests a worker leaves unanswered: the ones nobody waits for, and a stray create or unlock
  inside a session.\<close>

fun silent :: "bool \<Rightarrow> request \<Rightarrow> bool" where
  "silent unlocked (ClearClipboard _) = True"
| "silent unlocked QuitWorker = True"
| "silent unlocked (CreateVault _ _) = unlocked"
| "silent unlocked (UnlockVault _ _) = unlocked"
| "silent unlocked _ = False"

text \<open>How the answers tell whether a session is open.\<close>

fun track :: "bool \<Rightarrow> response \<Rightarrow> bool" where
  "track b LockedNow = False"
| "track b (Created _ _) = True"
| "track b (Unlocked _) = True"
| "track b _ = b"

definition listening :: "'c shell \<Rightarrow> bool" where
  "listening W \<longleftrightarrow> (\<forall>n. sh_listening W n)"

lemma ch_send_listening [simp]:
  "listening W \<Longrightarrow> ch_send W r h = (True, \<lparr>ch_received = ch_received h @ [r], ch_sends = ch_sends h + 1\<rparr>)"
  by (simp add: ch_send_def listening_def)

abbreviation got :: "('d, 'c) serving \<Rightarrow> response list" where
  "got v \<equiv> ch_received (sv_chan v)"

lemma got_send [simp]: "listening W \<Longrightarrow> got (send_or_lock W r v) = got v @ [r]"
  by (simp add: send_or_lock_def)

lemma got_in_sv: "in_sv f v = (r, v') \<Longrightarrow> sv_chan v' = sv_chan v"
  by (auto simp: in_sv_def split: prod.splits)

lemma got_in_sv_clip: "in_sv_clip f v = (r, v') \<Longrightarrow> sv_chan v' = sv_chan v"
  by (auto simp: in_sv_clip_def split: prod.splits)

lemma got_wipe [simp]: "sv_chan (wipe_clipboard_on_exit H W v) = sv_chan v"
  by (simp add: wipe_clipboard_on_exit_def split: option.split)
    (metis got_in_sv_clip prod.collapse)

text \<open>An operation of a session either locks it, saying nothing yet, or is answered once.\<close>

definition answered :: "(response \<Rightarrow> bool) \<Rightarrow> ('d, 'c) serving \<Rightarrow> flow \<times> ('d, 'c) serving \<Rightarrow> bool" where
  "answered P v x \<longleftrightarrow> (fst x = Lock \<and> got (snd x) = got v) \<or>
     (fst x = Continue \<and> (\<exists>a. got (snd x) = got v @ [a] \<and> P a \<and> track True a))"

lemma answered_error:
  "listening W \<Longrightarrow> got v' = got v \<Longrightarrow> (\<And>m. P (OpError m)) \<Longrightarrow> answered P v (on_op_error W e v')"
  by (simp add: answered_def on_op_error_def)

lemma answered_answer:
  assumes "listening W" and "got (snd x) = got v" and "\<And>m. P (OpError m)" and "\<And>r. P (f r) \<and> track True (f r)"
  shows "answered P v (answer W f x)"
proof (cases "fst x")
  case (Inl e)
  then show ?thesis using assms answered_error [of W "snd x" v P e] by (cases x) (simp add: answer_def)
next
  case (Inr r)
  then show ?thesis using assms by (cases x) (simp add: answer_def answered_def)
qed

lemma got_snd_in_sv [simp]: "got (snd (in_sv f v)) = got v"
  by (metis got_in_sv prod.collapse)

lemma answered_then_list:
  assumes "listening W" and "\<And>m. P (OpError m)" and "\<And>l. P (Entries l)"
  shows "answered P v (then_list H W f v)"
proof -
  obtain r w where w: "in_sv f v = (r, w)" by fastforce
  note g = got_in_sv [OF w]
  show ?thesis
  proof (cases r)
    case (Inl e)
    then show ?thesis using answered_error [of W w v P e] assms g w by (simp add: then_list_def)
  next
    case (Inr u)
    have "answered P v (answer W Entries (in_sv (list_entries H) w))"
      by (rule answered_answer) (use assms g in simp_all)
    then show ?thesis using Inr w by (simp add: then_list_def)
  qed
qed

lemma answered_copy: "listening W \<Longrightarrow> answered (fits (Copy i f)) v (handle_copy H W i f v)"
  by (auto simp: handle_copy_def answered_def on_op_error_def split: option.split prod.split sum.split dest: got_in_sv_clip)

lemma answered_export: "listening W \<Longrightarrow> answered (fits (ExportRecovery m c p)) v (handle_export H W m c p v)"
  by (auto simp: handle_export_def answered_def split: prod.split sum.split dest: got_in_sv)

lemma handle_unlocked_protocol:
  assumes l: "listening W" and h: "handle_unlocked H W r v = Some x"
  shows "if silent True r then got (snd x) = got v \<and> fst x = (if r = QuitWorker then Quit else Continue)
    else if r = LockSession then x = (Lock, v) else answered (fits r) v x"
proof (cases r)
  case (GeneratePassword n)
  then show ?thesis using h answered_answer [OF l, of _ v "fits r" Generated]
    by (auto simp: bind_eq_Some_conv)
next
  case (VerifyTotp c)
  then show ?thesis using h l by (auto simp: answered_def split: prod.splits dest: got_in_sv)
next
  case (ClearClipboard ck)
  then show ?thesis using h
    by (auto simp: handle_clear_def split: option.splits) (metis got_in_sv_clip prod.collapse)
next
  case (Copy i f)
  then show ?thesis using h answered_copy [OF l] by auto
next
  case (ExportRecovery m c p)
  then show ?thesis using h answered_export [OF l] by auto
qed (use h l in \<open>auto intro!: answered_answer answered_then_list\<close>)

lemma drive_unlocked_Nil [simp]: "drive_unlocked H W [] v = Some (None, v)"
  by (simp add: drive_unlocked_def)

lemma enter_session_Nil:
  "listening W \<Longrightarrow> \<exists>l v. enter_session H W f [] x c h = Some (Inr (WaitsUnlocked v)) \<and> got v = ch_received h @ [f l]"
  by (auto simp: enter_session_def split: prod.split)

lemma go_on_enter:
  assumes "listening W" and "go_on H W (enter_session H W f [] x c h) = Some w'"
  shows "\<exists>l. is_unlocked w' \<and> \<not> has_stopped w' \<and> received w' = ch_received h @ [f l]"
proof -
  obtain l v where "enter_session H W f [] x c h = Some (Inr (WaitsUnlocked v))" "got v = ch_received h @ [f l]"
    using enter_session_Nil [OF assms(1)] by blast
  then show ?thesis using assms(2) by (intro exI [of _ l]) auto
qed

lemma go_on_refuse:
  assumes "listening W" and "go_on H W (refuse_session W r [] s c h) = Some w'"
  shows "\<not> is_unlocked w' \<and> \<not> has_stopped w' \<and> received w' = ch_received h @ [r]"
  using assms by (auto simp: refuse_session_def)

text \<open>What one event does to a worker, as the shell sees it.\<close>

definition event_answered :: "event \<Rightarrow> ('d, 'c) worker \<Rightarrow> ('d, 'c) worker \<Rightarrow> response list \<Rightarrow> bool" where
  "event_answered e w w' rs \<longleftrightarrow> received w' = received w @ rs \<and>
     (has_stopped w' \<longleftrightarrow> e = ChannelClosed \<or> e = Arrived QuitWorker) \<and>
     (\<not> has_stopped w' \<longrightarrow> is_unlocked w' = foldl track (is_unlocked w) rs) \<and>
     (case e of
        ChannelClosed \<Rightarrow> rs = []
      | IdleSecond \<Rightarrow> rs = (if is_unlocked w \<and> \<not> is_unlocked w' then [LockedNow] else [])
      | Arrived r \<Rightarrow>
          (if silent (is_unlocked w) r then rs = []
           else \<exists>a. rs = [a] \<and> fits r a \<and>
             (\<not> is_unlocked w \<longrightarrow> a = LockedNow \<or> (\<exists>m k. r = CreateVault m k) \<or> (\<exists>m k. r = UnlockVault m k))))"

lemma locked_event_answered:
  assumes l: "listening W" and r: "run_worker H W [e] s c h = Some w'"
  shows "\<exists>rs. event_answered e (WaitsLocked s c h) w' rs"
proof (cases e)
  case (Arrived q)
  note u = r [unfolded run_worker_round Arrived]
  show ?thesis
  proof (cases q)
    case (CreateVault m k)
    obtain x t where x: "create_vault H m k totp_config_default (sh_prompter W) s = (x, t)" by fastforce
    show ?thesis
    proof (cases x)
      case (Inl err)
      then show ?thesis using u x CreateVault go_on_refuse [OF l, of H "CreateFailed (create_message err)" t c h w']
        by (auto simp: Arrived event_answered_def)
    next
      case (Inr z)
      then show ?thesis using u x CreateVault go_on_enter [OF l, of H "Created (snd z)" "(t, fst z)" c h w']
        by (cases z) (auto simp: Arrived event_answered_def)
    qed
  next
    case (UnlockVault m k)
    obtain x t where x: "unlock H m (trim k) (sh_prompter W) s = (x, t)" by fastforce
    show ?thesis
    proof (cases x)
      case (Inl err)
      then show ?thesis using u x UnlockVault go_on_refuse [OF l, of H "UnlockFailed (unlock_message err)" t c h w']
        by (auto simp: Arrived event_answered_def)
    next
      case (Inr z)
      then show ?thesis using u x UnlockVault go_on_enter [OF l, of H Unlocked "(t, z)" c h w']
        by (auto simp: Arrived event_answered_def)
    qed
  qed (use u l in \<open>auto simp: Arrived event_answered_def\<close>)
qed (use r in \<open>auto simp: run_worker_round event_answered_def\<close>)

lemma unlocked_event_answered:
  assumes l: "listening W" and r: "resume H W [e] (WaitsUnlocked v) = Some w'"
  shows "\<exists>rs. event_answered e (WaitsUnlocked v) w' rs"
proof (cases e)
  case (Arrived q)
  obtain x where x: "handle_unlocked H W q v = Some x"
    using r by (auto simp: Arrived go_on_def drive_unlocked_def bind_eq_Some_conv)
  obtain f z where fz: "x = (f, z)" by (cases x)
  have p: "if silent True q then got z = got v \<and> f = (if q = QuitWorker then Quit else Continue)
    else if q = LockSession then x = (Lock, v) else answered (fits q) v x"
    using handle_unlocked_protocol [OF l x] unfolding fz fst_conv snd_conv .
  have quit: "f = Quit \<longleftrightarrow> q = QuitWorker"
    using p fz by (auto simp: answered_def split: if_splits)
  have L: "fits q LockedNow" if "f = Lock" using that p fz by (cases q) (auto simp: answered_def)
  show ?thesis
  proof (cases f)
    case Continue
    then have w: "w' = WaitsUnlocked z" using r x fz by (simp add: Arrived drive_unlocked_def)
    then show ?thesis using p Continue quit fz
      by (cases "silent True q"; cases "q = LockSession") (auto simp: Arrived event_answered_def answered_def)
  next
    case Lock
    then have "\<exists>s c h. w' = WaitsLocked s c h \<and> ch_received h = got v @ [LockedNow]"
      using r x fz l p by (auto simp: Arrived drive_unlocked_def answered_def split: if_splits)
    moreover have "\<not> silent True q" using Lock p by (auto split: if_splits)
    ultimately show ?thesis using L [OF Lock] Lock quit by (auto simp: Arrived event_answered_def)
  next
    case Quit
    then have "\<exists>s c h. w' = Stopped s c h \<and> ch_received h = got v"
      using r x fz p quit by (auto simp: Arrived drive_unlocked_def)
    then show ?thesis using Quit quit by (auto simp: Arrived event_answered_def)
  qed
next
  case IdleSecond
  obtain b z where b: "in_sv (is_expired H) v = (b, z)" by fastforce
  then show ?thesis using r l got_in_sv [OF b]
    by (cases b) (auto simp: IdleSecond drive_unlocked_def event_answered_def)
next
  case ChannelClosed
  then show ?thesis using r by (auto simp: drive_unlocked_def event_answered_def)
qed

section \<open>Runs return\<close>

text \<open>Only the password generator can keep the worker busy forever.\<close>

lemma handle_unlocked_returns:
  "\<forall>n. r \<noteq> GeneratePassword n \<Longrightarrow> \<exists>x. handle_unlocked H W r v = Some x"
  by (cases r) auto

lemma unlocked_loop_returns:
  "\<forall>n. Arrived (GeneratePassword n) \<notin> set es \<Longrightarrow> \<exists>x. unlocked_loop H W es v = Some x"
proof (induction H W es v rule: unlocked_loop.induct)
  case (2 H W r es v)
  then obtain f z where h: "handle_unlocked H W r v = Some (f, z)"
    using handle_unlocked_returns [of r H W v] by fastforce
  then show ?case using 2 by (cases f) auto
next
  case (3 H W es v)
  obtain b z where b: "in_sv (is_expired H) v = (b, z)" by fastforce
  then show ?case using 3 by (cases b) auto
qed auto

lemma drive_unlocked_returns:
  assumes "\<forall>n. Arrived (GeneratePassword n) \<notin> set es"
  shows "\<exists>x. drive_unlocked H W es v = Some x"
proof -
  obtain out z where "unlocked_loop H W es v = Some (out, z)" using unlocked_loop_returns [OF assms] by fastforce
  then show ?thesis by (auto simp: drive_unlocked_def split: option.split flow.split)
qed

lemma enter_session_returns:
  assumes "\<forall>n. Arrived (GeneratePassword n) \<notin> set es"
  shows "\<exists>x. enter_session H W f es x' c h = Some x"
  using drive_unlocked_returns [OF assms] by (simp add: enter_session_def split: prod.split) fastforce

lemma locked_round_returns:
  assumes "\<forall>n. Arrived (GeneratePassword n) \<notin> set es"
  shows "\<exists>x. locked_round H W e es s c h = Some x"
proof (cases e)
  case (Arrived q)
  show ?thesis
  proof (cases q)
    case (CreateVault m k)
    then show ?thesis using enter_session_returns [OF assms, of H W]
      by (simp add: Arrived refuse_session_def split: prod.split sum.split)
  next
    case (UnlockVault m k)
    then show ?thesis using enter_session_returns [OF assms, of H W]
      by (simp add: Arrived refuse_session_def split: prod.split sum.split)
  qed (simp_all add: Arrived)
qed simp_all

lemma run_worker_returns:
  "\<forall>n. Arrived (GeneratePassword n) \<notin> set es \<Longrightarrow> \<exists>w. run_worker H W es s c h = Some w"
proof (induction "length es" arbitrary: es s c h rule: less_induct)
  case less
  show ?case
  proof (cases es)
    case (Cons e es')
    obtain y where y: "locked_round H W e es' s c h = Some y"
      using locked_round_returns [of es' H W e s c h] less.prems Cons by auto
    show ?thesis
    proof (cases y)
      case (Inl x)
      obtain rest s' c' h' where x: "x = (rest, s', c', h')" by (cases x)
      note l = locked_round_left [OF y [unfolded Inl x]]
      have "\<exists>w. run_worker H W rest s' c' h' = Some w"
        by (rule less.hyps) (use suffix_length_le [OF l] set_mono_suffix [OF l] less.prems Cons in auto)
      then show ?thesis using y by (simp add: Cons Inl x run_worker_round)
    qed (use y in \<open>simp add: Cons run_worker_round\<close>)
  qed simp
qed

end
