(* ===== verification/WorkerSessions.thy ===== *)
theory WorkerSessions
  imports WorkerProtocol SessionClaims
begin

text \<open>
  What the session actor does to the vault and to the clipboard: everything it does while it serves is
  a sequence of operations of the session, so the guarantees of a session carry over to whole runs of
  the worker; and the invariant of the receipt it keeps for the last copied secret.
\<close>

section \<open>Serving is operating the session\<close>

abbreviation pos :: "('d, 'c) serving \<Rightarrow> ('d app \<times> unlocked_app) \<times> 'c" where
  "pos v \<equiv> (sv_session v, sv_clip v)"

text \<open>The records a request brings; the clipboard a shell was given.\<close>

fun brings :: "(entry_record \<Rightarrow> bool) \<Rightarrow> request \<Rightarrow> bool" where
  "brings P (AddEntry l u p w n) = P \<lparr>er_username = u, er_password = p, er_url = w, er_notes = n\<rparr>"
| "brings P _ = True"

definition uses_clipboard :: "'c shell \<Rightarrow> 'c clipboard \<Rightarrow> bool" where
  "uses_clipboard W K \<longleftrightarrow> sh_clipboard W = None \<or> sh_clipboard W = Some K"

lemma in_sv_pos: "in_sv f v = (r, v') \<Longrightarrow> on_fst f (pos v) = (r, pos v') \<and> sv_live v' = sv_live v"
  by (auto simp: in_sv_def on_fst_def split: prod.splits)

lemma in_sv_clip_pos: "in_sv_clip f v = (r, v') \<Longrightarrow> f (pos v) = (r, pos v') \<and> sv_live v' = sv_live v"
  by (auto simp: in_sv_clip_def split: prod.splits)

lemma send_fields [simp]:
  "sv_session (send_or_lock W a v) = sv_session v" "sv_clip (send_or_lock W a v) = sv_clip v"
  "sv_live (send_or_lock W a v) = sv_live v"
  by (simp_all add: send_or_lock_def)

lemma on_op_error_fields [simp]:
  "sv_session (snd (on_op_error W e v)) = sv_session v" "sv_clip (snd (on_op_error W e v)) = sv_clip v"
  "sv_live (snd (on_op_error W e v)) = sv_live v"
  by (simp_all add: on_op_error_def)

lemma answer_fields [simp]:
  "sv_session (snd (answer W f x)) = sv_session (snd x)" "sv_clip (snd (answer W f x)) = sv_clip (snd x)"
  "sv_live (snd (answer W f x)) = sv_live (snd x)"
  by (cases x; cases "fst x"; simp add: answer_def)+

lemma handle_copy_calls:
  assumes "uses_clipboard W K"
  shows "(session_call H K admits honest)\<^sup>*\<^sup>* (pos v) (pos (snd (handle_copy H W i f v)))"
proof (cases "sh_clipboard W")
  case (Some K')
  then have K: "K' = K" using assms by (simp add: uses_clipboard_def)
  obtain r w where c: "in_sv_clip (copy_to_clipboard H K i f) v = (r, w)" by fastforce
  have "pos (snd (handle_copy H W i f v)) = pos w" using Some K c by (cases r) (simp_all add: handle_copy_def)
  moreover have "session_call H K admits honest (pos v) (pos w)"
    using in_sv_clip_pos [OF c] call_copy by blast
  ultimately show ?thesis by simp
qed (simp add: handle_copy_def)

lemma clear_calls:
  assumes "in_sv_clip (clear_clipboard_with H K ck fo) v = (out, w)"
  shows "(session_call H K admits honest)\<^sup>*\<^sup>* (pos v) (pos w)"
  using in_sv_clip_pos [OF assms] call_clear by blast

lemma wipe_calls:
  assumes "uses_clipboard W K"
  shows "(session_call H K admits honest)\<^sup>*\<^sup>* (pos v) (pos (wipe_clipboard_on_exit H W v))"
  using assms clear_calls [of H K _ "sh_fact_overwrite W" v _ "snd (in_sv_clip (clear_clipboard_with H K _ (sh_fact_overwrite W)) v)"]
  by (auto simp: wipe_clipboard_on_exit_def uses_clipboard_def split: option.split) (metis prod.collapse)

lemma handle_clear_calls:
  assumes "uses_clipboard W K"
  shows "(session_call H K admits honest)\<^sup>*\<^sup>* (pos v) (pos (snd (handle_clear H W ck v)))"
  using assms clear_calls [of H K ck "sh_fact_overwrite W" v _ "snd (in_sv_clip (clear_clipboard_with H K ck (sh_fact_overwrite W)) v)"]
  by (auto simp: handle_clear_def uses_clipboard_def split: option.split) (metis prod.collapse)

lemma in_sv_calls:
  assumes "in_sv f v = (r, w)" and "\<And>r y. on_fst f (pos v) = (r, y) \<Longrightarrow> session_call H K admits honest (pos v) y"
  shows "(session_call H K admits honest)\<^sup>*\<^sup>* (pos v) (pos w)"
  using assms(2) in_sv_pos [OF assms(1)] by blast

lemma list_calls: "(session_call H K admits honest)\<^sup>*\<^sup>* (pos v) (pos (snd (in_sv (list_entries H) v)))"
proof -
  obtain r w where w: "in_sv (list_entries H) v = (r, w)" by fastforce
  then show ?thesis using in_sv_calls [OF w call_list] by simp
qed

lemma then_list_calls:
  assumes "\<And>r y. on_fst f (pos v) = (r, y) \<Longrightarrow> session_call H K admits honest (pos v) y"
  shows "(session_call H K admits honest)\<^sup>*\<^sup>* (pos v) (pos (snd (then_list H W f v)))"
proof -
  obtain r w where w: "in_sv f v = (r, w)" by fastforce
  have c: "session_call H K admits honest (pos v) (pos w)" using assms in_sv_pos [OF w] by blast
  show ?thesis
  proof (cases r)
    case (Inl e)
    then have "pos (snd (then_list H W f v)) = pos w" using w by (simp add: then_list_def)
    then show ?thesis using c by simp
  next
    case (Inr u)
    then have "pos (snd (then_list H W f v)) = pos (snd (in_sv (list_entries H) w))" using w by (simp add: then_list_def)
    then show ?thesis using c list_calls [of H K admits honest w] by (simp add: converse_rtranclp_into_rtranclp)
  qed
qed

lemma handle_calls:
  assumes h: "handle_unlocked H W r v = Some x" and k: "uses_clipboard W K" and b: "brings admits r"
  shows "(session_call H K admits honest)\<^sup>*\<^sup>* (pos v) (pos (snd x))"
proof (cases r)
  case (Copy i f)
  then show ?thesis using h handle_copy_calls [OF k] by auto
next
  case (ClearClipboard ck)
  then show ?thesis using h handle_clear_calls [OF k] by auto
next
  case Refresh
  then show ?thesis using h list_calls [of H K admits honest v] by auto
next
  case (Reveal i f)
  obtain q w where w: "in_sv (with_revealed H i (\<lambda>r. select_field r f)) v = (q, w)" by fastforce
  then show ?thesis using h Reveal in_sv_calls [OF w call_reveal] by auto
next
  case (GeneratePassword n)
  then show ?thesis using h call_generate [of H _ "pos v" _ _ K admits honest] by (auto simp: bind_eq_Some_conv)
next
  case (AddEntry l u p w n)
  let ?rec = "\<lparr>er_username = u, er_password = p, er_url = w, er_notes = n\<rparr>"
  have a: "admits ?rec" using b AddEntry by simp
  have "(session_call H K admits honest)\<^sup>*\<^sup>* (pos v) (pos (snd (then_list H W (add_entry H l policy_default ?rec) v)))"
    by (rule then_list_calls, rule call_add [where admits = admits, OF a])
  then show ?thesis using h AddEntry by auto
next
  case (RemoveEntry i)
  have "(session_call H K admits honest)\<^sup>*\<^sup>* (pos v) (pos (snd (then_list H W (session_remove H i) v)))"
    by (rule then_list_calls, rule call_remove)
  then show ?thesis using h RemoveEntry by auto
next
  case (ExportRecovery m c p)
  obtain q w where w: "in_sv (export_recovery H m (trim c) p (sh_prompter W)) v = (q, w)" by fastforce
  have "pos (snd x) = pos w" using h ExportRecovery w by (cases q) (auto simp: handle_export_def)
  then show ?thesis using in_sv_calls [OF w call_export] by simp
next
  case (VerifyTotp c)
  obtain q w where w: "in_sv (verify_totp_code H (trim c)) v = (q, w)" by fastforce
  then show ?thesis using h VerifyTotp in_sv_calls [OF w call_verify] by auto
qed (use h in auto)

lemma loop_calls:
  assumes "unlocked_loop H W es v = Some (out, w)" and "uses_clipboard W K" and "\<forall>r. Arrived r \<in> set es \<longrightarrow> brings admits r"
  shows "(session_call H K admits honest)\<^sup>*\<^sup>* (pos v) (pos w)"
  using assms
proof (induction H W es v rule: unlocked_loop.induct)
  case (2 H W r es v)
  then obtain f z where h: "handle_unlocked H W r v = Some (f, z)" by (auto simp: bind_eq_Some_conv)
  have c: "(session_call H K admits honest)\<^sup>*\<^sup>* (pos v) (pos z)"
    using handle_calls [OF h 2(3)] 2(4) by simp
  have "(session_call H K admits honest)\<^sup>*\<^sup>* (pos z) (pos w)"
  proof (cases f)
    case Continue
    then show ?thesis using 2(1) [OF h refl Continue] 2(2-4) h by simp
  qed (use 2(2) h wipe_calls [OF 2(3)] in auto)
  with c show ?case by (rule rtranclp_trans)
next
  case (3 H W es v)
  obtain b z where b: "in_sv (is_expired H) v = (b, z)" by fastforce
  have c: "(session_call H K admits honest)\<^sup>*\<^sup>* (pos v) (pos z)" by (rule in_sv_calls [OF b call_expired])
  have "(session_call H K admits honest)\<^sup>*\<^sup>* (pos z) (pos w)"
    using 3 b wipe_calls [OF 3(3)] by (cases b) auto
  with c show ?case by (rule rtranclp_trans)
next
  case (4 H W es v)
  then show ?case using wipe_calls [OF 4(2)] by auto
qed auto

lemma drive_calls:
  assumes "drive_unlocked H W es v = Some (out, w)" and "uses_clipboard W K" and "\<forall>r. Arrived r \<in> set es \<longrightarrow> brings admits r"
  shows "(session_call H K admits honest)\<^sup>*\<^sup>* (pos v) (pos w)"
proof -
  obtain q z where z: "unlocked_loop H W es v = Some (q, z)" using assms(1) by (auto simp: drive_unlocked_def bind_eq_Some_conv)
  have "pos w = pos z"
    using assms(1) z by (cases q) (auto simp: drive_unlocked_def split: flow.splits)
  then show ?thesis using loop_calls [OF z assms(2,3)] by simp
qed

section \<open>Whole runs keep the vault\<close>

text \<open>A password refuted by a vault: no key it derives passes the probe.\<close>

definition refuted :: "('d, 'm) host_scheme \<Rightarrow> vault \<Rightarrow> secret_string \<Rightarrow> bool" where
  "refuted H v pw \<longleftrightarrow> (\<forall>k avail km. master_of H pw (vault_salt v) (kdf_params_of v) k avail = Inr km \<longrightarrow>
     verify_probe H v km \<noteq> Inr ())"

lemma refuted_door: "same_door H v v' \<Longrightarrow> refuted H v pw \<Longrightarrow> refuted H v' pw"
  by (simp add: refuted_def same_door_def same_lock_def)

text \<open>Events of a shell that keeps to one vault and password, mistyped passwords allowed.\<close>

fun peaceful :: "('d, 'm) host_scheme \<Rightarrow> secret_string \<Rightarrow> vault \<Rightarrow> event \<Rightarrow> bool" where
  "peaceful H pw v (Arrived (CreateVault m k)) = False"
| "peaceful H pw v (Arrived (UnlockVault m c)) = (m = pw \<or> refuted H v m)"
| "peaceful H pw v (Arrived r) = brings storable r"
| "peaceful H pw v _ = True"

fun app_of :: "('d, 'c) worker \<Rightarrow> 'd app" where
  "app_of (WaitsLocked s c h) = s"
| "app_of (WaitsUnlocked v) = fst (sv_session v)"
| "app_of (Stopped s c h) = s"

fun round_app :: "(event list \<times> 'd app \<times> 'c \<times> channel) + ('d, 'c) worker \<Rightarrow> 'd app" where
  "round_app (Inl (rest, s, c, h)) = s"
| "round_app (Inr w) = app_of w"

text \<open>The vault has moved on by operations of sessions, behind the same door.\<close>

definition evolved :: "(hsm_slot \<Rightarrow> wrapped_blob \<Rightarrow> bytes \<Rightarrow> 'd \<Rightarrow> bool) \<Rightarrow> ('d, 'm) host_scheme \<Rightarrow> secret_string \<Rightarrow>
    bytes \<Rightarrow> bytes \<Rightarrow> vault \<Rightarrow> 'd app \<Rightarrow> bool" where
  "evolved opens H pw km seed v s \<longleftrightarrow> (\<exists>v'. provisioned opens H pw km seed v' s \<and> tidy (store_view H km v') \<and> same_door H v v' \<and>
     store_step\<^sup>*\<^sup>* (pw, store_view H km v) (pw, store_view H km v'))"

lemma evolved_trans:
  assumes "same_door H u v" and "store_step\<^sup>*\<^sup>* (pw, store_view H km u) (pw, store_view H km v)" and "evolved opens H pw km seed v s"
  shows "evolved opens H pw km seed u s"
  using assms rtranclp_trans [OF assms(2)] same_door_trans [OF assms(1)] unfolding evolved_def by blast

lemma session_evolves:
  assumes e: "env_ok H" "uuid_ok H" and st: "slot_store (store H) opens willing fresh"
    and c: "(session_call H K storable (\<lambda>_ _. False))\<^sup>*\<^sup>* x y"
    and s: "in_session opens H pw v (fst x)" and t: "tidy (session_view H v (fst x))"
  shows "evolved opens H pw (k_master (snd (fst x))) (ua_totp_seed (snd (fst x))) v (fst (fst y))"
proof -
  obtain v' where "in_session opens H pw v' (fst y)" "tidy (session_view H v' (fst y))" "same_keys (fst x) (fst y)"
    "same_door H v v'" "store_step\<^sup>*\<^sup>* (pw, session_view H v (fst x)) (pw, session_view H v' (fst y))"
    using calls_simulate [OF e st c, of True pw v] s t by auto
  then show ?thesis unfolding evolved_def in_session_def by auto
qed

lemma leave_session_app: "round_app (leave_session (out, v)) = fst (sv_session v)"
  by (cases "(out, v)" rule: leave_session.cases) simp_all

lemma enter_session_evolves:
  assumes e: "env_ok H" "uuid_ok H" and st: "slot_store (store H) opens willing fresh"
    and s: "in_session opens H pw v x" and t: "tidy (session_view H v x)"
    and b: "\<forall>r. Arrived r \<in> set es \<longrightarrow> brings storable r"
    and r: "enter_session H W f es x c h = Some y"
  shows "evolved opens H pw (k_master (snd x)) (ua_totp_seed (snd x)) v (round_app y)"
proof -
  obtain K where K: "uses_clipboard W K" by (cases "sh_clipboard W") (auto simp: uses_clipboard_def)
  let ?call = "(session_call H K storable (\<lambda>_ _. False))\<^sup>*\<^sup>*"
  obtain l x1 where l: "list_entries H x = (l, x1)" by (cases "list_entries H x")
  have c1: "?call (x, c) (x1, c)"
    by (rule r_into_rtranclp, rule call_list) (simp add: on_fst_def l)
  obtain sent h1 where h: "ch_send W (f (case l of Inr l \<Rightarrow> l | Inl _ \<Rightarrow> [])) h = (sent, h1)"
    by (cases "ch_send W (f (case l of Inr l \<Rightarrow> l | Inl _ \<Rightarrow> [])) h")
  let ?v = "\<lparr>sv_session = x1, sv_clip = c, sv_live = None, sv_chan = h1\<rparr>"
  note a = r [unfolded enter_session_def l h prod.case]
  have "\<exists>z. ?call (x, c) z \<and> round_app y = fst (fst z)"
  proof (cases sent)
    case True
    then obtain out w where d: "drive_unlocked H W es ?v = Some (out, w)" "y = leave_session (out, w)"
      using a by (auto simp: map_option_eq_Some)
    have "?call (x1, c) (pos w)" using drive_calls [OF d(1) K b] by simp
    then show ?thesis using rtranclp_trans [OF c1] d(2) leave_session_app by fastforce
  next
    case False
    then show ?thesis using a c1 by (intro exI [of _ "(x1, c)"]) auto
  qed
  then obtain z where z: "?call (x, c) z" "round_app y = fst (fst z)" by blast
  show ?thesis using session_evolves [OF e st z(1)] s t z(2) by simp
qed

lemma unlock_evolves:
  assumes st: "slot_store (store H) opens willing fresh" and w: "willing p (a_device s)"
    and pr: "provisioned opens H pw km seed v s" and m: "m = pw \<or> refuted H v m"
    and u: "unlock H m code p s = (Inr ua, s')"
  shows "\<exists>v'. in_session opens H pw v' (s', ua) \<and> k_master ua = km \<and> ua_totp_seed ua = seed \<and> same_door H v v' \<and>
    session_view H v' (s', ua) = store_view H km v"
proof -
  obtain v0 k d1 d2 avail where f: "vault_on_disk H s = Inr v0"
    "unwrapped H VaultKey (k_hsm_wrap_blob v0) p (a_device s) = (Inr k, d1)"
    "unwrapped H TotpSeed (totp_seed_wrap_blob v0) p d1 = (Inr (ua_totp_seed ua), d2)"
    "master_of H m (vault_salt v0) (kdf_params_of v0) k avail = Inr (k_master ua)"
    "verify_probe H v0 (k_master ua) = Inr ()" "open_index H v0 (k_master ua) = Inr (ua_index ua)"
    using unlock_evidence [OF u] by blast
  have v0: "v0 = v" using stored_unique [OF _ f(1)] pr by (simp add: provisioned_def)
  have mp: "m = pw" using m f(4,5) by (auto simp: refuted_def v0)
  have K: "keyed opens H pw km v (a_device s)" and S: "seeded opens seed v (a_device s)" using pr by (simp_all add: provisioned_def)
  obtain k' d1' d2' avail' where g: "unwrapped H VaultKey (k_hsm_wrap_blob v) p (a_device s) = (Inr k', d1')"
    "master_of H pw (vault_salt v) (kdf_params_of v) k' avail' = Inr km"
    "unwrapped H TotpSeed (totp_seed_wrap_blob v) p d1' = (Inr seed, d2')"
    using keyed_unwraps [OF st K S w] by blast
  have kk: "k' = k" "d1' = d1" and sd: "ua_totp_seed ua = seed" using f(2,3) g by (auto simp: v0)
  have km: "k_master ua = km" using master_of_unique [OF f(4) [unfolded v0 mp] g(2) [unfolded kk]] .
  obtain c t where "provisioned opens H pw km seed (set_rate_limit c t v) s'"
    using unlock_keeps_provisioned [OF st pr u] by blast
  moreover have "same_door H v (set_rate_limit c t v)" for c t
    by (simp add: same_door_def same_lock_def set_rate_limit_def verify_probe_def)
  ultimately show ?thesis using km sd f(6) v0
    by (intro exI [of _ "set_rate_limit c t v"]) (simp add: in_session_def store_view_rate_limit)
qed

lemma evolved_frame:
  assumes "provisioned opens H pw km seed v s" and "tidy (store_view H km v)" and "same_door H u v"
    and "store_view H km v = store_view H km u"
  shows "evolved opens H pw km seed u s"
  using assms unfolding evolved_def by auto

lemma same_door_rate_limit [simp]: "same_door H v (set_rate_limit c t v)"
  by (simp add: same_door_def same_lock_def set_rate_limit_def verify_probe_def)

text \<open>Peaceful events stay so behind the same door.\<close>

lemma peaceful_door: "peaceful H pw v e \<Longrightarrow> same_door H v v' \<Longrightarrow> peaceful H pw v' e"
  by (cases "(H, pw, v, e)" rule: peaceful.cases) (auto dest: refuted_door)

lemma peaceful_brings: "\<forall>e\<in>set es. peaceful H pw v e \<Longrightarrow> \<forall>r. Arrived r \<in> set es \<longrightarrow> brings storable r"
proof (intro allI impI)
  fix r assume "\<forall>e\<in>set es. peaceful H pw v e" "Arrived r \<in> set es"
  then have "peaceful H pw v (Arrived r)" by blast
  then show "brings storable r" by (cases r) simp_all
qed

lemma refuse_session_app: "refuse_session W r es s c h = Some y \<Longrightarrow> round_app y = s"
  by (auto simp: refuse_session_def split: prod.splits if_splits)

lemma round_evolves:
  assumes e: "env_ok H" "uuid_ok H" and st: "slot_store (store H) opens willing fresh"
    and w: "\<forall>d. willing (sh_prompter W) d"
    and pr: "provisioned opens H pw km seed v s" and t: "tidy (store_view H km v)"
    and ok: "peaceful H pw v ev" "\<forall>e\<in>set es. peaceful H pw v e"
    and r: "locked_round H W ev es s c h = Some y"
  shows "evolved opens H pw km seed v (round_app y)"
proof (cases ev)
  case (Arrived q)
  have here: "evolved opens H pw km seed v s" by (rule evolved_frame [OF pr t]) simp_all
  show ?thesis
  proof (cases q)
    case (CreateVault m k)
    then show ?thesis using ok Arrived by simp
  next
    case (UnlockVault m code)
    obtain res s' where u: "unlock H m (trim code) (sh_prompter W) s = (res, s')" by fastforce
    have m: "m = pw \<or> refuted H v m" using ok Arrived UnlockVault by simp
    show ?thesis
    proof (cases res)
      case (Inl err)
      then have y: "round_app y = s'" using r u Arrived UnlockVault by (auto dest: refuse_session_app)
      obtain a b where p: "provisioned opens H pw km seed (set_rate_limit a b v) s'"
        using unlock_keeps_provisioned [OF st pr u] by blast
      show ?thesis unfolding y by (rule evolved_frame [OF p]) (use t in simp_all)
    next
      case (Inr ua)
      obtain v' where v': "in_session opens H pw v' (s', ua)" "k_master ua = km" "ua_totp_seed ua = seed"
        "same_door H v v'" "session_view H v' (s', ua) = store_view H km v"
        using unlock_evolves [OF st _ pr m u [unfolded Inr]] w by blast
      have en: "enter_session H W Unlocked es (s', ua) c h = Some y" using r u Inr Arrived UnlockVault by simp
      have "evolved opens H pw km seed v' (round_app y)"
        using enter_session_evolves [OF e st v'(1) _ peaceful_brings [OF ok(2)] en] t v' by simp
      then show ?thesis using evolved_trans [OF v'(4)] v' by simp
    qed
  qed (use r here Arrived in auto)
qed (use r evolved_frame [OF pr t] in auto)

lemma run_evolves:
  assumes e: "env_ok H" "uuid_ok H" and st: "slot_store (store H) opens willing fresh"
    and w: "\<forall>d. willing (sh_prompter W) d"
    and pr: "provisioned opens H pw km seed v s" and t: "tidy (store_view H km v)"
    and ok: "\<forall>e\<in>set es. peaceful H pw v e" and r: "run_worker H W es s c h = Some z"
  shows "evolved opens H pw km seed v (app_of z)"
  using pr t ok r
proof (induction "length es" arbitrary: es v s c h rule: less_induct)
  case less
  show ?case
  proof (cases es)
    case Nil
    then show ?thesis using less.prems evolved_frame [OF less.prems(1,2)] by auto
  next
    case (Cons ev es')
    have p: "peaceful H pw v ev" "\<forall>e\<in>set es'. peaceful H pw v e" using less.prems(3) Cons by simp_all
    obtain y where y: "locked_round H W ev es' s c h = Some y" "go_on H W (Some y) = Some z"
      using less.prems(4) by (auto simp: Cons run_worker_round go_on_def bind_eq_Some_conv)
    have ev: "evolved opens H pw km seed v (round_app y)" by (rule round_evolves [OF e st w less.prems(1,2) p y(1)])
    show ?thesis
    proof (cases y)
      case (Inr x)
      then show ?thesis using ev y(2) by simp
    next
      case (Inl x)
      obtain rest s' c' h' where x: "x = (rest, s', c', h')" by (cases x)
      obtain v' where v': "provisioned opens H pw km seed v' s'" "tidy (store_view H km v')" "same_door H v v'"
        "store_step\<^sup>*\<^sup>* (pw, store_view H km v) (pw, store_view H km v')"
        using ev unfolding evolved_def Inl x round_app.simps by blast
      have l: "length rest < length es" using suffix_length_le [OF locked_round_left [OF y(1) [unfolded Inl x]]] Cons by simp
      have sub: "set rest \<subseteq> set es'" by (rule set_mono_suffix [OF locked_round_left [OF y(1) [unfolded Inl x]]])
      have ok': "\<forall>e\<in>set rest. peaceful H pw v' e" using p(2) sub peaceful_door [OF _ v'(3)] by blast
      have "evolved opens H pw km seed v' (app_of z)"
        by (rule less.hyps [OF l v'(1,2) ok']) (use y(2) Inl x in simp)
      then show ?thesis by (rule evolved_trans [OF v'(3,4)])
    qed
  qed
qed

end
