(* ===== verification/WorkerClipboard.thy ===== *)
theory WorkerClipboard
  imports WorkerSessions
begin

text \<open>
  The copied secret under the session actor.  While the worker serves, the receipt it keeps tells what
  is on the clipboard, as long as every clear request that arrives is for the secret copied last; so
  the wipe on leaving finds it.  A late clear request for an earlier copy breaks this.
\<close>

section \<open>Requests that do not concern the clipboard\<close>

lemma in_sv_same: "sv_clip (snd (in_sv f v)) = sv_clip v" "sv_live (snd (in_sv f v)) = sv_live v"
  by (simp_all add: in_sv_def split: prod.split)

lemma in_sv_sameD: "in_sv f v = (r, w) \<Longrightarrow> sv_clip w = sv_clip v \<and> sv_live w = sv_live v"
  using in_sv_same [of f v] by simp

lemma then_list_same:
  "sv_clip (snd (then_list H W f v)) = sv_clip v" "sv_live (snd (then_list H W f v)) = sv_live v"
proof -
  obtain r w where w: "in_sv f v = (r, w)" by fastforce
  have s: "sv_clip w = sv_clip v" "sv_live w = sv_live v" using in_sv_same [of f v] w by simp_all
  show "sv_clip (snd (then_list H W f v)) = sv_clip v" "sv_live (snd (then_list H W f v)) = sv_live v"
    using w s in_sv_same [of "list_entries H" w] by (cases r; simp add: then_list_def)+
qed

lemma handle_export_same:
  "sv_clip (snd (handle_export H W m c p v)) = sv_clip v" "sv_live (snd (handle_export H W m c p v)) = sv_live v"
proof -
  let ?f = "export_recovery H m (trim c) p (sh_prompter W)"
  obtain r w where w: "in_sv ?f v = (r, w)" by fastforce
  have s: "sv_clip w = sv_clip v" "sv_live w = sv_live v" using in_sv_same [of ?f v] w by simp_all
  show "sv_clip (snd (handle_export H W m c p v)) = sv_clip v" "sv_live (snd (handle_export H W m c p v)) = sv_live v"
    using w s by (cases r; simp add: handle_export_def)+
qed

fun clipboard_request :: "request \<Rightarrow> bool" where
  "clipboard_request (Copy _ _) = True"
| "clipboard_request (ClearClipboard _) = True"
| "clipboard_request _ = False"

lemma handle_same:
  assumes "handle_unlocked H W r v = Some x" and "\<not> clipboard_request r"
  shows "sv_clip (snd x) = sv_clip v \<and> sv_live (snd x) = sv_live v"
  using assms by (cases r) (auto simp: in_sv_same then_list_same handle_export_same bind_eq_Some_conv dest: in_sv_sameD split: prod.splits)

lemma clear_with_impl:
  assumes "in_sv_clip (clear_clipboard_with H K ck fo) v = (out, w)"
  obtains g g' where "clear_clipboard_impl H K ck fo (g, sv_clip v) = (out, g', sv_clip w)"
  using assms by (auto simp: in_sv_clip_def clear_clipboard_with_def split: prod.splits)

lemma copy_writes:
  assumes "in_sv_clip (copy_to_clipboard H K i f) v = (r, w)"
  shows "(\<exists>t q c. cb_write K t (sv_clip v) = (q, sv_clip w) \<and> (\<forall>ck. r = Inr ck \<longrightarrow> q = Inr ck) \<and> (is_ok q \<longrightarrow> is_ok r)) \<or>
    (sv_clip w = sv_clip v \<and> \<not> is_ok r)"
proof -
  have c: "copy_to_clipboard H K i f (pos v) = (r, pos w)" using in_sv_clip_pos [OF assms] by simp
  obtain d x where d: "session_decrypt H i (sv_session v) = (d, x)" by (cases "session_decrypt H i (sv_session v)") simp
  obtain z where z: "clamp_session H x = ((), z)" by (cases "clamp_session H x") simp
  show ?thesis
  proof (cases d)
    case (Inl e)
    then show ?thesis using c d by (auto simp: copy_to_clipboard_def on_fst_def)
  next
    case (Inr rec)
    obtain q c' where q: "cb_write K (select_field rec f) (sv_clip v) = (q, c')" by fastforce
    have "sv_clip w = c' \<and> (\<forall>ck. r = Inr ck \<longrightarrow> q = Inr ck) \<and> (is_ok q \<longrightarrow> is_ok r)"
      using c d z Inr q
      by (cases q) (auto simp: copy_to_clipboard_def on_fst_def on_snd_def st_then_def st_do_def st_lift_def)
    then show ?thesis using q by blast
  qed
qed

section \<open>The invariant of the receipt\<close>

text \<open>Without a live receipt the clipboard holds \<open>t0\<close> or a fact; with one, the copied text it is for.\<close>

definition tracked :: "('c \<Rightarrow> ustring option) \<Rightarrow> (ustring \<Rightarrow> bytes) \<Rightarrow> ustring option \<Rightarrow> ('d, 'c) serving \<Rightarrow> bool" where
  "tracked content dig t0 v \<longleftrightarrow> (case sv_live v of
       None \<Rightarrow> content (sv_clip v) = t0 \<or> (\<exists>f\<in>set FACTS. content (sv_clip v) = Some f)
     | Some ck \<Rightarrow> \<exists>t. content (sv_clip v) = Some t \<and> ck_digest ck = dig t)"

lemma tracked_same:
  "sv_clip w = sv_clip v \<Longrightarrow> sv_live w = sv_live v \<Longrightarrow> tracked content dig t0 w = tracked content dig t0 v"
  by (simp add: tracked_def split: option.split)

text \<open>The clear requests that arrive, along a run, are for the last copy that is still live.\<close>

definition timely :: "('d, 'c) serving \<Rightarrow> request \<Rightarrow> bool" where
  "timely v r \<longleftrightarrow> (\<forall>ck l. r = ClearClipboard ck \<longrightarrow> sv_live v = Some l \<longrightarrow> ck_digest ck = ck_digest l)"

fun in_time :: "('d, 'm) host_scheme \<Rightarrow> 'c shell \<Rightarrow> event list \<Rightarrow> ('d, 'c) serving \<Rightarrow> bool" where
  "in_time H W [] v = True"
| "in_time H W (Arrived r # es) v =
     (timely v r \<and> (case handle_unlocked H W r v of Some (Continue, v') \<Rightarrow> in_time H W es v' | _ \<Rightarrow> True))"
| "in_time H W (IdleSecond # es) v = (case in_sv (is_expired H) v of (b, v') \<Rightarrow> b \<or> in_time H W es v')"
| "in_time H W (ChannelClosed # es) v = True"

lemma in_time_without_clear: "\<forall>ck. Arrived (ClearClipboard ck) \<notin> set es \<Longrightarrow> in_time H W es v"
  by (induction H W es v rule: in_time.induct)
    (auto simp: timely_def split: option.split prod.split flow.split)

context clipboard_up
begin

lemma wipe_tracked:
  assumes "sh_clipboard W = Some K" and "sh_fact_overwrite W" and "tracked content dig t0 v"
  shows "content (sv_clip (wipe_clipboard_on_exit H W v)) = t0 \<or>
    (\<exists>f\<in>set FACTS. content (sv_clip (wipe_clipboard_on_exit H W v)) = Some f)"
proof (cases "sv_live v")
  case None
  then show ?thesis using assms by (simp add: wipe_clipboard_on_exit_def tracked_def)
next
  case (Some ck)
  obtain out w where c: "in_sv_clip (clear_clipboard_with H K ck True) v = (out, w)" by fastforce
  obtain g g' where i: "clear_clipboard_impl H K ck True (g, sv_clip v) = (out, g', sv_clip w)" by (rule clear_with_impl [OF c])
  obtain t where t: "content (sv_clip v) = Some t" "ck_digest ck = dig t" using assms(3) Some by (auto simp: tracked_def)
  show ?thesis using clear_own [OF i t] assms Some c by (simp add: wipe_clipboard_on_exit_def)
qed

lemma clear_tracked:
  assumes "sh_clipboard W = Some K" and "sh_fact_overwrite W" and "tracked content dig t0 v" and "timely v (ClearClipboard ck)"
  shows "tracked content dig t0 (snd (handle_clear H W ck v))"
proof -
  obtain out w where c: "in_sv_clip (clear_clipboard_with H K ck True) v = (out, w)" by fastforce
  obtain g g' where i: "clear_clipboard_impl H K ck True (g, sv_clip v) = (out, g', sv_clip w)" by (rule clear_with_impl [OF c])
  have h: "snd (handle_clear H W ck v) = w\<lparr>sv_live := None\<rparr>" using assms c by (simp add: handle_clear_def)
  show ?thesis
  proof (cases "sv_live v")
    case None
    then show ?thesis using clear_any [OF i] assms(3) by (auto simp: h tracked_def)
  next
    case (Some l)
    then obtain t where "content (sv_clip v) = Some t" "ck_digest ck = dig t"
      using assms(3,4) by (auto simp: tracked_def timely_def)
    then show ?thesis using clear_own [OF i] by (simp add: h tracked_def)
  qed
qed

lemma copy_tracked:
  assumes "sh_clipboard W = Some K" and "tracked content dig t0 v"
  shows "tracked content dig t0 (snd (handle_copy H W i f v))"
proof -
  obtain r w where c: "in_sv_clip (copy_to_clipboard H K i f) v = (r, w)" by fastforce
  have lv: "sv_live w = sv_live v" using in_sv_clip_pos [OF c] by simp
  show ?thesis
  proof (cases r)
    case (Inl e)
    then have "sv_clip w = sv_clip v" using copy_writes [OF c] write_up by (metis is_ok_simps(1) is_ok_simps(2) prod.inject)
    then have "tracked content dig t0 (snd (on_op_error W e w))" using assms(2) tracked_same [of "snd (on_op_error W e w)" v] lv by simp
    then show ?thesis using assms(1) c Inl by (simp add: handle_copy_def)
  next
    case (Inr ck)
    then obtain t where "cb_write K t (sv_clip v) = (Inr ck, sv_clip w)" using copy_writes [OF c] by (auto simp: is_ok_iff)
    then show ?thesis using write_law assms(1) c Inr by (simp add: handle_copy_def tracked_def)
  qed
qed

lemma handle_tracked:
  assumes "sh_clipboard W = Some K" and "sh_fact_overwrite W" and "tracked content dig t0 v" and "timely v r"
    and "handle_unlocked H W r v = Some (f, v')"
  shows "tracked content dig t0 v'"
proof (cases "clipboard_request r")
  case False
  then show ?thesis using handle_same [OF assms(5)] assms(3) tracked_same [of v' v] by simp
next
  case True
  then show ?thesis
  proof (cases r)
    case (Copy i fd)
    then have "snd (handle_copy H W i fd v) = v'" using assms(5) by simp
    then show ?thesis using copy_tracked [OF assms(1,3)] by blast
  next
    case (ClearClipboard ck)
    then have "snd (handle_clear H W ck v) = v'" using assms(5) by simp
    then show ?thesis using clear_tracked [OF assms(1-3)] assms(4) ClearClipboard by blast
  qed simp_all
qed

lemma loop_tracked:
  assumes "unlocked_loop H W es v = Some (out, w)" and "sh_clipboard W = Some K" and "sh_fact_overwrite W"
    and "tracked content dig t0 v" and "in_time H W es v"
  shows "if out = None then tracked content dig t0 w
    else content (sv_clip w) = t0 \<or> (\<exists>f\<in>set FACTS. content (sv_clip w) = Some f)"
  using assms
proof (induction H W es v rule: unlocked_loop.induct)
  case (2 H W r es v)
  obtain f z where h: "handle_unlocked H W r v = Some (f, z)" using 2(2) by (auto simp: bind_eq_Some_conv)
  have tr: "tracked content dig t0 z" by (rule handle_tracked [OF 2(3-5) _ h]) (use 2(6) in simp)
  show ?case
  proof (cases f)
    case Continue
    then show ?thesis using 2(1) [OF h refl Continue] 2(2-6) h tr by simp
  qed (use 2(2) h wipe_tracked [OF 2(3,4) tr] in auto)
next
  case (3 H W es v)
  obtain b z where b: "in_sv (is_expired H) v = (b, z)" by fastforce
  have s: "sv_clip z = sv_clip v" "sv_live z = sv_live v" using in_sv_same [of "is_expired H" v] b by simp_all
  have tr: "tracked content dig t0 z" using 3(5) tracked_same [OF s] by simp
  show ?case using 3(1) [OF b [symmetric] _] 3(2-6) b tr wipe_tracked [OF 3(3,4) tr] by (cases b) auto
next
  case (4 H W es v)
  then show ?case using wipe_tracked [OF 4(2-4)] by auto
qed simp

end

section \<open>Where the receipt is lost or the wipe does nothing\<close>

context clipboard_laws
begin

lemma clear_foreign:
  assumes "clear_clipboard_impl C K ck fo (g, c) = (out, g', c')" and "map_option dig (content c) \<noteq> Some (ck_digest ck)"
  shows "content c' = content c"
proof -
  obtain r c1 where r: "cb_read_digest K c = (r, c1)" by fastforce
  note keep = read_keeps [OF r]
  show ?thesis
  proof (cases r)
    case (Inl e)
    then show ?thesis using assms(1) r keep by (simp add: clear_clipboard_impl_def)
  next
    case (Inr d)
    then have "d \<noteq> Some (ck_digest ck)" using read_law [OF r [unfolded Inr]] assms(2) by simp
    then show ?thesis using assms(1) r keep Inr by (auto simp: clear_clipboard_impl_def ct_eq_iff split: option.splits)
  qed
qed

lemma clear_without_overwrite:
  assumes "clear_clipboard_impl C K ck False (g, c) = (out, g', c')"
  shows "content c' = content c"
proof -
  obtain r c1 where r: "cb_read_digest K c = (r, c1)" by fastforce
  show ?thesis using assms r read_keeps [OF r]
    by (cases r) (auto simp: clear_clipboard_impl_def split: option.splits if_splits)
qed

lemma handle_clear_foreign:
  assumes "sh_clipboard W = Some K" and "map_option dig (content (sv_clip v)) \<noteq> Some (ck_digest ck)"
  shows "content (sv_clip (snd (handle_clear H W ck v))) = content (sv_clip v)"
proof -
  obtain out w where c: "in_sv_clip (clear_clipboard_with H K ck (sh_fact_overwrite W)) v = (out, w)" by fastforce
  obtain g g' where i: "clear_clipboard_impl H K ck (sh_fact_overwrite W) (g, sv_clip v) = (out, g', sv_clip w)"
    by (rule clear_with_impl [OF c])
  show ?thesis using clear_foreign [OF i assms(2)] assms(1) c by (simp add: handle_clear_def)
qed

lemma wipe_without_overwrite:
  assumes "sh_clipboard W = Some K" and "\<not> sh_fact_overwrite W"
  shows "content (sv_clip (wipe_clipboard_on_exit H W v)) = content (sv_clip v)"
proof (cases "sv_live v")
  case (Some ck)
  obtain out w where c: "in_sv_clip (clear_clipboard_with H K ck False) v = (out, w)" by fastforce
  obtain g g' where i: "clear_clipboard_impl H K ck False (g, sv_clip v) = (out, g', sv_clip w)" by (rule clear_with_impl [OF c])
  show ?thesis using clear_without_overwrite [OF i] assms Some c by (simp add: wipe_clipboard_on_exit_def)
qed (simp add: wipe_clipboard_on_exit_def)

lemma handle_without_overwrite:
  assumes "sh_clipboard W = Some K" and "\<not> sh_fact_overwrite W" and "\<forall>i f. r \<noteq> Copy i f"
    and h: "handle_unlocked H W r v = Some x"
  shows "content (sv_clip (snd x)) = content (sv_clip v)"
proof (cases r)
  case (ClearClipboard ck)
  obtain out w where c: "in_sv_clip (clear_clipboard_with H K ck False) v = (out, w)" by fastforce
  obtain g g' where i: "clear_clipboard_impl H K ck False (g, sv_clip v) = (out, g', sv_clip w)" by (rule clear_with_impl [OF c])
  show ?thesis using clear_without_overwrite [OF i] assms c ClearClipboard by (auto simp: handle_clear_def)
next
  case (Copy i f)
  then show ?thesis using assms(3) by simp
qed (use handle_same [OF h] in auto)

lemma loop_without_overwrite:
  assumes "unlocked_loop H W es v = Some (out, w)" and "sh_clipboard W = Some K" and "\<not> sh_fact_overwrite W"
    and "\<forall>i f. Arrived (Copy i f) \<notin> set es"
  shows "content (sv_clip w) = content (sv_clip v)"
  using assms
proof (induction H W es v rule: unlocked_loop.induct)
  case (2 H W r es v)
  obtain f z where h: "handle_unlocked H W r v = Some (f, z)" using 2(2) by (auto simp: bind_eq_Some_conv)
  have z: "content (sv_clip z) = content (sv_clip v)" using handle_without_overwrite [OF 2(3,4) _ h] 2(5) by auto
  show ?case
  proof (cases f)
    case Continue
    then show ?thesis using 2(1) [OF h refl Continue] 2(2-5) h z by simp
  qed (use 2(2) h z wipe_without_overwrite [OF 2(3,4), of H z] in auto)
next
  case (3 H W es v)
  obtain b z where b: "in_sv (is_expired H) v = (b, z)" by fastforce
  have s: "sv_clip z = sv_clip v" using in_sv_sameD [OF b] by simp
  show ?case using 3(1) [OF b [symmetric]] 3(2-5) b s wipe_without_overwrite [OF 3(3,4), of H z] by (cases b) auto
next
  case (4 H W es v)
  then show ?case using wipe_without_overwrite [OF 4(2,3), of H v] by auto
qed simp

end

end
