(* ===== verification/WorkerGuarantees.thy ===== *)
theory WorkerGuarantees
  imports WorkerClipboard SessionGuarantees
begin

text \<open>
  The properties of the session actor and their witnesses: the request and response protocol, what
  whole runs do to the vault, and what becomes of a copied secret when a session ends.
\<close>

section \<open>Properties\<close>

text \<open>C24. Requests and responses pair up.  While the shell listens, a waiting worker answers each event
  it is given as follows: a request is answered by exactly one response of its kind (in the locked
  state anything but a create or unlock by \<open>Locked\<close>), a clear request, a quit and a stray create or
  unlock by none, and an idle second by one \<open>Locked\<close> exactly when it ends the session; the worker
  stops on quit and disconnect only, and the responses tell the shell whether a session is open.\<close>

theorem one_answer_each:
  assumes "listening W" and "resume H W [e] w = Some w'" and "\<not> has_stopped w"
  shows "\<exists>rs. event_answered e w w' rs"
proof (cases w)
  case (WaitsLocked s c h)
  then show ?thesis using locked_event_answered [OF assms(1)] assms(2) by simp
next
  case (WaitsUnlocked v)
  then show ?thesis using unlocked_event_answered [OF assms(1)] assms(2) by simp
next
  case (Stopped s c h)
  then show ?thesis using assms(3) by simp
qed


text \<open>C35. No copied secret outlives its session.  With a working clipboard and overwriting enabled,
  when the worker leaves a session (lock, quit, expiry, disconnect, or an operation that finds the
  session expired) the clipboard holds what it held before the session or one of the facts, provided
  every clear request that arrived was for the secret copied last.\<close>

theorem no_secret_outlives_session:
  assumes "arboard_ok A text_on" and "arboard_up A" and "sh_clipboard W = Some (system_clipboard_ops A)"
    and "sh_fact_overwrite W" and "sv_live v = None" and "in_time H W es v"
    and "unlocked_loop H W es v = Some (Some (flow, rest), v')"
  shows "text_on (sc_os (sv_clip v')) = text_on (sc_os (sv_clip v)) \<or>
    (\<exists>f\<in>set FACTS. text_on (sc_os (sv_clip v')) = Some f)"
proof -
  let ?c = "\<lambda>c. text_on (sc_os c)"
  have "tracked ?c (text_digest A) (text_on (sc_os (sv_clip v))) v" using assms(5) by (simp add: tracked_def)
  then show ?thesis
    using clipboard_up.loop_tracked [OF system_clipboard_up [OF assms(1,2)] assms(7,3,4) _ assms(6)] by simp
qed

text \<open>C36. A late clear request strands a secret.  When the clear request of an earlier copy arrives
  while a newer secret is on the clipboard, the worker forgets the newer receipt: the session then
  ends with that secret still on the clipboard, and the clear request scheduled for it is dropped.\<close>

theorem stale_clear_strands_secret:
  assumes "arboard_ok A text_on" and "sh_clipboard W = Some (system_clipboard_ops A)"
    and "text_on (sc_os (sv_clip v)) = Some t" and "ck_digest old \<noteq> text_digest A t"
    and "e \<in> {Arrived LockSession, Arrived QuitWorker, IdleSecond, ChannelClosed}"
    and "unlocked_loop H W [Arrived (ClearClipboard old), e] v = Some (out, v')"
  shows "text_on (sc_os (sv_clip v')) = Some t \<and> sv_live v' = None \<and>
    run_worker H W [Arrived (ClearClipboard ck)] s (sv_clip v') h = Some (WaitsLocked s (sv_clip v') h)"
proof -
  let ?z = "snd (handle_clear H W old v)"
  have "text_on (sc_os (sv_clip ?z)) = Some t"
    using clipboard_laws.handle_clear_foreign [OF system_clipboard_laws [OF assms(1)] assms(2), of v old H] assms(3,4) by simp
  moreover have "sv_live ?z = None" by (simp add: handle_clear_def)
  moreover have "fst (handle_clear H W old v) = Continue" by (simp add: handle_clear_def)
  ultimately show ?thesis
    using assms(5,6) in_sv_same [of "is_expired H" ?z]
    by (cases "handle_clear H W old v") (auto simp: wipe_clipboard_on_exit_def run_worker_round split: prod.splits bool.splits)
qed

text \<open>With overwriting disabled nothing is ever cleared: no clear request and no end of the session
  changes the text on the clipboard, so a copied secret stays.\<close>

lemma overwrite_off_never_clears:
  assumes "arboard_ok A text_on" and "sh_clipboard W = Some (system_clipboard_ops A)" and "\<not> sh_fact_overwrite W"
    and "\<forall>i f. Arrived (Copy i f) \<notin> set es" and "unlocked_loop H W es v = Some (out, v')"
  shows "text_on (sc_os (sv_clip v')) = text_on (sc_os (sv_clip v))"
  by (rule clipboard_laws.loop_without_overwrite [OF system_clipboard_laws [OF assms(1)] assms(5,2,3,4)])

section \<open>Witnesses\<close>

definition demo_shell :: "bool \<Rightarrow> ustring option system_clipboard shell" where
  "demo_shell fo = \<lparr>sh_clipboard = Some (system_clipboard_ops toy_arboard), sh_fact_overwrite = fo,
     sh_prompter = demo_prompter, sh_listening = (\<lambda>_. True)\<rparr>"

lemma demo_shell_simps [simp]:
  "sh_clipboard (demo_shell fo) = Some (system_clipboard_ops toy_arboard)" "sh_fact_overwrite (demo_shell fo) = fo"
  "sh_prompter (demo_shell fo) = demo_prompter" "listening (demo_shell fo)"
  by (simp_all add: demo_shell_def listening_def)

definition no_responses :: channel where "no_responses = \<lparr>ch_received = [], ch_sends = 0\<rparr>"

lemma one_answer_each_witness:
  "\<exists>w' uri. resume demo_host (demo_shell True) [Arrived (CreateVault [] KDF_LOW)]
       (WaitsLocked demo_app (system_clipboard_new None) no_responses) = Some w' \<and>
     is_unlocked w' \<and> received w' = [Created uri []]"
proof -
  let ?W = "demo_shell True" and ?w = "WaitsLocked demo_app (system_clipboard_new None) no_responses"
  obtain ua uri s0 v where c: "create_vault demo_host [] KDF_LOW totp_config_default demo_prompter demo_app = (Inr (ua, uri), s0)"
    and s: "session_live demo_host (s0, ua)" "ua_index ua = []"
    by (rule demo_session) blast
  obtain w' where w: "resume demo_host ?W [Arrived (CreateVault [] KDF_LOW)] ?w = Some w'"
    using c enter_session_Nil [of ?W demo_host "Created uri" "(s0, ua)" "system_clipboard_new None" no_responses]
    by (auto simp: run_worker_round)
  obtain rs where rs: "event_answered (Arrived (CreateVault [] KDF_LOW)) ?w w' rs"
    using one_answer_each [OF demo_shell_simps(4) w] by auto
  have r: "received w' = [Created uri []]"
    using w c s ensure_live [OF s(1)]
    by (auto simp: run_worker_round enter_session_def list_entries_def st_then_def with_session_def st_lift_def no_responses_def)
  have "is_unlocked w'" using rs r by (auto simp: event_answered_def no_responses_def)
  then show ?thesis using w r by blast
qed


text \<open>Copying in the demonstration session.\<close>

lemma demo_copy:
  assumes "in_session demo_opens demo_host pw v x" and "session_live demo_host x" and "length (vault_to_bytes v) \<le> MAX_VAULT_BYTES"
    and "decrypt_entry demo_host v (k_master (snd x)) i = Inr r"
  obtains y ck c1 where "copy_to_clipboard demo_host (system_clipboard_ops toy_arboard) i f (x, c) = (Inr ck, y, c1)"
    "sc_os c1 = Some (select_field r f)" "ck_digest ck = text_digest toy_arboard (select_field r f)"
    "in_session demo_opens demo_host pw v y" "session_live demo_host y" "k_master (snd y) = k_master (snd x)"
proof -
  let ?K = "system_clipboard_ops toy_arboard"
  obtain x1 where sd: "session_decrypt demo_host i x = (Inr r, x1)" "a_fs (fst x1) = a_fs (fst x)" "snd x1 = snd x" "a_path (fst x1) = a_path (fst x)"
    using decrypt_live [OF assms(2,1,3,4)] by blast
  obtain ck c1 where w: "cb_write ?K (select_field r f) c = (Inr ck, c1)"
    using clipboard_up.write_up [OF system_clipboard_up [OF toy_arboard_ok toy_arboard_up]] by blast
  obtain y where cl: "clamp_session demo_host x1 = ((), y)" by (cases "clamp_session demo_host x1") simp
  have cp: "copy_to_clipboard demo_host ?K i f (x, c) = (Inr ck, y, c1)"
    using sd(1) w cl by (simp add: copy_to_clipboard_def on_fst_def on_snd_def st_then_def st_do_def st_lift_def)
  note wl = clipboard_laws.write_law [OF system_clipboard_laws [OF toy_arboard_ok] w]
  have u: "undisturbed demo_opens x y" using undisturbed_copy [OF cp] by simp
  have "session_live demo_host y"
    using cl assms(2) sd(2-4)
    by (auto simp: session_live_def clamp_session_def session_now_def clock_now_def on_fst_def on_snd_def set_session_def
        sat_add64_def POST_COPY_SECS_def no_temps_def min_def)
  moreover have "k_master (snd y) = k_master (snd x)" using u by (simp add: undisturbed_def)
  ultimately show thesis using that [OF cp] wl in_session_undisturbed [OF assms(1) u] by simp
qed

text \<open>A session with one entry, being served.\<close>

definition serve :: "'d app \<times> unlocked_app \<Rightarrow> 'c \<Rightarrow> clipboard_cookie option \<Rightarrow> channel \<Rightarrow> ('d, 'c) serving" where
  "serve x c live h = \<lparr>sv_session = x, sv_clip = c, sv_live = live, sv_chan = h\<rparr>"

lemma serve_simps [simp]:
  "sv_session (serve x c l h) = x" "sv_clip (serve x c l h) = c" "sv_live (serve x c l h) = l" "sv_chan (serve x c l h) = h"
  by (simp_all add: serve_def)

lemma serve_copy:
  assumes "copy_to_clipboard H K i f (x, c) = (Inr ck, y, c1)" and "sh_clipboard W = Some K"
  shows "unlocked_loop H W (Arrived (Copy i f) # es) (serve x c l h) =
    unlocked_loop H W es (serve y c1 (Some ck) (snd (ch_send W (Copied ck) h)))"
  using assms by (simp add: handle_copy_def in_sv_clip_def send_or_lock_def serve_def)

lemma demo_entry_served:
  obtains x r v where "in_session demo_opens demo_host [] v x" "session_live demo_host x" "length (vault_to_bytes v) \<le> MAX_VAULT_BYTES"
    "decrypt_entry demo_host v (k_master (snd x)) demo_id = Inr demo_record"
proof -
  obtain y v where s: "in_session demo_opens demo_host [] v y"
    "session_view demo_host v y = [demo_id \<mapsto> (ustr ''mail'', policy_default, demo_record)]"
    "session_live demo_host y" "length (vault_to_bytes v) \<le> MAX_VAULT_BYTES"
    by (rule demo_entry_session) blast
  have "session_view demo_host v y demo_id = Some (ustr ''mail'', policy_default, demo_record)" using s(2) by simp
  then have "decrypt_entry demo_host v (k_master (snd y)) demo_id = Inr demo_record"
    by (auto simp: store_view_def split: sum.splits option.splits)
  then show thesis using that [OF s(1,3,4)] by blast
qed

lemma demo_fields: "er_username demo_record = ustr ''alice''" "er_password demo_record = ustr ''s3cret''"
  by (simp_all add: demo_record_def)

lemma no_secret_outlives_session_witness:
  "\<exists>x v v'. unlocked_loop demo_host (demo_shell True) [Arrived (Copy demo_id Password)] (serve x (system_clipboard_new None) None no_responses)
       = Some (None, v) \<and> sc_os (sv_clip v) = Some (ustr ''s3cret'') \<and>
     unlocked_loop demo_host (demo_shell True) [Arrived (Copy demo_id Password), Arrived LockSession]
       (serve x (system_clipboard_new None) None no_responses) = Some (Some (Lock, []), v') \<and>
     sc_os (sv_clip v') \<noteq> Some (ustr ''s3cret'')"
proof -
  let ?W = "demo_shell True"
  obtain x v where x: "in_session demo_opens demo_host [] v x" "session_live demo_host x" "length (vault_to_bytes v) \<le> MAX_VAULT_BYTES"
    "decrypt_entry demo_host v (k_master (snd x)) demo_id = Inr demo_record"
    by (rule demo_entry_served)
  obtain y ck c1 where c: "copy_to_clipboard demo_host (system_clipboard_ops toy_arboard) demo_id Password (x, system_clipboard_new None)
      = (Inr ck, y, c1)" "sc_os c1 = Some (ustr ''s3cret'')"
    by (rule demo_copy [OF x, of Password "system_clipboard_new None"]) (simp add: demo_fields)
  let ?v = "serve x (system_clipboard_new None) None no_responses"
  have "\<exists>v'. unlocked_loop demo_host ?W [Arrived (Copy demo_id Password), Arrived LockSession] ?v = Some (Some (Lock, []), v')"
    unfolding serve_copy [OF c(1) demo_shell_simps(1)] by simp
  then obtain v' where l: "unlocked_loop demo_host ?W [Arrived (Copy demo_id Password), Arrived LockSession] ?v
      = Some (Some (Lock, []), v')" by blast
  have "sc_os (sv_clip v') = None \<or> (\<exists>f\<in>set FACTS. sc_os (sv_clip v') = Some f)"
    using no_secret_outlives_session [OF toy_arboard_ok toy_arboard_up demo_shell_simps(1) _ _ in_time_without_clear l]
    by (simp add: system_clipboard_new_def)
  moreover have "ustr ''s3cret'' \<notin> set FACTS" by (simp add: FACTS_def ustr_def)
  ultimately have "sc_os (sv_clip v') \<noteq> Some (ustr ''s3cret'')" by auto
  then show ?thesis using l c(2) serve_copy [OF c(1), of ?W "[]"] by fastforce
qed

text \<open>Two copies in a row.\<close>

lemma demo_two_copies:
  obtains x y and ck ck' :: clipboard_cookie and c where
    "\<And>W es. sh_clipboard W = Some (system_clipboard_ops toy_arboard) \<Longrightarrow>
       \<exists>h. unlocked_loop demo_host W (Arrived (Copy demo_id Username) # Arrived (Copy demo_id Password) # es)
         (serve x (system_clipboard_new None) None no_responses) = unlocked_loop demo_host W es (serve y c (Some ck') h)"
    "sc_os c = Some (ustr ''s3cret'')" "ck_digest ck = text_digest toy_arboard (ustr ''alice'')"
    "ck_digest ck' = text_digest toy_arboard (ustr ''s3cret'')"
proof -
  obtain x v where x: "in_session demo_opens demo_host [] v x" "session_live demo_host x" "length (vault_to_bytes v) \<le> MAX_VAULT_BYTES"
    "decrypt_entry demo_host v (k_master (snd x)) demo_id = Inr demo_record"
    by (rule demo_entry_served)
  obtain y ck c where c: "copy_to_clipboard demo_host (system_clipboard_ops toy_arboard) demo_id Username (x, system_clipboard_new None)
      = (Inr ck, y, c)" "ck_digest ck = text_digest toy_arboard (ustr ''alice'')"
    and y: "in_session demo_opens demo_host [] v y" "session_live demo_host y" "k_master (snd y) = k_master (snd x)"
    by (rule demo_copy [OF x, of Username "system_clipboard_new None"]) (simp add: demo_fields)
  have d: "decrypt_entry demo_host v (k_master (snd y)) demo_id = Inr demo_record" using x(4) y(3) by simp
  obtain z ck' c' where c': "copy_to_clipboard demo_host (system_clipboard_ops toy_arboard) demo_id Password (y, c) = (Inr ck', z, c')"
    "sc_os c' = Some (ustr ''s3cret'')" "ck_digest ck' = text_digest toy_arboard (ustr ''s3cret'')"
    by (rule demo_copy [OF y(1,2) x(3) d, of Password c]) (simp add: demo_fields)
  show thesis
    by (rule that [of x z c' ck' ck]) (use serve_copy [OF c(1)] serve_copy [OF c'(1)] c(2) c'(2,3) in auto)
qed

lemma toy_digests: "text_digest toy_arboard (ustr ''alice'') \<noteq> text_digest toy_arboard (ustr ''s3cret'')"
  by (simp add: text_digest_def toy_arboard_def ustr_def utf8_enc_def enc1_def b8_def)

lemma stale_clear_strands_secret_witness:
  "\<exists>x ck v'. unlocked_loop demo_host (demo_shell True)
       [Arrived (Copy demo_id Username), Arrived (Copy demo_id Password), Arrived (ClearClipboard ck), Arrived LockSession]
       (serve x (system_clipboard_new None) None no_responses) = Some (Some (Lock, []), v') \<and>
     sc_os (sv_clip v') = Some (ustr ''s3cret'')"
proof -
  obtain x y c and ck ck' :: clipboard_cookie where d: "\<And>W es. sh_clipboard W = Some (system_clipboard_ops toy_arboard) \<Longrightarrow>
       \<exists>h. unlocked_loop demo_host W (Arrived (Copy demo_id Username) # Arrived (Copy demo_id Password) # es)
         (serve x (system_clipboard_new None) None no_responses) = unlocked_loop demo_host W es (serve y c (Some ck') h)"
    and c: "sc_os c = Some (ustr ''s3cret'')" "ck_digest ck = text_digest toy_arboard (ustr ''alice'')"
    by (rule demo_two_copies) blast
  let ?es = "[Arrived (ClearClipboard ck), Arrived LockSession]"
  obtain h where h: "unlocked_loop demo_host (demo_shell True) (Arrived (Copy demo_id Username) # Arrived (Copy demo_id Password) # ?es)
      (serve x (system_clipboard_new None) None no_responses) = unlocked_loop demo_host (demo_shell True) ?es (serve y c (Some ck') h)"
    using d [OF demo_shell_simps(1)] by blast
  obtain v' where v': "unlocked_loop demo_host (demo_shell True) ?es (serve y c (Some ck') h) = Some (Some (Lock, []), v')"
    by (simp add: handle_clear_def)
  have "sc_os (sv_clip v') = Some (ustr ''s3cret'')"
    using stale_clear_strands_secret [OF toy_arboard_ok demo_shell_simps(1) _ _ _ v', of "ustr ''s3cret''"] c toy_digests by simp
  then show ?thesis using trans [OF h v'] by blast
qed

lemma overwrite_off_never_clears_witness:
  "\<exists>x ck v v'. unlocked_loop demo_host (demo_shell False) [Arrived (Copy demo_id Username), Arrived (Copy demo_id Password)]
       (serve x (system_clipboard_new None) None no_responses) = Some (None, v) \<and> sv_live v = Some ck \<and>
     unlocked_loop demo_host (demo_shell False) [Arrived (ClearClipboard ck), Arrived LockSession] v = Some (Some (Lock, []), v') \<and>
     sc_os (sv_clip v') = Some (ustr ''s3cret'')"
proof -
  let ?W = "demo_shell False"
  obtain x y ck' c where d: "\<And>W es. sh_clipboard W = Some (system_clipboard_ops toy_arboard) \<Longrightarrow>
       \<exists>h. unlocked_loop demo_host W (Arrived (Copy demo_id Username) # Arrived (Copy demo_id Password) # es)
         (serve x (system_clipboard_new None) None no_responses) = unlocked_loop demo_host W es (serve y c (Some ck') h)"
    and c: "sc_os c = Some (ustr ''s3cret'')"
    by (rule demo_two_copies) blast
  obtain h where h: "unlocked_loop demo_host ?W [Arrived (Copy demo_id Username), Arrived (Copy demo_id Password)]
      (serve x (system_clipboard_new None) None no_responses) = Some (None, serve y c (Some ck') h)"
    using d [OF demo_shell_simps(1), of False "[]"] by auto
  obtain v' where v': "unlocked_loop demo_host ?W [Arrived (ClearClipboard ck'), Arrived LockSession] (serve y c (Some ck') h)
      = Some (Some (Lock, []), v')" by (simp add: handle_clear_def)
  have "sc_os (sv_clip v') = Some (ustr ''s3cret'')"
    using overwrite_off_never_clears [OF toy_arboard_ok demo_shell_simps(1) _ _ v'] c by simp
  then show ?thesis using h v' by fastforce
qed

end
