(* ===== verification/ForeignBridge.thy ===== *)
theory ForeignBridge
  imports Unlocked HsmAndroid
begin

text \<open>
  \<open>passman-uniffi\<close>, \<open>lib.rs\<close>: the value types of the Kotlin binding and the adapters that turn the two
  foreign callback interfaces into the traits of the core.  The Kotlin side is a record of its methods
  over a state; the part in Rust is the conversion of every value, the length checks of what comes
  back, and the normalisation of failures.
\<close>

definition DIGEST_LEN :: nat where "DIGEST_LEN = 32"

section \<open>Foreign value types\<close>

datatype foreign_level = LevelStrongBox | LevelTrustedEnvironment | LevelSoftware

fun from_level :: "foreign_level \<Rightarrow> keystore_security_level" where
  "from_level LevelStrongBox = StrongBox"
| "from_level LevelTrustedEnvironment = TrustedEnvironment"
| "from_level LevelSoftware = Software"

datatype keystore_failure =
    FailCancelled | FailLockout | FailKeyInvalidated | FailAuthFailed | FailNoSecureLockOrHardware | FailBackend

fun from_failure :: "keystore_failure \<Rightarrow> keystore_error" where
  "from_failure FailCancelled = KsCancelled"
| "from_failure FailLockout = KsLockout"
| "from_failure FailKeyInvalidated = KsKeyInvalidated"
| "from_failure FailAuthFailed = KsAuthFailed"
| "from_failure FailNoSecureLockOrHardware = KsNoSecureLockOrHardware"
| "from_failure FailBackend = KsBackend"

record wrap_output =
  wo_iv :: bytes
  wo_ciphertext :: bytes
  wo_level :: foreign_level

datatype callback_error = CallbackFailed

text \<open>What a foreign call answers when the callback itself breaks: uniffi's unexpected error becomes
  the interface's own failure.\<close>

datatype ('e, 'r) foreign_result = ForeignOk 'r | ForeignErr 'e | UnexpectedForeign

fun keystore_result :: "(keystore_failure, 'r) foreign_result \<Rightarrow> keystore_failure + 'r" where
  "keystore_result (ForeignOk r) = Inr r"
| "keystore_result (ForeignErr e) = Inl e"
| "keystore_result UnexpectedForeign = Inl FailBackend"

fun callback_result :: "(callback_error, 'r) foreign_result \<Rightarrow> callback_error + 'r" where
  "callback_result (ForeignOk r) = Inr r"
| "callback_result (ForeignErr e) = Inl e"
| "callback_result UnexpectedForeign = Inl CallbackFailed"

section \<open>Foreign interfaces\<close>

record 'd keystore_bridge =
  kb_wrap :: "ustring \<Rightarrow> byte \<Rightarrow> bytes \<Rightarrow> 'd \<Rightarrow> (keystore_failure, wrap_output) foreign_result \<times> 'd"
  kb_unwrap :: "ustring \<Rightarrow> byte \<Rightarrow> bytes \<Rightarrow> bytes \<Rightarrow> 'd \<Rightarrow> (keystore_failure, bytes) foreign_result \<times> 'd"
  kb_invalidate :: "ustring \<Rightarrow> 'd \<Rightarrow> (keystore_failure, unit) foreign_result \<times> 'd"
  kb_probe :: "'d \<Rightarrow> (keystore_failure, foreign_level) foreign_result \<times> 'd"

record 'o clipboard_bridge =
  br_write :: "ustring \<Rightarrow> 'o \<Rightarrow> (callback_error, bytes) foreign_result \<times> 'o"
  br_read_digest :: "'o \<Rightarrow> (callback_error, bytes option) foreign_result \<times> 'o"
  br_set_text :: "ustring \<Rightarrow> 'o \<Rightarrow> (callback_error, unit) foreign_result \<times> 'o"

section \<open>The key-store adapter\<close>

definition foreign_keystore :: "(keystore_failure, 'a) foreign_result \<times> 'd \<Rightarrow> (keystore_error + 'a) \<times> 'd" where
  "foreign_keystore = (\<lambda>(r, d). (map_err from_failure (keystore_result r), d))"

definition adapter_wrap :: "'d keystore_bridge \<Rightarrow> ustring \<Rightarrow> byte \<Rightarrow> bytes \<Rightarrow> 'd \<Rightarrow>
    (keystore_error + wrapped_parts) \<times> 'd" where
  "adapter_wrap B alias tag material d =
     (case foreign_keystore (kb_wrap B alias tag material d) of
        (Inl e, d') \<Rightarrow> (Inl e, d')
      | (Inr out, d') \<Rightarrow>
          if length (wo_iv out) = GCM_IV_LEN
          then (Inr \<lparr>wp_iv = wo_iv out, wp_ciphertext = wo_ciphertext out, wp_level = from_level (wo_level out)\<rparr>, d')
          else (Inl KsBackend, d'))"

definition adapter_unwrap :: "'d keystore_bridge \<Rightarrow> ustring \<Rightarrow> byte \<Rightarrow> bytes \<Rightarrow> bytes \<Rightarrow> 'd \<Rightarrow>
    (keystore_error + bytes) \<times> 'd" where
  "adapter_unwrap B alias tag iv ct d = foreign_keystore (kb_unwrap B alias tag iv ct d)"

definition adapter_invalidate :: "'d keystore_bridge \<Rightarrow> ustring \<Rightarrow> 'd \<Rightarrow> (keystore_error + unit) \<times> 'd" where
  "adapter_invalidate B alias d = foreign_keystore (kb_invalidate B alias d)"

definition adapter_probe :: "'d keystore_bridge \<Rightarrow> 'd \<Rightarrow> (keystore_error + keystore_security_level) \<times> 'd" where
  "adapter_probe B d = (case foreign_keystore (kb_probe B d) of
     (Inl e, d') \<Rightarrow> (Inl e, d') | (Inr l, d') \<Rightarrow> (Inr (from_level l), d'))"

definition keystore_adapter :: "'d keystore_bridge \<Rightarrow> 'd keystore" where
  "keystore_adapter B = \<lparr>kw_wrap = adapter_wrap B, kw_unwrap = adapter_unwrap B,
     kw_invalidate = adapter_invalidate B, kw_probe = adapter_probe B\<rparr>"

section \<open>The clipboard adapter\<close>

definition fixed_digest :: "bytes \<Rightarrow> core_error + bytes" where
  "fixed_digest v = (if length v = DIGEST_LEN then Inr v else Inl (CIo ''clipboard digest length''))"

fun callback_io :: "callback_error \<Rightarrow> core_error" where
  "callback_io CallbackFailed = CIo ''clipboard bridge''"

text \<open>The adapter's state: the Kotlin side, and how often \<open>SystemClock\<close> has been read.\<close>

record 'o bridged =
  bg_os :: 'o
  bg_reads :: nat

definition on_bridge :: "('o \<Rightarrow> (callback_error, 'r) foreign_result \<times> 'o) \<Rightarrow> 'o bridged \<Rightarrow>
    (core_error + 'r) \<times> 'o bridged" where
  "on_bridge f c = (case f (bg_os c) of (r, os) \<Rightarrow> (map_err callback_io (callback_result r), c\<lparr>bg_os := os\<rparr>))"

definition bridge_write :: "'o clipboard_bridge \<Rightarrow> (nat \<Rightarrow> timestamp) \<Rightarrow> secret_string \<Rightarrow> 'o bridged \<Rightarrow>
    (core_error + clipboard_cookie) \<times> 'o bridged" where
  "bridge_write B now secret c =
     (case on_bridge (br_write B secret) c of
        (Inl e, c') \<Rightarrow> (Inl e, c')
      | (Inr digest, c') \<Rightarrow>
          (case fixed_digest digest of
             Inl e \<Rightarrow> (Inl e, c')
           | Inr d \<Rightarrow> (Inr \<lparr>ck_digest = d, ck_written_at = now (bg_reads c')\<rparr>, c'\<lparr>bg_reads := bg_reads c' + 1\<rparr>)))"

definition bridge_read_digest :: "'o clipboard_bridge \<Rightarrow> 'o bridged \<Rightarrow> (core_error + bytes option) \<times> 'o bridged" where
  "bridge_read_digest B c =
     (case on_bridge (br_read_digest B) c of
        (Inl e, c') \<Rightarrow> (Inl e, c')
      | (Inr None, c') \<Rightarrow> (Inr None, c')
      | (Inr (Some v), c') \<Rightarrow> (case fixed_digest v of Inl e \<Rightarrow> (Inl e, c') | Inr d \<Rightarrow> (Inr (Some d), c')))"

definition bridge_set_text :: "'o clipboard_bridge \<Rightarrow> ustring \<Rightarrow> 'o bridged \<Rightarrow> (core_error + unit) \<times> 'o bridged" where
  "bridge_set_text B t c = on_bridge (br_set_text B t) c"

definition clipboard_adapter :: "'o clipboard_bridge \<Rightarrow> (nat \<Rightarrow> timestamp) \<Rightarrow> 'o bridged clipboard" where
  "clipboard_adapter B now =
     \<lparr>cb_write = bridge_write B now, cb_read_digest = bridge_read_digest B, cb_set_text = bridge_set_text B\<rparr>"

definition noop_prompter :: prompter where
  "noop_prompter reason = Inr Authenticated"

section \<open>Application-facing types\<close>

datatype field_kind = FieldUsername | FieldPassword | FieldUrl | FieldNotes

fun from_field :: "field_kind \<Rightarrow> reveal_field" where
  "from_field FieldUsername = Username"
| "from_field FieldPassword = Password"
| "from_field FieldUrl = Url"
| "from_field FieldNotes = Notes"

datatype kdf_choice = ChooseLow | ChooseMedium | ChooseHigh

fun choice_params :: "kdf_choice \<Rightarrow> kdf_params" where
  "choice_params ChooseLow = KDF_LOW"
| "choice_params ChooseMedium = KDF_MEDIUM"
| "choice_params ChooseHigh = KDF_HIGH"

datatype recovery_choice = ChooseFloor | ChooseDefault | ChooseParanoid

fun choice_preset :: "recovery_choice \<Rightarrow> recovery_preset" where
  "choice_preset ChooseFloor = PresetFloor"
| "choice_preset ChooseDefault = PresetDefault"
| "choice_preset ChooseParanoid = PresetParanoid"

record entry_item =
  ei_id :: bytes
  ei_label :: ustring

definition from_handle :: "entry_handle \<Rightarrow> entry_item" where
  "from_handle h = \<lparr>ei_id = id_bytes (eh_id h), ei_label = eh_label h\<rparr>"

datatype app_error = Setup string | Failed string | AppLocked

definition foreign_entry_id :: "bytes \<Rightarrow> app_error + entry_id" where
  "foreign_entry_id b = (if length b = ENTRY_ID_LEN then Inr (EntryId b) else Inl (Failed ''invalid entry id''))"

definition estimate_strength :: "'m estimator_scheme \<Rightarrow> ustring \<Rightarrow> 8 word" where
  "estimate_strength Z password = estimate_password_strength Z password"

section \<open>The adapters keep the contracts\<close>

text \<open>What the documentation of \<open>KeystoreBridge\<close> promises, in its own types; the length of the IV is
  checked by the adapter and not assumed.\<close>

definition keystore_bridge_ok :: "'d keystore_bridge \<Rightarrow> ('d \<Rightarrow> ustring \<Rightarrow> byte \<Rightarrow> bytes \<Rightarrow> bytes \<Rightarrow> bytes option) \<Rightarrow>
    ('d \<Rightarrow> bool) \<Rightarrow> bool" where
  "keystore_bridge_ok B sec ready \<longleftrightarrow>
     (\<forall>a t m d p d'. kb_wrap B a t m d = (ForeignOk p, d') \<longrightarrow> sec d' a t (wo_iv p) (wo_ciphertext p) = Some m) \<and>
     (\<forall>a t m d a'. a' \<noteq> a \<longrightarrow> sec (snd (kb_wrap B a t m d)) a' = sec d a') \<and>
     (\<forall>a d a'. a' \<noteq> a \<longrightarrow> sec (snd (kb_invalidate B a d)) a' = sec d a') \<and>
     (\<forall>d. sec (snd (kb_probe B d)) = sec d) \<and>
     (\<forall>a t iv c d. sec (snd (kb_unwrap B a t iv c d)) = sec d) \<and>
     (\<forall>a t iv c d m. sec d a t iv c = Some m \<and> ready d \<longrightarrow>
        fst (kb_unwrap B a t iv c d) = ForeignOk m \<and> ready (snd (kb_unwrap B a t iv c d))) \<and>
     (\<forall>a t iv c d m. fst (kb_unwrap B a t iv c d) = ForeignOk m \<longrightarrow> sec d a t iv c = Some m) \<and>
     (\<forall>a t t' iv c d. sec d a t iv c \<noteq> None \<and> t' \<noteq> t \<longrightarrow> sec d a t' iv c = None)"

lemma keystore_result_Inr [simp]: "keystore_result r = Inr x \<longleftrightarrow> r = ForeignOk x"
  by (cases r) simp_all

lemma callback_result_Inr [simp]: "callback_result r = Inr x \<longleftrightarrow> r = ForeignOk x"
  by (cases r) simp_all

lemma map_err_sum [simp]: "map_err f r = Inr x \<longleftrightarrow> r = Inr x"
  by (cases r) (simp_all add: map_err_Inr_iff)

lemma foreign_keystore_simps [simp]:
  "foreign_keystore x = (Inr r, d) \<longleftrightarrow> x = (ForeignOk r, d)"
  "snd (foreign_keystore x) = snd x" "fst (foreign_keystore x) = Inr r \<longleftrightarrow> fst x = ForeignOk r"
  by (auto simp: foreign_keystore_def split: prod.splits)

lemma foreign_keystore_eqs:
  "foreign_keystore (ForeignOk r, d) = (Inr r, d)" "foreign_keystore (ForeignErr e, d) = (Inl (from_failure e), d)"
  "foreign_keystore (UnexpectedForeign, d) = (Inl KsBackend, d)"
  by (simp_all add: foreign_keystore_def map_err_def)

lemma snd_adapter_wrap [simp]: "snd (adapter_wrap B a t m d) = snd (kb_wrap B a t m d)"
  by (cases "kb_wrap B a t m d"; cases "fst (kb_wrap B a t m d)") (simp_all add: adapter_wrap_def foreign_keystore_eqs)

lemma snd_adapter_probe [simp]: "snd (adapter_probe B d) = snd (kb_probe B d)"
  by (cases "kb_probe B d"; cases "fst (kb_probe B d)") (simp_all add: adapter_probe_def foreign_keystore_eqs)

lemma adapter_wrap_Inr:
  "adapter_wrap B a t m d = (Inr p, d') \<longleftrightarrow> (\<exists>w. kb_wrap B a t m d = (ForeignOk w, d') \<and> length (wo_iv w) = GCM_IV_LEN \<and>
     p = \<lparr>wp_iv = wo_iv w, wp_ciphertext = wo_ciphertext w, wp_level = from_level (wo_level w)\<rparr>)"
  by (cases "kb_wrap B a t m d"; cases "fst (kb_wrap B a t m d)")
    (auto simp: adapter_wrap_def foreign_keystore_eqs split: if_splits)

lemma keystore_adapter_sel [simp]:
  "kw_wrap (keystore_adapter B) = adapter_wrap B" "kw_unwrap (keystore_adapter B) = adapter_unwrap B"
  "kw_invalidate (keystore_adapter B) = adapter_invalidate B" "kw_probe (keystore_adapter B) = adapter_probe B"
  "snd (adapter_unwrap B a t iv c d) = snd (kb_unwrap B a t iv c d)"
  "fst (adapter_unwrap B a t iv c d) = Inr m \<longleftrightarrow> fst (kb_unwrap B a t iv c d) = ForeignOk m"
  "snd (adapter_invalidate B a d) = snd (kb_invalidate B a d)"
  by (simp_all add: keystore_adapter_def adapter_unwrap_def adapter_invalidate_def)

lemma keystore_adapter_ok:
  assumes "keystore_bridge_ok B sec ready"
  shows "keystore_ok (keystore_adapter B) sec ready"
proof -
  note b = assms [unfolded keystore_bridge_ok_def]
  have "\<forall>a t m d p d'. adapter_wrap B a t m d = (Inr p, d') \<longrightarrow>
      sec d' a t (wp_iv p) (wp_ciphertext p) = Some m \<and> length (wp_iv p) = GCM_IV_LEN"
  proof (intro allI impI)
    fix a t m d p d'
    assume "adapter_wrap B a t m d = (Inr p, d')"
    then obtain w where w: "kb_wrap B a t m d = (ForeignOk w, d')" "length (wo_iv w) = GCM_IV_LEN"
      "p = \<lparr>wp_iv = wo_iv w, wp_ciphertext = wo_ciphertext w, wp_level = from_level (wo_level w)\<rparr>"
      unfolding adapter_wrap_Inr by (elim exE conjE)
    show "sec d' a t (wp_iv p) (wp_ciphertext p) = Some m \<and> length (wp_iv p) = GCM_IV_LEN"
      using b [THEN conjunct1, rule_format, OF w(1)] w(2,3) by simp
  qed
  then show ?thesis
    unfolding keystore_ok_def keystore_adapter_sel snd_adapter_wrap snd_adapter_probe
    by (rule conjI) (rule b [THEN conjunct2])
qed

text \<open>The clipboard bridge: \<open>content\<close> is the text the Kotlin side holds, \<open>dig\<close> the digest it computes.\<close>

definition clipboard_bridge_ok :: "'o clipboard_bridge \<Rightarrow> ('o \<Rightarrow> ustring option) \<Rightarrow> (ustring \<Rightarrow> bytes) \<Rightarrow> bool" where
  "clipboard_bridge_ok B content dig \<longleftrightarrow>
     (\<forall>t c. \<forall>d. fst (br_write B t c) = ForeignOk d \<longrightarrow> content (snd (br_write B t c)) = Some t \<and> d = dig t) \<and>
     (\<forall>c. content (snd (br_read_digest B c)) = content c) \<and>
     (\<forall>c. \<forall>d. fst (br_read_digest B c) = ForeignOk d \<longrightarrow> d = map_option dig (content c)) \<and>
     (\<forall>t c. fst (br_set_text B t c) = ForeignOk () \<longrightarrow> content (snd (br_set_text B t c)) = Some t)"

definition clipboard_bridge_up :: "'o clipboard_bridge \<Rightarrow> (ustring \<Rightarrow> bytes) \<Rightarrow> bool" where
  "clipboard_bridge_up B dig \<longleftrightarrow> (\<forall>t. length (dig t) = DIGEST_LEN) \<and> (\<forall>t c. \<exists>d. fst (br_write B t c) = ForeignOk d) \<and>
     (\<forall>c. \<exists>d. fst (br_read_digest B c) = ForeignOk d) \<and> (\<forall>t c. fst (br_set_text B t c) = ForeignOk ())"

lemma on_bridge_Inr:
  "on_bridge f c = (Inr r, c') \<longleftrightarrow> fst (f (bg_os c)) = ForeignOk r \<and> c' = c\<lparr>bg_os := snd (f (bg_os c))\<rparr>"
  by (cases "f (bg_os c)"; cases "fst (f (bg_os c))") (auto simp: on_bridge_def)

lemma on_bridge_os: "bg_os (snd (on_bridge f c)) = snd (f (bg_os c))"
  by (simp add: on_bridge_def split: prod.split)

lemma bridge_write_Inr:
  "bridge_write B now t c = (Inr ck, c') \<longleftrightarrow> (\<exists>d. fst (br_write B t (bg_os c)) = ForeignOk d \<and> length d = DIGEST_LEN \<and>
     ck = \<lparr>ck_digest = d, ck_written_at = now (bg_reads c)\<rparr> \<and>
     c' = c\<lparr>bg_os := snd (br_write B t (bg_os c)), bg_reads := bg_reads c + 1\<rparr>)"
  by (cases "br_write B t (bg_os c)"; cases "fst (br_write B t (bg_os c))")
    (auto simp: bridge_write_def on_bridge_def fixed_digest_def)

lemma bridge_read_os: "bg_os (snd (bridge_read_digest B c)) = snd (br_read_digest B (bg_os c))"
  by (cases "br_read_digest B (bg_os c)"; cases "fst (br_read_digest B (bg_os c))")
    (auto simp: bridge_read_digest_def on_bridge_def fixed_digest_def split: option.split)

lemma bridge_read_Inr:
  "fst (bridge_read_digest B c) = Inr d \<longleftrightarrow> fst (br_read_digest B (bg_os c)) = ForeignOk d \<and>
     (case d of None \<Rightarrow> True | Some v \<Rightarrow> length v = DIGEST_LEN)"
  by (cases "br_read_digest B (bg_os c)"; cases "fst (br_read_digest B (bg_os c))")
    (auto simp: bridge_read_digest_def on_bridge_def fixed_digest_def split: option.splits)

lemma clipboard_adapter_laws:
  assumes "clipboard_bridge_ok B content dig"
  shows "clipboard_laws (clipboard_adapter B now) (\<lambda>c. content (bg_os c)) dig"
proof
  note b = assms [unfolded clipboard_bridge_ok_def]
  fix t :: ustring and c c' :: "'a bridged" and ck d r and u :: unit
  show "content (bg_os c') = Some t \<and> ck_digest ck = dig t"
    if "cb_write (clipboard_adapter B now) t c = (Inr ck, c')"
    using that b by (auto simp: clipboard_adapter_def bridge_write_Inr)
  show keep: "content (bg_os c') = content (bg_os c)"
    if "cb_read_digest (clipboard_adapter B now) c = (r, c')" for r
    using that b bridge_read_os [of B c] by (simp add: clipboard_adapter_def)
  show "content (bg_os c') = content (bg_os c) \<and> d = map_option dig (content (bg_os c))"
    if "cb_read_digest (clipboard_adapter B now) c = (Inr d, c')"
    using keep [OF that] that b bridge_read_Inr [of B c d] by (simp add: clipboard_adapter_def)
  show "content (bg_os c') = Some t" if "cb_set_text (clipboard_adapter B now) t c = (Inr u, c')"
    using that b by (simp add: clipboard_adapter_def bridge_set_text_def on_bridge_Inr)
qed

lemma clipboard_adapter_up:
  assumes "clipboard_bridge_ok B content dig" and "clipboard_bridge_up B dig"
  shows "clipboard_up (clipboard_adapter B now) (\<lambda>c. content (bg_os c)) dig"
proof (intro clipboard_up.intro clipboard_up_axioms.intro)
  show "clipboard_laws (clipboard_adapter B now) (\<lambda>c. content (bg_os c)) dig"
    by (rule clipboard_adapter_laws [OF assms(1)])
  note b = assms(1) [unfolded clipboard_bridge_ok_def] and u = assms(2) [unfolded clipboard_bridge_up_def]
  show "\<exists>ck c'. cb_write (clipboard_adapter B now) t c = (Inr ck, c')" for t c
  proof -
    obtain d where "fst (br_write B t (bg_os c)) = ForeignOk d" using u by blast
    then show ?thesis using b u by (auto simp: clipboard_adapter_def bridge_write_Inr)
  qed
  show "\<exists>d c'. cb_read_digest (clipboard_adapter B now) c = (Inr d, c')" for c
  proof -
    obtain d where d: "fst (br_read_digest B (bg_os c)) = ForeignOk d" using u by blast
    have "d = map_option dig (content (bg_os c))" using b d by blast
    then have "fst (bridge_read_digest B c) = Inr d" using d u by (simp add: bridge_read_Inr split: option.split)
    then show ?thesis by (cases "bridge_read_digest B c") (simp add: clipboard_adapter_def)
  qed
  show "\<exists>c'. cb_set_text (clipboard_adapter B now) t c = (Inr (), c')" for t c
    using u by (simp add: clipboard_adapter_def bridge_set_text_def on_bridge_Inr)
qed

section \<open>A concrete Kotlin side\<close>

definition toy_keystore_bridge :: "toy_device keystore_bridge" where
  "toy_keystore_bridge = \<lparr>
     kb_wrap = (\<lambda>a t m d. (ForeignOk \<lparr>wo_iv = replicate 12 0, wo_ciphertext = m @ replicate 16 t,
        wo_level = LevelTrustedEnvironment\<rparr>, (a, t, m) # d)),
     kb_unwrap = (\<lambda>a t iv c d. (case toy_sec d a t iv c of Some m \<Rightarrow> ForeignOk m | None \<Rightarrow> ForeignErr FailAuthFailed, d)),
     kb_invalidate = (\<lambda>a d. (ForeignOk (), filter (\<lambda>x. fst x \<noteq> a) d)),
     kb_probe = (\<lambda>d. (ForeignOk LevelTrustedEnvironment, d))\<rparr>"

lemma toy_keystore_adapted: "keystore_adapter toy_keystore_bridge = toy_keystore"
  by (auto simp: keystore_adapter_def toy_keystore_def toy_keystore_bridge_def adapter_wrap_def adapter_unwrap_def
      adapter_invalidate_def adapter_probe_def foreign_keystore_eqs GCM_IV_LEN_def fun_eq_iff split: option.splits)

lemma toy_keystore_bridge_ok: "keystore_bridge_ok toy_keystore_bridge toy_sec (\<lambda>d. True)"
proof -
  have "toy_sec ((a, t, m) # d) a t (replicate 12 0) (m @ replicate 16 t) = Some m" for a t m d
    by (simp add: toy_sec_def)
  moreover have "a' \<noteq> a \<Longrightarrow> toy_sec ((a, t, m) # d) a' = toy_sec d a'" for a' a t m d
    by (intro ext) (simp add: toy_sec_def)
  moreover have "a' \<noteq> a \<Longrightarrow> toy_sec (filter (\<lambda>x. fst x \<noteq> a) d) a' = toy_sec d a'" for a' a d
    by (intro ext) (simp add: toy_sec_def map_of_filter_other)
  moreover have "toy_sec d a t iv c = Some y \<Longrightarrow> t' \<noteq> t \<Longrightarrow> toy_sec d a t' iv c = None" for d a t t' iv c y
    by (auto simp: toy_sec_def split: option.splits if_splits)
  ultimately show ?thesis
    by (auto simp: keystore_bridge_ok_def toy_keystore_bridge_def split: option.splits)
qed

definition toy_digest :: "ustring \<Rightarrow> bytes" where
  "toy_digest t = take 32 (utf8_enc t @ replicate 32 0)"

definition toy_clipboard_bridge :: "ustring option clipboard_bridge" where
  "toy_clipboard_bridge = \<lparr>br_write = (\<lambda>t c. (ForeignOk (toy_digest t), Some t)),
     br_read_digest = (\<lambda>c. (ForeignOk (map_option toy_digest c), c)), br_set_text = (\<lambda>t c. (ForeignOk (), Some t))\<rparr>"

lemma toy_clipboard_bridge_ok: "clipboard_bridge_ok toy_clipboard_bridge id toy_digest"
  by (simp add: clipboard_bridge_ok_def toy_clipboard_bridge_def)

lemma toy_clipboard_bridge_up: "clipboard_bridge_up toy_clipboard_bridge toy_digest"
  by (simp add: clipboard_bridge_up_def toy_clipboard_bridge_def toy_digest_def DIGEST_LEN_def min_def)

interpretation bridged_store: bound_slot_store "android_store toy_crypto (keystore_adapter toy_keystore_bridge)"
  "android_opens toy_sec" "android_willing (\<lambda>d. True)" "alias_fresh toy_crypto"
  by (rule android_slot_store [OF keystore_adapter_ok [OF toy_keystore_bridge_ok]])

interpretation bridged_clipboard: clipboard_up "clipboard_adapter toy_clipboard_bridge now" "\<lambda>c. id (bg_os c)" toy_digest
  by (rule clipboard_adapter_up [OF toy_clipboard_bridge_ok toy_clipboard_bridge_up])

end
