(* ===== verification/ErrorText.thy ===== *)
theory ErrorText
  imports CoreTypes
begin

text \<open>
  \<open>passman-core\<close>, \<open>error.rs\<close>: what the two error taxonomies print (their \<open>Display\<close> texts), which the
  shells show.  An I/O error prints its fixed context only.
\<close>

fun core_display :: "core_error \<Rightarrow> string" where
  "core_display AlreadyRunning = ''another passman instance is already running for this vault''"
| "core_display SessionLocked = ''session is locked''"
| "core_display WeakPasswordForExport = ''master password is too weak to create a recovery export''"
| "core_display SoftwareHsmRefused = ''software HSM backend refused (allow-software opt-in required)''"
| "core_display (CIo context) = ''filesystem error: '' @ context"
| "core_display (CVault _) = ''vault operation failed''"
| "core_display (CHsm _) = ''hardware key store operation failed''"
| "core_display (CRecovery _) = ''recovery operation failed''"
| "core_display (CPolicy _) = ''password generation failed''"
| "core_display (CCrypto _) = ''crypto operation failed''"

fun unlock_display :: "unlock_error \<Rightarrow> string" where
  "unlock_display UCancelled = ''unlock cancelled by the user''"
| "unlock_display URetryable = ''transient hardware error during unlock; retry is appropriate''"
| "unlock_display RouteToRecovery = ''hardware key unavailable; recovery import required''"
| "unlock_display BadCredentials = ''incorrect master password or TOTP code''"
| "unlock_display (LockedOut _) = ''temporarily locked out; try again later''"
| "unlock_display (UHsm _) = ''hardware backend error during unlock''"
| "unlock_display (MalformedVault _) = ''vault could not be read or parsed''"
| "unlock_display USoftwareHsmRefused = ''software HSM backend refused (allow-software opt-in required)''"

end
