(* ===== verification/ForeignApp.thy ===== *)
theory ForeignApp
  imports ForeignBridge ErrorText WorkerProtocol
begin

text \<open>
  \<open>passman-uniffi\<close>, \<open>lib.rs\<close>: the \<open>PassmanApp\<close> object.  Its state, the link, is the worker, the requests
  that were sent and not taken yet, and how many responses have been read.  The worker runs
  beside the caller: a call carries the worker's moves between its drain and its send, and those
  between its send and its receive; \<open>None\<close> says that it has not returned after them.  The mutex
  makes the methods atomic with respect to each other.
\<close>

section \<open>The link\<close>

record ('d, 'c) link =
  lk_worker :: "('d, 'c) worker"
  lk_queue :: "request list"
  lk_read :: nat

datatype move = Take | Idle

text \<open>The worker takes the oldest request; it sees an idle second only when none is waiting.\<close>

fun worker_move :: "('d, 'm) host_scheme \<Rightarrow> 'c shell \<Rightarrow> move \<Rightarrow> ('d, 'c) link \<Rightarrow> ('d, 'c) link option" where
  "worker_move H W Take l =
     (case lk_queue l of
        [] \<Rightarrow> Some l
      | r # q \<Rightarrow> map_option (\<lambda>w. l\<lparr>lk_worker := w, lk_queue := q\<rparr>) (resume H W [Arrived r] (lk_worker l)))"
| "worker_move H W Idle l =
     (if lk_queue l = [] then map_option (\<lambda>w. l\<lparr>lk_worker := w\<rparr>) (resume H W [IdleSecond] (lk_worker l)) else Some l)"

fun worker_moves :: "('d, 'm) host_scheme \<Rightarrow> 'c shell \<Rightarrow> move list \<Rightarrow> ('d, 'c) link \<Rightarrow> ('d, 'c) link option" where
  "worker_moves H W [] l = Some l"
| "worker_moves H W (m # ms) l = Option.bind (worker_move H W m l) (worker_moves H W ms)"

definition drain :: "('d, 'c) link \<Rightarrow> ('d, 'c) link" where
  "drain l = l\<lparr>lk_read := length (received (lk_worker l))\<rparr>"

definition session_send :: "request \<Rightarrow> ('d, 'c) link \<Rightarrow> ('d, 'c) link" where
  "session_send r l = l\<lparr>lk_queue := lk_queue l @ [r]\<rparr>"

definition session_recv :: "('d, 'c) link \<Rightarrow> (response \<times> ('d, 'c) link) option" where
  "session_recv l =
     (case drop (lk_read l) (received (lk_worker l)) of
        a # _ \<Rightarrow> Some (a, l\<lparr>lk_read := lk_read l + 1\<rparr>)
      | [] \<Rightarrow> if has_stopped (lk_worker l) then Some (OpError ''the session worker has stopped'', l) else None)"

type_synonym schedule = "move list \<times> move list"

definition call :: "('d, 'm) host_scheme \<Rightarrow> 'c shell \<Rightarrow> schedule \<Rightarrow> request \<Rightarrow> ('d, 'c) link \<Rightarrow>
    (response \<times> ('d, 'c) link) option" where
  "call H W ms r l =
     Option.bind (worker_moves H W (fst ms) (drain l)) (\<lambda>l1.
     Option.bind (worker_moves H W (snd ms) (session_send r l1)) session_recv)"

section \<open>The methods\<close>

text \<open>What a method makes of the response.\<close>

fun unexpected :: "response \<Rightarrow> app_error" where
  "unexpected LockedNow = AppLocked"
| "unexpected _ = Failed ''unexpected internal response''"

fun create_result :: "response \<Rightarrow> app_error + ustring" where
  "create_result (Created uri _) = Inr uri"
| "create_result (CreateFailed m) = Inl (Failed m)"
| "create_result a = Inl (unexpected a)"

fun unlock_result :: "response \<Rightarrow> app_error + entry_item list" where
  "unlock_result (Unlocked l) = Inr (map from_handle l)"
| "unlock_result (UnlockFailed m) = Inl (Failed m)"
| "unlock_result a = Inl (unexpected a)"

fun entries_result :: "response \<Rightarrow> app_error + entry_item list" where
  "entries_result (Entries l) = Inr (map from_handle l)"
| "entries_result LockedNow = Inl AppLocked"
| "entries_result (OpError m) = Inl (Failed m)"
| "entries_result a = Inl (unexpected a)"

fun reveal_result :: "response \<Rightarrow> app_error + ustring" where
  "reveal_result (Revealed _ t) = Inr t"
| "reveal_result LockedNow = Inl AppLocked"
| "reveal_result (OpError m) = Inl (Failed m)"
| "reveal_result a = Inl (unexpected a)"

fun copy_result :: "response \<Rightarrow> app_error + bytes" where
  "copy_result (Copied ck) = Inr (ck_digest ck)"
| "copy_result LockedNow = Inl AppLocked"
| "copy_result (OpError m) = Inl (Failed m)"
| "copy_result a = Inl (unexpected a)"

fun generate_result :: "response \<Rightarrow> app_error + ustring" where
  "generate_result (Generated t) = Inr t"
| "generate_result LockedNow = Inl AppLocked"
| "generate_result (OpError m) = Inl (Failed m)"
| "generate_result a = Inl (unexpected a)"

fun export_result :: "response \<Rightarrow> app_error + bytes" where
  "export_result (RecoveryExported b) = Inr b"
| "export_result (RecoveryExportFailed m) = Inl (Failed m)"
| "export_result a = Inl (unexpected a)"

fun verify_result :: "response \<Rightarrow> app_error + bool" where
  "verify_result (TotpChecked b) = Inr b"
| "verify_result a = Inl (unexpected a)"

text \<open>Send the request and convert the response.\<close>

definition via :: "(response \<Rightarrow> 'r) \<Rightarrow> ('d, 'm) host_scheme \<Rightarrow> 'c shell \<Rightarrow> schedule \<Rightarrow> request \<Rightarrow>
    ('d, 'c) link \<Rightarrow> ('r \<times> ('d, 'c) link) option" where
  "via f H W ms r l = map_option (map_prod f id) (call H W ms r l)"

text \<open>The same on an entry named by its bytes.\<close>

definition via_id :: "(response \<Rightarrow> app_error + 'r) \<Rightarrow> ('d, 'm) host_scheme \<Rightarrow> 'c shell \<Rightarrow> schedule \<Rightarrow>
    (entry_id \<Rightarrow> request) \<Rightarrow> bytes \<Rightarrow> ('d, 'c) link \<Rightarrow> ((app_error + 'r) \<times> ('d, 'c) link) option" where
  "via_id f H W ms r b l =
     (case foreign_entry_id b of Inl e \<Rightarrow> Some (Inl e, l) | Inr i \<Rightarrow> via f H W ms (r i) l)"

definition foreign_shell :: "'o clipboard_bridge \<Rightarrow> (nat \<Rightarrow> timestamp) \<Rightarrow> bool \<Rightarrow> 'o bridged shell" where
  "foreign_shell B now fact_overwrite =
     \<lparr>sh_clipboard = Some (clipboard_adapter B now), sh_fact_overwrite = fact_overwrite,
      sh_prompter = noop_prompter, sh_listening = (\<lambda>_. True)\<rparr>"

definition session_spawn :: "'d app \<Rightarrow> 'c \<Rightarrow> ('d, 'c) link" where
  "session_spawn app c =
     \<lparr>lk_worker = WaitsLocked app c \<lparr>ch_received = [], ch_sends = 0\<rparr>, lk_queue = [], lk_read = 0\<rparr>"

definition foreign_open :: "bool \<Rightarrow> path \<Rightarrow> 'd \<Rightarrow> 'o \<Rightarrow> rng \<Rightarrow> fs \<times> lock_table \<Rightarrow>
    (app_error + ('d android_dev, 'o bridged) link) \<times> fs \<times> lock_table" where
  "foreign_open lockfile_opens vault_path keystore clipboard g x =
     (case app_open lockfile_opens vault_path \<lparr>cached_level = None, device = keystore\<rparr> g x of
        (Inl e, y) \<Rightarrow> (Inl (Setup (''could not open the vault: '' @ core_display e)), y)
      | (Inr app, y) \<Rightarrow> (Inr (session_spawn app \<lparr>bg_os = clipboard, bg_reads = 0\<rparr>), y))"

definition foreign_create :: "('d, 'm) host_scheme \<Rightarrow> 'c shell \<Rightarrow> schedule \<Rightarrow> ustring \<Rightarrow> kdf_choice \<Rightarrow>
    ('d, 'c) link \<Rightarrow> ((app_error + ustring) \<times> ('d, 'c) link) option" where
  "foreign_create H W ms master kdf = via create_result H W ms (CreateVault master (choice_params kdf))"

definition foreign_unlock :: "('d, 'm) host_scheme \<Rightarrow> 'c shell \<Rightarrow> schedule \<Rightarrow> ustring \<Rightarrow> ustring \<Rightarrow>
    ('d, 'c) link \<Rightarrow> ((app_error + entry_item list) \<times> ('d, 'c) link) option" where
  "foreign_unlock H W ms master code = via unlock_result H W ms (UnlockVault master code)"

definition expect_entries :: "('d, 'm) host_scheme \<Rightarrow> 'c shell \<Rightarrow> schedule \<Rightarrow> request \<Rightarrow>
    ('d, 'c) link \<Rightarrow> ((app_error + entry_item list) \<times> ('d, 'c) link) option" where
  "expect_entries = via entries_result"

definition foreign_list :: "('d, 'm) host_scheme \<Rightarrow> 'c shell \<Rightarrow> schedule \<Rightarrow>
    ('d, 'c) link \<Rightarrow> ((app_error + entry_item list) \<times> ('d, 'c) link) option" where
  "foreign_list H W ms = expect_entries H W ms Refresh"

definition foreign_reveal :: "('d, 'm) host_scheme \<Rightarrow> 'c shell \<Rightarrow> schedule \<Rightarrow> bytes \<Rightarrow> field_kind \<Rightarrow>
    ('d, 'c) link \<Rightarrow> ((app_error + ustring) \<times> ('d, 'c) link) option" where
  "foreign_reveal H W ms b field = via_id reveal_result H W ms (\<lambda>i. Reveal i (from_field field)) b"

definition foreign_copy :: "('d, 'm) host_scheme \<Rightarrow> 'c shell \<Rightarrow> schedule \<Rightarrow> bytes \<Rightarrow> field_kind \<Rightarrow>
    ('d, 'c) link \<Rightarrow> ((app_error + bytes) \<times> ('d, 'c) link) option" where
  "foreign_copy H W ms b field = via_id copy_result H W ms (\<lambda>i. Copy i (from_field field)) b"

text \<open>\<open>clear_clipboard\<close>, with the time \<open>SystemClock\<close> shows.\<close>

definition foreign_clear :: "timestamp \<Rightarrow> bytes \<Rightarrow> ('d, 'c) link \<Rightarrow> ('d, 'c) link" where
  "foreign_clear now digest l =
     (if length digest = DIGEST_LEN
      then session_send (ClearClipboard \<lparr>ck_digest = digest, ck_written_at = now\<rparr>) l else l)"

definition foreign_add :: "('d, 'm) host_scheme \<Rightarrow> 'c shell \<Rightarrow> schedule \<Rightarrow> ustring \<Rightarrow> ustring \<Rightarrow> ustring \<Rightarrow> ustring \<Rightarrow>
    ustring \<Rightarrow> ('d, 'c) link \<Rightarrow> ((app_error + entry_item list) \<times> ('d, 'c) link) option" where
  "foreign_add H W ms label username password url notes =
     expect_entries H W ms (AddEntry label username password url notes)"

definition foreign_remove :: "('d, 'm) host_scheme \<Rightarrow> 'c shell \<Rightarrow> schedule \<Rightarrow> bytes \<Rightarrow>
    ('d, 'c) link \<Rightarrow> ((app_error + entry_item list) \<times> ('d, 'c) link) option" where
  "foreign_remove H W ms b = via_id entries_result H W ms RemoveEntry b"

definition foreign_generate :: "('d, 'm) host_scheme \<Rightarrow> 'c shell \<Rightarrow> schedule \<Rightarrow> 16 word \<Rightarrow>
    ('d, 'c) link \<Rightarrow> ((app_error + ustring) \<times> ('d, 'c) link) option" where
  "foreign_generate H W ms n = via generate_result H W ms (GeneratePassword n)"

definition foreign_export :: "('d, 'm) host_scheme \<Rightarrow> 'c shell \<Rightarrow> schedule \<Rightarrow> ustring \<Rightarrow> ustring \<Rightarrow> recovery_choice \<Rightarrow>
    ('d, 'c) link \<Rightarrow> ((app_error + bytes) \<times> ('d, 'c) link) option" where
  "foreign_export H W ms master code preset =
     via export_result H W ms (ExportRecovery master code (choice_preset preset))"

definition foreign_verify :: "('d, 'm) host_scheme \<Rightarrow> 'c shell \<Rightarrow> schedule \<Rightarrow> ustring \<Rightarrow>
    ('d, 'c) link \<Rightarrow> ((app_error + bool) \<times> ('d, 'c) link) option" where
  "foreign_verify H W ms code = via verify_result H W ms (VerifyTotp code)"

definition foreign_lock :: "('d, 'c) link \<Rightarrow> ('d, 'c) link" where
  "foreign_lock l = session_send LockSession l"

text \<open>Dropping the object drops the \<open>Session\<close>, which asks the worker to stop and does not wait.\<close>

definition session_drop :: "('d, 'c) link \<Rightarrow> ('d, 'c) link" where
  "session_drop l = session_send QuitWorker l"

section \<open>What a call is answered with\<close>

lemma event_answers:
  assumes "listening W" and "resume H W [e] w = Some w'" and "\<not> has_stopped w"
  shows "\<exists>rs. event_answered e w w' rs"
  using locked_event_answered [OF assms(1)] unlocked_event_answered [OF assms(1)] assms(2,3) by (cases w) auto


lemma resume_Nil [simp]: "resume H W [] w = Some w"
  by (cases w) (simp_all add: drive_unlocked_def)

abbreviation idle_run :: "('d, 'm) host_scheme \<Rightarrow> 'c shell \<Rightarrow> nat \<Rightarrow> ('d, 'c) worker \<Rightarrow> ('d, 'c) worker option" where
  "idle_run H W n \<equiv> resume H W (replicate n IdleSecond)"

lemma idle_run_Suc: "idle_run H W (Suc n) w = Option.bind (resume H W [IdleSecond] w) (idle_run H W n)"
  using resume_append [of H W "[IdleSecond]" "replicate n IdleSecond" w] by simp

text \<open>Left alone, a worker says nothing, or locks the session once and says so.\<close>

lemma idle_run_says:
  assumes "listening W"
  shows "idle_run H W n w = Some w' \<Longrightarrow> \<not> has_stopped w \<Longrightarrow> \<not> has_stopped w' \<and>
    (received w' = received w \<and> is_unlocked w' = is_unlocked w \<or>
     received w' = received w @ [LockedNow] \<and> is_unlocked w \<and> \<not> is_unlocked w')"
proof (induction n arbitrary: w)
  case (Suc n)
  obtain w1 where w1: "resume H W [IdleSecond] w = Some w1" "idle_run H W n w1 = Some w'"
    using Suc.prems(1) unfolding idle_run_Suc by (auto simp: bind_eq_Some_conv)
  obtain rs where rs: "event_answered IdleSecond w w1 rs" using event_answers [OF assms w1(1) Suc.prems(2)] by blast
  then have s1: "\<not> has_stopped w1" by (simp add: event_answered_def)
  note u = rs [unfolded event_answered_def event.case]
  have r: "received w1 = received w @ rs" "is_unlocked w1 = foldl track (is_unlocked w) rs"
    "rs = (if is_unlocked w \<and> \<not> is_unlocked w1 then [LockedNow] else [])"
    using u s1 by blast+
  have r1: "received w1 = received w \<and> is_unlocked w1 = is_unlocked w \<or>
      received w1 = received w @ [LockedNow] \<and> is_unlocked w \<and> \<not> is_unlocked w1"
  proof (cases "is_unlocked w \<and> \<not> is_unlocked w1")
    case True
    then show ?thesis using r(1) r(3) [unfolded if_P [OF True]] by simp
  next
    case False
    then show ?thesis using r(1,2) r(3) [unfolded if_not_P [OF False]] by simp
  qed
  show ?case using Suc.IH [OF w1(2) s1] r1 by (elim conjE disjE) simp_all
qed simp

lemma moves_idle:
  "worker_moves H W ms l = Some l' \<Longrightarrow> lk_queue l = [] \<Longrightarrow>
   \<exists>n w'. idle_run H W n (lk_worker l) = Some w' \<and> l' = l\<lparr>lk_worker := w'\<rparr>"
proof (induction ms arbitrary: l)
  case (Cons m ms)
  obtain l1 where l1: "worker_move H W m l = Some l1" "worker_moves H W ms l1 = Some l'"
    using Cons.prems by (auto simp: bind_eq_Some_conv)
  show ?case
  proof (cases m)
    case Take
    then show ?thesis using Cons l1 by simp
  next
    case Idle
    obtain w1 where w1: "resume H W [IdleSecond] (lk_worker l) = Some w1" "l1 = l\<lparr>lk_worker := w1\<rparr>"
      using l1(1) Cons.prems(2) Idle by auto
    obtain n w' where "idle_run H W n w1 = Some w'" "l' = l1\<lparr>lk_worker := w'\<rparr>"
      using Cons.IH [OF l1(2)] w1(2) Cons.prems(2) by auto
    then have "idle_run H W (Suc n) (lk_worker l) = Some w' \<and> l' = l\<lparr>lk_worker := w'\<rparr>"
      using w1 unfolding idle_run_Suc by simp
    then show ?thesis by blast
  qed
qed (auto intro: exI [of _ 0])

lemma moves_one:
  "worker_moves H W ms l = Some l' \<Longrightarrow> lk_queue l = [r] \<Longrightarrow>
   l' = l \<or> (\<exists>w2 n w'. resume H W [Arrived r] (lk_worker l) = Some w2 \<and> idle_run H W n w2 = Some w' \<and>
     l' = l\<lparr>lk_worker := w', lk_queue := []\<rparr>)"
proof (induction ms arbitrary: l)
  case (Cons m ms)
  obtain l1 where l1: "worker_move H W m l = Some l1" "worker_moves H W ms l1 = Some l'"
    using Cons.prems by (auto simp: bind_eq_Some_conv)
  show ?case
  proof (cases m)
    case Idle
    then show ?thesis using Cons l1 by simp
  next
    case Take
    obtain w2 where w2: "resume H W [Arrived r] (lk_worker l) = Some w2" "l1 = l\<lparr>lk_worker := w2, lk_queue := []\<rparr>"
      using l1(1) Cons.prems(2) Take by auto
    obtain n w' where "idle_run H W n w2 = Some w'" "l' = l1\<lparr>lk_worker := w'\<rparr>" using moves_idle [OF l1(2)] w2(2) by auto
    then have "idle_run H W n w2 = Some w' \<and> l' = l\<lparr>lk_worker := w', lk_queue := []\<rparr>" using w2(2) by simp
    then show ?thesis using w2(1) by blast
  qed
qed simp

lemma session_recv_next:
  "received (lk_worker l) = xs @ a # ys \<Longrightarrow> lk_read l = length xs \<Longrightarrow> session_recv l = Some (a, l\<lparr>lk_read := lk_read l + 1\<rparr>)"
  by (simp add: session_recv_def)

lemma session_recv_none:
  "received (lk_worker l) = xs \<Longrightarrow> lk_read l = length xs \<Longrightarrow> \<not> has_stopped (lk_worker l) \<Longrightarrow> session_recv l = None"
  by (simp add: session_recv_def)

text \<open>On a link with nothing left to take, a call is answered by the worker's answer to its request,
  unless the session locked of itself between the drain and the send.\<close>

lemma call_answer:
  assumes l: "listening W" and q: "lk_queue l = []" and ns: "\<not> has_stopped (lk_worker l)"
    and loud: "\<not> silent (is_unlocked (lk_worker l)) r" and c: "call H W ms r l = Some (a, l')"
  shows "(\<exists>n w1. idle_run H W n (lk_worker l) = Some w1 \<and> received w1 = received (lk_worker l) @ [LockedNow] \<and>
      is_unlocked (lk_worker l) \<and> \<not> is_unlocked w1 \<and> a = LockedNow) \<or>
    (\<exists>n w1 w2. idle_run H W n (lk_worker l) = Some w1 \<and> received w1 = received (lk_worker l) \<and>
      resume H W [Arrived r] w1 = Some w2 \<and> received w2 = received w1 @ [a] \<and> fits r a \<and> lk_queue l' = [])"
proof -
  let ?w = "lk_worker l"
  obtain l1 l2 where m: "worker_moves H W (fst ms) (drain l) = Some l1"
    "worker_moves H W (snd ms) (session_send r l1) = Some l2" "session_recv l2 = Some (a, l')"
    using c by (auto simp: call_def bind_eq_Some_conv)
  obtain n w1 where n: "idle_run H W n ?w = Some w1" and l1: "l1 = (drain l)\<lparr>lk_worker := w1\<rparr>"
    using moves_idle [OF m(1)] q by (auto simp: drain_def)
  note w1 = idle_run_says [OF l n ns]
  have s: "lk_worker (session_send r l1) = w1" "lk_queue (session_send r l1) = [r]" "lk_read l1 = length (received ?w)"
    using l1 q by (simp_all add: session_send_def drain_def)
  show ?thesis
  proof (cases "received w1 = received ?w")
    case False
    then have w1': "received w1 = received ?w @ [LockedNow]" "is_unlocked ?w" "\<not> is_unlocked w1" "\<not> has_stopped w1"
      using w1 by auto
    have "\<exists>rs. received (lk_worker l2) = received w1 @ rs \<and> lk_read l2 = length (received ?w)"
    proof -
      from moves_one [OF m(2) s(2)] consider "l2 = session_send r l1" |
        w2 k w' where "resume H W [Arrived r] w1 = Some w2" "idle_run H W k w2 = Some w'"
          "l2 = (session_send r l1)\<lparr>lk_worker := w', lk_queue := []\<rparr>" unfolding s(1) by blast
      then show ?thesis
      proof cases
        case 2
        obtain rs where rs: "event_answered (Arrived r) w1 w2 rs" using event_answers [OF l 2(1) w1'(4)] by blast
        have "received w' = received w2 \<or> received w' = received w2 @ [LockedNow]"
        proof (cases "has_stopped w2")
          case True
          then show ?thesis using 2(2) by (cases w2) auto
        qed (use idle_run_says [OF l 2(2)] in blast)
        then show ?thesis using rs 2(3) s(3) by (auto simp: event_answered_def session_send_def)
      qed (use s in \<open>simp add: session_send_def\<close>)
    qed
    then have "a = LockedNow" using m(3) session_recv_next [of l2 "received ?w" LockedNow] w1'(1) by auto
    then show ?thesis using n w1' by blast
  next
    case True
    then have w1': "is_unlocked w1 = is_unlocked ?w" "\<not> has_stopped w1" using w1 by auto
    from moves_one [OF m(2) s(2)] consider "l2 = session_send r l1" |
      w2 k w' where "resume H W [Arrived r] w1 = Some w2" "idle_run H W k w2 = Some w'"
        "l2 = (session_send r l1)\<lparr>lk_worker := w', lk_queue := []\<rparr>" unfolding s(1) by blast
    then show ?thesis
    proof cases
      case 1
      have "session_recv l2 = None"
        by (rule session_recv_none [of _ "received ?w"]) (use 1 s w1'(2) True in \<open>simp_all add: session_send_def\<close>)
      then show ?thesis using m(3) by simp
    next
      case 2
      obtain rs where rs: "event_answered (Arrived r) w1 w2 rs" using event_answers [OF l 2(1) w1'(2)] by blast
      then obtain b where b: "rs = [b]" "fits r b" using loud w1'(1) by (auto simp: event_answered_def)
      have "\<not> has_stopped w2" using rs loud by (auto simp: event_answered_def)
      then obtain ys where "received w' = received ?w @ b # ys"
        using idle_run_says [OF l 2(2)] rs b True by (auto simp: event_answered_def)
      then have "session_recv l2 = Some (b, l2\<lparr>lk_read := lk_read l2 + 1\<rparr>)"
        using session_recv_next [of l2 "received ?w" b ys] 2(3) s(3) by (simp add: session_send_def)
      then show ?thesis using n True 2 rs b m(3) by (auto simp: event_answered_def)
    qed
  qed
qed

text \<open>Whatever the methods do, the worker only ever consumes events.\<close>

lemma moves_events:
  "worker_moves H W ms l = Some l' \<Longrightarrow>
   \<exists>es. resume H W es (lk_worker l) = Some (lk_worker l') \<and> (\<forall>r. Arrived r \<in> set es \<longrightarrow> r \<in> set (lk_queue l)) \<and>
     set (lk_queue l') \<subseteq> set (lk_queue l) \<and> ChannelClosed \<notin> set es"
proof (induction ms arbitrary: l)
  case Nil
  then show ?case by (intro exI [of _ "[]"]) simp
next
  case (Cons m ms)
  obtain l1 where l1: "worker_move H W m l = Some l1" "worker_moves H W ms l1 = Some l'"
    using Cons.prems by (auto simp: bind_eq_Some_conv)
  obtain es where es: "resume H W es (lk_worker l1) = Some (lk_worker l')"
    "\<forall>r. Arrived r \<in> set es \<longrightarrow> r \<in> set (lk_queue l1)" "set (lk_queue l') \<subseteq> set (lk_queue l1)" "ChannelClosed \<notin> set es"
    using Cons.IH [OF l1(2)] by blast
  have "\<exists>fs. resume H W fs (lk_worker l) = Some (lk_worker l1) \<and> (\<forall>r. Arrived r \<in> set fs \<longrightarrow> r \<in> set (lk_queue l)) \<and>
     set (lk_queue l1) \<subseteq> set (lk_queue l) \<and> ChannelClosed \<notin> set fs"
  proof (cases m)
    case Take
    show ?thesis
    proof (cases "lk_queue l")
      case Nil
      then show ?thesis using l1 Take by (intro exI [of _ "[]"]) simp
    next
      case (Cons r q)
      then show ?thesis using l1 Take by (intro exI [of _ "[Arrived r]"]) auto
    qed
  next
    case Idle
    then show ?thesis using l1
      by (cases "lk_queue l = []") (auto intro: exI [of _ "[]"] exI [of _ "[IdleSecond]"])
  qed
  then obtain fs where fs: "resume H W fs (lk_worker l) = Some (lk_worker l1)" "\<forall>r. Arrived r \<in> set fs \<longrightarrow> r \<in> set (lk_queue l)"
     "set (lk_queue l1) \<subseteq> set (lk_queue l)" "ChannelClosed \<notin> set fs" by blast
  show ?case
    by (rule exI [of _ "fs @ es"]) (use fs es in \<open>auto simp: resume_append\<close>)
qed

end
