(* ===== verification/ForeignGuarantees.thy ===== *)
theory ForeignGuarantees
  imports ForeignApp WorkerGuarantees
begin

text \<open>
  The properties of the \<open>PassmanApp\<close> object and their witnesses: how its calls pair up with the answers
  of the worker, and how a lock request that is still under way breaks the pairing.
\<close>

section \<open>Properties\<close>

text \<open>C25. Calls pair up with answers.  On a link where the worker has taken every earlier request, a call
  that is not left unanswered returns the worker's own answer to it, of its kind, and leaves nothing
  to take; the one exception is a session that locks of itself between the drain and the send, whose
  \<open>Locked\<close> is then read instead.\<close>

theorem calls_pair_up:
  assumes "listening W" and "lk_queue l = []" and "\<not> has_stopped (lk_worker l)"
    and "\<not> silent (is_unlocked (lk_worker l)) r" and "call H W ms r l = Some (a, l')"
  shows "(\<exists>n w1. idle_run H W n (lk_worker l) = Some w1 \<and> received w1 = received (lk_worker l) @ [LockedNow] \<and>
      is_unlocked (lk_worker l) \<and> \<not> is_unlocked w1 \<and> a = LockedNow) \<or>
    (\<exists>n w1 w2. idle_run H W n (lk_worker l) = Some w1 \<and> received w1 = received (lk_worker l) \<and>
      resume H W [Arrived r] w1 = Some w2 \<and> received w2 = received w1 @ [a] \<and> fits r a \<and> lk_queue l' = [])"
  by (rule call_answer [OF assms])

lemma lock_taken:
  assumes "listening W"
  shows "\<exists>w. resume H W [Arrived LockSession] (WaitsUnlocked v) = Some w \<and> received w = got v @ [LockedNow] \<and>
    \<not> has_stopped w \<and> \<not> is_unlocked w"
  using assms by (simp add: drive_unlocked_def)

lemma unlock_taken:
  assumes "listening W" and "\<not> is_unlocked w" and "\<not> has_stopped w"
    and "resume H W [Arrived (UnlockVault m c)] w = Some w'" and "is_unlocked w'"
  shows "\<exists>es. received w' = received w @ [Unlocked es]"
proof -
  obtain rs where rs: "event_answered (Arrived (UnlockVault m c)) w w' rs"
    using event_answers [OF assms(1,4,3)] by blast
  then obtain a where a: "rs = [a]" "fits (UnlockVault m c) a" using assms(2) by (auto simp: event_answered_def)
  have "\<not> has_stopped w'" using assms(5) by (cases w') simp_all
  then have "track False a" using rs a(1) assms(2,5) by (simp add: event_answered_def)
  then show ?thesis using rs a by (cases a) (auto simp: event_answered_def)
qed

text \<open>C26. A lock under way breaks the pairing.  When the worker gets to the request of \<open>lock\<close> only after the
  next \<open>unlock\<close> has drained and sent, that \<open>unlock\<close> reads the lock's response and reports a locked session
  while its own request is still to come; the session it then opens is unknown to the caller, and the
  next \<open>list\<close> fails as an internal error on the answer to the \<open>unlock\<close>.\<close>

theorem lock_race_mispairs:
  assumes l: "listening W" and q: "lk_queue l = []" and w: "lk_worker l = WaitsUnlocked v"
    and u: "resume H W [Arrived LockSession, Arrived (UnlockVault m c)] (WaitsUnlocked v) = Some w2" "is_unlocked w2"
  shows "\<exists>l2 l3. foreign_unlock H W ([], [Take]) m c (foreign_lock l) = Some (Inl AppLocked, l2) \<and>
    lk_queue l2 = [UnlockVault m c] \<and>
    foreign_list H W ([], [Take]) l2 = Some (Inl (Failed ''unexpected internal response''), l3) \<and>
    lk_worker l3 = w2 \<and> lk_queue l3 = [Refresh]"
proof -
  obtain w1 where w1: "resume H W [Arrived LockSession] (WaitsUnlocked v) = Some w1" "received w1 = got v @ [LockedNow]"
    "\<not> has_stopped w1" "\<not> is_unlocked w1" using lock_taken [OF l] by blast
  have w2: "resume H W [Arrived (UnlockVault m c)] w1 = Some w2"
    using u(1) resume_append [of H W "[Arrived LockSession]" "[Arrived (UnlockVault m c)]" "WaitsUnlocked v"] w1(1) by simp
  obtain es where es: "received w2 = received w1 @ [Unlocked es]" using unlock_taken [OF l w1(4,3) w2 u(2)] by blast
  let ?l2 = "l\<lparr>lk_worker := w1, lk_queue := [UnlockVault m c], lk_read := length (received w1)\<rparr>"
  have one: "call H W ([], [Take]) (UnlockVault m c) (foreign_lock l) = Some (LockedNow, ?l2)"
    using w1(1,2) q w by (simp add: call_def foreign_lock_def drain_def session_send_def session_recv_def)
  have two: "call H W ([], [Take]) Refresh ?l2 = Some (Unlocked es, l\<lparr>lk_worker := w2, lk_queue := [Refresh],
      lk_read := length (received w1) + 1\<rparr>)"
    using w2 es by (simp add: call_def drain_def session_send_def session_recv_def)
  show ?thesis
    using one two by (simp add: foreign_unlock_def foreign_list_def expect_entries_def via_def)
qed

section \<open>Witnesses\<close>

abbreviation demo_foreign :: "ustring option bridged shell" where
  "demo_foreign \<equiv> foreign_shell toy_clipboard_bridge (\<lambda>_. 30) True"

definition demo_link :: "(unit, ustring option bridged) link" where
  "demo_link = session_spawn demo_app \<lparr>bg_os = None, bg_reads = 0\<rparr>"

lemma demo_foreign_simps [simp]: "listening demo_foreign" "sh_prompter demo_foreign = demo_prompter"
  by (simp_all add: foreign_shell_def listening_def noop_prompter_def demo_prompter_def mock_prompter_def fun_eq_iff)

lemma calls_pair_up_witness:
  "\<exists>uri l'. foreign_create demo_host demo_foreign ([], [Take]) [] ChooseLow demo_link = Some (Inr uri, l') \<and> lk_queue l' = []"
proof -
  obtain uri s0 and ua :: unlocked_app where
    c: "create_vault demo_host [] KDF_LOW totp_config_default demo_prompter demo_app = (Inr (ua, uri), s0)"
    by (rule demo_session) blast
  obtain l0 v where v: "enter_session demo_host demo_foreign (Created uri) [] (s0, ua) \<lparr>bg_os = None, bg_reads = 0\<rparr> \<lparr>ch_received = [], ch_sends = 0\<rparr>
      = Some (Inr (WaitsUnlocked v))" "got v = [Created uri l0]"
    using enter_session_Nil [OF demo_foreign_simps(1), of demo_host "Created uri" "(s0, ua)" _ "\<lparr>ch_received = [], ch_sends = 0\<rparr>"]
    by fastforce
  have r: "resume demo_host demo_foreign [Arrived (CreateVault [] KDF_LOW)] (lk_worker demo_link) = Some (WaitsUnlocked v)"
    using c v(1) by (simp add: demo_link_def session_spawn_def run_worker_round)
  obtain l' where l': "call demo_host demo_foreign ([], [Take]) (CreateVault [] KDF_LOW) demo_link = Some (Created uri l0, l')"
    using r v(2) by (simp add: call_def drain_def session_send_def session_recv_def) (simp add: demo_link_def session_spawn_def)
  have "lk_queue l' = []"
    using calls_pair_up [OF demo_foreign_simps(1) _ _ _ l'] by (auto simp: demo_link_def session_spawn_def)
  then show ?thesis using l' by (simp add: foreign_create_def via_def)
qed

lemma lock_race_mispairs_witness:
  "\<exists>pw v l2 l3 w. foreign_unlock demo_host demo_foreign ([], [Take]) pw (ustr ''000001'')
      (foreign_lock \<lparr>lk_worker = WaitsUnlocked v, lk_queue = [], lk_read = 0\<rparr>) = Some (Inl AppLocked, l2) \<and>
    foreign_list demo_host demo_foreign ([], [Take]) l2 = Some (Inl (Failed ''unexpected internal response''), l3) \<and>
    lk_worker l3 = WaitsUnlocked w"
proof -
  obtain pw s0 v0 and ua0 :: unlocked_app where p: "provisioned demo_opens demo_host pw (k_master ua0) (ua_totp_seed ua0) v0 s0"
    and co: "cooperates prompt_passes demo_host v0 (ua_totp_seed ua0) (ustr ''000001'') demo_prompter s0"
    by (rule demo_unlockable) blast
  obtain ua s' where u: "unlock demo_host pw (ustr ''000001'') demo_prompter s0 = (Inr ua, s')"
    using provisioned_unlocks [OF demo_store p co] by blast
  let ?c = "\<lparr>bg_os = None, bg_reads = 0\<rparr> :: ustring option bridged"
  let ?v = "serve (s0, ua0) ?c None no_responses"
  have t: "trim (ustr ''000001'') = ustr ''000001''" by (simp add: trim_def ustr_def is_whitespace_def)
  let ?h = "\<lparr>ch_received = [LockedNow], ch_sends = 1\<rparr>"
  obtain es w where w: "enter_session demo_host demo_foreign Unlocked [] (s', ua) ?c ?h = Some (Inr (WaitsUnlocked w))"
    using enter_session_Nil [OF demo_foreign_simps(1), of demo_host Unlocked "(s', ua)" ?c ?h] by blast
  have "resume demo_host demo_foreign [Arrived LockSession] (WaitsUnlocked ?v) = Some (WaitsLocked s0 ?c ?h)"
    by (simp add: drive_unlocked_def send_or_lock_def wipe_clipboard_on_exit_def no_responses_def)
  then have r: "resume demo_host demo_foreign [Arrived LockSession, Arrived (UnlockVault pw (ustr ''000001''))] (WaitsUnlocked ?v)
      = Some (WaitsUnlocked w)"
    using resume_append [of demo_host demo_foreign "[Arrived LockSession]" "[Arrived (UnlockVault pw (ustr ''000001''))]" "WaitsUnlocked ?v"]
      u w t by (simp add: run_worker_round)
  obtain l2 l3 where "foreign_unlock demo_host demo_foreign ([], [Take]) pw (ustr ''000001'')
      (foreign_lock \<lparr>lk_worker = WaitsUnlocked ?v, lk_queue = [], lk_read = 0\<rparr>) = Some (Inl AppLocked, l2)"
    "foreign_list demo_host demo_foreign ([], [Take]) l2 = Some (Inl (Failed ''unexpected internal response''), l3)"
    "lk_worker l3 = WaitsUnlocked w"
    using lock_race_mispairs [OF demo_foreign_simps(1) _ _ r, of "\<lparr>lk_worker = WaitsUnlocked ?v, lk_queue = [], lk_read = 0\<rparr>"]
    by auto
  then show ?thesis by blast
qed

end
