(* ===== verification/Platform.thy ===== *)
theory Platform
  imports Storage
begin

text \<open>
  \<open>passman-platform\<close>: where the files of an installation live (\<open>paths.rs\<close>) and the plaintext settings
  file (\<open>settings.rs\<close>).  The \<open>toml\<close> and \<open>directories\<close> crates are parameters: a TOML text parses to its
  keys and values, and the deserialization \<open>serde\<close> derives (closed key set, defaults for missing keys)
  is written out.  Directories are a map from paths to their modes.
\<close>

datatype settings_fault = Malformed string | UnknownKey ustring | WrongType ustring

datatype platform_error = NoBaseDirectories | InvalidSettings settings_fault | PlatformIo string

section \<open>Paths\<close>

definition APP_DIR :: ustring where "APP_DIR = ustr ''passman''"
definition VAULT_FILE :: ustring where "VAULT_FILE = ustr ''vault.pmv''"
definition SETTINGS_FILE :: ustring where "SETTINGS_FILE = ustr ''settings.toml''"

record base_dirs =
  data_dir :: path
  config_dir :: path
  state_dir :: "path option"
  data_local_dir :: path

record paths =
  vault_path :: path
  settings_path :: path
  log_path :: "path option"

definition paths_discover :: "base_dirs option \<Rightarrow> platform_error + paths" where
  "paths_discover base =
     (case base of
        None \<Rightarrow> Inl NoBaseDirectories
      | Some b \<Rightarrow> Inr \<lparr>vault_path = data_dir b @ [APP_DIR] @ [VAULT_FILE],
          settings_path = config_dir b @ [APP_DIR] @ [SETTINGS_FILE],
          log_path = Some ((case state_dir b of Some d \<Rightarrow> d | None \<Rightarrow> data_local_dir b) @ [APP_DIR])\<rparr>)"

definition under_base :: "path \<Rightarrow> paths" where
  "under_base base = \<lparr>vault_path = base @ [VAULT_FILE], settings_path = base @ [SETTINGS_FILE], log_path = None\<rparr>"

text \<open>Mode 0700, and the directories that exist.  \<open>ok d\<close> says whether the system can create \<open>d\<close>.\<close>

definition OWNER_DIR :: nat where "OWNER_DIR = 7 * 8 * 8"

type_synonym dirs = "path \<Rightarrow> nat option"

text \<open>\<open>DirBuilder\<close>, recursive: every missing directory on the way, from the root down, with the mode.\<close>

fun make_dirs :: "(path \<Rightarrow> bool) \<Rightarrow> nat \<Rightarrow> path list \<Rightarrow> dirs \<Rightarrow> bool \<times> dirs" where
  "make_dirs ok mode [] ds = (True, ds)"
| "make_dirs ok mode (d # rest) ds =
     (if ds d \<noteq> None then make_dirs ok mode rest ds
      else if ok d then make_dirs ok mode rest (ds(d \<mapsto> mode))
      else (False, ds))"

definition ancestors :: "path \<Rightarrow> path list" where
  "ancestors p = map (\<lambda>n. take n p) [0..<Suc (length p)]"

definition create_dir_secure :: "(path \<Rightarrow> bool) \<Rightarrow> path \<Rightarrow> dirs \<Rightarrow> (platform_error + unit) \<times> dirs" where
  "create_dir_secure ok dir ds =
     (case make_dirs ok OWNER_DIR (ancestors dir) ds of
        (True, ds') \<Rightarrow> (Inr (), ds') | (False, ds') \<Rightarrow> (Inl (PlatformIo ''create app directory''), ds'))"

fun create_all :: "(path \<Rightarrow> bool) \<Rightarrow> path list \<Rightarrow> dirs \<Rightarrow> (platform_error + unit) \<times> dirs" where
  "create_all ok [] ds = (Inr (), ds)"
| "create_all ok (d # rest) ds = st_then (create_dir_secure ok d) (\<lambda>_. create_all ok rest) ds"

definition ensure_dirs :: "(path \<Rightarrow> bool) \<Rightarrow> paths \<Rightarrow> dirs \<Rightarrow> (platform_error + unit) \<times> dirs" where
  "ensure_dirs ok p =
     create_all ok (concat (map (case_option [] (\<lambda>d. [d]))
       [parent_of (vault_path p), parent_of (settings_path p), log_path p]))"

section \<open>Settings\<close>

record settings =
  update_check :: bool
  totp_seed_pin :: bool
  clipboard_fact_overwrite :: bool

definition settings_default :: settings where
  "settings_default = \<lparr>update_check = False, totp_seed_pin = False, clipboard_fact_overwrite = True\<rparr>"

datatype toml_value = TomlBool bool | TomlOther

record toml_lib =
  toml_parse :: "ustring \<Rightarrow> string + (ustring \<times> toml_value) list"
  toml_print :: "(ustring \<times> bool) list \<Rightarrow> ustring option"

definition KEY_UPDATE :: ustring where "KEY_UPDATE = ustr ''update_check''"
definition KEY_PIN :: ustring where "KEY_PIN = ustr ''totp_seed_pin''"
definition KEY_FACT :: ustring where "KEY_FACT = ustr ''clipboard_fact_overwrite''"

fun settings_field :: "ustring \<times> toml_value \<Rightarrow> settings \<Rightarrow> settings_fault + settings" where
  "settings_field (k, TomlBool b) s =
     (if k = KEY_UPDATE then Inr (s\<lparr>update_check := b\<rparr>)
      else if k = KEY_PIN then Inr (s\<lparr>totp_seed_pin := b\<rparr>)
      else if k = KEY_FACT then Inr (s\<lparr>clipboard_fact_overwrite := b\<rparr>)
      else Inl (UnknownKey k))"
| "settings_field (k, TomlOther) s =
     (if k \<in> {KEY_UPDATE, KEY_PIN, KEY_FACT} then Inl (WrongType k) else Inl (UnknownKey k))"

fun settings_fields :: "(ustring \<times> toml_value) list \<Rightarrow> settings \<Rightarrow> settings_fault + settings" where
  "settings_fields [] s = Inr s"
| "settings_fields (f # fs) s = and_then (settings_field f s) (settings_fields fs)"

definition settings_from_toml :: "toml_lib \<Rightarrow> ustring \<Rightarrow> platform_error + settings" where
  "settings_from_toml L t =
     map_err InvalidSettings (and_then (map_err Malformed (toml_parse L t)) (\<lambda>kvs. settings_fields kvs settings_default))"

definition settings_rows :: "settings \<Rightarrow> (ustring \<times> bool) list" where
  "settings_rows s = [(KEY_UPDATE, update_check s), (KEY_PIN, totp_seed_pin s), (KEY_FACT, clipboard_fact_overwrite s)]"

definition settings_to_toml :: "toml_lib \<Rightarrow> settings \<Rightarrow> ustring" where
  "settings_to_toml L s = (case toml_print L (settings_rows s) of Some t \<Rightarrow> t | None \<Rightarrow> [])"

text \<open>\<open>readable\<close>: the file can be looked up and, if it exists, read.\<close>

definition settings_load :: "toml_lib \<Rightarrow> bool \<Rightarrow> path \<Rightarrow> fs \<Rightarrow> platform_error + settings" where
  "settings_load L readable p fs =
     (if \<not> readable then Inl (PlatformIo ''read settings file'')
      else case fs p of
        None \<Rightarrow> Inr settings_default
      | Some f \<Rightarrow> (case from_utf8 (f_content f) of
          None \<Rightarrow> Inl (PlatformIo ''read settings file'') | Some t \<Rightarrow> settings_from_toml L t))"

section \<open>Saving\<close>

text \<open>The name of the temporary file: process, time, and a counter of the process.\<close>

definition settings_temp :: "nat \<Rightarrow> nat \<Rightarrow> path \<Rightarrow> 64 word \<Rightarrow> path \<times> 64 word" where
  "settings_temp pid nanos p seq =
     (let file_name = (case file_name_of p of None \<Rightarrow> ustr ''settings'' | Some n \<Rightarrow> n);
          tmp_name = ustr ''.'' @ file_name @ ustr ''.'' @ ustr (show_nat pid) @ ustr ''.'' @ ustr (show_nat nanos) @
            ustr ''.'' @ ustr (show_nat (unat seq)) @ ustr ''.tmp''
      in (case parent_of p of Some d \<Rightarrow> d @ [tmp_name] | None \<Rightarrow> [tmp_name], seq + 1))"

definition settings_write_temp :: "write_io \<Rightarrow> path \<Rightarrow> bytes \<Rightarrow> fs \<Rightarrow> (platform_error + unit) \<times> fs" where
  "settings_write_temp io tmp b fs =
     (if \<not> io_create io \<or> fs tmp \<noteq> None then (Inl (PlatformIo ''create temp settings file''), fs)
      else case io_written io of
        Some k \<Rightarrow> (Inl (PlatformIo ''write temp settings file''),
          fs(tmp \<mapsto> \<lparr>f_content = take k b, f_mode = OWNER_ONLY\<rparr>))
      | None \<Rightarrow>
          (if io_sync io then Inr () else Inl (PlatformIo ''fsync temp settings file''),
           fs(tmp \<mapsto> \<lparr>f_content = b, f_mode = OWNER_ONLY\<rparr>)))"

definition settings_atomic_write :: "write_io \<Rightarrow> nat \<Rightarrow> nat \<Rightarrow> path \<Rightarrow> ustring \<Rightarrow> fs \<times> 64 word \<Rightarrow>
    (platform_error + unit) \<times> fs \<times> 64 word" where
  "settings_atomic_write io pid nanos p t = (\<lambda>(fs, seq).
     (let (tmp, seq') = settings_temp pid nanos p seq in
      case settings_write_temp io tmp (utf8_enc t) fs of
        (Inl e, fs1) \<Rightarrow> (Inl e, remove_file io tmp fs1, seq')
      | (Inr _, fs1) \<Rightarrow>
          if io_rename io then (Inr (), fs1(p := fs1 tmp, tmp := None), seq')
          else (Inl (PlatformIo ''rename temp settings file over target''), remove_file io tmp fs1, seq')))"

definition settings_save :: "toml_lib \<Rightarrow> (path \<Rightarrow> bool) \<Rightarrow> nat \<Rightarrow> write_io \<Rightarrow> nat \<Rightarrow> nat \<Rightarrow> path \<Rightarrow> settings \<Rightarrow>
    dirs \<times> fs \<times> 64 word \<Rightarrow> (platform_error + unit) \<times> dirs \<times> fs \<times> 64 word" where
  "settings_save L ok umask_mode io pid nanos p s = (\<lambda>(ds, x).
     (case (case parent_of p of None \<Rightarrow> (True, ds) | Some d \<Rightarrow> make_dirs ok umask_mode (ancestors d) ds) of
        (False, ds') \<Rightarrow> (Inl (PlatformIo ''create settings directory''), ds', x)
      | (True, ds') \<Rightarrow> (case settings_atomic_write io pid nanos p (settings_to_toml L s) x of (r, x') \<Rightarrow> (r, ds', x'))))"

section \<open>Directories\<close>

lemma make_dirs_effect:
  "make_dirs ok mode l ds = (b, ds') \<Longrightarrow>
     (\<forall>d. ds d \<noteq> None \<longrightarrow> ds' d = ds d) \<and> (\<forall>d. ds' d \<noteq> ds d \<longrightarrow> d \<in> set l \<and> ds' d = Some mode) \<and>
     (b \<longrightarrow> (\<forall>d\<in>set l. ds' d \<noteq> None))"
proof (induction ok mode l ds rule: make_dirs.induct)
  case (2 ok mode d rest ds)
  show ?case
  proof (cases "ds d")
    case None
    show ?thesis
    proof (cases "ok d")
      case True
      have m: "make_dirs ok mode rest (ds(d \<mapsto> mode)) = (b, ds')" using 2(3) None True by simp
      have i: "(\<forall>e. (ds(d \<mapsto> mode)) e \<noteq> None \<longrightarrow> ds' e = (ds(d \<mapsto> mode)) e) \<and>
          (\<forall>e. ds' e \<noteq> (ds(d \<mapsto> mode)) e \<longrightarrow> e \<in> set rest \<and> ds' e = Some mode) \<and> (b \<longrightarrow> (\<forall>e\<in>set rest. ds' e \<noteq> None))"
        by (rule 2(2) [OF _ True m]) (simp add: None)
      have d: "ds' d = Some mode" using i [THEN conjunct1, rule_format, of d] by simp
      have a: "ds' e = ds e" if "ds e \<noteq> None" for e
        using i [THEN conjunct1, rule_format, of e] that None by (cases "e = d") simp_all
      have c: "e \<in> set (d # rest) \<and> ds' e = Some mode" if "ds' e \<noteq> ds e" for e
        using i [THEN conjunct2, THEN conjunct1, rule_format, of e] that d by (cases "e = d") simp_all
      have t: "ds' e \<noteq> None" if "b" "e \<in> set (d # rest)" for e
        using i [THEN conjunct2, THEN conjunct2] that d by (cases "e = d") simp_all
      show ?thesis using a c t by blast
    qed (use 2(3) None in simp)
  next
    case (Some m)
    then have "make_dirs ok mode rest ds = (b, ds')" using 2(3) by simp
    then show ?thesis using 2(1) Some by auto
  qed
qed simp

lemma create_dir_effect:
  "create_dir_secure ok d ds = (r, ds') \<Longrightarrow>
     (\<forall>e. ds e \<noteq> None \<longrightarrow> ds' e = ds e) \<and> (\<forall>e. ds' e \<noteq> ds e \<longrightarrow> ds' e = Some OWNER_DIR) \<and> (is_ok r \<longrightarrow> ds' d \<noteq> None)"
proof -
  assume c: "create_dir_secure ok d ds = (r, ds')"
  obtain b ds1 where m: "make_dirs ok OWNER_DIR (ancestors d) ds = (b, ds1)" by fastforce
  have "d \<in> set (ancestors d)" by (auto simp: ancestors_def intro!: image_eqI [of _ _ "length d"])
  then show ?thesis using make_dirs_effect [OF m] c m by (cases b) (auto simp: create_dir_secure_def is_ok_simps)
qed

lemma create_all_effect:
  "create_all ok l ds = (r, ds') \<Longrightarrow>
     (\<forall>e. ds e \<noteq> None \<longrightarrow> ds' e = ds e) \<and> (\<forall>e. ds' e \<noteq> ds e \<longrightarrow> ds' e = Some OWNER_DIR) \<and>
     (is_ok r \<longrightarrow> (\<forall>d\<in>set l. ds' d \<noteq> None))"
proof (induction ok l ds arbitrary: r rule: create_all.induct)
  case (2 ok d rest ds)
  obtain r1 ds1 where c: "create_dir_secure ok d ds = (r1, ds1)" by fastforce
  note e = create_dir_effect [OF c]
  show ?case
  proof (cases r1)
    case (Inl x)
    then show ?thesis using 2(2) c e by (auto simp: st_then_def is_ok_simps)
  next
    case (Inr u)
    then have a: "create_all ok rest ds1 = (r, ds')" using 2(2) c by (simp add: st_then_def)
    have "(\<forall>e. ds1 e \<noteq> None \<longrightarrow> ds' e = ds1 e) \<and> (\<forall>e. ds' e \<noteq> ds1 e \<longrightarrow> ds' e = Some OWNER_DIR) \<and>
        (is_ok r \<longrightarrow> (\<forall>d\<in>set rest. ds' d \<noteq> None))" by (rule 2(1) [OF a])
    moreover have "ds1 d \<noteq> None" using e Inr by (simp add: is_ok_simps)
    ultimately show ?thesis using e by (intro conjI allI impI ballI) (metis, metis, metis set_ConsD)
  qed
qed simp

section \<open>The settings file\<close>

text \<open>What \<open>toml\<close> documents of a table of booleans: it prints, and what it printed parses to it.\<close>

definition toml_ok :: "toml_lib \<Rightarrow> bool" where
  "toml_ok L \<longleftrightarrow> (\<forall>kvs. distinct (map fst kvs) \<longrightarrow> (\<exists>t. toml_print L kvs = Some t \<and> str_ok t \<and>
     toml_parse L t = Inr (map (\<lambda>(k, b). (k, TomlBool b)) kvs)))"

lemma settings_keys: "KEY_UPDATE \<noteq> KEY_PIN" "KEY_UPDATE \<noteq> KEY_FACT" "KEY_PIN \<noteq> KEY_FACT"
  by (simp_all add: KEY_UPDATE_def KEY_PIN_def KEY_FACT_def ustr_def)

lemma settings_toml_roundtrip:
  assumes "toml_ok L"
  shows "settings_from_toml L (settings_to_toml L s) = Inr s \<and> str_ok (settings_to_toml L s)"
proof -
  have "distinct (map fst (settings_rows s))" using settings_keys by (simp add: settings_rows_def)
  then obtain t where t: "toml_print L (settings_rows s) = Some t" "str_ok t"
    "toml_parse L t = Inr (map (\<lambda>(k, b). (k, TomlBool b)) (settings_rows s))"
    using assms unfolding toml_ok_def by blast
  then show ?thesis using settings_keys
    by (simp add: settings_to_toml_def settings_from_toml_def settings_rows_def settings_default_def)
qed

text \<open>What a parsed file says: every key is one of the three and carries a boolean.\<close>

lemma settings_fields_closed:
  "settings_fields kvs s = Inr s' \<Longrightarrow> (k, v) \<in> set kvs \<Longrightarrow> k \<in> {KEY_UPDATE, KEY_PIN, KEY_FACT} \<and> (\<exists>b. v = TomlBool b)"
proof (induction kvs arbitrary: s)
  case (Cons f fs)
  obtain s1 where s1: "settings_field f s = Inr s1" "settings_fields fs s1 = Inr s'"
    using Cons.prems(1) by (auto simp: and_then_Inr_iff)
  then show ?case using Cons.IH [OF s1(2)] Cons.prems(2)
    by (cases f; cases "snd f") (auto split: if_splits)
qed simp

lemma settings_temp_fresh:
  "settings_temp pid nanos p seq = (tmp, seq') \<Longrightarrow> tmp \<noteq> p"
proof -
  assume t: "settings_temp pid nanos p seq = (tmp, seq')"
  show ?thesis
  proof (cases "p = []")
    case False
    then have "length (last tmp) > length (last p)"
      using t by (auto simp: settings_temp_def parent_of_def file_name_of_def Let_def ustr_def)
    then show ?thesis by auto
  qed (use t in \<open>auto simp: settings_temp_def parent_of_def Let_def\<close>)
qed

lemma settings_write_effect:
  assumes "settings_atomic_write io pid nanos p t (fs, seq) = (r, fs', seq')"
  shows "(\<forall>q. q \<noteq> p \<longrightarrow> q \<noteq> fst (settings_temp pid nanos p seq) \<longrightarrow> fs' q = fs q) \<and>
    (case r of Inr _ \<Rightarrow> fs' p = Some \<lparr>f_content = utf8_enc t, f_mode = OWNER_ONLY\<rparr> | Inl _ \<Rightarrow> fs' p = fs p)"
proof -
  obtain tmp s1 where t: "settings_temp pid nanos p seq = (tmp, s1)" by fastforce
  have ne: "tmp \<noteq> p" by (rule settings_temp_fresh [OF t])
  obtain x fs1 where w: "settings_write_temp io tmp (utf8_enc t) fs = (x, fs1)" by fastforce
  have k: "fs1 q = fs q" if "q \<noteq> tmp" for q
    using w that by (auto simp: settings_write_temp_def split: if_splits option.splits)
  have c: "fs1 tmp = Some \<lparr>f_content = utf8_enc t, f_mode = OWNER_ONLY\<rparr>" if "x = Inr ()"
    using w that by (auto simp: settings_write_temp_def split: if_splits option.splits)
  show ?thesis
  proof (cases x)
    case (Inl e)
    then show ?thesis using assms t w k ne by (auto simp: settings_atomic_write_def remove_file_def)
  next
    case (Inr u)
    then show ?thesis using assms t w k ne c
      by (auto simp: settings_atomic_write_def remove_file_def split: if_splits)
  qed
qed

section \<open>Properties\<close>


text \<open>Settings fail closed.  Loading gives settings only if the file is missing (the defaults, with
  the network check off) or is a valid document whose every key is one of the three, with a boolean;
  each setting is then the one given, or the default.\<close>

lemma settings_fail_closed:
  assumes "settings_load L readable p fs = Inr s"
  shows "(fs p = None \<and> s = settings_default \<and> \<not> update_check s) \<or>
    (\<exists>f t kvs. fs p = Some f \<and> from_utf8 (f_content f) = Some t \<and> toml_parse L t = Inr kvs \<and>
       settings_fields kvs settings_default = Inr s \<and>
       (\<forall>(k, v)\<in>set kvs. k \<in> {KEY_UPDATE, KEY_PIN, KEY_FACT} \<and> (\<exists>b. v = TomlBool b)))"
proof (cases "fs p")
  case None
  then show ?thesis using assms by (auto simp: settings_load_def settings_default_def split: if_splits)
next
  case (Some f)
  then obtain t kvs where "from_utf8 (f_content f) = Some t" "toml_parse L t = Inr kvs"
    "settings_fields kvs settings_default = Inr s"
    using assms by (auto simp: settings_load_def settings_from_toml_def and_then_Inr_iff map_err_Inr_iff
        split: if_splits option.splits)
  then show ?thesis using Some settings_fields_closed by blast
qed

section \<open>Witnesses\<close>

text \<open>A toy TOML: a character of a key is written in unary, and a key is closed by its value.\<close>

definition toy_key :: "ustring \<Rightarrow> ustring" where
  "toy_key k = concat (map (\<lambda>n. replicate n 97 @ [98]) k)"

fun toy_rows :: "nat \<Rightarrow> ustring \<Rightarrow> ustring \<Rightarrow> (ustring \<times> toml_value) list" where
  "toy_rows n k [] = []"
| "toy_rows n k (c # cs) = (if c = 97 then toy_rows (Suc n) k cs else if c = 98 then toy_rows 0 (k @ [n]) cs
     else (k, TomlBool (c = 100)) # toy_rows 0 [] cs)"

definition toy_toml :: toml_lib where
  "toy_toml = \<lparr>toml_parse = (\<lambda>t. Inr (toy_rows 0 [] t)),
     toml_print = (\<lambda>kvs. Some (concat (map (\<lambda>(k, b). toy_key k @ [if b then 100 else 101]) kvs)))\<rparr>"

lemma toy_rows_key: "toy_rows 0 k (toy_key l @ rest) = toy_rows 0 (k @ l) rest"
proof (induction l arbitrary: k)
  case (Cons n l)
  have "toy_rows m k (replicate n 97 @ x) = toy_rows (m + n) k x" for m x by (induction n arbitrary: m) simp_all
  then show ?case using Cons by (simp add: toy_key_def)
qed (simp add: toy_key_def)

lemma toy_toml_ok: "toml_ok toy_toml"
proof -
  have "toy_rows 0 [] (concat (map (\<lambda>(k, b). toy_key k @ [if b then 100 else 101]) kvs)) = map (\<lambda>(k, b). (k, TomlBool b)) kvs" for kvs
    by (induction kvs) (auto simp: toy_rows_key)
  moreover have "str_ok (concat (map (\<lambda>(k, b). toy_key k @ [if b then 100 else 101]) kvs))" for kvs :: "(ustring \<times> bool) list"
    by (auto simp: str_ok_def is_scalar_def toy_key_def list_all_iff split: if_splits)
  ultimately show ?thesis by (auto simp: toml_ok_def toy_toml_def)
qed


lemma settings_fail_closed_witness:
  "settings_load toy_toml True [ustr ''settings.toml''] Map.empty = Inr settings_default \<and> \<not> update_check settings_default"
proof -
  have l: "settings_load toy_toml True [ustr ''settings.toml''] Map.empty = Inr settings_default" by (simp add: settings_load_def)
  show ?thesis using settings_fail_closed [OF l] l by simp
qed

end
