(* ===== verification/Cli.thy ===== *)
theory Cli
  imports Unlocked Platform ErrorText HsmLinux
begin

text \<open>
  \<open>passman-cli\<close>: the command-line shell.  The state of a command, the record \<open>desk\<close>, is the application,
  the clipboard, the terminal and the directories.  The terminal holds the lines still to be read and
  a log of everything printed, asked and waited for; messages are constructors that carry what the
  text shows.  The parameters of \<open>CliEnv\<close>, and the outcomes of the file-system calls the shell itself
  makes, are the record \<open>cli_env\<close>.  Commands that generate a password may draw forever and are partial.
\<close>

section \<open>The command line\<close>

datatype cli_preset = PresetLow | PresetMedium | PresetHigh

fun preset_kdf :: "cli_preset \<Rightarrow> kdf_params" where
  "preset_kdf PresetLow = KDF_LOW"
| "preset_kdf PresetMedium = KDF_MEDIUM"
| "preset_kdf PresetHigh = KDF_HIGH"

datatype rec_preset = Rec1Gb | Rec4Gb | Rec8Gb

fun rec_params :: "rec_preset \<Rightarrow> recovery_preset" where
  "rec_params Rec1Gb = PresetFloor"
| "rec_params Rec4Gb = PresetDefault"
| "rec_params Rec8Gb = PresetParanoid"

datatype cli_field = CliUsername | CliPassword | CliUrl | CliNotes

fun cli_reveal :: "cli_field \<Rightarrow> reveal_field" where
  "cli_reveal CliUsername = Username"
| "cli_reveal CliPassword = Password"
| "cli_reveal CliUrl = Url"
| "cli_reveal CliNotes = Notes"

datatype cli_command =
    CmdInit cli_preset
  | CmdList
  | CmdAdd ustring bool "16 word option"
  | CmdGet ustring bool cli_field
  | CmdRm ustring
  | CmdGen "16 word option"
  | CmdExport path rec_preset
  | CmdImport path cli_preset
  | CmdPasswd cli_preset

record cli_args =
  arg_allow_software_hsm :: bool
  arg_vault_dir :: "path option"
  arg_command :: cli_command

definition default_length :: "16 word" where "default_length = DEFAULT_LENGTH"

section \<open>Errors and exit codes\<close>

datatype cli_error =
    VaultInUse
  | OpenFailed core_error
  | InputFailed
  | NoVaultAt path
  | VaultExistsAt path
  | WrongCredentials
  | TryAgainIn nat
  | UnlockCancelled
  | UnlockTransient
  | UnlockNeedsRecovery
  | UnlockNeedsSoftware
  | UnlockCorrupt
  | NoEntryLabelled ustring
  | SeveralLabelled ustring
  | PasswordsDiffer
  | GenerationFailed policy_error
  | DirectoryFailed platform_error
  | CreationFailed core_error
  | OperationFailed core_error
  | ExportPathTaken path
  | ExportNeedsStrong
  | ExportFailed core_error
  | ExportNotWritten path
  | ImportUnreadable path
  | ImportFailed core_error
  | PasswdFailed core_error
  | NoLocation platform_error
  | SettingsUnreadable platform_error
  | NoHardware
  | BackendUnselected hsm_error

datatype exit_class = General | NotFound | AuthFailed | ExitLockedOut | ExitAlreadyRunning

text \<open>The errors built with \<open>tagged\<close>; every other one is general.\<close>

fun exit_classify :: "cli_error \<Rightarrow> exit_class" where
  "exit_classify VaultInUse = ExitAlreadyRunning"
| "exit_classify WrongCredentials = AuthFailed"
| "exit_classify (TryAgainIn _) = ExitLockedOut"
| "exit_classify (NoEntryLabelled _) = NotFound"
| "exit_classify _ = General"

fun exit_code :: "exit_class \<Rightarrow> 8 word" where
  "exit_code General = 1"
| "exit_code NotFound = 3"
| "exit_code AuthFailed = 4"
| "exit_code ExitLockedOut = 5"
| "exit_code ExitAlreadyRunning = 6"

definition exit_status :: "cli_error \<Rightarrow> 8 word" where
  "exit_status e = exit_code (exit_classify e)"

fun cli_unlock_error :: "unlock_error \<Rightarrow> cli_error" where
  "cli_unlock_error BadCredentials = WrongCredentials"
| "cli_unlock_error (LockedOut left) = TryAgainIn (max (as_secs left) 1)"
| "cli_unlock_error UCancelled = UnlockCancelled"
| "cli_unlock_error URetryable = UnlockTransient"
| "cli_unlock_error RouteToRecovery = UnlockNeedsRecovery"
| "cli_unlock_error USoftwareHsmRefused = UnlockNeedsSoftware"
| "cli_unlock_error (UHsm _) = UnlockCorrupt"
| "cli_unlock_error (MalformedVault _) = UnlockCorrupt"

fun cli_open_error :: "core_error \<Rightarrow> cli_error" where
  "cli_open_error AlreadyRunning = VaultInUse"
| "cli_open_error e = OpenFailed e"

fun cli_export_error :: "core_error \<Rightarrow> cli_error" where
  "cli_export_error WeakPasswordForExport = ExportNeedsStrong"
| "cli_export_error e = ExportFailed e"

section \<open>The terminal\<close>

datatype status =
    WeakWarning f64
  | DerivingVaultKey
  | SaveThisSecret
  | VaultCreatedAt path
  | NoEntries
  | PasswordGenerated
  | EntryAdded ustring
  | CopiedFor nat
  | ClearStatus clear_outcome
  | EntryRemoved ustring
  | FreshReauth
  | DerivingRecoveryKey
  | RecoveryWrittenTo path
  | DerivingFromFile
  | ReprovisionSecret
  | VaultRestored path nat
  | Rekeying
  | ExportIsStale
  | PasswordChanged

datatype said = Out ustring | Err status | Asked string | Slept duration

text \<open>A line still to be read is \<open>None\<close> where reading it fails; no line left is the end of the input.
  \<open>tm_polls\<close> counts how often the interrupt flag has been read.\<close>

record terminal =
  tm_input :: "ustring option list"
  tm_log :: "said list"
  tm_polls :: nat

definition put_line :: "said \<Rightarrow> terminal \<Rightarrow> terminal" where
  "put_line x t = t\<lparr>tm_log := tm_log t @ [x]\<rparr>"

text \<open>\<open>trim_end_matches(['\n', '\r'])\<close>.\<close>

definition finalize_line :: "ustring \<Rightarrow> ustring" where
  "finalize_line l = rev (dropWhile (\<lambda>c. c = 10 \<or> c = 13) (rev l))"

definition read_input :: "string \<Rightarrow> terminal \<Rightarrow> (cli_error + ustring) \<times> terminal" where
  "read_input prompt t =
     (case tm_input t of
        Some l # rest \<Rightarrow> (Inr (finalize_line l), (put_line (Asked prompt) t)\<lparr>tm_input := rest\<rparr>)
      | None # rest \<Rightarrow> (Inl InputFailed, (put_line (Asked prompt) t)\<lparr>tm_input := rest\<rparr>)
      | [] \<Rightarrow> (Inl InputFailed, put_line (Asked prompt) t))"

section \<open>The state of a command\<close>

record 'c cli_env =
  ce_prompter :: prompter
  ce_clipboard :: "'c clipboard"
  ce_settings :: settings
  ce_paths :: paths
  ce_allow_software :: bool
  ce_clipboard_clear :: duration
  ce_kdf_override :: "kdf_params option"
  ce_stat :: "path \<Rightarrow> bool"
  ce_mkdir :: "path \<Rightarrow> bool"
  ce_new_file :: write_io
  ce_readable :: "path \<Rightarrow> bool"
  ce_interrupted :: "nat \<Rightarrow> bool"

record ('d, 'c) desk =
  dk_app :: "'d app"
  dk_clip :: 'c
  dk_term :: terminal
  dk_dirs :: dirs

definition cli_kdf :: "'c cli_env \<Rightarrow> cli_preset \<Rightarrow> kdf_params" where
  "cli_kdf E preset = (case ce_kdf_override E of Some p \<Rightarrow> p | None \<Rightarrow> preset_kdf preset)"

text \<open>\<open>Path::exists\<close> is false when the path cannot be looked up.\<close>

definition file_exists :: "'c cli_env \<Rightarrow> path \<Rightarrow> ('d, 'c) desk \<Rightarrow> bool" where
  "file_exists E p k \<longleftrightarrow> ce_stat E p \<and> a_fs (dk_app k) p \<noteq> None"

definition say :: "said \<Rightarrow> ('d, 'c) desk \<Rightarrow> unit \<times> ('d, 'c) desk" where
  "say x k = ((), k\<lparr>dk_term := put_line x (dk_term k)\<rparr>)"

definition ask :: "string \<Rightarrow> ('d, 'c) desk \<Rightarrow> (cli_error + ustring) \<times> ('d, 'c) desk" where
  "ask prompt k = (case read_input prompt (dk_term k) of (r, t) \<Rightarrow> (r, k\<lparr>dk_term := t\<rparr>))"

definition on_app :: "('d app \<Rightarrow> 'r \<times> 'd app) \<Rightarrow> ('d, 'c) desk \<Rightarrow> 'r \<times> ('d, 'c) desk" where
  "on_app f k = (case f (dk_app k) of (r, s) \<Rightarrow> (r, k\<lparr>dk_app := s\<rparr>))"

definition on_dirs :: "(dirs \<Rightarrow> 'r \<times> dirs) \<Rightarrow> ('d, 'c) desk \<Rightarrow> 'r \<times> ('d, 'c) desk" where
  "on_dirs f k = (case f (dk_dirs k) of (r, ds) \<Rightarrow> (r, k\<lparr>dk_dirs := ds\<rparr>))"

text \<open>An operation of the unlocked session; its new fields come with the result.\<close>

definition on_session :: "(core_error \<Rightarrow> cli_error) \<Rightarrow> ('d app \<times> unlocked_app \<Rightarrow> (core_error + 'r) \<times> 'd app \<times> unlocked_app) \<Rightarrow>
    unlocked_app \<Rightarrow> ('d, 'c) desk \<Rightarrow> (cli_error + 'r \<times> unlocked_app) \<times> ('d, 'c) desk" where
  "on_session h f ua k =
     (case f (dk_app k, ua) of (r, s, ua') \<Rightarrow> (and_then (map_err h r) (\<lambda>x. Inr (x, ua')), k\<lparr>dk_app := s\<rparr>))"

section \<open>Helpers of the commands\<close>

definition require_vault :: "'c cli_env \<Rightarrow> ('d, 'c) desk \<Rightarrow> (cli_error + unit) \<times> ('d, 'c) desk" where
  "require_vault E k =
     ((if file_exists E (vault_path (ce_paths E)) k then Inr () else Inl (NoVaultAt (vault_path (ce_paths E)))), k)"

definition cli_unlock :: "('d, 'm) host_scheme \<Rightarrow> 'c cli_env \<Rightarrow> ('d, 'c) desk \<Rightarrow>
    (cli_error + unlocked_app) \<times> ('d, 'c) desk" where
  "cli_unlock H E =
     st_then (require_vault E) (\<lambda>_.
     st_then (ask ''Master password: '') (\<lambda>master.
     st_then (ask ''TOTP code: '') (\<lambda>code.
       st_err cli_unlock_error (on_app (unlock H master (trim code) (ce_prompter E))))))"

definition pick_entry :: "ustring \<Rightarrow> entry_handle list \<Rightarrow> cli_error + entry_id" where
  "pick_entry label hs =
     (case filter (\<lambda>h. eh_label h = label) hs of
        [] \<Rightarrow> Inl (NoEntryLabelled label)
      | [h] \<Rightarrow> Inr (eh_id h)
      | _ # _ # _ \<Rightarrow> Inl (SeveralLabelled label))"

definition find_entry :: "('d, 'm) host_scheme \<Rightarrow> ustring \<Rightarrow> unlocked_app \<Rightarrow> ('d, 'c) desk \<Rightarrow>
    (cli_error + entry_id \<times> unlocked_app) \<times> ('d, 'c) desk" where
  "find_entry H label ua =
     st_then (on_session OperationFailed (list_entries H) ua) (\<lambda>(hs, ua').
       st_lift (and_then (pick_entry label hs) (\<lambda>i. Inr (i, ua'))))"

definition read_new_password :: "string \<Rightarrow> ('d, 'c) desk \<Rightarrow> (cli_error + ustring) \<times> ('d, 'c) desk" where
  "read_new_password prompt =
     st_then (ask prompt) (\<lambda>first.
     st_then (ask ''Confirm: '') (\<lambda>again.
       st_lift (if first \<noteq> again then Inl PasswordsDiffer else Inr first)))"

definition warn_if_weak :: "('d, 'm) host_scheme \<Rightarrow> ustring \<Rightarrow> kdf_params \<Rightarrow> ('d, 'c) desk \<Rightarrow> unit \<times> ('d, 'c) desk" where
  "warn_if_weak H password kdf k =
     (let bits = me_bits (estimate_master (strength H) password [] kdf) in
      if allows_export (classify bits) then ((), k) else say (Err (WeakWarning bits)) k)"

section \<open>The wait before the clipboard is cleared\<close>

definition CLEAR_TICK :: duration where "CLEAR_TICK = 200000000"

function wait_for_clear :: "(nat \<Rightarrow> bool) \<Rightarrow> duration \<Rightarrow> duration \<Rightarrow> terminal \<Rightarrow> terminal" where
  "wait_for_clear interrupted budget waited t =
     (if waited < budget then
        (let t' = t\<lparr>tm_polls := tm_polls t + 1\<rparr> in
         if interrupted (tm_polls t) then t'
         else (let tick = min CLEAR_TICK (budget - waited) in
           wait_for_clear interrupted budget (waited + tick) (put_line (Slept tick) t')))
      else t)"
  by pat_completeness auto
termination
  by (relation "measure (\<lambda>(_, budget, waited, _). budget - waited)") (auto simp: CLEAR_TICK_def)

declare wait_for_clear.simps [simp del]

definition await_clear :: "'c cli_env \<Rightarrow> ('d, 'c) desk \<Rightarrow> unit \<times> ('d, 'c) desk" where
  "await_clear E k =
     ((), k\<lparr>dk_term := wait_for_clear (ce_interrupted E) (ce_clipboard_clear E) 0 (dk_term k)\<rparr>)"

section \<open>Writing the recovery file\<close>

datatype new_file_error = FileExists | FileFailed

definition write_new_file_0600 :: "write_io \<Rightarrow> path \<Rightarrow> bytes \<Rightarrow> fs \<Rightarrow> (new_file_error + unit) \<times> fs" where
  "write_new_file_0600 io p b fs =
     (if fs p \<noteq> None then (Inl FileExists, fs)
      else if \<not> io_create io then (Inl FileFailed, fs)
      else case io_written io of
        Some n \<Rightarrow> (Inl FileFailed, fs(p \<mapsto> \<lparr>f_content = take n b, f_mode = OWNER_ONLY\<rparr>))
      | None \<Rightarrow> (if io_sync io then Inr () else Inl FileFailed, fs(p \<mapsto> \<lparr>f_content = b, f_mode = OWNER_ONLY\<rparr>)))"

fun new_file_failure :: "path \<Rightarrow> new_file_error \<Rightarrow> cli_error" where
  "new_file_failure p FileExists = ExportPathTaken p"
| "new_file_failure p FileFailed = ExportNotWritten p"

definition write_export :: "'c cli_env \<Rightarrow> path \<Rightarrow> bytes \<Rightarrow> ('d, 'c) desk \<Rightarrow> (cli_error + unit) \<times> ('d, 'c) desk" where
  "write_export E p b =
     st_err (new_file_failure p) (on_app (\<lambda>s. case write_new_file_0600 (ce_new_file E) p b (a_fs s) of
       (r, fs) \<Rightarrow> (r, s\<lparr>a_fs := fs\<rparr>)))"

definition read_file :: "'c cli_env \<Rightarrow> path \<Rightarrow> ('d, 'c) desk \<Rightarrow> (cli_error + bytes) \<times> ('d, 'c) desk" where
  "read_file E p k =
     ((if ce_readable E p then (case a_fs (dk_app k) p of Some f \<Rightarrow> Inr (f_content f) | None \<Rightarrow> Inl (ImportUnreadable p))
       else Inl (ImportUnreadable p)), k)"

end
