(* ===== verification/CliCommands.thy ===== *)
theory CliCommands
  imports Cli
begin

text \<open>
  \<open>passman-cli\<close>, \<open>commands.rs\<close> and \<open>main.rs\<close>: the nine commands, their dispatch, and the program from its
  parsed arguments to its exit code.
\<close>

section \<open>Commands without a session\<close>

definition cli_request :: "16 word option \<Rightarrow> generation_request" where
  "cli_request n = (case n of
     Some n \<Rightarrow> \<lparr>gr_length = n, gr_charset = charset_default_vault, gr_required = one_of_each\<rparr>
   | None \<Rightarrow> request_default_vault)"

definition cmd_gen :: "'m crypto_scheme \<Rightarrow> 16 word option \<Rightarrow> rng \<times> terminal \<Rightarrow>
    ((cli_error + unit) \<times> rng \<times> terminal) option" where
  "cmd_gen C n = (\<lambda>(g, t).
     Option.bind (generate C (cli_request n) g) (\<lambda>(r, g').
       Some (case r of
         Inl e \<Rightarrow> (Inl (GenerationFailed e), g', t)
       | Inr pw \<Rightarrow> (Inr (), g', put_line (Out pw) t))))"

definition cmd_init :: "('d, 'm) host_scheme \<Rightarrow> 'c cli_env \<Rightarrow> cli_preset \<Rightarrow> ('d, 'c) desk \<Rightarrow>
    (cli_error + unit) \<times> ('d, 'c) desk" where
  "cmd_init H E preset k =
     (if file_exists E (vault_path (ce_paths E)) k then (Inl (VaultExistsAt (vault_path (ce_paths E))), k)
      else
        st_then (st_err DirectoryFailed (on_dirs (ensure_dirs (ce_mkdir E) (ce_paths E)))) (\<lambda>_.
        st_then (read_new_password ''New master password: '') (\<lambda>master.
        st_then (st_do (warn_if_weak H master (cli_kdf E preset))) (\<lambda>_.
        st_then (st_do (say (Err DerivingVaultKey))) (\<lambda>_.
        st_then (st_err CreationFailed (on_app (create_vault H master (cli_kdf E preset) totp_config_default (ce_prompter E)))) (\<lambda>(ua, uri).
        st_then (st_do (say (Err SaveThisSecret))) (\<lambda>_.
        st_then (st_do (say (Out uri))) (\<lambda>_.
          st_do (say (Err (VaultCreatedAt (vault_path (ce_paths E)))))))))))) k)"

definition cmd_import :: "('d, 'm) host_scheme \<Rightarrow> 'c cli_env \<Rightarrow> path \<Rightarrow> cli_preset \<Rightarrow> ('d, 'c) desk \<Rightarrow>
    (cli_error + unit) \<times> ('d, 'c) desk" where
  "cmd_import H E file preset k =
     (if file_exists E (vault_path (ce_paths E)) k then (Inl (VaultExistsAt (vault_path (ce_paths E))), k)
      else
        st_then (st_err DirectoryFailed (on_dirs (ensure_dirs (ce_mkdir E) (ce_paths E)))) (\<lambda>_.
        st_then (read_file E file) (\<lambda>b.
        st_then (ask ''Recovery password: '') (\<lambda>pw.
        st_then (st_do (say (Err DerivingFromFile))) (\<lambda>_.
        st_then (st_err ImportFailed (on_app (import_recovery H b pw (cli_kdf E preset) totp_config_default (ce_prompter E)))) (\<lambda>(ua, uri).
        st_then (st_do (say (Err ReprovisionSecret))) (\<lambda>_.
        st_then (st_do (say (Out uri))) (\<lambda>_.
        st_then (on_session OperationFailed (list_entries H) ua) (\<lambda>(hs, _).
          st_do (say (Err (VaultRestored (vault_path (ce_paths E)) (length hs)))))))))))) k)"

section \<open>Commands of a session\<close>

fun say_all :: "said list \<Rightarrow> ('d, 'c) desk \<Rightarrow> unit \<times> ('d, 'c) desk" where
  "say_all [] k = ((), k)"
| "say_all (x # xs) k = say_all xs (snd (say x k))"

definition cmd_list :: "('d, 'm) host_scheme \<Rightarrow> 'c cli_env \<Rightarrow> ('d, 'c) desk \<Rightarrow> (cli_error + unit) \<times> ('d, 'c) desk" where
  "cmd_list H E =
     st_then (cli_unlock H E) (\<lambda>ua.
     st_then (on_session OperationFailed (list_entries H) ua) (\<lambda>(hs, _).
     st_then (st_do (say_all (if hs = [] then [Err NoEntries] else []))) (\<lambda>_.
       st_do (say_all (map (\<lambda>h. Out (eh_label h)) (sort_key (\<lambda>h. utf8_enc (eh_label h)) hs))))))"

fun field_string :: "entry_record \<Rightarrow> cli_field \<Rightarrow> ustring" where
  "field_string r CliUsername = er_username r"
| "field_string r CliPassword = er_password r"
| "field_string r CliUrl = er_url r"
| "field_string r CliNotes = er_notes r"

definition cli_copy :: "('d, 'm) host_scheme \<Rightarrow> 'c cli_env \<Rightarrow> entry_id \<Rightarrow> cli_field \<Rightarrow> unlocked_app \<Rightarrow> ('d, 'c) desk \<Rightarrow>
    (cli_error + clipboard_cookie \<times> unlocked_app) \<times> ('d, 'c) desk" where
  "cli_copy H E i field ua k =
     (case copy_to_clipboard H (ce_clipboard E) i (cli_reveal field) ((dk_app k, ua), dk_clip k) of
        (r, (s, ua'), c) \<Rightarrow> (and_then (map_err OperationFailed r) (\<lambda>ck. Inr (ck, ua')), k\<lparr>dk_app := s, dk_clip := c\<rparr>))"

definition cli_clear :: "('d, 'm) host_scheme \<Rightarrow> 'c cli_env \<Rightarrow> clipboard_cookie \<Rightarrow> unlocked_app \<Rightarrow> ('d, 'c) desk \<Rightarrow>
    clear_outcome \<times> ('d, 'c) desk" where
  "cli_clear H E cookie ua k =
     (case clear_clipboard_with H (ce_clipboard E) cookie (clipboard_fact_overwrite (ce_settings E)) ((dk_app k, ua), dk_clip k) of
        (out, (s, _), c) \<Rightarrow> (out, k\<lparr>dk_app := s, dk_clip := c\<rparr>))"

text \<open>Copy, wait, clear; the clear does not depend on how the wait ended.\<close>

definition get_copied :: "('d, 'm) host_scheme \<Rightarrow> 'c cli_env \<Rightarrow> entry_id \<Rightarrow> cli_field \<Rightarrow> unlocked_app \<Rightarrow> ('d, 'c) desk \<Rightarrow>
    (cli_error + unit) \<times> ('d, 'c) desk" where
  "get_copied H E i field ua =
     st_then (cli_copy H E i field ua) (\<lambda>(cookie, ua').
     st_then (st_do (say (Err (CopiedFor (as_secs (ce_clipboard_clear E)))))) (\<lambda>_.
     st_then (st_do (await_clear E)) (\<lambda>_.
     st_then (st_do (cli_clear H E cookie ua')) (\<lambda>out.
       st_do (say (Err (ClearStatus out)))))))"

definition cmd_get :: "('d, 'm) host_scheme \<Rightarrow> 'c cli_env \<Rightarrow> ustring \<Rightarrow> cli_field \<Rightarrow> bool \<Rightarrow> ('d, 'c) desk \<Rightarrow>
    (cli_error + unit) \<times> ('d, 'c) desk" where
  "cmd_get H E label field show_it =
     st_then (cli_unlock H E) (\<lambda>ua.
     st_then (find_entry H label ua) (\<lambda>(i, ua').
       if show_it
       then st_then (on_session OperationFailed (with_revealed H i (\<lambda>r. field_string r field)) ua') (\<lambda>(t, _). st_do (say (Out t)))
       else get_copied H E i field ua'))"

definition cmd_rm :: "('d, 'm) host_scheme \<Rightarrow> 'c cli_env \<Rightarrow> ustring \<Rightarrow> ('d, 'c) desk \<Rightarrow> (cli_error + unit) \<times> ('d, 'c) desk" where
  "cmd_rm H E label =
     st_then (cli_unlock H E) (\<lambda>ua.
     st_then (find_entry H label ua) (\<lambda>(i, ua').
     st_then (on_session OperationFailed (session_remove H i) ua') (\<lambda>_.
       st_do (say (Err (EntryRemoved label))))))"

text \<open>The part of \<open>add\<close> before the password, the password, and the part after it.\<close>

definition add_username :: "('d, 'm) host_scheme \<Rightarrow> 'c cli_env \<Rightarrow> ('d, 'c) desk \<Rightarrow>
    (cli_error + unlocked_app \<times> ustring) \<times> ('d, 'c) desk" where
  "add_username H E =
     st_then (cli_unlock H E) (\<lambda>ua. st_then (ask ''Username: '') (\<lambda>u. st_lift (Inr (ua, u))))"

definition add_password :: "('d, 'm) host_scheme \<Rightarrow> bool \<Rightarrow> 16 word \<Rightarrow> unlocked_app \<Rightarrow> ('d, 'c) desk \<Rightarrow>
    ((cli_error + ustring \<times> unlocked_app) \<times> ('d, 'c) desk) option" where
  "add_password H generate_pw n ua k =
     (if generate_pw then
        Option.bind (generate_password H (cli_request (Some n)) (dk_app k, ua)) (\<lambda>(r, s, ua').
          Some (let k' = k\<lparr>dk_app := s\<rparr> in case r of
            Inl e \<Rightarrow> (Inl (OperationFailed e), k')
          | Inr pw \<Rightarrow> (Inr (pw, ua'), snd (say (Err PasswordGenerated) k'))))
      else Some (st_then (read_new_password ''Password: '') (\<lambda>pw. st_lift (Inr (pw, ua))) k))"

definition add_rest :: "('d, 'm) host_scheme \<Rightarrow> ustring \<Rightarrow> 16 word \<Rightarrow> ustring \<Rightarrow> ustring \<Rightarrow> unlocked_app \<Rightarrow> ('d, 'c) desk \<Rightarrow>
    (cli_error + unit) \<times> ('d, 'c) desk" where
  "add_rest H label n username password ua =
     st_then (ask ''URL (optional): '') (\<lambda>url.
     st_then (ask ''Notes (optional): '') (\<lambda>notes.
     st_then (on_session OperationFailed (add_entry H label (with_length n policy_default)
         \<lparr>er_username = username, er_password = password, er_url = url, er_notes = notes\<rparr>) ua) (\<lambda>_.
       st_do (say (Err (EntryAdded label))))))"

definition cmd_add :: "('d, 'm) host_scheme \<Rightarrow> 'c cli_env \<Rightarrow> ustring \<Rightarrow> bool \<Rightarrow> 16 word option \<Rightarrow> ('d, 'c) desk \<Rightarrow>
    ((cli_error + unit) \<times> ('d, 'c) desk) option" where
  "cmd_add H E label generate_pw n k =
     (let len = (case n of Some n \<Rightarrow> n | None \<Rightarrow> default_length) in
      case add_username H E k of
        (Inl e, k1) \<Rightarrow> Some (Inl e, k1)
      | (Inr (ua, username), k1) \<Rightarrow> Option.bind (add_password H generate_pw len ua k1) (\<lambda>(r, k2).
          case r of
            Inl e \<Rightarrow> Some (Inl e, k2)
          | Inr (password, ua') \<Rightarrow> Some (add_rest H label len username password ua' k2)))"

definition cmd_export :: "('d, 'm) host_scheme \<Rightarrow> 'c cli_env \<Rightarrow> path \<Rightarrow> rec_preset \<Rightarrow> ('d, 'c) desk \<Rightarrow>
    (cli_error + unit) \<times> ('d, 'c) desk" where
  "cmd_export H E file preset k =
     (if file_exists E file k then (Inl (ExportPathTaken file), k)
      else
        st_then (cli_unlock H E) (\<lambda>ua.
        st_then (st_do (say (Err FreshReauth))) (\<lambda>_.
        st_then (ask ''Master password (again): '') (\<lambda>master.
        st_then (ask ''Fresh TOTP code: '') (\<lambda>code.
        st_then (st_do (say (Err DerivingRecoveryKey))) (\<lambda>_.
        st_then (on_session cli_export_error (export_recovery H master (trim code) (rec_params preset) (ce_prompter E)) ua) (\<lambda>(b, _).
        st_then (write_export E file b) (\<lambda>_.
          st_do (say (Err (RecoveryWrittenTo file)))))))))) k)"

definition cmd_passwd :: "('d, 'm) host_scheme \<Rightarrow> 'c cli_env \<Rightarrow> cli_preset \<Rightarrow> ('d, 'c) desk \<Rightarrow>
    (cli_error + unit) \<times> ('d, 'c) desk" where
  "cmd_passwd H E preset =
     st_then (cli_unlock H E) (\<lambda>ua.
     st_then (ask ''Current master password: '') (\<lambda>old.
     st_then (read_new_password ''New master password: '') (\<lambda>new.
     st_then (st_do (warn_if_weak H new (cli_kdf E preset))) (\<lambda>_.
     st_then (st_do (say (Err Rekeying))) (\<lambda>_.
     st_then (on_session PasswdFailed (change_master_password H old new (cli_kdf E preset) (ce_prompter E)) ua) (\<lambda>(stale, _).
     st_then (st_do (say_all (if stale then [Err ExportIsStale] else []))) (\<lambda>_.
       st_do (say (Err PasswordChanged)))))))))"

section \<open>Dispatch\<close>

text \<open>\<open>gen\<close> is handled before an application is opened and never gets here (\<open>unreachable!\<close>).\<close>

fun dispatch :: "('d, 'm) host_scheme \<Rightarrow> 'c cli_env \<Rightarrow> cli_command \<Rightarrow> ('d, 'c) desk \<Rightarrow>
    ((cli_error + unit) \<times> ('d, 'c) desk) option" where
  "dispatch H E (CmdInit preset) k = Some (cmd_init H E preset k)"
| "dispatch H E CmdList k = Some (cmd_list H E k)"
| "dispatch H E (CmdAdd label g n) k = cmd_add H E label g n k"
| "dispatch H E (CmdGet label show_it field) k = Some (cmd_get H E label field show_it k)"
| "dispatch H E (CmdRm label) k = Some (cmd_rm H E label k)"
| "dispatch H E (CmdExport file preset) k = Some (cmd_export H E file preset k)"
| "dispatch H E (CmdImport file preset) k = Some (cmd_import H E file preset k)"
| "dispatch H E (CmdPasswd preset) k = Some (cmd_passwd H E preset k)"
| "dispatch H E (CmdGen n) k = None"

text \<open>What a process finds and leaves: files, the lock table, device, randomness, and the shell's own
  surroundings.\<close>

record ('d, 'c) system =
  sy_fs :: fs
  sy_locks :: lock_table
  sy_device :: 'd
  sy_rng :: rng
  sy_clip :: 'c
  sy_term :: terminal
  sy_dirs :: dirs

definition open_app :: "'c cli_env \<Rightarrow> bool \<Rightarrow> ('d, 'c) system \<Rightarrow> (cli_error + 'd app) \<times> fs \<times> lock_table" where
  "open_app E lockfile_opens y =
     (case (if ce_allow_software E then app_open_allowing_software_hsm else app_open)
        lockfile_opens (vault_path (ce_paths E)) (sy_device y) (sy_rng y) (sy_fs y, sy_locks y) of
        (r, x) \<Rightarrow> (map_err cli_open_error r, x))"

text \<open>\<open>run\<close>: open the application, run the command, drop the application and with it the lock.\<close>

definition cli_run :: "('d, 'm) host_scheme \<Rightarrow> 'c cli_env \<Rightarrow> bool \<Rightarrow> cli_command \<Rightarrow> ('d, 'c) system \<Rightarrow>
    ((cli_error + unit) \<times> ('d, 'c) system) option" where
  "cli_run H E lockfile_opens cmd y =
     (case cmd of
        CmdGen n \<Rightarrow> map_option (\<lambda>(r, g, t). (r, y\<lparr>sy_rng := g, sy_term := t\<rparr>)) (cmd_gen H n (sy_rng y, sy_term y))
      | _ \<Rightarrow>
        (case open_app E lockfile_opens y of
           (Inl e, fs, t) \<Rightarrow> Some (Inl e, y\<lparr>sy_fs := fs, sy_locks := t\<rparr>)
         | (Inr s, fs, t) \<Rightarrow>
             map_option (\<lambda>(r, k). (r, y\<lparr>sy_fs := a_fs (dk_app k), sy_locks := instance_lock_drop (a_lock (dk_app k)) t,
                 sy_device := a_device (dk_app k), sy_rng := a_rng (dk_app k), sy_clip := dk_clip k,
                 sy_term := dk_term k, sy_dirs := dk_dirs k\<rparr>))
               (dispatch H E cmd \<lparr>dk_app = s, dk_clip = sy_clip y, dk_term = sy_term y, dk_dirs = sy_dirs y\<rparr>)))"

section \<open>The program\<close>

definition CLIPBOARD_CLEAR_SECS :: nat where "CLIPBOARD_CLEAR_SECS = 30"

definition resolve_paths :: "cli_args \<Rightarrow> base_dirs option \<Rightarrow> cli_error + paths" where
  "resolve_paths a base =
     (case arg_vault_dir a of Some dir \<Rightarrow> Inr (under_base dir) | None \<Rightarrow> map_err NoLocation (paths_discover base))"

fun selection_error :: "hsm_error \<Rightarrow> cli_error" where
  "selection_error HardwareAbsent = NoHardware"
| "selection_error e = BackendUnselected e"

definition desktop_prompter :: prompter where
  "desktop_prompter reason = Inr Authenticated"

text \<open>What the program finds outside: the standard directories, the outcome of reading the settings, of
  selecting a backend, and of opening the lock file.\<close>

record outside =
  ou_base :: "base_dirs option"
  ou_settings_readable :: bool
  ou_selected :: "bool \<Rightarrow> hsm_error + unit"
  ou_lockfile_opens :: bool

text \<open>The environment of a command: the caller's, with the parts the program itself decides.\<close>

definition main_env :: "'c cli_env \<Rightarrow> cli_args \<Rightarrow> paths \<Rightarrow> settings \<Rightarrow> 'c cli_env" where
  "main_env E a p st = E\<lparr>ce_prompter := desktop_prompter, ce_settings := st, ce_paths := p,
     ce_allow_software := arg_allow_software_hsm a, ce_clipboard_clear := from_secs CLIPBOARD_CLEAR_SECS,
     ce_kdf_override := None\<rparr>"

definition main_prepare :: "toml_lib \<Rightarrow> outside \<Rightarrow> cli_args \<Rightarrow> fs \<Rightarrow> cli_error + paths \<times> settings" where
  "main_prepare L U a fs =
     and_then (resolve_paths a (ou_base U)) (\<lambda>p.
     and_then (map_err SettingsUnreadable (settings_load L (ou_settings_readable U) (settings_path p) fs)) (\<lambda>st.
     and_then (case arg_command a of CmdGen _ \<Rightarrow> Inr () | _ \<Rightarrow> map_err selection_error (ou_selected U (arg_allow_software_hsm a))) (\<lambda>_.
       Inr (p, st))))"

definition real_main :: "('d, 'm) host_scheme \<Rightarrow> toml_lib \<Rightarrow> outside \<Rightarrow> 'c cli_env \<Rightarrow> cli_args \<Rightarrow> ('d, 'c) system \<Rightarrow>
    ((cli_error + unit) \<times> ('d, 'c) system) option" where
  "real_main H L U E a y =
     (case main_prepare L U a (sy_fs y) of
        Inl e \<Rightarrow> Some (Inl e, y)
      | Inr (p, st) \<Rightarrow> cli_run H (main_env E a p st) (ou_lockfile_opens U) (arg_command a) y)"

definition cli_main :: "('d, 'm) host_scheme \<Rightarrow> toml_lib \<Rightarrow> outside \<Rightarrow> 'c cli_env \<Rightarrow> cli_args \<Rightarrow> ('d, 'c) system \<Rightarrow>
    (8 word \<times> ('d, 'c) system) option" where
  "cli_main H L U E a y =
     map_option (\<lambda>(r, y'). (case r of Inr _ \<Rightarrow> 0 | Inl e \<Rightarrow> exit_status e, y')) (real_main H L U E a y)"

end
