(* ===== verification/CliProps.thy ===== *)
theory CliProps
  imports CliCommands SessionGuarantees
begin

text \<open>
  What the commands keep and how they fail: the clipboard after \<open>get\<close>, the bounds of its wait, the
  recovery file of \<open>export\<close>, labels, and the exit codes.
\<close>

section \<open>The wait\<close>

lemma put_line_simps [simp]: "tm_log (put_line x t) = tm_log t @ [x]" "tm_polls (put_line x t) = tm_polls t"
  "tm_input (put_line x t) = tm_input t"
  by (simp_all add: put_line_def)

text \<open>The sleeps of a wait: they add up to at most the budget, to all of it without an interrupt, each is at
  most one tick, and none follows a poll that found the flag set.\<close>

lemma wait_sleeps:
  "\<exists>ds. tm_log (wait_for_clear f b w t) = tm_log t @ map Slept ds \<and> sum_list ds \<le> b - w \<and> (\<forall>d\<in>set ds. d \<le> CLEAR_TICK) \<and>
     ((\<forall>n. \<not> f n) \<longrightarrow> sum_list ds = b - w) \<and> (\<forall>n\<ge>tm_polls t. f n \<longrightarrow> length ds \<le> n - tm_polls t)"
proof (induction f b w t rule: wait_for_clear.induct)
  case (1 f b w t)
  let ?t = "t\<lparr>tm_polls := tm_polls t + 1\<rparr>" and ?d = "min CLEAR_TICK (b - w)"
  show ?case
  proof (cases "w < b \<and> \<not> f (tm_polls t)")
    case True
    obtain ds where ds: "tm_log (wait_for_clear f b (w + ?d) (put_line (Slept ?d) ?t)) = tm_log t @ [Slept ?d] @ map Slept ds"
      "sum_list ds \<le> b - (w + ?d)" "\<forall>d\<in>set ds. d \<le> CLEAR_TICK" "(\<forall>n. \<not> f n) \<longrightarrow> sum_list ds = b - (w + ?d)"
      "\<forall>n\<ge>tm_polls t + 1. f n \<longrightarrow> length ds \<le> n - (tm_polls t + 1)"
      using "1.IH" [of ?t ?d] True by auto
    have "wait_for_clear f b w t = wait_for_clear f b (w + ?d) (put_line (Slept ?d) ?t)"
      using True by (subst wait_for_clear.simps) (simp add: Let_def)
    moreover have "length (?d # ds) \<le> n - tm_polls t" if "n \<ge> tm_polls t" "f n" for n
    proof -
      have "n \<noteq> tm_polls t" using True that(2) by auto
      then have "tm_polls t + 1 \<le> n" using that(1) by simp
      then show ?thesis using ds(5) that(2) by (auto simp: Suc_diff_Suc)
    qed
    moreover have "w + ?d \<le> b" using True by auto
    ultimately show ?thesis using ds True by (intro exI [of _ "?d # ds"]) (auto simp: CLEAR_TICK_def)
  next
    case False
    then have "tm_log (wait_for_clear f b w t) = tm_log t" by (subst wait_for_clear.simps) (auto simp: Let_def)
    moreover have "\<not> f (tm_polls t) \<Longrightarrow> b \<le> w" using False by auto
    ultimately show ?thesis by (intro exI [of _ "[]"]) auto
  qed
qed

section \<open>The clipboard\<close>

definition same_clip :: "('d, 'c) desk \<Rightarrow> ('d, 'c) desk \<Rightarrow> bool" where
  "same_clip k k' \<longleftrightarrow> dk_clip k' = dk_clip k"

lemma same_clip_preorder: "preorder same_clip"
  by (auto simp: preorder_def same_clip_def)

lemma same_clip_steps:
  "keeps same_clip (say x)" "keeps same_clip (ask p)" "keeps same_clip (on_app f)"
  "keeps same_clip (on_session h g ua)" "keeps same_clip (require_vault E)" "keeps same_clip (await_clear E)"
  by (simp_all add: keeps_def same_clip_def say_def ask_def on_app_def on_session_def require_vault_def
      await_clear_def split: prod.split)

lemma same_clip_parts: "keeps same_clip (cli_unlock H E)" "keeps same_clip (find_entry H label ua)"
  unfolding cli_unlock_def find_entry_def
  by (intro keeps_rules same_clip_preorder same_clip_steps keeps_case_prod)+

context clipboard_up
begin

lemma get_copied_clears:
  assumes K: "ce_clipboard E = K" and fo: "clipboard_fact_overwrite (ce_settings E)"
    and g: "get_copied H E i field ua k = (r, k')"
  shows "content (dk_clip k') = content (dk_clip k) \<or> (\<exists>f\<in>set FACTS. content (dk_clip k') = Some f)"
proof -
  obtain d x where d: "session_decrypt H i (dk_app k, ua) = (d, x)" by (cases "session_decrypt H i (dk_app k, ua)") simp
  show ?thesis
  proof (cases d)
    case (Inl e)
    then have "cli_copy H E i field ua k = (Inl (OperationFailed e), k\<lparr>dk_app := fst x, dk_clip := dk_clip k\<rparr>)"
      using d by (cases x) (simp add: cli_copy_def copy_to_clipboard_def on_fst_def st_then_def)
    then show ?thesis using g by (auto simp: get_copied_def)
  next
    case (Inr rec)
    let ?t = "select_field rec (cli_reveal field)"
    obtain ck c1 where w: "cb_write K ?t (dk_clip k) = (Inr ck, c1)" using write_up by blast
    obtain y where y: "clamp_session H x = ((), y)" by (cases "clamp_session H x") simp
    have c: "cli_copy H E i field ua k = (Inr (ck, snd y), k\<lparr>dk_app := fst y, dk_clip := c1\<rparr>)"
      using d w y K Inr by (cases y) (simp add: cli_copy_def copy_to_clipboard_def on_fst_def on_snd_def st_then_def st_do_def st_lift_def)
    have t: "content c1 = Some ?t \<and> ck_digest ck = dig ?t" by (rule write_law [OF w])
    define k2 where "k2 = snd (await_clear E (snd (say (Err (CopiedFor (as_secs (ce_clipboard_clear E)))) (k\<lparr>dk_app := fst y, dk_clip := c1\<rparr>))))"
    have k2: "dk_clip k2 = c1" by (simp add: k2_def await_clear_def say_def)
    obtain out g' c2 where cl: "clear_clipboard_impl H K ck True (a_rng (dk_app k2), c1) = (out, g', c2)" by (metis prod_cases3)
    have "cli_clear H E ck (snd y) k2 = (out, k2\<lparr>dk_app := (dk_app k2)\<lparr>a_rng := g'\<rparr>, dk_clip := c2\<rparr>)"
      using cl K fo k2 by (simp add: cli_clear_def clear_clipboard_with_def)
    then have "dk_clip k' = c2"
      using g c unfolding k2_def by (auto simp: get_copied_def st_then_def st_do_def say_def await_clear_def)
    then show ?thesis using clear_own [OF cl] t by blast
  qed
qed

lemma get_clears:
  assumes "ce_clipboard E = K" and "clipboard_fact_overwrite (ce_settings E)" and g: "cmd_get H E label field show_it k = (r, k')"
  shows "content (dk_clip k') = content (dk_clip k) \<or> (\<not> show_it \<and> (\<exists>f\<in>set FACTS. content (dk_clip k') = Some f))"
proof -
  obtain a k1 where a: "cli_unlock H E k = (a, k1)" by fastforce
  have k1: "dk_clip k1 = dk_clip k" using keepsD [OF same_clip_parts(1) a] by (simp add: same_clip_def)
  show ?thesis
  proof (cases a)
    case (Inl e)
    then show ?thesis using g a k1 by (auto simp: cmd_get_def)
  next
    case (Inr ua)
    obtain b k2 where b: "find_entry H label ua k1 = (b, k2)" by fastforce
    have k2: "dk_clip k2 = dk_clip k1" using keepsD [OF same_clip_parts(2) b] by (simp add: same_clip_def)
    show ?thesis
    proof (cases b)
      case (Inl e)
      then show ?thesis using g a Inr b k1 k2 by (auto simp: cmd_get_def)
    next
      case (Inr z)
      note s = keepsD [OF keeps_then [OF same_clip_preorder same_clip_steps(4)]]
      show ?thesis
      proof (cases show_it)
        case True
        have "keeps same_clip (st_then (on_session OperationFailed (with_revealed H (fst z) (\<lambda>r. field_string r field)) (snd z))
            (\<lambda>(t, _). st_do (say (Out t))))"
          by (intro keeps_rules same_clip_preorder same_clip_steps keeps_case_prod)
        from keepsD [OF this, of k2 r k'] show ?thesis
          using g a \<open>a = Inr ua\<close> b Inr True k1 k2 by (cases z) (auto simp: cmd_get_def same_clip_def)
      next
        case False
        then have "get_copied H E (fst z) field (snd z) k2 = (r, k')"
          using g a \<open>a = Inr ua\<close> b Inr by (cases z) (simp add: cmd_get_def)
        from get_copied_clears [OF assms(1,2) this] show ?thesis using k1 k2 False by simp
      qed
    qed
  qed
qed

end

section \<open>How commands fail\<close>

text \<open>Every error of a step satisfies \<open>Q\<close>.\<close>

definition fails_only :: "('e \<Rightarrow> bool) \<Rightarrow> ('s \<Rightarrow> ('e + 'a) \<times> 's) \<Rightarrow> bool" where
  "fails_only Q m \<longleftrightarrow> (\<forall>s e s'. m s = (Inl e, s') \<longrightarrow> Q e)"

lemma fails_onlyD: "fails_only Q m \<Longrightarrow> m s = (Inl e, s') \<Longrightarrow> Q e"
  unfolding fails_only_def by blast

lemma fails_onlyI: "(\<And>s e s'. m s = (Inl e, s') \<Longrightarrow> Q e) \<Longrightarrow> fails_only Q m"
  unfolding fails_only_def by blast

lemma fails_then: "fails_only Q m \<Longrightarrow> (\<And>x. fails_only Q (f x)) \<Longrightarrow> fails_only Q (st_then m f)"
  by (rule fails_onlyI) (auto simp: st_iffs dest: fails_onlyD)

lemma fails_basic:
  "fails_only Q (st_do f)" "fails_only Q (st_lift (Inr x))"
  by (simp_all add: fails_only_def st_do_def st_lift_def split: prod.split)

lemma fails_err: "(\<And>s e s'. m s = (Inl e, s') \<Longrightarrow> Q (h e)) \<Longrightarrow> fails_only Q (st_err h m)"
  by (auto simp: fails_only_def st_err_def map_err_Inl_iff split: prod.splits)

lemma fails_gate: "Q e \<Longrightarrow> fails_only Q m \<Longrightarrow> fails_only Q (\<lambda>k. if c k then (Inl e, k) else m k)"
  by (auto simp: fails_only_def)

lemma fails_case_prod: "(\<And>a b. fails_only Q (f a b)) \<Longrightarrow> fails_only Q (case p of (a, b) \<Rightarrow> f a b)"
  by (simp split: prod.split)

lemma fails_session: "(\<And>e. Q (h e)) \<Longrightarrow> fails_only Q (on_session h f ua)"
  by (auto simp: fails_only_def on_session_def and_then_Inl_iff map_err_Inl_iff split: prod.splits)

text \<open>Most errors are general.  The others are the credentials or the lockout of an unlock, and a label that
  the session does not list.\<close>

abbreviation plain :: "cli_error \<Rightarrow> bool" where "plain e \<equiv> exit_classify e = General"

lemma plain_steps:
  "fails_only plain (ask q)" "fails_only plain (require_vault E)"
  "fails_only plain (read_file E f)" "fails_only plain (write_export E f b)"
  "fails_only plain (st_err DirectoryFailed m)" "fails_only plain (st_err CreationFailed m')"
  "fails_only plain (st_err ImportFailed m'')" "fails_only plain (st_lift (if c then Inl PasswordsDiffer else Inr x))"
  "fails_only plain (on_session OperationFailed g ua)" "fails_only plain (on_session PasswdFailed g' ua)"
  "fails_only plain (on_session cli_export_error g'' ua)"
proof -
  have g: "plain (new_file_failure f e)" for e by (cases e) simp_all
  have h: "plain (cli_export_error e)" for e by (cases e) simp_all
  show "fails_only plain (ask q)" "fails_only plain (require_vault E)" "fails_only plain (read_file E f)"
    by (auto simp: fails_only_def ask_def read_input_def require_vault_def read_file_def
        split: prod.splits list.splits option.splits if_splits)
  show "fails_only plain (write_export E f b)" unfolding write_export_def by (rule fails_err) (simp add: g)
  show "fails_only plain (st_err DirectoryFailed m)" "fails_only plain (st_err CreationFailed m')"
    "fails_only plain (st_err ImportFailed m'')" by (rule fails_err, simp)+
  show "fails_only plain (st_lift (if c then Inl PasswordsDiffer else Inr x))" by (simp add: fails_only_def st_lift_def)
  show "fails_only plain (on_session OperationFailed g ua)" "fails_only plain (on_session PasswdFailed g' ua)"
    "fails_only plain (on_session cli_export_error g'' ua)" by (rule fails_session, simp add: h)+
qed

lemma plain_new_password: "fails_only plain (read_new_password q)"
  unfolding read_new_password_def by (intro fails_then plain_steps)

lemmas plain_rules = fails_then fails_basic fails_case_prod plain_steps plain_new_password

lemma plain_get_copied: "fails_only plain (get_copied H E i field ua)"
proof -
  have "fails_only plain (cli_copy H E i field ua)"
    by (auto simp: fails_only_def cli_copy_def and_then_Inl_iff map_err_Inl_iff split: prod.splits)
  then show ?thesis unfolding get_copied_def by (intro plain_rules)
qed

definition unlock_refused :: "('d, 'm) host_scheme \<Rightarrow> 'c cli_env \<Rightarrow> ('d, 'c) desk \<Rightarrow> cli_error \<Rightarrow> bool" where
  "unlock_refused H E k e \<longleftrightarrow> (\<exists>k1. cli_unlock H E k = (Inl e, k1))"

definition label_refused :: "('d, 'm) host_scheme \<Rightarrow> 'c cli_env \<Rightarrow> ustring \<Rightarrow> ('d, 'c) desk \<Rightarrow> cli_error \<Rightarrow> bool" where
  "label_refused H E label k e \<longleftrightarrow>
     (\<exists>ua k1 k2. cli_unlock H E k = (Inr ua, k1) \<and> find_entry H label ua k1 = (Inl e, k2))"

lemma after_unlock:
  "(\<And>ua. fails_only plain (f ua)) \<Longrightarrow> st_then (cli_unlock H E) f k = (Inl e, k') \<Longrightarrow> plain e \<or> unlock_refused H E k e"
  by (auto simp: st_iffs unlock_refused_def dest: fails_onlyD)

lemma after_find:
  assumes "\<And>z. fails_only plain (f z)" and "st_then (cli_unlock H E) (\<lambda>ua. st_then (find_entry H label ua) f) k = (Inl e, k')"
  shows "plain e \<or> unlock_refused H E k e \<or> label_refused H E label k e"
  using assms(2) fails_onlyD [OF assms(1)] by (auto simp: st_iffs unlock_refused_def label_refused_def)

lemma cli_unlock_cases:
  assumes "cli_unlock H E k = (r, k')"
  shows "(\<exists>e. r = Inl e \<and> plain e \<and> dk_app k' = dk_app k) \<or>
    (\<exists>m c rest u. tm_input (dk_term k) = Some m # Some c # rest \<and> tm_input (dk_term k') = rest \<and> r = map_err cli_unlock_error u \<and>
      unlock H (finalize_line m) (trim (finalize_line c)) (ce_prompter E) (dk_app k) = (u, dk_app k'))"
proof -
  obtain q k2 where q: "require_vault E k = (q, k2)" by fastforce
  obtain m k3 where m: "ask ''Master password: '' k = (m, k3)" by fastforce
  obtain d k4 where d: "ask ''TOTP code: '' k3 = (d, k4)" by fastforce
  have k2: "k2 = k" "dk_app k3 = dk_app k" "dk_app k4 = dk_app k3"
    using q m d by (auto simp: require_vault_def ask_def split: prod.splits)
  show ?thesis
  proof (cases "is_ok q \<and> is_ok m \<and> is_ok d")
    case False
    then obtain e where e: "r = Inl e" "dk_app k' = dk_app k"
      using assms q m d k2 by (cases q; cases m; cases d) (auto simp: cli_unlock_def st_then_def)
    have "q = Inl e \<or> m = Inl e \<or> d = Inl e"
      using assms q m d k2 False e(1) by (cases q; cases m; cases d) (auto simp: cli_unlock_def st_then_def)
    then have "plain e" using q m d plain_steps(1,2) [THEN fails_onlyD] by blast
    then show ?thesis using e by blast
  next
    case True
    then obtain x y where xy: "m = Inr x" "d = Inr y" "is_ok q" by (auto simp: is_ok_iff)
    obtain ml cl rest where l: "tm_input (dk_term k) = Some ml # Some cl # rest" "x = finalize_line ml" "y = finalize_line cl"
        "tm_input (dk_term k4) = rest"
      using m d xy by (auto simp: ask_def read_input_def split: prod.splits list.splits option.splits)
    obtain u s' where u: "unlock H x (trim y) (ce_prompter E) (dk_app k) = (u, s')" by fastforce
    then have "r = map_err cli_unlock_error u \<and> k' = k4\<lparr>dk_app := s'\<rparr>"
      using assms q m d k2 xy by (auto simp: cli_unlock_def st_then_def is_ok_iff st_err_def on_app_def)
    then show ?thesis using l u by auto
  qed
qed

lemma unlock_refusedD:
  assumes "unlock_refused H E k e"
  shows "plain e \<or> (\<exists>m c rest u s'. tm_input (dk_term k) = Some m # Some c # rest \<and> e = cli_unlock_error u \<and>
    unlock H (finalize_line m) (trim (finalize_line c)) (ce_prompter E) (dk_app k) = (Inl u, s'))"
proof -
  obtain k1 where "cli_unlock H E k = (Inl e, k1)" using assms by (auto simp: unlock_refused_def)
  from cli_unlock_cases [OF this] show ?thesis by (auto simp: eq_commute [of "Inl e"] map_err_Inl_iff)
qed

lemma pick_entry_Inl: "pick_entry label hs = Inl e \<Longrightarrow>
    e = NoEntryLabelled label \<and> label \<notin> eh_label ` set hs \<or> e = SeveralLabelled label"
  by (auto simp: pick_entry_def filter_empty_conv split: list.splits)

lemma label_refusedD:
  assumes "label_refused H E label k e"
  shows "plain e \<or> (\<exists>ua k1 hs x. cli_unlock H E k = (Inr ua, k1) \<and> list_entries H (dk_app k1, ua) = (Inr hs, x) \<and>
    e = NoEntryLabelled label \<and> label \<notin> eh_label ` set hs)"
proof -
  obtain ua k1 k2 where u: "cli_unlock H E k = (Inr ua, k1)" "find_entry H label ua k1 = (Inl e, k2)"
    using assms by (auto simp: label_refused_def)
  obtain r x where l: "list_entries H (dk_app k1, ua) = (r, x)" by (cases "list_entries H (dk_app k1, ua)")
  show ?thesis
  proof (cases r)
    case (Inl c)
    then show ?thesis using u l by (cases x) (auto simp: find_entry_def on_session_def)
  next
    case (Inr hs)
    then have "pick_entry label hs = Inl e"
      using u l by (cases x) (auto simp: find_entry_def on_session_def st_then_def st_lift_def and_then_Inl_iff)
    from pick_entry_Inl [OF this] show ?thesis using u l Inr by auto
  qed
qed

text \<open>The label a command asks for.\<close>

fun sought :: "cli_command \<Rightarrow> ustring option" where
  "sought (CmdGet label _ _) = Some label"
| "sought (CmdRm label) = Some label"
| "sought _ = None"

lemma add_error:
  assumes "cmd_add H E label gen n k = Some (Inl e, k')"
  shows "plain e \<or> unlock_refused H E k e"
proof -
  have r: "fails_only plain (add_rest H label n' u' pw ua)" for n' u' pw ua
    unfolding add_rest_def by (intro plain_rules)
  have p: "plain e" if "add_password H gen n' ua k1 = Some (Inl e, k2)" for n' ua k1 e k2
  proof (cases gen)
    case True
    have a: "add_password H True n' ua k1 = Some (Inl e, k2)" using that True by simp
    obtain r s ua' where g: "generate_password H (cli_request (Some n')) (dk_app k1, ua) = Some (r, s, ua')"
      using a by (auto simp: add_password_def bind_eq_Some_conv split: if_splits)
    show ?thesis using a g by (cases r) (auto simp: add_password_def Let_def)
  next
    case False
    have "fails_only plain (st_then (read_new_password ''Password: '') (\<lambda>pw. st_lift (Inr (pw, ua))))"
      by (intro plain_rules)
    then show ?thesis using False that by (auto simp: add_password_def fails_only_def)
  qed
  obtain a k1 where a: "add_username H E k = (a, k1)" by fastforce
  show ?thesis
  proof (cases a)
    case (Inl e1)
    have "plain e1 \<or> unlock_refused H E k e1"
      by (rule after_unlock [OF _ a [unfolded Inl add_username_def]]) (intro plain_rules)
    then show ?thesis using assms a Inl by (simp add: cmd_add_def Let_def)
  next
    case (Inr z)
    let ?n = "case n of None \<Rightarrow> default_length | Some n \<Rightarrow> n"
    obtain b k2 where b: "add_password H gen ?n (fst z) k1 = Some (b, k2)"
      using assms a Inr by (cases z) (auto simp: cmd_add_def Let_def bind_eq_Some_conv)
    show ?thesis
    proof (cases b)
      case (Inl e2)
      then show ?thesis using assms a \<open>a = Inr z\<close> b p [OF b [unfolded Inl]] by (cases z) (simp add: cmd_add_def Let_def)
    next
      case (Inr y)
      then have "add_rest H label ?n (snd z) (fst y) (snd y) k2 = (Inl e, k')"
        using assms a \<open>a = Inr z\<close> b by (cases z; cases y) (simp add: cmd_add_def Let_def)
      then show ?thesis using fails_onlyD [OF r] by blast
    qed
  qed
qed

lemma dispatch_error:
  assumes "dispatch H E cmd k = Some (Inl e, k')"
  shows "plain e \<or> unlock_refused H E k e \<or> (\<exists>label. sought cmd = Some label \<and> label_refused H E label k e)"
proof (cases cmd)
  case (CmdInit preset)
  have "fails_only plain (cmd_init H E preset)" unfolding cmd_init_def by (intro fails_gate plain_rules) simp_all
  then show ?thesis using assms CmdInit by (auto dest: fails_onlyD)
next
  case (CmdImport fl preset)
  have "fails_only plain (cmd_import H E fl preset)" unfolding cmd_import_def by (intro fails_gate plain_rules) simp_all
  then show ?thesis using assms CmdImport by (auto dest: fails_onlyD)
next
  case CmdList
  then have "cmd_list H E k = (Inl e, k')" using assms by simp
  then have "plain e \<or> unlock_refused H E k e" unfolding cmd_list_def by (rule after_unlock [rotated]) (intro plain_rules)
  then show ?thesis by blast
next
  case (CmdAdd label g n)
  then show ?thesis using assms add_error [of H E label g n k e k'] by auto
next
  case (CmdGet label show_it field)
  then have "cmd_get H E label field show_it k = (Inl e, k')" using assms by simp
  then have "plain e \<or> unlock_refused H E k e \<or> label_refused H E label k e"
    unfolding cmd_get_def by (rule after_find [rotated]) (auto intro!: plain_rules plain_get_copied)
  then show ?thesis using CmdGet by auto
next
  case (CmdRm label)
  then have "cmd_rm H E label k = (Inl e, k')" using assms by simp
  then have "plain e \<or> unlock_refused H E k e \<or> label_refused H E label k e"
    unfolding cmd_rm_def by (rule after_find [rotated]) (intro plain_rules)
  then show ?thesis using CmdRm by auto
next
  case (CmdExport fl preset)
  then have c: "cmd_export H E fl preset k = (Inl e, k')" using assms by simp
  show ?thesis
  proof (cases "file_exists E fl k")
    case False
    then have "plain e \<or> unlock_refused H E k e"
      by (intro after_unlock [OF _ c [unfolded cmd_export_def if_not_P [OF False]]] plain_rules)
    then show ?thesis by blast
  qed (use c in \<open>auto simp: cmd_export_def\<close>)
next
  case (CmdPasswd preset)
  then have "cmd_passwd H E preset k = (Inl e, k')" using assms by simp
  then have "plain e \<or> unlock_refused H E k e" unfolding cmd_passwd_def by (rule after_unlock [rotated]) (intro plain_rules)
  then show ?thesis by blast
qed (use assms in simp)

section \<open>How the program fails\<close>

text \<open>The desk a command of the program starts at, and the environment it runs in.\<close>

definition started :: "toml_lib \<Rightarrow> outside \<Rightarrow> 'c cli_env \<Rightarrow> cli_args \<Rightarrow> ('d, 'c) system \<Rightarrow> 'c cli_env \<Rightarrow> ('d, 'c) desk \<Rightarrow> bool" where
  "started L U E a y E' k \<longleftrightarrow> (\<exists>p st s x. main_prepare L U a (sy_fs y) = Inr (p, st) \<and> E' = main_env E a p st \<and>
     open_app E' (ou_lockfile_opens U) y = (Inr s, x) \<and>
     k = \<lparr>dk_app = s, dk_clip = sy_clip y, dk_term = sy_term y, dk_dirs = sy_dirs y\<rparr>)"

lemma open_app_error:
  assumes "open_app E lockfile_opens y = (Inl e, fs, t)"
  shows "plain e \<or> (e = VaultInUse \<and> lock_path_for (vault_path (ce_paths E)) \<in> lt_held (sy_locks y) \<and> t = sy_locks y \<and>
    (\<forall>q. q \<noteq> lock_path_for (vault_path (ce_paths E)) \<longrightarrow> fs q = sy_fs y q))"
proof -
  obtain c where c: "app_open lockfile_opens (vault_path (ce_paths E)) (sy_device y) (sy_rng y) (sy_fs y, sy_locks y) = (Inl c, fs, t)"
    "e = cli_open_error c"
    using assms by (auto simp: open_app_def app_open_allowing_software_hsm_def map_err_Inl_iff split: if_splits prod.splits sum.splits)
  show ?thesis using c
    by (auto simp: app_open_def instance_lock_acquire_def Let_def try_lock_def split: if_splits sum.splits prod.splits)
qed

lemma prepare_plain: "main_prepare L U a fs = Inl e \<Longrightarrow> plain e"
proof -
  have s: "plain (selection_error x)" for x by (cases x) simp_all
  show "main_prepare L U a fs = Inl e \<Longrightarrow> plain e"
    by (auto simp: main_prepare_def resolve_paths_def and_then_Inl_iff map_err_Inl_iff s split: option.splits cli_command.splits)
qed

lemma gen_plain:
  assumes "cmd_gen C n (g, t) = Some (Inl e, x)"
  shows "plain e"
proof -
  obtain r g' where "generate C (cli_request n) g = Some (r, g')" using assms by (auto simp: cmd_gen_def bind_eq_Some_conv)
  then show ?thesis using assms by (cases r) (auto simp: cmd_gen_def)
qed

lemma run_error:
  assumes "real_main H L U E a y = Some (Inl e, y')"
  shows "plain e \<or>
    (e = VaultInUse \<and> (\<exists>p st. main_prepare L U a (sy_fs y) = Inr (p, st) \<and> lock_path_for (vault_path p) \<in> lt_held (sy_locks y) \<and>
       sy_locks y' = sy_locks y \<and> (\<forall>q. q \<noteq> lock_path_for (vault_path p) \<longrightarrow> sy_fs y' q = sy_fs y q))) \<or>
    (\<exists>E' k. started L U E a y E' k \<and> (unlock_refused H E' k e \<or>
       (\<exists>label. sought (arg_command a) = Some label \<and> label_refused H E' label k e)))"
proof (cases "main_prepare L U a (sy_fs y)")
  case (Inl c)
  then show ?thesis using assms prepare_plain [OF Inl] by (simp add: real_main_def)
next
  case (Inr z)
  obtain p st where z: "z = (p, st)" by (cases z)
  let ?E = "main_env E a p st"
  have run: "cli_run H ?E (ou_lockfile_opens U) (arg_command a) y = Some (Inl e, y')" using assms Inr z by (simp add: real_main_def)
  have paths: "ce_paths ?E = p" by (simp add: main_env_def)
  show ?thesis
  proof (cases "\<exists>n. arg_command a = CmdGen n")
    case True
    then show ?thesis using run by (auto simp: cli_run_def map_option_eq_Some dest: gen_plain)
  next
    case False
    then have run': "(case open_app ?E (ou_lockfile_opens U) y of
           (Inl e, fs, t) \<Rightarrow> Some (Inl e, y\<lparr>sy_fs := fs, sy_locks := t\<rparr>)
         | (Inr s, fs, t) \<Rightarrow>
             map_option (\<lambda>(r, k). (r, y\<lparr>sy_fs := a_fs (dk_app k), sy_locks := instance_lock_drop (a_lock (dk_app k)) t,
                 sy_device := a_device (dk_app k), sy_rng := a_rng (dk_app k), sy_clip := dk_clip k,
                 sy_term := dk_term k, sy_dirs := dk_dirs k\<rparr>))
               (dispatch H ?E (arg_command a) \<lparr>dk_app = s, dk_clip = sy_clip y, dk_term = sy_term y, dk_dirs = sy_dirs y\<rparr>)) = Some (Inl e, y')"
      using run unfolding cli_run_def by (cases "arg_command a") simp_all
    obtain q fs t where o: "open_app ?E (ou_lockfile_opens U) y = (q, fs, t)" by (metis prod_cases3)
    show ?thesis
    proof (cases q)
      case (Inl c)
      then have "c = e" "y' = y\<lparr>sy_fs := fs, sy_locks := t\<rparr>" using run' o by simp_all
      then show ?thesis using open_app_error [OF o [unfolded Inl]] Inr z paths by auto
    next
      case (Inr s)
      let ?k = "\<lparr>dk_app = s, dk_clip = sy_clip y, dk_term = sy_term y, dk_dirs = sy_dirs y\<rparr>"
      obtain k' where d: "dispatch H ?E (arg_command a) ?k = Some (Inl e, k')"
        using run' o Inr by (auto simp: map_option_eq_Some split: prod.splits)
      have "started L U E a y ?E ?k" using o Inr z \<open>main_prepare L U a (sy_fs y) = Inr z\<close> unfolding started_def by blast
      then show ?thesis using dispatch_error [OF d] by blast
    qed
  qed
qed

end
