(* ===== verification/CliStore.thy ===== *)
theory CliStore
  imports CliProps WorkerSessions
begin

text \<open>
  The commands as operations of an entry store.  A desk whose vault holds certain entries under a
  password is taken by every command to one whose vault holds the entries the command says, under the
  password it says; a command that fails leaves both.  The argument is a Hoare triple over the steps of
  a command, with one postcondition for every way to fail.
\<close>

section \<open>Triples\<close>

definition triple :: "('s \<Rightarrow> bool) \<Rightarrow> ('s \<Rightarrow> ('e + 'a) \<times> 's) \<Rightarrow> ('a \<Rightarrow> 's \<Rightarrow> bool) \<Rightarrow> ('s \<Rightarrow> bool) \<Rightarrow> bool" where
  "triple P m Q R \<longleftrightarrow> (\<forall>s r s'. P s \<longrightarrow> m s = (r, s') \<longrightarrow> (case r of Inl _ \<Rightarrow> R s' | Inr x \<Rightarrow> Q x s'))"

lemma tripleI: "(\<And>s r s'. P s \<Longrightarrow> m s = (r, s') \<Longrightarrow> case r of Inl _ \<Rightarrow> R s' | Inr x \<Rightarrow> Q x s') \<Longrightarrow> triple P m Q R"
  unfolding triple_def by blast

lemma tripleD: "triple P m Q R \<Longrightarrow> P s \<Longrightarrow> m s = (r, s') \<Longrightarrow> case r of Inl _ \<Rightarrow> R s' | Inr x \<Rightarrow> Q x s'"
  unfolding triple_def by blast

lemma triple_then: "triple P m Q R \<Longrightarrow> (\<And>x. triple (Q x) (f x) S R) \<Longrightarrow> triple P (st_then m f) S R"
  by (rule tripleI) (fastforce simp: st_then_def dest: tripleD split: prod.splits sum.splits)

lemma triple_do: "(\<And>s x s'. P s \<Longrightarrow> f s = (x, s') \<Longrightarrow> Q x s') \<Longrightarrow> triple P (st_do f) Q R"
  by (rule tripleI) (auto simp: st_do_def split: prod.splits)

lemma triple_ok: "(\<And>s. P s \<Longrightarrow> Q x s) \<Longrightarrow> triple P (st_lift (Inr x)) Q R"
  by (rule tripleI) (auto simp: st_lift_def)

lemma triple_pre: "triple P' m Q R \<Longrightarrow> (\<And>s. P s \<Longrightarrow> P' s) \<Longrightarrow> triple P m Q R"
  unfolding triple_def by blast

lemma triple_post: "triple P m Q' R \<Longrightarrow> (\<And>x s. Q' x s \<Longrightarrow> Q x s) \<Longrightarrow> triple P m Q R"
  unfolding triple_def by (metis (mono_tags, lifting) sum.case_eq_if)

lemma triple_ex: "(\<And>a. triple (P a) m Q R) \<Longrightarrow> triple (\<lambda>s. \<exists>a. P a s) m Q R"
  unfolding triple_def by blast

lemma triple_pure: "(c \<Longrightarrow> triple P m Q R) \<Longrightarrow> triple (\<lambda>s. c \<and> P s) m Q R"
  unfolding triple_def by blast

section \<open>What a vault holds\<close>

text \<open>The vault file holds the entries \<open>M\<close> under the password \<open>pw\<close>.\<close>

definition vault_holds :: "(hsm_slot \<Rightarrow> wrapped_blob \<Rightarrow> bytes \<Rightarrow> 'd \<Rightarrow> bool) \<Rightarrow> ('d, 'm) host_scheme \<Rightarrow> secret_string \<Rightarrow>
    (entry_id \<rightharpoonup> entry_view) \<Rightarrow> 'd app \<Rightarrow> bool" where
  "vault_holds opens H pw M s \<longleftrightarrow> tidy M \<and> (\<exists>km seed v. provisioned opens H pw km seed v s \<and> store_view H km v = M)"

text \<open>A session is open on it, and the lines \<open>ls\<close> are still to be read.\<close>

definition at_work :: "(hsm_slot \<Rightarrow> wrapped_blob \<Rightarrow> bytes \<Rightarrow> 'd \<Rightarrow> bool) \<Rightarrow> ('d, 'm) host_scheme \<Rightarrow> secret_string \<Rightarrow>
    (entry_id \<rightharpoonup> entry_view) \<Rightarrow> unlocked_app \<Rightarrow> ustring option list \<Rightarrow> ('d, 'c) desk \<Rightarrow> bool" where
  "at_work opens H pw M ua ls k \<longleftrightarrow> tidy M \<and> tm_input (dk_term k) = ls \<and>
     (\<exists>v. in_session opens H pw v (dk_app k, ua) \<and> session_view H v (dk_app k, ua) = M)"

text \<open>The master password asked for first is the vault's or one the vault refutes.\<close>

definition typed :: "('d, 'm) host_scheme \<Rightarrow> secret_string \<Rightarrow> ('d, 'c) desk \<Rightarrow> bool" where
  "typed H pw k \<longleftrightarrow> (\<forall>v l rest. stored v (dk_app k) \<longrightarrow> tm_input (dk_term k) = Some l # rest \<longrightarrow>
     finalize_line l = pw \<or> refuted H v (finalize_line l))"

lemma vault_holds_frame:
  assumes "vault_holds opens H pw M s" and "slots_kept opens s s'" and "a_fs s' (a_path s) = a_fs s (a_path s)"
  shows "vault_holds opens H pw M s'"
  using assms(1) provisioned_frame [OF _ assms(2,3)] unfolding vault_holds_def by blast

lemma at_work_holds: "at_work opens H pw M ua ls k \<Longrightarrow> vault_holds opens H pw M (dk_app k)"
  by (auto simp: at_work_def vault_holds_def in_session_def)

lemma at_work_same:
  "at_work opens H pw M ua ls k \<Longrightarrow> dk_app k' = dk_app k \<Longrightarrow> tm_input (dk_term k') = ls' \<Longrightarrow> at_work opens H pw M ua ls' k'"
  by (auto simp: at_work_def)

section \<open>What commands do\<close>

text \<open>The listing names every entry, and each identifier once.\<close>

definition lists :: "entry_handle list \<Rightarrow> (entry_id \<rightharpoonup> entry_view) \<Rightarrow> bool" where
  "lists hs M \<longleftrightarrow> distinct (map eh_id hs) \<and> (\<forall>i l q r. M i = Some (l, q, r) \<longrightarrow> \<lparr>eh_id = i, eh_label = l\<rparr> \<in> set hs)"

text \<open>What a removal by label did.\<close>

definition removed :: "ustring \<Rightarrow> (entry_id \<rightharpoonup> entry_view) \<Rightarrow> (entry_id \<rightharpoonup> entry_view) \<Rightarrow> bool" where
  "removed label M M' \<longleftrightarrow> (\<exists>i. M' = M(i := None) \<and> (\<forall>j l q r. M j = Some (l, q, r) \<longrightarrow> (l = label \<longleftrightarrow> j = i)))"

lemma picked_removed:
  assumes "lists hs M" and "pick_entry label hs = Inr i"
  shows "removed label M (M(i := None))"
proof -
  have f: "filter (\<lambda>h. eh_label h = label) hs = [\<lparr>eh_id = i, eh_label = label\<rparr>]"
  proof -
    obtain h where h: "filter (\<lambda>h. eh_label h = label) hs = [h]" "eh_id h = i"
      using assms(2) by (auto simp: pick_entry_def split: list.splits)
    have "h \<in> set (filter (\<lambda>h. eh_label h = label) hs)" unfolding h(1) by simp
    then have "eh_label h = label" by simp
    then show ?thesis using h by simp
  qed
  have "l = label \<longleftrightarrow> j = i" if "M j = Some (l, q, r)" for j l q r
  proof
    have m: "\<lparr>eh_id = j, eh_label = l\<rparr> \<in> set hs" using assms(1) that unfolding lists_def by blast
    show "j = i" if "l = label"
    proof -
      have "\<lparr>eh_id = j, eh_label = l\<rparr> \<in> set (filter (\<lambda>h. eh_label h = label) hs)" using m that by simp
      then show ?thesis unfolding f by simp
    qed
    have "\<lparr>eh_id = i, eh_label = label\<rparr> \<in> set (filter (\<lambda>h. eh_label h = label) hs)" unfolding f by simp
    then have "\<lparr>eh_id = i, eh_label = label\<rparr> \<in> set hs" by simp
    then show "l = label" if "j = i"
      using m that assms(1) unfolding lists_def distinct_map inj_on_def by (metis entry_handle.select_convs)
  qed
  then show ?thesis unfolding removed_def by blast
qed

text \<open>Importing the file under the password gives a vault that holds the entries, wherever it succeeds.\<close>

definition restores :: "(hsm_slot \<Rightarrow> wrapped_blob \<Rightarrow> bytes \<Rightarrow> 'd \<Rightarrow> bool) \<Rightarrow> ('d, 'm) host_scheme \<Rightarrow> secret_string \<Rightarrow>
    (entry_id \<rightharpoonup> entry_view) \<Rightarrow> bytes \<Rightarrow> bool" where
  "restores opens H pw M b \<longleftrightarrow> (\<forall>kdf cfg q t ua uri t'.
     import_recovery H b pw kdf cfg q t = (Inr (ua :: unlocked_app, uri), t') \<longrightarrow> vault_holds opens H pw M t')"

definition exported :: "(hsm_slot \<Rightarrow> wrapped_blob \<Rightarrow> bytes \<Rightarrow> 'd \<Rightarrow> bool) \<Rightarrow> (wrapped_blob \<Rightarrow> rng \<Rightarrow> bool) \<Rightarrow> ('d, 'm) host_scheme \<Rightarrow>
    secret_string \<Rightarrow> (entry_id \<rightharpoonup> entry_view) \<Rightarrow> ustring option list \<Rightarrow> path \<Rightarrow> 'd app \<Rightarrow> bool" where
  "exported opens fresh H pw M ls fl s \<longleftrightarrow> (\<exists>b m c m' rest. a_fs s fl = Some \<lparr>f_content = b, f_mode = OWNER_ONLY\<rparr> \<and>
     ls = Some m # Some c # Some m' # rest \<and>
     (finalize_line m' = pw \<and> portable H M \<and> policy_codec_ok H \<and> fresh_after fresh H \<and> length b < 2 ^ 32 \<longrightarrow>
      restores opens H pw M b))"

text \<open>The lines \<open>add\<close> reads after the two of the unlock, and the record they make.\<close>

definition entered :: "bool \<Rightarrow> ustring option list \<Rightarrow> entry_record \<Rightarrow> bool" where
  "entered generate_pw ls r \<longleftrightarrow> (\<exists>m c u w n q q' rest. finalize_line u = er_username r \<and> finalize_line w = er_url r \<and>
     finalize_line n = er_notes r \<and>
     (if generate_pw then ls = Some m # Some c # Some u # Some w # Some n # rest
      else ls = Some m # Some c # Some u # Some q # Some q' # Some w # Some n # rest \<and>
        finalize_line q = er_password r \<and> finalize_line q' = er_password r))"

definition short_lines :: "ustring option list \<Rightarrow> bool" where
  "short_lines ls \<longleftrightarrow> (\<forall>l. Some l \<in> set ls \<longrightarrow> str_ok l \<and> length l \<le> 2 ^ 24)"

lemma enc_length: "length (utf8_enc s) \<le> 4 * length s"
proof (induction s)
  case (Cons c s)
  have "length (enc1 c) \<le> 4" by (simp add: enc1_def)
  then show ?case using Cons by (simp add: utf8_enc_def)
qed (simp add: utf8_enc_def)

lemma short_storable:
  assumes "\<forall>f\<in>set (record_fields r). str_ok f \<and> length f \<le> 2 ^ 24"
  shows "storable r"
proof -
  have "4 + length (expose_bytes f) \<le> 4 + 4 * 2 ^ 24" if "f \<in> set (record_fields r)" for f
    using assms that enc_length [of f] by (force simp: expose_bytes_def)
  then have "record_len r \<le> sum_list (map (\<lambda>f. 4 + 4 * 2 ^ 24) (record_fields r))"
    unfolding record_len_def by (rule sum_list_mono)
  then show ?thesis using assms by (simp add: storable_def record_ok_def list_all_iff record_fields_def)
qed

lemma finalize_short:
  assumes "str_ok l \<and> length l \<le> n"
  shows "str_ok (finalize_line l) \<and> length (finalize_line l) \<le> n"
proof -
  have "set (finalize_line l) \<subseteq> set l" by (auto simp: finalize_line_def dest: set_dropWhileD)
  moreover have "length (finalize_line l) \<le> length l"
    using length_dropWhile_le [of "\<lambda>c. c = 10 \<or> c = 13" "rev l"] by (simp add: finalize_line_def)
  ultimately show ?thesis using assms by (auto simp: str_ok_def list_all_iff)
qed

definition add_length :: "16 word option \<Rightarrow> 16 word" where
  "add_length n = (case n of Some n \<Rightarrow> n | None \<Rightarrow> default_length)"

text \<open>The host a command runs on: the laws of its primitives, its device and its prompter.\<close>

locale cli_host =
  fixes opens :: "hsm_slot \<Rightarrow> wrapped_blob \<Rightarrow> bytes \<Rightarrow> 'd \<Rightarrow> bool" and H :: "('d, 'm) host_scheme"
    and willing :: "prompter \<Rightarrow> 'd \<Rightarrow> bool" and fresh :: "wrapped_blob \<Rightarrow> rng \<Rightarrow> bool" and p :: prompter
  assumes laws: "env_ok H" "uuid_ok H" and device: "slot_store (store H) opens willing fresh"
    and consent: "willing p d"
begin

abbreviation works where "works \<equiv> at_work opens H"
abbreviation holds where "holds pw M \<equiv> (\<lambda>k. vault_holds opens H pw M (dk_app k))"

lemma unlock_triple:
  assumes "ce_prompter E = p"
  shows "triple (\<lambda>k. holds pw M k \<and> typed H pw k \<and> tm_input (dk_term k) = ls) (cli_unlock H E)
    (\<lambda>ua k. \<exists>m c rest. ls = Some m # Some c # rest \<and> works pw M ua rest k) (holds pw M)"
proof (rule tripleI)
  fix k r k' assume a: "holds pw M k \<and> typed H pw k \<and> tm_input (dk_term k) = ls" and u: "cli_unlock H E k = (r, k')"
  then obtain km seed v where v: "provisioned opens H pw km seed v (dk_app k)" "store_view H km v = M" "tidy M"
    by (auto simp: vault_holds_def)
  from cli_unlock_cases [OF u] show "case r of Inl _ \<Rightarrow> holds pw M k'
      | Inr ua \<Rightarrow> \<exists>m c rest. ls = Some m # Some c # rest \<and> works pw M ua rest k'"
  proof (elim disjE exE conjE)
    fix m c rest u assume l: "tm_input (dk_term k) = Some m # Some c # rest" "tm_input (dk_term k') = rest" "r = map_err cli_unlock_error u"
      and u: "unlock H (finalize_line m) (trim (finalize_line c)) (ce_prompter E) (dk_app k) = (u, dk_app k')"
    have m: "finalize_line m = pw \<or> refuted H v (finalize_line m)" using a v(1) l(1) unfolding typed_def provisioned_def by blast
    show ?thesis
    proof (cases u)
      case (Inl e)
      obtain c t where "provisioned opens H pw km seed (set_rate_limit c t v) (dk_app k')"
        using unlock_keeps_provisioned [OF device v(1) u] by blast
      moreover have "store_view H km (set_rate_limit c t v) = M" using v(2) by simp
      ultimately have "holds pw M k'" using v(3) unfolding vault_holds_def by blast
      then show ?thesis using l(3) Inl by simp
    next
      case (Inr ua)
      then obtain v' where "in_session opens H pw v' (dk_app k', ua)" "session_view H v' (dk_app k', ua) = store_view H km v"
        using unlock_evolves [OF device consent v(1) m] u assms by blast
      then have "works pw M ua rest k'" using v l(2) by (auto simp: at_work_def)
      then show ?thesis using l a Inr by auto
    qed
  qed (use a in \<open>simp add: vault_holds_def\<close>)
qed

lemma ask_triple:
  "triple (works pw M ua ls) (ask q) (\<lambda>x k. \<exists>l rest. ls = Some l # rest \<and> x = finalize_line l \<and> works pw M ua rest k) (holds pw M)"
proof (rule tripleI)
  fix k r k' assume a: "works pw M ua ls k" and u: "ask q k = (r, k')"
  have s: "dk_app k' = dk_app k" using u by (auto simp: ask_def split: prod.splits)
  have h: "holds pw M k'" using at_work_holds [OF a] s by simp
  have "tm_input (dk_term k) = ls" using a by (simp add: at_work_def)
  then have "\<exists>l rest. ls = Some l # rest \<and> x = finalize_line l \<and> tm_input (dk_term k') = rest" if "r = Inr x" for x
    using u that by (auto simp: ask_def read_input_def split: prod.splits list.splits option.splits)
  then show "case r of Inl _ \<Rightarrow> holds pw M k' | Inr x \<Rightarrow> \<exists>l rest. ls = Some l # rest \<and> x = finalize_line l \<and> works pw M ua rest k'"
    using h at_work_same [OF a s] by (cases r) auto
qed

lemma quiet_triple:
  assumes "\<And>k x k'. f k = (x, k') \<Longrightarrow> dk_app k' = dk_app k \<and> tm_input (dk_term k') = tm_input (dk_term k)"
  shows "triple (works pw M ua ls) (st_do f) (\<lambda>_. works pw M ua ls) R"
proof (rule triple_do)
  fix k x k' assume a: "works pw M ua ls k" and f: "f k = (x, k')"
  have "tm_input (dk_term k) = ls" using a by (simp add: at_work_def)
  then show "works pw M ua ls k'" by (intro at_work_same [OF a]) (simp_all add: assms [OF f])
qed

lemma say_triple: "triple (works pw M ua ls) (st_do (say x)) (\<lambda>_. works pw M ua ls) R"
  by (rule quiet_triple) (auto simp: say_def)

lemma say_all_same: "dk_app (snd (say_all xs k)) = dk_app k \<and> tm_input (dk_term (snd (say_all xs k))) = tm_input (dk_term k)"
  by (induction xs k rule: say_all.induct) (simp_all add: say_def)

lemma say_all_triple: "triple (works pw M ua ls) (st_do (say_all xs)) (\<lambda>_. works pw M ua ls) R"
proof (rule quiet_triple)
  fix k x k' assume "say_all xs k = (x, k')"
  then show "dk_app k' = dk_app k \<and> tm_input (dk_term k') = tm_input (dk_term k)" using say_all_same [of xs k] by simp
qed

lemma warn_triple: "triple (works pw M ua ls) (st_do (warn_if_weak H y kdf)) (\<lambda>_. works pw M ua ls) R"
  by (rule quiet_triple) (auto simp: warn_if_weak_def say_def Let_def split: if_splits)

lemma done_triple: "triple (works pw M ua ls) (st_do (say x)) (\<lambda>_. holds pw M) R"
  by (rule triple_post [OF say_triple]) (rule at_work_holds)

lemma done_all_triple: "triple (works pw M ua ls) (st_do (say_all xs)) (\<lambda>_. holds pw M) R"
  by (rule triple_post [OF say_all_triple]) (rule at_work_holds)

text \<open>An operation of the session, by what it does to a session in agreement with its vault.\<close>

lemma session_triple:
  assumes "\<And>v s r y. in_session opens H pw v (s, ua) \<Longrightarrow> session_view H v (s, ua) = M \<Longrightarrow> tidy M \<Longrightarrow> f (s, ua) = (r, y) \<Longrightarrow>
    case r of Inl _ \<Rightarrow> \<exists>v'. in_session opens H pw v' y \<and> session_view H v' y = M
      | Inr x \<Rightarrow> \<exists>pw' M' v'. S x pw' M' \<and> tidy M' \<and> in_session opens H pw' v' y \<and> session_view H v' y = M'"
  shows "triple (works pw M ua ls) (on_session h f ua)
    (\<lambda>(x, ua') k. \<exists>pw' M'. S x pw' M' \<and> works pw' M' ua' ls k) (holds pw M)"
proof (rule tripleI)
  fix k q k' assume a: "works pw M ua ls k" and u: "on_session h f ua k = (q, k')"
  obtain r s' ua' where r: "f (dk_app k, ua) = (r, s', ua')" by (cases "f (dk_app k, ua)") auto
  have k': "k' = k\<lparr>dk_app := s'\<rparr>" "q = and_then (map_err h r) (\<lambda>x. Inr (x, ua'))" using u r by (simp_all add: on_session_def)
  obtain v where v: "in_session opens H pw v (dk_app k, ua)" "session_view H v (dk_app k, ua) = M" "tidy M" "tm_input (dk_term k) = ls"
    using a by (auto simp: at_work_def)
  note c = assms [OF v(1,2,3) r]
  show "case q of Inl _ \<Rightarrow> holds pw M k' | Inr x \<Rightarrow> (\<lambda>(x, ua') k. \<exists>pw' M'. S x pw' M' \<and> works pw' M' ua' ls k) x k'"
  proof (cases r)
    case (Inl e)
    then show ?thesis using c k' v by (auto simp: vault_holds_def in_session_def)
  next
    case (Inr x)
    then show ?thesis using c k' v by (auto simp: at_work_def)
  qed
qed

lemma read_triple:
  assumes "keeps (undisturbed opens) f"
  shows "triple (works pw M ua ls) (on_session h f ua) (\<lambda>(_, ua'). works pw M ua' ls) (holds pw M)"
proof (rule tripleI)
  fix k q k' assume a: "works pw M ua ls k" and u: "on_session h f ua k = (q, k')"
  have "triple (works pw M ua ls) (on_session h f ua) (\<lambda>(x, ua') k. \<exists>pw' M'. (pw' = pw \<and> M' = M) \<and> works pw' M' ua' ls k) (holds pw M)"
  proof (rule session_triple)
    fix v s r y assume s: "in_session opens H pw v (s, ua)" "session_view H v (s, ua) = M" "tidy M" and f: "f (s, ua) = (r, y)"
    note d = keepsD [OF assms f]
    have "in_session opens H pw v y" "session_view H v y = M"
      using in_session_undisturbed [OF s(1) d] s(2) d by (simp_all add: undisturbed_def)
    with s(3) show "case r of Inl _ \<Rightarrow> \<exists>v'. in_session opens H pw v' y \<and> session_view H v' y = M
      | Inr x \<Rightarrow> \<exists>pw' M' v'. (pw' = pw \<and> M' = M) \<and> tidy M' \<and> in_session opens H pw' v' y \<and> session_view H v' y = M'"
      by (cases r) auto
  qed
  from tripleD [OF this a u] show "case q of Inl _ \<Rightarrow> holds pw M k' | Inr x \<Rightarrow> (\<lambda>(_, ua'). works pw M ua' ls) x k'"
    by (cases q) auto
qed

lemma then_ask:
  assumes "\<And>l rest. ls = Some l # rest \<Longrightarrow> triple (works pw M ua rest) (f (finalize_line l)) S (holds pw M)"
  shows "triple (works pw M ua ls) (st_then (ask q) f) S (holds pw M)"
  by (rule triple_then [OF ask_triple], (rule triple_ex)+, (rule triple_pure)+) (use assms in blast)

lemma new_password_triple:
  "triple (works pw M ua ls) (read_new_password q) (\<lambda>x k. \<exists>l l' rest. (ls = Some l # Some l' # rest \<and>
     finalize_line l = finalize_line l' \<and> x = finalize_line l) \<and> works pw M ua rest k) (holds pw M)"
  unfolding read_new_password_def
  by (rule then_ask, rule then_ask) (auto simp: triple_def st_lift_def dest: at_work_holds)

lemma then_new_password:
  assumes "\<And>l l' rest. ls = Some l # Some l' # rest \<Longrightarrow> finalize_line l = finalize_line l' \<Longrightarrow>
    triple (works pw M ua rest) (f (finalize_line l)) S (holds pw M)"
  shows "triple (works pw M ua ls) (st_then (read_new_password q) f) S (holds pw M)"
  by (rule triple_then [OF new_password_triple], (rule triple_ex)+, (rule triple_pure)+) (use assms in blast)

lemma then_say:
  "triple (works pw M ua ls) (f ()) S R \<Longrightarrow> triple (works pw M ua ls) (st_then (st_do (say x)) f) S R"
  "triple (works pw M ua ls) (f ()) S R \<Longrightarrow> triple (works pw M ua ls) (st_then (st_do (say_all xs)) f) S R"
  "triple (works pw M ua ls) (f ()) S R \<Longrightarrow> triple (works pw M ua ls) (st_then (st_do (warn_if_weak H y kdf)) f) S R"
  by (rule triple_then [OF say_triple], simp) (rule triple_then [OF say_all_triple], simp, rule triple_then [OF warn_triple], simp)

lemma then_read:
  assumes "keeps (undisturbed opens) g" and "\<And>x ua'. triple (works pw M ua' ls) (f (x, ua')) S (holds pw M)"
  shows "triple (works pw M ua ls) (st_then (on_session h g ua) f) S (holds pw M)"
  by (rule triple_then [OF read_triple [OF assms(1)]]) (use assms(2) in auto)

lemma then_unlock:
  assumes "ce_prompter E = p" and "\<And>ua m c rest. ls = Some m # Some c # rest \<Longrightarrow> triple (works pw M ua rest) (f ua) S (holds pw M)"
  shows "triple (\<lambda>k. holds pw M k \<and> typed H pw k \<and> tm_input (dk_term k) = ls) (st_then (cli_unlock H E) f) S (holds pw M)"
  by (rule triple_then [OF unlock_triple [OF assms(1)]], (rule triple_ex)+, (rule triple_pure)+) (use assms(2) in blast)

lemmas then_rules = then_ask then_new_password then_say done_triple done_all_triple

section \<open>The commands\<close>

abbreviation begins where "begins pw M ls k \<equiv> holds pw M k \<and> typed H pw k \<and> tm_input (dk_term k) = ls"

lemma list_triple: "ce_prompter E = p \<Longrightarrow> triple (begins pw M ls) (cmd_list H E) (\<lambda>_. holds pw M) (holds pw M)"
  unfolding cmd_list_def
  by (rule then_unlock) (auto intro!: then_read keeps_undisturbed_reads then_rules)

lemma find_triple:
  "triple (works pw M ua ls) (find_entry H label ua)
    (\<lambda>(i, ua') k. (\<exists>hs. lists hs M \<and> pick_entry label hs = Inr i) \<and> works pw M ua' ls k) (holds pw M)"
proof -
  let ?S = "\<lambda>hs pw' M'. pw' = pw \<and> M' = M \<and> lists hs M"
  have l: "triple (works pw M ua ls) (on_session OperationFailed (list_entries H) ua)
      (\<lambda>(hs, ua') k. \<exists>pw' M'. ?S hs pw' M' \<and> works pw' M' ua' ls k) (holds pw M)"
  proof (rule session_triple)
    fix v s r y assume s: "in_session opens H pw v (s, ua)" "session_view H v (s, ua) = M" "tidy M" and f: "list_entries H (s, ua) = (r, y)"
    note d = keepsD [OF keeps_undisturbed_reads(1) f]
    have k: "in_session opens H pw v y" "session_view H v y = M"
      using in_session_undisturbed [OF s(1) d] s(2) d by (simp_all add: undisturbed_def)
    have ix: "open_index H v (k_master ua) = Inr (ua_index ua)" using in_session_vault(3) [OF s(1)] by simp
    have "lists hs M" if "r = Inr hs" for hs
    proof -
      obtain e z where e: "ensure_unlocked H (s, ua) = (e, z)" by (cases "ensure_unlocked H (s, ua)") simp
      have "snd z = ua" using ensure_in_session [OF s(1) e] by simp
      then have hs: "hs = map (\<lambda>e. \<lparr>eh_id = ie_id e, eh_label = ie_label e\<rparr>) (ua_index ua)"
        using f e that by (cases e) (auto simp: list_entries_def st_then_def with_session_def st_lift_def)
      have "distinct (map ie_id (ua_index ua))" using ix by (simp add: open_index_iff)
      moreover have "\<lparr>eh_id = i, eh_label = l\<rparr> \<in> set hs" if "M i = Some (l, q, rec)" for i l q rec
        using that s(2) ix unfolding hs
        by (force simp: store_view_def index_get_def split: option.splits sum.splits dest!: find_Some_mem)
      ultimately show ?thesis unfolding lists_def hs by (auto simp: comp_def)
    qed
    then show "case r of Inl _ \<Rightarrow> \<exists>v'. in_session opens H pw v' y \<and> session_view H v' y = M
      | Inr x \<Rightarrow> \<exists>pw' M' v'. ?S x pw' M' \<and> tidy M' \<and> in_session opens H pw' v' y \<and> session_view H v' y = M'"
      using k s(3) by (cases r) auto
  qed
  show ?thesis
  proof (rule tripleI)
    fix k r k' assume a: "works pw M ua ls k" and f: "find_entry H label ua k = (r, k')"
    obtain q k1 where q: "on_session OperationFailed (list_entries H) ua k = (q, k1)" by fastforce
    note x = tripleD [OF l a q]
    show "case r of Inl _ \<Rightarrow> holds pw M k' | Inr x \<Rightarrow>
        (\<lambda>(i, ua') k. (\<exists>hs. lists hs M \<and> pick_entry label hs = Inr i) \<and> works pw M ua' ls k) x k'"
    proof (cases q)
      case (Inl e)
      then show ?thesis using f q x by (auto simp: find_entry_def st_then_def)
    next
      case (Inr z)
      then have w: "lists (fst z) M" "works pw M (snd z) ls k1" using x by (auto split: prod.splits)
      show ?thesis using f q Inr w at_work_holds [OF w(2)]
        by (cases z; cases "pick_entry label (fst z)") (auto simp: find_entry_def st_then_def st_lift_def)
    qed
  qed
qed

lemma then_find:
  assumes "\<And>i ua' hs. lists hs M \<Longrightarrow> pick_entry label hs = Inr i \<Longrightarrow> triple (works pw M ua' ls) (f (i, ua')) S (holds pw M)"
  shows "triple (works pw M ua ls) (st_then (find_entry H label ua) f) S (holds pw M)"
  by (rule triple_then [OF find_triple], simp add: case_prod_beta, rule triple_pure) (use assms in auto)

lemma then_session:
  assumes "\<And>v s r y. in_session opens H pw v (s, ua) \<Longrightarrow> session_view H v (s, ua) = M \<Longrightarrow> tidy M \<Longrightarrow> g (s, ua) = (r, y) \<Longrightarrow>
    case r of Inl _ \<Rightarrow> \<exists>v'. in_session opens H pw v' y \<and> session_view H v' y = M
      | Inr x \<Rightarrow> \<exists>pw' M' v'. S x pw' M' \<and> tidy M' \<and> in_session opens H pw' v' y \<and> session_view H v' y = M'"
    and "\<And>x ua' pw' M'. S x pw' M' \<Longrightarrow> triple (works pw' M' ua' ls) (f (x, ua')) Q (holds pw M)"
  shows "triple (works pw M ua ls) (st_then (on_session h g ua) f) Q (holds pw M)"
  by (rule triple_then [OF session_triple [where S = S, OF assms(1)]], assumption+, simp add: case_prod_beta, (rule triple_ex)+, rule triple_pure)
    (use assms(2) in auto)

lemma rm_triple:
  assumes "ce_prompter E = p"
  shows "triple (begins pw M ls) (cmd_rm H E label) (\<lambda>_ k. \<exists>M'. removed label M M' \<and> holds pw M' k) (holds pw M)"
  unfolding cmd_rm_def
proof (rule then_unlock [OF assms])
  fix ua m c rest
  show "triple (works pw M ua rest) (st_then (find_entry H label ua) (\<lambda>(i, ua'). st_then (on_session OperationFailed (session_remove H i) ua')
      (\<lambda>_. st_do (say (Err (EntryRemoved label)))))) (\<lambda>_ k. \<exists>M'. removed label M M' \<and> holds pw M' k) (holds pw M)"
  proof (rule then_find, unfold prod.case)
    fix i ua' hs assume l: "lists hs M" "pick_entry label hs = Inr i"
    show "triple (works pw M ua' rest) (st_then (on_session OperationFailed (session_remove H i) ua')
        (\<lambda>_. st_do (say (Err (EntryRemoved label))))) (\<lambda>_ k. \<exists>M'. removed label M M' \<and> holds pw M' k) (holds pw M)"
    proof (rule then_session [where S = "\<lambda>_ pw' M'. pw' = pw \<and> M' = M(i := None)"])
      fix v s r y assume s: "in_session opens H pw v (s, ua')" "session_view H v (s, ua') = M" "tidy M" "session_remove H i (s, ua') = (r, y)"
      show "case r of Inl _ \<Rightarrow> \<exists>v'. in_session opens H pw v' y \<and> session_view H v' y = M
        | Inr x \<Rightarrow> \<exists>pw' M' v'. (pw' = pw \<and> M' = M(i := None)) \<and> tidy M' \<and> in_session opens H pw' v' y \<and> session_view H v' y = M'"
        using remove_in_session [OF laws(1) s(1,4)] s(2,3) by (cases r) auto
    next
      fix x ua2 pw' M' assume "pw' = pw \<and> M' = M(i := None)"
      then show "triple (works pw' M' ua2 rest) (st_do (say (Err (EntryRemoved label)))) (\<lambda>_ k. \<exists>M'. removed label M M' \<and> holds pw M' k) (holds pw M)"
        using picked_removed [OF l] by (intro triple_post [OF done_triple]) auto
    qed
  qed
qed

lemma passwd_triple:
  assumes "ce_prompter E = p"
  shows "triple (begins pw M ls) (cmd_passwd H E preset)
    (\<lambda>_ k. \<exists>m c old n n' rest. ls = Some m # Some c # Some old # Some n # Some n' # rest \<and> finalize_line n = finalize_line n' \<and>
       holds (finalize_line n) M k) (holds pw M)"
  unfolding cmd_passwd_def
proof (rule then_unlock [OF assms], rule then_ask, rule then_new_password, (rule then_say)+)
  fix ua m c rest old rest' n n' rest''
  assume l: "ls = Some m # Some c # rest" "rest = Some old # rest'" "rest' = Some n # Some n' # rest''" "finalize_line n = finalize_line n'"
  show "triple (works pw M ua rest'') (st_then (on_session PasswdFailed (change_master_password H (finalize_line old) (finalize_line n)
        (cli_kdf E preset) (ce_prompter E)) ua)
      (\<lambda>(stale, _). st_then (st_do (say_all (if stale then [Err ExportIsStale] else []))) (\<lambda>_. st_do (say (Err PasswordChanged)))))
    (\<lambda>_ k. \<exists>m c old n n' rest. ls = Some m # Some c # Some old # Some n # Some n' # rest \<and> finalize_line n = finalize_line n' \<and>
       holds (finalize_line n) M k) (holds pw M)"
  proof (rule then_session [where S = "\<lambda>_ pw' M'. pw' = finalize_line n \<and> M' = M"], unfold assms prod.case)
    fix v s r y assume s: "in_session opens H pw v (s, ua)" "session_view H v (s, ua) = M" "tidy M"
      "change_master_password H (finalize_line old) (finalize_line n) (cli_kdf E preset) p (s, ua) = (r, y)"
    have t: "tidy (session_view H v (s, ua))" using s(2,3) by simp
    show "case r of Inl _ \<Rightarrow> \<exists>v'. in_session opens H pw v' y \<and> session_view H v' y = M
      | Inr x \<Rightarrow> \<exists>pw' M' v'. (pw' = finalize_line n \<and> M' = M) \<and> tidy M' \<and> in_session opens H pw' v' y \<and> session_view H v' y = M'"
      using change_in_session [OF laws(1) device s(1) t consent s(4)] s(2,3) by (cases r) auto
  next
    fix x ua' pw' M' assume "pw' = finalize_line n \<and> M' = M"
    then show "triple (works pw' M' ua' rest'') (st_then (st_do (say_all (if x then [Err ExportIsStale] else []))) (\<lambda>_. st_do (say (Err PasswordChanged))))
      (\<lambda>_ k. \<exists>m c old n n' rest. ls = Some m # Some c # Some old # Some n # Some n' # rest \<and> finalize_line n = finalize_line n' \<and>
         holds (finalize_line n) M k) (holds pw M)"
      using l by (intro then_say triple_post [OF done_triple]) auto
  qed
qed

lemma get_triple:
  assumes "ce_prompter E = p"
  shows "triple (begins pw M ls) (cmd_get H E label field show_it) (\<lambda>_. holds pw M) (holds pw M)"
proof -
  have copy: "triple (works pw M ua rest) (cli_copy H E i field ua) (\<lambda>(_, ua'). works pw M ua' rest) (holds pw M)" for ua rest i
  proof (rule tripleI)
    fix k r k' assume a: "works pw M ua rest k" and c: "cli_copy H E i field ua k = (r, k')"
    obtain q s' ua' w where q: "copy_to_clipboard H (ce_clipboard E) i (cli_reveal field) ((dk_app k, ua), dk_clip k) = (q, (s', ua'), w)"
      by (metis surj_pair)
    have k': "k' = k\<lparr>dk_app := s', dk_clip := w\<rparr>" "r = and_then (map_err OperationFailed q) (\<lambda>ck. Inr (ck, ua'))"
      using c q by (simp_all add: cli_copy_def)
    have u: "undisturbed opens (dk_app k, ua) (s', ua')" using undisturbed_copy [OF q, of opens] by simp
    obtain v where "in_session opens H pw v (dk_app k, ua)" "session_view H v (dk_app k, ua) = M" "tidy M" "tm_input (dk_term k) = rest"
      using a by (auto simp: at_work_def)
    then have "works pw M ua' rest k'"
      using in_session_undisturbed [OF _ u] u k'(1) by (auto simp: at_work_def undisturbed_def)
    then show "case r of Inl _ \<Rightarrow> holds pw M k' | Inr x \<Rightarrow> (\<lambda>(_, ua'). works pw M ua' rest) x k'"
      using k'(2) at_work_holds by (cases q) auto
  qed
  have tm: "tm_input (wait_for_clear g b w t) = tm_input t" for g b w t
    by (induction g b w t rule: wait_for_clear.induct) (subst wait_for_clear.simps, auto simp: Let_def)
  have wait: "triple (works pw M ua rest) (st_do (await_clear E)) (\<lambda>_. works pw M ua rest) R" for ua rest R
    by (rule quiet_triple) (auto simp: await_clear_def tm)
  have clear: "triple (works pw M ua rest) (st_do (cli_clear H E ck ua)) (\<lambda>_. holds pw M) (holds pw M)" for ua rest ck
  proof (rule triple_do)
    fix k x k' assume a: "works pw M ua rest k" and c: "cli_clear H E ck ua k = (x, k')"
    obtain q s' ua' w where q: "clear_clipboard_with H (ce_clipboard E) ck (clipboard_fact_overwrite (ce_settings E)) ((dk_app k, ua), dk_clip k) = (q, (s', ua'), w)"
      by (metis surj_pair)
    have u: "undisturbed opens (dk_app k, ua) (s', ua')" using undisturbed_clear [OF q, of opens] by simp
    have k': "dk_app k' = s'" using c q by (auto simp: cli_clear_def)
    obtain v where "in_session opens H pw v (dk_app k, ua)" "session_view H v (dk_app k, ua) = M" "tidy M"
      using a by (auto simp: at_work_def)
    then show "holds pw M k'" using in_session_undisturbed [OF _ u] u k' by (fastforce simp: vault_holds_def undisturbed_def in_session_def)
  qed
  have said: "triple (holds pw M) (st_do (say x)) (\<lambda>_. holds pw M) (holds pw M)" for x
    by (rule triple_do) (auto simp: say_def)
  have copied: "triple (works pw M ua rest) (get_copied H E i field ua) (\<lambda>_. holds pw M) (holds pw M)" for ua rest i
    unfolding get_copied_def
  proof (rule triple_then [OF copy], unfold case_prod_beta)
    fix x :: "clipboard_cookie \<times> unlocked_app"
    show "triple (works pw M (snd x) rest) (st_then (st_do (say (Err (CopiedFor (as_secs (ce_clipboard_clear E))))))
        (\<lambda>_. st_then (st_do (await_clear E)) (\<lambda>_. st_then (st_do (cli_clear H E (fst x) (snd x))) (\<lambda>out. st_do (say (Err (ClearStatus out)))))))
      (\<lambda>_. holds pw M) (holds pw M)"
      by (rule then_say, rule triple_then [OF wait], rule triple_then [OF clear], rule said)
  qed
  show ?thesis unfolding cmd_get_def
    by (rule then_unlock [OF assms], rule then_find)
      (auto intro!: copied then_read keeps_undisturbed_reads done_triple)
qed

text \<open>The file \<open>export\<close> writes is not the vault's, which exists.\<close>

lemma write_export_triple:
  "triple (works pw M ua ls) (write_export E fl b)
    (\<lambda>_ k. works pw M ua ls k \<and> a_fs (dk_app k) fl = Some \<lparr>f_content = b, f_mode = OWNER_ONLY\<rparr>) (holds pw M)"
proof (rule tripleI)
  fix k r k' assume a: "works pw M ua ls k" and u: "write_export E fl b k = (r, k')"
  obtain v where v: "in_session opens H pw v (dk_app k, ua)" "session_view H v (dk_app k, ua) = M" "tidy M" "tm_input (dk_term k) = ls"
    using a by (auto simp: at_work_def)
  have st: "a_fs (dk_app k) (a_path (dk_app k)) \<noteq> None" using v(1) by (auto simp: in_session_def provisioned_def stored_def)
  obtain q fs where q: "write_new_file_0600 (ce_new_file E) fl b (a_fs (dk_app k)) = (q, fs)" by fastforce
  have k': "k' = k\<lparr>dk_app := (dk_app k)\<lparr>a_fs := fs\<rparr>\<rparr>" "is_ok r = is_ok q"
    using u q by (cases q; auto simp: write_export_def st_err_def on_app_def)+
  have f: "fs (a_path (dk_app k)) = a_fs (dk_app k) (a_path (dk_app k))"
    using q st by (auto simp: write_new_file_0600_def split: if_splits option.splits)
  have c: "fs fl = Some \<lparr>f_content = b, f_mode = OWNER_ONLY\<rparr>" if "is_ok q"
    using q that by (auto simp: write_new_file_0600_def split: if_splits option.splits)
  have "provisioned opens H pw (k_master ua) (ua_totp_seed ua) v ((dk_app k)\<lparr>a_fs := fs\<rparr>)"
    by (rule provisioned_frame [of _ _ _ _ _ _ "dk_app k"]) (use v(1) f in \<open>simp_all add: in_session_def slots_kept_same\<close>)
  then have "in_session opens H pw v (dk_app k', ua)" using v(1) k'(1) by (simp add: in_session_def)
  then have w: "works pw M ua ls k'" using v k'(1) by (auto simp: at_work_def)
  show "case r of Inl _ \<Rightarrow> holds pw M k'
      | Inr x \<Rightarrow> works pw M ua ls k' \<and> a_fs (dk_app k') fl = Some \<lparr>f_content = b, f_mode = OWNER_ONLY\<rparr>"
    using w at_work_holds [OF w] k' c by (cases r) auto
qed

lemma export_steps_triple:
  assumes "ce_prompter E = p" and "ls = Some m # Some c # Some m' # rest'"
  shows "triple (works pw M ua rest) (st_then (on_session cli_export_error (export_recovery H (finalize_line m') d q (ce_prompter E)) ua)
      (\<lambda>(b, _). st_then (write_export E fl b) (\<lambda>_. st_do (say (Err (RecoveryWrittenTo fl))))))
    (\<lambda>_ k. holds pw M k \<and> exported opens fresh H pw M ls fl (dk_app k)) (holds pw M)"
proof (rule then_session [where S = "\<lambda>b pw' M'. pw' = pw \<and> M' = M \<and> (finalize_line m' = pw \<and> portable H M \<and> policy_codec_ok H \<and>
      fresh_after fresh H \<and> length b < 2 ^ 32 \<longrightarrow> restores opens H pw M b)"], unfold prod.case)
  fix v s r y assume s: "in_session opens H pw v (s, ua)" "session_view H v (s, ua) = M" "tidy M"
    "export_recovery H (finalize_line m') d q (ce_prompter E) (s, ua) = (r, y)"
  have "restores opens H pw M b" if r: "r = Inr b" and c: "finalize_line m' = pw" "portable H M" "policy_codec_ok H"
      "fresh_after fresh H" "length b < 2 ^ 32" for b
  proof -
    have w: "willing (ce_prompter E) (a_device (fst (s, ua)))" unfolding assms(1) by (rule consent)
    have po: "portable H (session_view H v (s, ua))" using c(2) s(2) by simp
    show ?thesis unfolding restores_def vault_holds_def
      using exported_restores [OF laws(1) device c(4,3) s(1) po w s(4) [unfolded r c(1)] c(5)] s(2,3) by metis
  qed
  then show "case r of Inl _ \<Rightarrow> \<exists>v'. in_session opens H pw v' y \<and> session_view H v' y = M
    | Inr b \<Rightarrow> \<exists>pw' M' v'. (pw' = pw \<and> M' = M \<and> (finalize_line m' = pw \<and> portable H M \<and> policy_codec_ok H \<and>
        fresh_after fresh H \<and> length b < 2 ^ 32 \<longrightarrow> restores opens H pw M b)) \<and> tidy M' \<and>
        in_session opens H pw' v' y \<and> session_view H v' y = M'"
    using export_in_session [OF device s(1,4)] s(2,3) by (cases r) auto
next
  fix b ua' pw' M'
  assume r: "pw' = pw \<and> M' = M \<and> (finalize_line m' = pw \<and> portable H M \<and> policy_codec_ok H \<and>
      fresh_after fresh H \<and> length b < 2 ^ 32 \<longrightarrow> restores opens H pw M b)"
  have "triple (\<lambda>k. works pw M ua' rest k \<and> a_fs (dk_app k) fl = Some \<lparr>f_content = b, f_mode = OWNER_ONLY\<rparr>)
      (st_do (say (Err (RecoveryWrittenTo fl)))) (\<lambda>_ k. holds pw M k \<and> exported opens fresh H pw M ls fl (dk_app k)) (holds pw M)"
    using r assms(2) by (intro triple_do) (auto simp: say_def exported_def dest: at_work_holds)
  then show "triple (works pw' M' ua' rest) (st_then (write_export E fl b) (\<lambda>_. st_do (say (Err (RecoveryWrittenTo fl)))))
      (\<lambda>_ k. holds pw M k \<and> exported opens fresh H pw M ls fl (dk_app k)) (holds pw M)"
    using r triple_then [OF write_export_triple] by simp
qed

lemma export_triple:
  assumes "ce_prompter E = p"
  shows "triple (begins pw M ls) (cmd_export H E fl preset)
    (\<lambda>_ k. holds pw M k \<and> exported opens fresh H pw M ls fl (dk_app k)) (holds pw M)"
proof -
  have t: "triple (begins pw M ls) (st_then (cli_unlock H E) (\<lambda>ua. st_then (st_do (say (Err FreshReauth))) (\<lambda>_.
        st_then (ask ''Master password (again): '') (\<lambda>master. st_then (ask ''Fresh TOTP code: '') (\<lambda>code.
        st_then (st_do (say (Err DerivingRecoveryKey))) (\<lambda>_.
        st_then (on_session cli_export_error (export_recovery H master (trim code) (rec_params preset) (ce_prompter E)) ua) (\<lambda>(b, _).
        st_then (write_export E fl b) (\<lambda>_. st_do (say (Err (RecoveryWrittenTo fl)))))))))))
      (\<lambda>_ k. holds pw M k \<and> exported opens fresh H pw M ls fl (dk_app k)) (holds pw M)"
    by (rule then_unlock [OF assms], rule then_say, rule then_ask, rule then_ask, rule then_say,
        rule export_steps_triple [OF assms]) blast
  show ?thesis
  proof (rule tripleI)
    fix k r k' assume "begins pw M ls k" "cmd_export H E fl preset k = (r, k')"
    then show "case r of Inl _ \<Rightarrow> holds pw M k' | Inr x \<Rightarrow> holds pw M k' \<and> exported opens fresh H pw M ls fl (dk_app k')"
      using tripleD [OF t] unfolding cmd_export_def by (cases "file_exists E fl k") auto
  qed
qed

lemma generated_short:
  assumes "generate H (cli_request (Some n)) g = Some (Inr q, g')"
  shows "str_ok q \<and> length q \<le> 2 ^ 24"
proof -
  have "charset_ok charset_default_vault" by (simp add: charset_ok_def charset_default_vault_def)
  then have "str_ok q" using generate_sound(2) [OF assms] effective_set_scalar
    by (fastforce simp: cli_request_def str_ok_def list_all_iff)
  moreover have "length q \<le> 2 ^ 16" using generate_sound(1) [OF assms] unsigned_less [of n, where 'a = nat] by (simp add: cli_request_def)
  ultimately show ?thesis by simp
qed

lemma add_rest_triple:
  assumes "storable \<lparr>er_username = u, er_password = q, er_url = finalize_line w, er_notes = finalize_line t\<rparr>" (is "storable ?r")
  shows "triple (works pw M ua (Some w # Some t # rest)) (add_rest H label n u q ua)
    (\<lambda>_ k. \<exists>i. holds pw (M(i \<mapsto> (label, with_length n policy_default, ?r))) k) (holds pw M)"
  unfolding add_rest_def
proof (rule then_ask, rule then_ask)
  fix w' rest1 t' rest2
  assume "Some w # Some t # rest = Some w' # rest1" "rest1 = Some t' # rest2"
  then have l: "w' = w" "t' = t" by auto
  show "triple (works pw M ua rest2) (st_then (on_session OperationFailed (add_entry H label (with_length n policy_default)
        \<lparr>er_username = u, er_password = q, er_url = finalize_line w', er_notes = finalize_line t'\<rparr>) ua)
      (\<lambda>_. st_do (say (Err (EntryAdded label)))))
    (\<lambda>_ k. \<exists>i. holds pw (M(i \<mapsto> (label, with_length n policy_default, ?r))) k) (holds pw M)"
    unfolding l
  proof (rule then_session [where S = "\<lambda>i pw' M'. pw' = pw \<and> M' = M(i \<mapsto> (label, with_length n policy_default, ?r))"])
    fix v s r y assume s: "in_session opens H pw v (s, ua)" "session_view H v (s, ua) = M" "tidy M"
      "add_entry H label (with_length n policy_default) ?r (s, ua) = (r, y)"
    show "case r of Inl _ \<Rightarrow> \<exists>v'. in_session opens H pw v' y \<and> session_view H v' y = M
      | Inr i \<Rightarrow> \<exists>pw' M' v'. (pw' = pw \<and> M' = M(i \<mapsto> (label, with_length n policy_default, ?r))) \<and> tidy M' \<and>
          in_session opens H pw' v' y \<and> session_view H v' y = M'"
      using add_in_session [OF laws s(1) assms s(4)] s(2,3) assms by (cases r) auto
  next
    fix i ua' pw' M' assume "pw' = pw \<and> M' = M(i \<mapsto> (label, with_length n policy_default, ?r))"
    then show "triple (works pw' M' ua' rest2) (st_do (say (Err (EntryAdded label))))
      (\<lambda>_ k. \<exists>i. holds pw (M(i \<mapsto> (label, with_length n policy_default, ?r))) k) (holds pw M)"
      by (intro triple_post [OF done_triple]) auto
  qed
qed

lemma username_triple:
  assumes "ce_prompter E = p"
  shows "triple (begins pw M ls) (add_username H E)
    (\<lambda>x k. \<exists>m c u rest. (ls = Some m # Some c # Some u # rest \<and> snd x = finalize_line u) \<and> works pw M (fst x) rest k) (holds pw M)"
  unfolding add_username_def by (rule then_unlock [OF assms], rule then_ask, rule triple_ok) auto

lemma add_password_generated:
  assumes "add_password H True n ua k = Some (r, k')" and "works pw M ua ls k"
  shows "case r of Inl _ \<Rightarrow> holds pw M k' | Inr (q, ua') \<Rightarrow> works pw M ua' ls k' \<and> str_ok q \<and> length q \<le> 2 ^ 24"
proof -
  obtain g s ua' where g: "generate_password H (cli_request (Some n)) (dk_app k, ua) = Some (g, s, ua')"
    using assms(1) by (auto simp: add_password_def bind_eq_Some_conv split: if_splits)
  have u: "undisturbed opens (dk_app k, ua) (s, ua')" by (rule undisturbed_generate [OF g])
  obtain v where v: "in_session opens H pw v (dk_app k, ua)" "session_view H v (dk_app k, ua) = M" "tidy M" "tm_input (dk_term k) = ls"
    using assms(2) by (auto simp: at_work_def)
  have w: "dk_app k2 = s \<Longrightarrow> tm_input (dk_term k2) = ls \<Longrightarrow> works pw M ua' ls k2" for k2 :: "('d, 'z) desk"
    using in_session_undisturbed [OF v(1) u] u v by (auto simp: at_work_def undisturbed_def)
  show ?thesis
  proof (cases g)
    case (Inl e)
    then show ?thesis using assms(1) g w [of "k\<lparr>dk_app := s\<rparr>"] v(4) at_work_holds [of opens H pw M ua' ls "k\<lparr>dk_app := s\<rparr>"]
      by (auto simp: add_password_def Let_def)
  next
    case (Inr q)
    obtain g0 g1 where "generate H (cli_request (Some n)) g0 = Some (Inr q, g1)"
      using g Inr by (auto simp: generate_password_def bind_eq_Some_conv map_err_Inr_iff split: prod.splits sum.splits)
    then have "str_ok q \<and> length q \<le> 2 ^ 24" by (rule generated_short)
    moreover have "q' = q \<and> x = ua' \<and> works pw M ua' ls k'" if "r = Inr (q', x)" for q' x
    proof -
      have "k' = k\<lparr>dk_app := s, dk_term := put_line (Err PasswordGenerated) (dk_term k)\<rparr>" "q' = q" "x = ua'"
        using assms(1) g Inr that by (auto simp: add_password_def Let_def say_def)
      moreover have "works pw M ua' ls (k\<lparr>dk_app := s, dk_term := put_line (Err PasswordGenerated) (dk_term k)\<rparr>)"
        by (rule w) (use v(4) in simp_all)
      ultimately show ?thesis by simp
    qed
    moreover have "\<not> (\<exists>e. r = Inl e)" using assms(1) g Inr by (auto simp: add_password_def Let_def)
    ultimately show ?thesis by (cases r) auto
  qed
qed

lemma add_effect:
  assumes E: "ce_prompter E = p" and b: "begins pw M ls k" and sh: "short_lines ls"
    and c: "cmd_add H E label gen n k = Some (r, k')"
  shows "case r of Inl _ \<Rightarrow> holds pw M k'
    | Inr _ \<Rightarrow> \<exists>i rec. entered gen ls rec \<and> holds pw (M(i \<mapsto> (label, with_length (add_length n) policy_default, rec))) k'"
proof -
  obtain a k1 where a: "add_username H E k = (a, k1)" by fastforce
  note ta = tripleD [OF username_triple [OF E] b a]
  show ?thesis
  proof (cases a)
    case (Inl e)
    then show ?thesis using ta a c by (auto simp: cmd_add_def Let_def)
  next
    case (Inr x)
    obtain m d u rest where l: "ls = Some m # Some d # Some u # rest" "snd x = finalize_line u" and w1: "works pw M (fst x) rest k1"
      using ta Inr by auto
    obtain q k2 where q: "add_password H gen (add_length n) (fst x) k1 = Some (q, k2)"
      using c a Inr by (cases x) (auto simp: cmd_add_def Let_def bind_eq_Some_conv add_length_def)
    have r: "case q of Inl e \<Rightarrow> r = Inl e \<and> k' = k2
        | Inr y \<Rightarrow> add_rest H label (add_length n) (snd x) (fst y) (snd y) k2 = (r, k')"
      using c a Inr q by (cases x; cases q) (auto simp: cmd_add_def Let_def add_length_def)
    have t: "case q of Inl _ \<Rightarrow> holds pw M k2 | Inr y \<Rightarrow> \<exists>rest'. works pw M (snd y) rest' k2 \<and> str_ok (fst y) \<and> length (fst y) \<le> 2 ^ 24 \<and>
        (if gen then rest' = rest else \<exists>z z'. rest = Some z # Some z' # rest' \<and> finalize_line z = fst y \<and> finalize_line z' = fst y)"
    proof (cases gen)
      case True
      then show ?thesis using add_password_generated [OF _ w1, of "add_length n" q k2] q by (auto split: sum.splits)
    next
      case False
      have q': "st_then (read_new_password ''Password: '') (\<lambda>y. st_lift (Inr (y, fst x))) k1 = (q, k2)"
        using q False by (simp add: add_password_def)
      obtain y k3 where y: "read_new_password ''Password: '' k1 = (y, k3)" by fastforce
      note ty = tripleD [OF new_password_triple w1 y]
      have short: "str_ok (finalize_line z) \<and> length (finalize_line z) \<le> 2 ^ 24" if "Some z \<in> set ls" for z
        using sh that finalize_short unfolding short_lines_def by blast
      show ?thesis
      proof (cases y)
        case (Inl e)
        then show ?thesis using q' y ty by (auto simp: st_then_def)
      next
        case (Inr z)
        then obtain d d' rest' where z: "rest = Some d # Some d' # rest'" "finalize_line d = z" "finalize_line d' = z" "works pw M (fst x) rest' k3"
          using ty by auto
        have "q = Inr (z, fst x)" "k2 = k3" using q' y Inr by (simp_all add: st_then_def st_lift_def)
        moreover have "str_ok z \<and> length z \<le> 2 ^ 24" using short [of d] z l(1) by simp
        ultimately show ?thesis using z False by auto
      qed
    qed
    show ?thesis
    proof (cases q)
      case (Inl e)
      then show ?thesis using r t by auto
    next
      case (Inr y)
      obtain rest' where w2: "works pw M (snd y) rest' k2" and y: "str_ok (fst y)" "length (fst y) \<le> 2 ^ 24"
        and re: "if gen then rest' = rest else \<exists>z z'. rest = Some z # Some z' # rest' \<and> finalize_line z = fst y \<and> finalize_line z' = fst y"
        using t Inr by auto
      have ar: "add_rest H label (add_length n) (snd x) (fst y) (snd y) k2 = (r, k')" using r Inr by simp
      show ?thesis
      proof (cases "\<exists>w t rest2. rest' = Some w # Some t # rest2")
        case True
        then obtain w t rest2 where wt: "rest' = Some w # Some t # rest2" by blast
        let ?r = "\<lparr>er_username = snd x, er_password = fst y, er_url = finalize_line w, er_notes = finalize_line t\<rparr>"
        have sub: "Some w \<in> set ls \<and> Some t \<in> set ls \<and> Some u \<in> set ls" using l(1) re wt by (auto split: if_splits)
        have "storable ?r"
          by (rule short_storable) (use sub sh y l(2) finalize_short in \<open>auto simp: record_fields_def short_lines_def\<close>)
        from tripleD [OF add_rest_triple [OF this] w2 [unfolded wt] ar]
        have "case r of Inl _ \<Rightarrow> holds pw M k' | Inr _ \<Rightarrow> \<exists>i. holds pw (M(i \<mapsto> (label, with_length (add_length n) policy_default, ?r))) k'" .
        moreover have "entered gen ls ?r" using l re wt unfolding entered_def by (cases gen) auto
        ultimately show ?thesis by (cases r) auto
      next
        case False
        have "triple (works pw M (snd y) rest') (add_rest H label (add_length n) (snd x) (fst y) (snd y)) (\<lambda>_ _. False) (holds pw M)"
          unfolding add_rest_def by (rule then_ask, rule then_ask) (use False in blast)
        from tripleD [OF this w2 ar] show ?thesis by (cases r) auto
      qed
    qed
  qed
qed

section \<open>New vaults\<close>

lemma step_app:
  "say x k = (u, k') \<Longrightarrow> dk_app k' = dk_app k" "warn_if_weak H y kdf k = (u, k') \<Longrightarrow> dk_app k' = dk_app k"
  by (auto simp: say_def warn_if_weak_def Let_def split: if_splits)

lemma ask_Inr: "ask q k = (Inr x, k') \<Longrightarrow> \<exists>l. tm_input (dk_term k) = Some l # tm_input (dk_term k') \<and> x = finalize_line l \<and> dk_app k' = dk_app k"
  by (auto simp: ask_def read_input_def split: prod.splits list.splits option.splits)

lemma init_effect:
  assumes fr: "fresh_after fresh H" and c: "cmd_init H E preset k = (Inr (), k')"
  shows "\<exists>l l' rest. tm_input (dk_term k) = Some l # Some l' # rest \<and> finalize_line l = finalize_line l' \<and>
    holds (finalize_line l) Map.empty k'"
proof -
  obtain k1 m k2 k3 k4 ua uri k5 k6 k7 where d: "st_err DirectoryFailed (on_dirs (ensure_dirs (ce_mkdir E) (ce_paths E))) k = (Inr (), k1)"
    and p: "read_new_password ''New master password: '' k1 = (Inr m, k2)"
    and v: "st_err CreationFailed (on_app (create_vault H m (cli_kdf E preset) totp_config_default (ce_prompter E))) k4 = (Inr (ua, uri), k5)"
    and s: "say (Err SaveThisSecret) k5 = ((), k6)" "say (Out uri) k6 = ((), k7)" "say (Err (VaultCreatedAt (vault_path (ce_paths E)))) k7 = ((), k')"
    using c by (auto simp: cmd_init_def st_iffs split: if_splits)
  have k1: "tm_input (dk_term k1) = tm_input (dk_term k)" using d by (auto simp: st_err_def on_dirs_def split: prod.splits)
  obtain l l' where l: "tm_input (dk_term k1) = Some l # Some l' # tm_input (dk_term k2)" "finalize_line l = m" "finalize_line l' = m"
    using p by (fastforce simp: read_new_password_def st_iffs st_lift_def dest!: ask_Inr split: if_splits)
  obtain s where "create_vault H m (cli_kdf E preset) totp_config_default (ce_prompter E) (dk_app k4) = (Inr (ua, uri), s)" "dk_app k5 = s"
    using v by (auto simp: st_err_def on_app_def map_err_Inr_iff split: prod.splits)
  then obtain v where "in_session opens H m v (dk_app k5, ua)" "session_view H v (dk_app k5, ua) = Map.empty"
    using created_in_session [OF laws(1) device fr] by blast
  then have "holds m Map.empty k5" by (auto simp: vault_holds_def in_session_def tidy_def)
  moreover have "dk_app k' = dk_app k5" using s [THEN step_app(1)] by simp
  ultimately show ?thesis using l k1 by auto
qed

text \<open>Importing a file whose restored entries are known.\<close>

lemma import_effect:
  assumes c: "cmd_import H E fl preset k = (Inr (), k')" and f: "a_fs (dk_app k) fl = Some g" and r: "restores opens H pw M (f_content g)"
    and l: "\<And>l rest. tm_input (dk_term k) = Some l # rest \<Longrightarrow> finalize_line l = pw"
  shows "holds pw M k'"
proof -
  obtain k1 b k2 m k3 k4 ua uri k5 k6 k7 hs z k8 where d: "st_err DirectoryFailed (on_dirs (ensure_dirs (ce_mkdir E) (ce_paths E))) k = (Inr (), k1)"
    and b: "read_file E fl k1 = (Inr b, k2)" and p: "ask ''Recovery password: '' k2 = (Inr m, k3)"
    and s: "say (Err DerivingFromFile) k3 = ((), k4)"
    and v: "st_err ImportFailed (on_app (import_recovery H b m (cli_kdf E preset) totp_config_default (ce_prompter E))) k4 = (Inr (ua, uri), k5)"
    and s': "say (Err ReprovisionSecret) k5 = ((), k6)" "say (Out uri) k6 = ((), k7)"
    and ls: "on_session OperationFailed (list_entries H) ua k7 = (Inr (hs, z), k8)"
      "say (Err (VaultRestored (vault_path (ce_paths E)) (length hs))) k8 = ((), k')"
    using c by (auto simp: cmd_import_def st_iffs split: if_splits prod.splits)
  have k1: "tm_input (dk_term k1) = tm_input (dk_term k)" "dk_app k1 = dk_app k"
    using d by (auto simp: st_err_def on_dirs_def split: prod.splits)
  have b': "b = f_content g" "k2 = k1" using b f k1 by (auto simp: read_file_def split: if_splits)
  have m: "m = pw" using ask_Inr [OF p] l k1 b' by auto
  obtain s5 where i: "import_recovery H b m (cli_kdf E preset) totp_config_default (ce_prompter E) (dk_app k4) = (Inr (ua, uri), s5)" "dk_app k5 = s5"
    using v by (auto simp: st_err_def on_app_def map_err_Inr_iff split: prod.splits)
  have h: "vault_holds opens H pw M (dk_app k5)" using r i unfolding restores_def b' m by blast
  obtain y where y: "list_entries H (dk_app k5, ua) = (Inr hs, y)" "dk_app k8 = fst y"
    using ls(1) s' [THEN step_app(1)] by (auto simp: on_session_def and_then_Inr_iff map_err_Inr_iff split: prod.splits)
  have u: "undisturbed opens (dk_app k5, ua) y" by (rule keepsD [OF keeps_undisturbed_reads(1) y(1)])
  have "vault_holds opens H pw M (fst y)"
    by (rule vault_holds_frame [OF h]) (use u in \<open>simp_all add: undisturbed_def same_fs_def\<close>)
  then show ?thesis using y(2) step_app(1) [OF ls(2)] by simp
qed

end

end
