(* ===== verification/CliGuarantees.thy ===== *)
theory CliGuarantees
  imports CliStore
begin

text \<open>
  The properties of \<open>passman-cli\<close> and their witnesses: the commands implement an entry store, the clipboard
  after \<open>get\<close>, what the exit codes say, and a backup that restores.
\<close>

section \<open>Definitions for the statements\<close>

text \<open>What a command that succeeds does to the password and the entries; \<open>ls\<close> are the lines it reads.\<close>

fun command_effect :: "cli_command \<Rightarrow> ustring option list \<Rightarrow> secret_string \<times> (entry_id \<rightharpoonup> entry_view) \<Rightarrow>
    secret_string \<times> (entry_id \<rightharpoonup> entry_view) \<Rightarrow> bool" where
  "command_effect (CmdAdd label g n) ls (pw, M) (pw', M') \<longleftrightarrow> pw' = pw \<and> (\<exists>i r. entered g ls r \<and>
     M' = M(i \<mapsto> (label, with_length (add_length n) policy_default, r)))"
| "command_effect (CmdRm label) ls (pw, M) (pw', M') \<longleftrightarrow> pw' = pw \<and> removed label M M'"
| "command_effect (CmdPasswd preset) ls (pw, M) (pw', M') \<longleftrightarrow> M' = M \<and> (\<exists>m c old n n' rest.
     ls = Some m # Some c # Some old # Some n # Some n' # rest \<and> finalize_line n = pw' \<and> finalize_line n' = pw')"
| "command_effect cmd ls (pw, M) (pw', M') \<longleftrightarrow> pw' = pw \<and> M' = M"

section \<open>Properties\<close>


text \<open>C33. \<open>get\<close> leaves no secret.  With a working clipboard and overwriting enabled, however the command ends
  and whenever it is interrupted, the clipboard holds what it held before or, after a copy, a fact;
  \<open>--show\<close> leaves it alone, and the wait before the clear sleeps no longer than the set time, in ticks of
  at most 200 ms, and not again once an interrupt has been noticed.\<close>

theorem get_leaves_no_secret:
  assumes "arboard_ok A text_on" and "arboard_up A" and "ce_clipboard E = system_clipboard_ops A"
    and "clipboard_fact_overwrite (ce_settings E)" and "cmd_get H E label field show_it k = (r, k')"
  shows "(text_on (sc_os (dk_clip k')) = text_on (sc_os (dk_clip k)) \<or>
      (\<not> show_it \<and> (\<exists>f\<in>set FACTS. text_on (sc_os (dk_clip k')) = Some f))) \<and>
    (\<forall>j :: ('d, 'o system_clipboard) desk. \<exists>ds. tm_log (dk_term (snd (await_clear E j))) = tm_log (dk_term j) @ map Slept ds \<and>
      sum_list ds \<le> ce_clipboard_clear E \<and> (\<forall>d\<in>set ds. d \<le> CLEAR_TICK) \<and>
      (\<forall>n\<ge>tm_polls (dk_term j). ce_interrupted E n \<longrightarrow> length ds \<le> n - tm_polls (dk_term j)))"
proof
  show "text_on (sc_os (dk_clip k')) = text_on (sc_os (dk_clip k)) \<or>
      (\<not> show_it \<and> (\<exists>f\<in>set FACTS. text_on (sc_os (dk_clip k')) = Some f))"
    by (rule clipboard_up.get_clears [OF system_clipboard_up [OF assms(1,2)] assms(3-5)])
  show "\<forall>j :: ('d, 'o system_clipboard) desk. \<exists>ds. tm_log (dk_term (snd (await_clear E j))) = tm_log (dk_term j) @ map Slept ds \<and>
      sum_list ds \<le> ce_clipboard_clear E \<and> (\<forall>d\<in>set ds. d \<le> CLEAR_TICK) \<and>
      (\<forall>n\<ge>tm_polls (dk_term j). ce_interrupted E n \<longrightarrow> length ds \<le> n - tm_polls (dk_term j))"
    using wait_sleeps [of "ce_interrupted E" "ce_clipboard_clear E" 0] by (fastforce simp: await_clear_def)
qed

text \<open>C34. Exit codes tell the truth.  The program exits with 0 exactly when it succeeded, otherwise with 1, 3, 4,
  5 or 6: 6 when another instance held the vault's lock, and then nothing but the lock file was touched;
  4 and 5 when the unlock with the two lines typed was refused for the credentials or the lockout; 3 when
  the unlocked session lists no entry with the label asked for.\<close>

theorem exit_codes_truthful:
  assumes "cli_main H L U E a y = Some (code, y')"
  shows "(code = 0 \<longleftrightarrow> real_main H L U E a y = Some (Inr (), y')) \<and> code \<in> {0, 1, 3, 4, 5, 6} \<and>
    (code = 6 \<longrightarrow> (\<exists>p st. main_prepare L U a (sy_fs y) = Inr (p, st) \<and> lock_path_for (vault_path p) \<in> lt_held (sy_locks y) \<and>
       sy_locks y' = sy_locks y \<and> (\<forall>q. q \<noteq> lock_path_for (vault_path p) \<longrightarrow> sy_fs y' q = sy_fs y q))) \<and>
    (code = 4 \<or> code = 5 \<longrightarrow> (\<exists>E' k m c rest e s'. started L U E a y E' k \<and> tm_input (sy_term y) = Some m # Some c # rest \<and>
       unlock H (finalize_line m) (trim (finalize_line c)) (ce_prompter E') (dk_app k) = (Inl e, s') \<and>
       (code = 4 \<longrightarrow> e = BadCredentials) \<and> (code = 5 \<longrightarrow> (\<exists>d. e = LockedOut d)))) \<and>
    (code = 3 \<longrightarrow> (\<exists>E' k label ua k1 hs x. started L U E a y E' k \<and> sought (arg_command a) = Some label \<and>
       cli_unlock H E' k = (Inr ua, k1) \<and> list_entries H (dk_app k1, ua) = (Inr hs, x) \<and> label \<notin> eh_label ` set hs))"
proof -
  obtain r where r: "real_main H L U E a y = Some (r, y')" "code = (case r of Inr _ \<Rightarrow> 0 | Inl e \<Rightarrow> exit_status e)"
    using assms by (auto simp: cli_main_def map_option_eq_Some split: prod.splits)
  show ?thesis
  proof (cases r)
    case (Inr u)
    then show ?thesis using r by simp
  next
    case (Inl e)
    have code: "code = exit_code (exit_classify e)" using r Inl by (simp add: exit_status_def)
    have cs: "code \<in> {0, 1, 3, 4, 5, 6}" "code \<noteq> 0" unfolding code by (cases "exit_classify e"; simp)+
    have start: "\<exists>E' k. started L U E a y E' k \<and> dk_term k = sy_term y \<and> P E' k" if "\<exists>E' k. started L U E a y E' k \<and> P E' k" for P
      using that unfolding started_def by fastforce
    consider (plain) "exit_classify e = General" | (locked) "e = VaultInUse" "\<exists>p st. main_prepare L U a (sy_fs y) = Inr (p, st) \<and>
        lock_path_for (vault_path p) \<in> lt_held (sy_locks y) \<and> sy_locks y' = sy_locks y \<and>
        (\<forall>q. q \<noteq> lock_path_for (vault_path p) \<longrightarrow> sy_fs y' q = sy_fs y q)"
      | (refused) E' k where "started L U E a y E' k" "dk_term k = sy_term y" "unlock_refused H E' k e"
      | (unlisted) E' k label where "started L U E a y E' k" "sought (arg_command a) = Some label" "label_refused H E' label k e"
      using run_error [OF r(1) [unfolded Inl]] start [where P = "\<lambda>E' k. unlock_refused H E' k e"] by blast
    then show ?thesis
    proof cases
      case plain
      then show ?thesis using code r Inl by simp
    next
      case locked
      then show ?thesis using code r Inl by simp
    next
      case refused
      from unlock_refusedD [OF refused(3)] show ?thesis
      proof (elim disjE exE conjE)
        fix m c rest u s' assume u: "tm_input (dk_term k) = Some m # Some c # rest" "e = cli_unlock_error u"
          "unlock H (finalize_line m) (trim (finalize_line c)) (ce_prompter E') (dk_app k) = (Inl u, s')"
        have cl: "code = 4 \<longleftrightarrow> u = BadCredentials" "code = 5 \<longleftrightarrow> (\<exists>d. u = LockedOut d)" "code \<noteq> 3" "code \<noteq> 6"
          unfolding code u(2) by (cases u; simp)+
        show ?thesis using cl u(1,3) refused(1,2) cs r(1) Inl by (cases "code = 4 \<or> code = 5") auto
      qed (use code r Inl in simp)
    next
      case unlisted
      from label_refusedD [OF unlisted(3)] show ?thesis
      proof (elim disjE exE conjE)
        fix ua k1 hs x assume u: "cli_unlock H E' k = (Inr ua, k1)" "list_entries H (dk_app k1, ua) = (Inr hs, x)"
          "e = NoEntryLabelled label" "label \<notin> eh_label ` set hs"
        have "\<exists>E' k label ua k1 hs x. started L U E a y E' k \<and> sought (arg_command a) = Some label \<and>
          cli_unlock H E' k = (Inr ua, k1) \<and> list_entries H (dk_app k1, ua) = (Inr hs, x) \<and> label \<notin> eh_label ` set hs"
          using u unlisted(1,2) by blast
        moreover have "code = 3" using code u(3) by simp
        ultimately show ?thesis using r(1) Inl by simp
      qed (use code r Inl in simp)
    qed
  qed
qed

text \<open>C32. A backup restores.  When \<open>export\<close> succeeds, the file holds a recovery file, for the owner only; if the
  password typed again was the vault's, \<open>import\<close> of a file with that content under that password leaves,
  wherever it succeeds, a vault that holds exactly the same entries under the same password.\<close>

theorem backup_restores:
  assumes "env_ok H" "uuid_ok H" and "slot_store (store H) opens willing fresh" and "fresh_after fresh H" and "policy_codec_ok H"
    and "\<forall>d. willing (ce_prompter E) d" and "portable H M"
    and "vault_holds opens H pw M (dk_app k)" and "typed H pw k" and "tm_input (dk_term k) = Some m # Some c # Some m' # rest"
    and "finalize_line m' = pw" and "cmd_export H E fl preset k = (Inr (), k')"
  shows "\<exists>b. a_fs (dk_app k') fl = Some \<lparr>f_content = b, f_mode = OWNER_ONLY\<rparr> \<and> vault_holds opens H pw M (dk_app k') \<and>
    (length b < 2 ^ 32 \<longrightarrow> (\<forall>E' preset' (j :: ('d, 'e) desk) j' l rest' fl' g.
       a_fs (dk_app j) fl' = Some g \<and> f_content g = b \<and> tm_input (dk_term j) = Some l # rest' \<and> finalize_line l = pw \<and>
       cmd_import H E' fl' preset' j = (Inr (), j') \<longrightarrow> vault_holds opens H pw M (dk_app j')))"
proof -
  have h: "cli_host opens H willing fresh (ce_prompter E)" by (rule cli_host.intro) (use assms(1-3,6) in auto)
  have b: "vault_holds opens H pw M (dk_app k) \<and> typed H pw k \<and> tm_input (dk_term k) = Some m # Some c # Some m' # rest"
    using assms(8-10) by simp
  obtain bk where f: "a_fs (dk_app k') fl = Some \<lparr>f_content = bk, f_mode = OWNER_ONLY\<rparr>" "vault_holds opens H pw M (dk_app k')"
    "length bk < 2 ^ 32 \<longrightarrow> restores opens H pw M bk"
    using tripleD [OF cli_host.export_triple [OF h refl] b assms(12)] assms(4,5,7,11) by (auto simp: exported_def)
  have "vault_holds opens H pw M (dk_app j')"
    if "length bk < 2 ^ 32" "a_fs (dk_app j) fl' = Some g" "f_content g = bk" "tm_input (dk_term j) = Some l # rest'" "finalize_line l = pw"
      "cmd_import H E' fl' preset' j = (Inr (), j')" for E' preset' and j :: "('d, 'e) desk" and j' l rest' fl' g
    using cli_host.import_effect [OF h that(6,2)] f(3) that by simp
  then show ?thesis using f by blast
qed

section \<open>Witnesses\<close>

text \<open>The shell on the software backend, as the integration tests of the repository run it.\<close>

interpretation mock_shell: cli_host demo_opens demo_host prompt_passes never_collides demo_prompter
  by (rule cli_host.intro [OF demo_host_ok(1,4) demo_store demo_willing])

definition demo_cli :: "path \<Rightarrow> bool \<Rightarrow> ustring option system_clipboard cli_env" where
  "demo_cli p fo = \<lparr>ce_prompter = demo_prompter, ce_clipboard = system_clipboard_ops toy_arboard,
     ce_settings = settings_default\<lparr>clipboard_fact_overwrite := fo\<rparr>,
     ce_paths = \<lparr>vault_path = p, settings_path = [ustr ''settings.toml''], log_path = None\<rparr>, ce_allow_software = True,
     ce_clipboard_clear = 500000000, ce_kdf_override = None, ce_stat = (\<lambda>_. True), ce_mkdir = (\<lambda>_. True),
     ce_new_file = io_fine, ce_readable = (\<lambda>_. True), ce_interrupted = (\<lambda>_. False)\<rparr>"

lemma demo_cli_fields [simp]:
  "ce_prompter (demo_cli p fo) = demo_prompter" "ce_clipboard (demo_cli p fo) = system_clipboard_ops toy_arboard"
  "clipboard_fact_overwrite (ce_settings (demo_cli p fo)) = fo" "vault_path (ce_paths (demo_cli p fo)) = p"
  "ce_stat (demo_cli p fo) q" "ce_new_file (demo_cli p fo) = io_fine"
  by (simp_all add: demo_cli_def)

definition demo_desk :: "unit app \<Rightarrow> ustring option list \<Rightarrow> (unit, ustring option system_clipboard) desk" where
  "demo_desk s ls = \<lparr>dk_app = s, dk_clip = system_clipboard_new None, dk_term = \<lparr>tm_input = ls, tm_log = [], tm_polls = 0\<rparr>,
     dk_dirs = Map.empty\<rparr>"

text \<open>The demonstration session as a command finds it: one entry, and an unlock that goes through.\<close>

abbreviation demo_entries :: "entry_id \<rightharpoonup> entry_view" where
  "demo_entries \<equiv> [demo_id \<mapsto> (ustr ''mail'', policy_default, demo_record)]"

lemma set_rate_limit_length: "length (vault_to_bytes (set_rate_limit c t v)) = length (vault_to_bytes v)"
  "kdf_params_of (set_rate_limit c t v) = kdf_params_of v"
  by (simp_all add: vault_to_bytes_def set_rate_limit_def)

text \<open>What the unlock of the demonstration vault leaves behind.\<close>

lemma demo_after_unlock:
  assumes u: "unlock demo_host pw (ustr ''000001'') demo_prompter s = (Inr ua, s')" and d: "vault_on_disk demo_host s = Inr v"
    and r: "rl_counter v = 0" "rl_last_failure v = 0" and n: "a_verifier s = None" "a_totp_config s = totp_config_default"
  shows "a_fs s' = a_fs s \<and> a_path s' = a_path s \<and>
    current_verifier s' = \<lparr>tv_config = totp_config_default, last_accepted_step = Some 1\<rparr>"
  using u
proof (cases rule: unlock_cases)
  case (finish gt s1 km seed s2)
  note g = unlock_gate_Inr [OF finish(1)]
  have gv: "gate_vault gt = v" using g d by simp
  obtain k d1 d2 s3 where f: "verify_totp demo_host seed (ustr ''000001'') (s1\<lparr>a_device := d2\<rparr>) = (Inr (), s3)"
    "derive_master_from_bytes demo_host pw (vault_salt v) (kdf_params_of v) k s3 = (Inr km, s2)"
    using unlock_factors_Inr [OF finish(2)] gv by metis
  have c: "current_verifier (s1\<lparr>a_device := d2\<rparr>) = totp_verifier_new totp_config_default"
    using g n by (simp add: current_verifier_def)
  have s3: "a_verifier s3 = Some \<lparr>tv_config = totp_config_default, last_accepted_step = Some 1\<rparr>" "a_fs s3 = a_fs s" "a_path s3 = a_path s"
    using f(1) g unfolding verify_totp_result c by (auto simp: demo_codes)
  have s2: "s2 = s3 \<or> s2 = s3\<lparr>a_tick := a_tick s3 + 1\<rparr>" using derive_master_eq [OF f(2)] by auto
  obtain ix where b: "build_unlocked demo_host km seed ix (s2\<lparr>a_lockout_mem := lockout_reset\<rparr>) = (ua, s')"
    using finish(3) gv r by (auto simp: unlock_finish_def clear_lockout_def st_iffs Let_def)
  show ?thesis using build_unlocked_fields [OF b] s2 s3 by (auto simp: current_verifier_def)
qed simp_all

lemma demo_unlock:
  obtains s s' v and ua :: unlocked_app where "vault_holds demo_opens demo_host pw demo_entries s"
    "unlock demo_host pw (ustr ''000001'') demo_prompter s = (Inr ua, s')"
    "in_session demo_opens demo_host pw v (s', ua)" "session_view demo_host v (s', ua) = demo_entries"
    "session_expiry ua = 150" "ua_index ua = [demo_row]" "length (vault_to_bytes v) \<le> MAX_VAULT_BYTES"
    "no_temps demo_host s'" "a_path s' = a_path s" "a_fs s' = a_fs s" "kdf_params_of v = KDF_LOW" "length (ua_totp_seed ua) = KEY_LEN"
    "current_verifier s' = \<lparr>tv_config = totp_config_default, last_accepted_step = Some 1\<rparr>"
proof -
  obtain uri s0 y v and ua :: unlocked_app where
    c: "create_vault demo_host pw KDF_LOW totp_config_default demo_prompter demo_app = (Inr (ua, uri), s0)"
    and s: "in_session demo_opens demo_host pw v y" "session_view demo_host v y = demo_entries" "ua_index (snd y) = [demo_row]"
      "length (vault_to_bytes v) \<le> MAX_VAULT_BYTES" "kdf_params_of v = KDF_LOW" "length (ua_totp_seed (snd y)) = KEY_LEN"
      "a_allow_software_hsm (fst y)" "rl_counter v = 0" "rl_last_failure v = 0" "session_live demo_host y"
    by (rule demo_entry_session) blast
  let ?s = "restart (fst y)" and ?km = "k_master (snd y)" and ?seed = "ua_totp_seed (snd y)"
  have pr: "provisioned demo_opens demo_host pw ?km ?seed v ?s"
    by (rule provisioned_frame [of _ _ _ _ _ _ "fst y"]) (use s(1) in \<open>simp_all add: in_session_def restart_def slots_kept_def\<close>)
  have m: "merged_state v ?s = lockout_reset"
    using s(8,9) by (simp add: merged_state_def lockout_new_def merged_lockout_def lockout_reset_def restart_def)
  have rd: "reads_vault demo_host v ?s" using s(4) by (simp add: reads_vault_def)
  have "cooperates prompt_passes demo_host v ?seed (ustr ''000001'') demo_prompter ?s"
    using demo_code [of ?seed] demo_native [of v ?s] s(5,7) rd m demo_willing
    by (simp add: cooperates_def check_backend_allowed_def current_verifier_def memory_fits_def
        available_memory_kib_def restart_def)
  then obtain ua' s' where u: "unlock demo_host pw (ustr ''000001'') demo_prompter ?s = (Inr ua', s')" "k_master ua' = ?km"
      "ua_totp_seed ua' = ?seed" "open_index demo_host v ?km = Inr (ua_index ua')"
    using provisioned_unlocks [OF demo_store pr] by blast
  obtain c t where p: "provisioned demo_opens demo_host pw ?km ?seed (set_rate_limit c t v) s'"
    using unlock_keeps_provisioned [OF demo_store pr u(1)] by blast
  have ix: "ua_index ua' = [demo_row]" using u(4) s(1,3) by (simp add: in_session_def)
  have h: "vault_holds demo_opens demo_host pw demo_entries ?s" using pr s(2) tidy_demo unfolding vault_holds_def by blast
  have i: "in_session demo_opens demo_host pw (set_rate_limit c t v) (s', ua')"
    using p u by (simp add: in_session_def)
  have e: "session_expiry ua' = 150" using unlock_evidence [OF u(1)] by (auto simp: sat_add64_def SESSION_SECS_def)
  have "vault_on_disk demo_host ?s = Inr v" by (rule stored_on_disk [OF _ rd]) (use pr in \<open>simp add: provisioned_def\<close>)
  note d = demo_after_unlock [OF u(1) this s(8,9)]
  have af: "a_fs s' = a_fs ?s" "a_path s' = a_path ?s"
    "current_verifier s' = \<lparr>tv_config = totp_config_default, last_accepted_step = Some 1\<rparr>"
    using d by (simp_all add: restart_def)
  have nt: "no_temps demo_host s'" using s(10) af(1,2) by (simp add: session_live_def no_temps_def restart_def)
  show thesis by (rule that [OF h u(1) i _ e ix _ nt af(2,1) _ _ af(3)])
    (use s(2,4,5,6) u(2,3) in \<open>simp_all add: set_rate_limit_length\<close>)
qed

lemma demo_lines: "finalize_line [] = []" "trim (finalize_line (ustr ''000001'')) = ustr ''000001''"
  by (simp_all add: finalize_line_def ustr_def trim_def is_whitespace_def)

abbreviation demo_typing :: "ustring option list" where "demo_typing \<equiv> [Some [], Some (ustr ''000001'')]"

lemma demo_cli_unlock:
  assumes "vault_holds demo_opens demo_host [] M s" and "unlock demo_host [] (ustr ''000001'') demo_prompter s = (Inr ua, s')"
  shows "\<exists>k1. cli_unlock demo_host (demo_cli (a_path s) fo) (demo_desk s (demo_typing @ ls)) = (Inr ua, k1) \<and> dk_app k1 = s' \<and>
    dk_clip k1 = system_clipboard_new None \<and> tm_input (dk_term k1) = ls \<and> tm_log (dk_term k1) = [Asked ''Master password: '', Asked ''TOTP code: '']"
proof -
  have "a_fs s (a_path s) \<noteq> None" using assms(1) by (auto simp: vault_holds_def provisioned_def stored_def)
  then show ?thesis using assms(2) demo_lines
    by (simp add: cli_unlock_def require_vault_def file_exists_def demo_desk_def st_then_def ask_def read_input_def st_err_def on_app_def put_line_def)
qed

lemma demo_list:
  assumes "session_expiry ua = 150" and "ua_index ua = [demo_row]"
  shows "\<exists>y. list_entries demo_host (s, ua) = (Inr [\<lparr>eh_id = demo_id, eh_label = ustr ''mail''\<rparr>], y, ua) \<and> a_fs y = a_fs s \<and> a_path y = a_path s"
  using assms by (simp add: list_entries_def st_then_def with_session_def st_lift_def ensure_unlocked_def session_now_def
      on_fst_def clock_now_def demo_row_def)

lemma demo_typed: "typed demo_host [] (demo_desk s (demo_typing @ ls))"
  by (simp add: typed_def demo_desk_def demo_lines)


lemma demo_decrypt:
  assumes "in_session demo_opens demo_host [] v (s, ua)" and "session_view demo_host v (s, ua) = demo_entries"
    and "session_expiry ua = 150" and "length (vault_to_bytes v) \<le> MAX_VAULT_BYTES"
  shows "\<exists>y. session_decrypt demo_host demo_id (s, ua) = (Inr demo_record, y, ua)"
proof -
  let ?s = "s\<lparr>a_tick := a_tick s + 1\<rparr>"
  have e: "ensure_unlocked demo_host (s, ua) = (Inr (), ?s, ua)"
    using assms(3) by (simp add: ensure_unlocked_def session_now_def on_fst_def clock_now_def)
  have "stored v ?s" using assms(1) by (simp add: in_session_def provisioned_def stored_def)
  moreover have "reads_vault demo_host v ?s" using assms(4) by (simp add: reads_vault_def)
  ultimately have "vault_on_disk demo_host ?s = Inr v" by (rule stored_on_disk)
  then have l: "load_vault demo_host (?s, ua) = (Inr v, ?s\<lparr>a_tick := a_tick ?s + 1\<rparr>, ua)"
    by (auto simp: load_vault_def on_fst_def read_vault_file_def st_then_def st_lift_def vault_on_disk_def and_then_Inr_iff)
  have "session_view demo_host v (s, ua) demo_id = Some (ustr ''mail'', policy_default, demo_record)" using assms(2) by simp
  then have "decrypt_entry demo_host v (k_master ua) demo_id = Inr demo_record"
    by (auto simp: store_view_def split: sum.splits option.splits)
  then show ?thesis using e l by (simp add: session_decrypt_def st_then_def with_session_def st_lift_def)
qed

lemma demo_wait: "tm_log (wait_for_clear (\<lambda>_. False) 500000000 0 t) = tm_log t @ [Slept 200000000, Slept 200000000, Slept 100000000]"
  by (subst wait_for_clear.simps, simp add: CLEAR_TICK_def Let_def)+

lemma get_leaves_no_secret_witness:
  "\<exists>s k' ck. cmd_get demo_host (demo_cli (a_path s) True) (ustr ''mail'') CliPassword False (demo_desk s demo_typing) = (Inr (), k') \<and>
     tm_log (dk_term k') = [Asked ''Master password: '', Asked ''TOTP code: '', Err (CopiedFor 0), Slept 200000000, Slept 200000000,
       Slept 100000000, Err (ClearStatus ck)] \<and> sc_os (dk_clip k') \<noteq> Some (ustr ''s3cret'')"
proof -
  obtain s s' v and ua :: unlocked_app where u: "vault_holds demo_opens demo_host [] demo_entries s"
    "unlock demo_host [] (ustr ''000001'') demo_prompter s = (Inr ua, s')"
    "in_session demo_opens demo_host [] v (s', ua)" "session_view demo_host v (s', ua) = demo_entries"
    "session_expiry ua = 150" "ua_index ua = [demo_row]" "length (vault_to_bytes v) \<le> MAX_VAULT_BYTES"
    by (rule demo_unlock) blast
  let ?E = "demo_cli (a_path s) True" and ?k = "demo_desk s demo_typing"
  obtain r k' where g: "cmd_get demo_host ?E (ustr ''mail'') CliPassword False ?k = (r, k')" by fastforce
  have c: "sc_os (dk_clip k') = None \<or> (\<exists>f\<in>set FACTS. sc_os (dk_clip k') = Some f)"
    using get_leaves_no_secret [OF toy_arboard_ok toy_arboard_up _ _ g, THEN conjunct1] by (simp add: demo_desk_def system_clipboard_new_def)
  have "ustr ''s3cret'' \<notin> set FACTS" by (simp add: FACTS_def ustr_def)
  then have "sc_os (dk_clip k') \<noteq> Some (ustr ''s3cret'')" using c by auto
  moreover have "r = Inr () \<and> (\<exists>ck. tm_log (dk_term k') = [Asked ''Master password: '', Asked ''TOTP code: '', Err (CopiedFor 0), Slept 200000000, Slept 200000000,
       Slept 100000000, Err (ClearStatus ck)])"
  proof -
    obtain k1 where k1: "cli_unlock demo_host ?E ?k = (Inr ua, k1)" "dk_app k1 = s'" "dk_clip k1 = system_clipboard_new None"
      "tm_log (dk_term k1) = [Asked ''Master password: '', Asked ''TOTP code: '']"
      using demo_cli_unlock [OF u(1,2), of True "[]"] by auto
    obtain y where l: "list_entries demo_host (s', ua) = (Inr [\<lparr>eh_id = demo_id, eh_label = ustr ''mail''\<rparr>], y, ua)"
      "a_fs y = a_fs s'" "a_path y = a_path s'" using demo_list [OF u(5,6)] by blast
    have f: "find_entry demo_host (ustr ''mail'') ua k1 = (Inr (demo_id, ua), k1\<lparr>dk_app := y\<rparr>)"
      using l(1) k1(2) by (simp add: find_entry_def on_session_def st_then_def pick_entry_def st_lift_def)
    have "undisturbed demo_opens (s', ua) (y, ua)" by (rule keepsD [OF keeps_undisturbed_reads(1) l(1)])
    from in_session_undisturbed [OF u(3) this] obtain z where z: "session_decrypt demo_host demo_id (y, ua) = (Inr demo_record, z, ua)"
      using demo_decrypt [of v y ua] u(4,5,7) by auto
    obtain ck c1 where w: "cb_write (system_clipboard_ops toy_arboard) (er_password demo_record) (system_clipboard_new None) = (Inr ck, c1)"
      by (simp add: system_clipboard_ops_def sc_write_def sc_with_def toy_arboard_def system_clipboard_new_def)
    obtain x where x: "clamp_session demo_host (z, ua) = ((), x)" by (cases "clamp_session demo_host (z, ua)") simp
    obtain x1 x2 where x12: "x = (x1, x2)" by (cases x)
    have cp: "cli_copy demo_host ?E demo_id CliPassword ua (k1\<lparr>dk_app := y\<rparr>) = (Inr (ck, x2), k1\<lparr>dk_app := x1, dk_clip := c1\<rparr>)"
      using z w x k1(3) by (simp add: cli_copy_def copy_to_clipboard_def on_fst_def on_snd_def st_then_def st_do_def st_lift_def x12)
    have cl: "tm_log (dk_term j') = tm_log (dk_term j)" if "cli_clear demo_host ?E ck x2 j = (q, j')" for j q j'
      using that by (auto simp: cli_clear_def split: prod.splits)
    have "ce_clipboard_clear ?E = 500000000" "ce_interrupted ?E = (\<lambda>_. False)" by (simp_all add: demo_cli_def)
    then have "\<exists>q. get_copied demo_host ?E demo_id CliPassword ua (k1\<lparr>dk_app := y\<rparr>) = (Inr (), k') \<and>
        tm_log (dk_term k') = tm_log (dk_term k1) @ [Err (CopiedFor 0), Slept 200000000, Slept 200000000, Slept 100000000, Err (ClearStatus q)]"
      using g k1(1) f cp
      by (auto simp: get_copied_def cmd_get_def st_then_def st_do_def say_def await_clear_def demo_wait as_secs_def dest!: cl split: prod.splits)
    then show ?thesis using g k1 f by (auto simp: cmd_get_def st_then_def)
  qed
  ultimately show ?thesis using g by blast
qed

definition demo_outside :: outside where
  "demo_outside = \<lparr>ou_base = None, ou_settings_readable = True, ou_selected = (\<lambda>_. Inr ()), ou_lockfile_opens = True\<rparr>"

definition demo_args :: "cli_command \<Rightarrow> cli_args" where
  "demo_args c = \<lparr>arg_allow_software_hsm = True, arg_vault_dir = Some [ustr ''etc''], arg_command = c\<rparr>"

definition demo_system :: "path set \<Rightarrow> (unit, ustring option system_clipboard) system" where
  "demo_system held = \<lparr>sy_fs = Map.empty, sy_locks = \<lparr>lt_supported = True, lt_held = held\<rparr>, sy_device = (), sy_rng = 0,
     sy_clip = system_clipboard_new None, sy_term = \<lparr>tm_input = [], tm_log = [], tm_polls = 0\<rparr>, sy_dirs = Map.empty\<rparr>"

text \<open>With the lock held by another instance, \<open>list\<close> exits with 6.\<close>

lemma exit_codes_truthful_witness:
  "\<exists>y' p st. cli_main demo_host toy_toml demo_outside (demo_cli [] True) (demo_args CmdList)
      (demo_system {lock_path_for ([ustr ''etc''] @ [VAULT_FILE])}) = Some (6, y') \<and>
    main_prepare toy_toml demo_outside (demo_args CmdList) Map.empty = Inr (p, st) \<and>
    lock_path_for (vault_path p) = lock_path_for ([ustr ''etc''] @ [VAULT_FILE])"
proof -
  let ?y = "demo_system {lock_path_for ([ustr ''etc''] @ [VAULT_FILE])}"
  obtain y' where c: "cli_main demo_host toy_toml demo_outside (demo_cli [] True) (demo_args CmdList) ?y = Some (6, y')"
    by (simp add: cli_main_def real_main_def main_prepare_def resolve_paths_def demo_args_def demo_outside_def demo_system_def
        under_base_def settings_load_def cli_run_def open_app_def main_env_def app_open_allowing_software_hsm_def app_open_def
        instance_lock_acquire_def try_lock_def Let_def exit_status_def)
  from exit_codes_truthful [OF c] obtain p st where
    "main_prepare toy_toml demo_outside (demo_args CmdList) (sy_fs ?y) = Inr (p, st)" "lock_path_for (vault_path p) \<in> lt_held (sy_locks ?y)"
    by auto
  then show ?thesis using c by (auto simp: demo_system_def)
qed

lemma demo_export_lines:
  "finalize_line strong_password = strong_password" "trim (finalize_line (ustr ''000002'')) = ustr ''000002''"
  by (simp_all add: strong_password_def finalize_line_def ustr_def trim_def is_whitespace_def)

lemma backup_restores_witness:
  "\<exists>s fl k' b. cmd_export demo_host (demo_cli (a_path s) True) fl Rec1Gb
      (demo_desk s [Some strong_password, Some (ustr ''000001''), Some strong_password, Some (ustr ''000002'')]) = (Inr (), k') \<and>
    a_fs (dk_app k') fl = Some \<lparr>f_content = b, f_mode = OWNER_ONLY\<rparr> \<and> vault_holds demo_opens demo_host strong_password demo_entries (dk_app k')"
proof -
  obtain s s' v and ua :: unlocked_app where h: "vault_holds demo_opens demo_host strong_password demo_entries s"
    and u: "unlock demo_host strong_password (ustr ''000001'') demo_prompter s = (Inr ua, s')"
    and i: "in_session demo_opens demo_host strong_password v (s', ua)" "session_view demo_host v (s', ua) = demo_entries"
      "session_expiry ua = 150" "ua_index ua = [demo_row]" "length (vault_to_bytes v) \<le> MAX_VAULT_BYTES"
    and n: "no_temps demo_host s'" "a_path s' = a_path s" "a_fs s' = a_fs s" "kdf_params_of v = KDF_LOW" "length (ua_totp_seed ua) = KEY_LEN"
      "current_verifier s' = \<lparr>tv_config = totp_config_default, last_accepted_step = Some 1\<rparr>"
    by (rule demo_unlock)
  let ?E = "demo_cli (a_path s) True" and ?fl = "fst (temp_sibling demo_host (process_id demo_host) (a_path s) 0)"
  let ?ls = "[Some strong_password, Some (ustr ''000001''), Some strong_password, Some (ustr ''000002'')]"
  have live: "session_live demo_host (s', ua)" using n(1) i(3) by (simp add: session_live_def io_fine_def write_fine_def)
  have dec: "decrypt_entry demo_host v (k_master ua) demo_id = Inr demo_record"
  proof -
    have "session_view demo_host v (s', ua) demo_id = Some (ustr ''mail'', policy_default, demo_record)" using i(2) by simp
    then show ?thesis by (auto simp: store_view_def split: sum.splits option.splits)
  qed
  have rd: "readable demo_host v (s', ua)" using dec i(4) by (simp add: readable_def demo_row_def)
  have w: "prompt_passes demo_prompter (a_device (fst (s', ua)))" by (rule demo_willing)
  have de: "derives demo_host strong_password (kdf_params_of v)" using demo_derives n(4) by simp
  have ps: "\<forall>row\<in>set (ua_index (snd (s', ua))). policy_ser demo_host (ie_policy row) \<noteq> None" using i(4) by (simp add: demo_row_def)
  have to: "fst (totp_verify (hmac_tag demo_host) (ua_totp_seed (snd (s', ua))) (ustr ''000002'')
      (clock_at demo_host (a_tick (fst (s', ua)) + 2)) (current_verifier (fst (s', ua)))) = Inr ()"
    using demo_codes(2) by (simp add: n(6))
  have ln: "length (ua_totp_seed (snd (s', ua))) = KEY_LEN" using n(5) by simp
  obtain b y where x: "export_recovery demo_host strong_password (ustr ''000002'') PresetFloor demo_prompter (s', ua) = (Inr b, y)"
    and nt: "no_temps demo_host (fst y)"
    using export_live [OF demo_store i(1) live rd i(5) w de strong_exports ln ps to] by blast
  obtain v' where "in_session demo_opens demo_host strong_password v' y" using export_in_session [OF demo_store i(1) x] by blast
  have yp: "a_path (fst y) = a_path s"
  proof -
    obtain q z where q: "export_file demo_host strong_password (ustr ''000002'') PresetFloor demo_prompter (s', ua) = (q, z)"
      by (cases "export_file demo_host strong_password (ustr ''000002'') PresetFloor demo_prompter (s', ua)") simp
    have "a_path (fst z) = a_path s'"
      using keepsD [OF keeps_undisturbed_export [OF demo_store] q] by (simp add: undisturbed_def slots_kept_def)
    then show ?thesis using x q n(2)
      by (auto simp: export_recovery_def st_then_def st_do_def st_lift_def session_now_i64_def session_now_def on_fst_def clock_now_def
          dest!: write_vault_file_frame split: prod.splits sum.splits)
  qed
  have ex: "a_fs s (a_path s) \<noteq> None" using h by (auto simp: vault_holds_def provisioned_def stored_def)
  have fl: "a_fs s ?fl = None" "a_fs (fst y) ?fl = None" using n(1-3) nt yp by (simp_all add: no_temps_def)
  obtain y1 y2 where y: "y = (y1, y2)" by (cases y)
  obtain k' where c: "cmd_export demo_host ?E ?fl Rec1Gb (demo_desk s ?ls) = (Inr (), k')"
    using u x ex fl demo_lines demo_export_lines
    by (simp add: cmd_export_def cli_unlock_def require_vault_def file_exists_def demo_desk_def st_then_def ask_def read_input_def
        st_err_def on_app_def st_do_def say_def on_session_def write_export_def write_new_file_0600_def io_fine_def y)
  have t: "typed demo_host strong_password (demo_desk s ?ls)" by (simp add: typed_def demo_desk_def demo_export_lines)
  have po: "portable demo_host demo_entries"
    using tidy_demo by (simp add: portable_def text_fits_def ustr_def str_ok_def is_scalar_def utf8_enc_def enc1_def)
  have wl: "\<forall>d::unit. prompt_passes (ce_prompter ?E) d" by (simp add: demo_willing)
  have hk: "vault_holds demo_opens demo_host strong_password demo_entries (dk_app (demo_desk s ?ls))" using h by (simp add: demo_desk_def)
  have tl: "tm_input (dk_term (demo_desk s ?ls)) = Some strong_password # Some (ustr ''000001'') # Some strong_password # [Some (ustr ''000002'')]"
    by (simp add: demo_desk_def)
  show ?thesis
    using backup_restores [OF demo_host_ok(1,4) demo_store demo_fresh demo_host_ok(5) wl po hk t tl demo_export_lines(1) c] c by blast
qed

end
