(* ===== verification/GtkScreen.thy ===== *)
theory GtkScreen
  imports ForeignApp CliCommands
begin

text \<open>
  \<open>passman-gtk\<close>, \<open>ui.rs\<close>: the graphical shell as an event machine.  The record \<open>screen\<close> is what the
  widgets hold and show; a handler is a function from the screen to the new screen and the requests it
  sends to the worker.  Of GTK itself the model has: a click reaches a button only while it is shown and
  sensitive, \<open>emit_clicked\<close> regardless of that; setting the text of the master entry to a different one
  runs its \<open>changed\<close> handler; removing the selected row reports that no row is selected; a modal
  dialog keeps input from the main window.
\<close>

section \<open>What the widgets hold\<close>

datatype page = UnlockPage | VaultPage | AddPage

text \<open>The texts of labels; those built from values carry them.\<close>

datatype caption =
    Blank
  | FromWorker string
  | WorkerGone
  | HintUnlock
  | HintWelcome
  | ChooseMaster
  | MastersDiffer
  | TierNote strength_tier
  | TierWarning strength_tier
  | LockedByItself
  | LabelRequired
  | CannotGenerate policy_error
  | DerivingBackup
  | BackupNotSaved
  | NeedsLocalFile
  | BackupSaved
  | BackupNameTaken
  | BackupWriteFailed
  | EnterTheCode
  | CheckingCode
  | CodeConfirmed
  | CodeDiffers
  | BackUpNow
  | UriHidden
  | VaultReady
  | CopiedNote
  | ClipboardClearedNote
  | AddedNote ustring
  | RemovedNote ustring

datatype pending_mutation = PendingAdd ustring | PendingRemove ustring

datatype timer = HideReveal | ClearCopied clipboard_cookie

record export_form =
  xf_master :: ustring
  xf_code :: ustring
  xf_preset :: "32 word"

text \<open>\<open>ui_gate\<close>: the unlock page shows the unlock controls, not the create controls.  A timer is paired
  with the seconds until it fires; \<open>ui_saves\<close> are the backups whose save dialog is open.\<close>

record screen =
  ui_page :: page
  ui_gate :: bool
  ui_hint :: caption
  ui_master :: ustring
  ui_create_confirm :: ustring
  ui_create_strength :: caption
  ui_strength_warning :: bool
  ui_totp :: ustring
  ui_unlock_enabled :: bool
  ui_create_enabled :: bool
  ui_spinning :: bool
  ui_unlock_error :: caption
  ui_rows :: "ustring list"
  ui_entries :: "entry_handle list"
  ui_selected :: "nat option"
  ui_actions :: bool
  ui_reveal :: ustring
  ui_status :: caption
  ui_add_label :: ustring
  ui_add_user :: ustring
  ui_add_pass :: ustring
  ui_add_url :: ustring
  ui_add_notes :: ustring
  ui_backup_banner :: bool
  ui_confirm_box :: bool
  ui_confirm_totp :: ustring
  ui_confirm_result :: caption
  ui_confirm_error :: bool
  ui_user_lock :: bool
  ui_pending :: "pending_mutation option"
  ui_export :: "export_form option"
  ui_saves :: "bytes list"
  ui_timers :: "(nat \<times> timer) list"
  ui_polling :: bool

definition OBSCURED :: ustring where "OBSCURED = replicate 10 8226"
definition REVEAL_HIDE_SECS :: nat where "REVEAL_HIDE_SECS = 10"
definition GTK_CLEAR_SECS :: nat where "GTK_CLEAR_SECS = 30"

section \<open>Helpers of the screen\<close>

definition selected_entry :: "screen \<Rightarrow> entry_handle option" where
  "selected_entry u =
     (case ui_selected u of
        None \<Rightarrow> None
      | Some n \<Rightarrow> if n < length (ui_entries u) then Some (ui_entries u ! n) else None)"

definition selected_id :: "screen \<Rightarrow> entry_id option" where
  "selected_id u = map_option eh_id (selected_entry u)"

definition selected_label :: "screen \<Rightarrow> ustring option" where
  "selected_label u = map_option eh_label (selected_entry u)"

fun tier_needs_warning :: "strength_tier \<Rightarrow> bool" where
  "tier_needs_warning Strong = False"
| "tier_needs_warning Excellent = False"
| "tier_needs_warning _ = True"

datatype create_form = FormOk | FormEmpty | FormMismatch

definition validate_create_form :: "ustring \<Rightarrow> ustring \<Rightarrow> create_form" where
  "validate_create_form master confirm =
     (if master = [] then FormEmpty else if master \<noteq> confirm then FormMismatch else FormOk)"

definition preset_from_index :: "32 word \<Rightarrow> recovery_preset" where
  "preset_from_index n = (if n = 1 then PresetDefault else if n = 2 then PresetParanoid else PresetFloor)"

text \<open>The \<open>changed\<close> signal of the master entry: live strength feedback while creating.\<close>

definition master_changed :: "('d, 'm) host_scheme \<Rightarrow> screen \<Rightarrow> screen" where
  "master_changed H u =
     (if ui_master u = [] then u\<lparr>ui_create_strength := Blank\<rparr>
      else if ui_gate u then u
      else (let tier = me_tier (estimate_master (strength H) (ui_master u) [] KDF_MEDIUM) in
        u\<lparr>ui_create_strength := TierNote tier, ui_strength_warning := tier_needs_warning tier\<rparr>))"

definition set_master :: "('d, 'm) host_scheme \<Rightarrow> ustring \<Rightarrow> screen \<Rightarrow> screen" where
  "set_master H t u = (if ui_master u = t then u else master_changed H (u\<lparr>ui_master := t\<rparr>))"

definition refresh_gate :: "('d, 'm) host_scheme \<Rightarrow> bool \<Rightarrow> screen \<Rightarrow> screen" where
  "refresh_gate H vault_exists u =
     (set_master H [] (u\<lparr>ui_gate := vault_exists, ui_hint := (if vault_exists then HintUnlock else HintWelcome)\<rparr>))
       \<lparr>ui_create_confirm := [], ui_create_strength := Blank, ui_totp := [], ui_unlock_error := Blank\<rparr>"

text \<open>The \<open>row-selected\<close> signal of the list.\<close>

definition row_selected :: "nat option \<Rightarrow> screen \<Rightarrow> screen" where
  "row_selected row u =
     u\<lparr>ui_selected := row, ui_actions := (row \<noteq> None), ui_reveal := OBSCURED, ui_status := Blank\<rparr>"

definition set_entries :: "entry_handle list \<Rightarrow> screen \<Rightarrow> screen" where
  "set_entries hs u =
     (if ui_selected u = None then u else row_selected None u)
       \<lparr>ui_rows := map eh_label hs, ui_entries := hs, ui_selected := None, ui_reveal := OBSCURED, ui_actions := False\<rparr>"

definition clear_add_form :: "screen \<Rightarrow> screen" where
  "clear_add_form u = u\<lparr>ui_add_label := [], ui_add_user := [], ui_add_pass := [], ui_add_url := [], ui_add_notes := []\<rparr>"

section \<open>Handlers of the buttons\<close>

definition unlock_clicked :: "screen \<Rightarrow> screen \<times> request list" where
  "unlock_clicked u =
     (u\<lparr>ui_unlock_error := Blank, ui_spinning := True, ui_unlock_enabled := False\<rparr>,
      [UnlockVault (ui_master u) (ui_totp u)])"

definition create_clicked :: "('d, 'm) host_scheme \<Rightarrow> screen \<Rightarrow> screen \<times> request list" where
  "create_clicked H u =
     (case validate_create_form (ui_master u) (ui_create_confirm u) of
        FormEmpty \<Rightarrow> (u\<lparr>ui_unlock_error := ChooseMaster\<rparr>, [])
      | FormMismatch \<Rightarrow> (u\<lparr>ui_unlock_error := MastersDiffer\<rparr>, [])
      | FormOk \<Rightarrow>
          (let tier = me_tier (estimate_master (strength H) (ui_master u) [] KDF_MEDIUM);
               u1 = (if tier_needs_warning tier then u\<lparr>ui_create_strength := TierWarning tier, ui_strength_warning := True\<rparr> else u)
           in (u1\<lparr>ui_unlock_error := Blank, ui_spinning := True, ui_create_enabled := False\<rparr>,
               [CreateVault (ui_master u) KDF_MEDIUM])))"

definition on_selected :: "(entry_id \<Rightarrow> request) \<Rightarrow> screen \<Rightarrow> screen \<times> request list" where
  "on_selected req u = (u, case selected_id u of Some i \<Rightarrow> [req i] | None \<Rightarrow> [])"

definition remove_clicked :: "screen \<Rightarrow> screen \<times> request list" where
  "remove_clicked u =
     (case selected_id u of
        None \<Rightarrow> (u, [])
      | Some i \<Rightarrow>
          (case selected_label u of Some l \<Rightarrow> u\<lparr>ui_pending := Some (PendingRemove l)\<rparr> | None \<Rightarrow> u, [RemoveEntry i]))"

definition lock_clicked :: "screen \<Rightarrow> screen \<times> request list" where
  "lock_clicked u = (u\<lparr>ui_user_lock := True\<rparr>, [LockSession])"

definition add_clicked :: "screen \<Rightarrow> screen \<times> request list" where
  "add_clicked u = ((clear_add_form u)\<lparr>ui_reveal := OBSCURED, ui_page := AddPage\<rparr>, [])"

definition save_clicked :: "screen \<Rightarrow> screen \<times> request list" where
  "save_clicked u =
     (if trim (ui_add_label u) = [] then (u\<lparr>ui_status := LabelRequired, ui_page := VaultPage\<rparr>, [])
      else ((clear_add_form (u\<lparr>ui_pending := Some (PendingAdd (ui_add_label u))\<rparr>))\<lparr>ui_page := VaultPage\<rparr>,
        [AddEntry (ui_add_label u) (ui_add_user u) (ui_add_pass u) (ui_add_url u) (ui_add_notes u)]))"

definition cancel_clicked :: "screen \<Rightarrow> screen \<times> request list" where
  "cancel_clicked u = ((clear_add_form u)\<lparr>ui_page := VaultPage\<rparr>, [])"

definition open_export_dialog :: "screen \<Rightarrow> screen \<times> request list" where
  "open_export_dialog u = (u\<lparr>ui_export := Some \<lparr>xf_master = [], xf_code = [], xf_preset = 0\<rparr>\<rparr>, [])"

definition export_confirmed :: "screen \<Rightarrow> screen \<times> request list" where
  "export_confirmed u =
     (case ui_export u of
        None \<Rightarrow> (u, [])
      | Some f \<Rightarrow> (u\<lparr>ui_status := DerivingBackup, ui_export := None\<rparr>,
          [ExportRecovery (xf_master f) (xf_code f) (preset_from_index (xf_preset f))]))"

definition confirm_clicked :: "screen \<Rightarrow> screen \<times> request list" where
  "confirm_clicked u =
     (if trim (ui_confirm_totp u) = [] then (u\<lparr>ui_confirm_result := EnterTheCode\<rparr>, [])
      else (u\<lparr>ui_confirm_error := False, ui_confirm_result := CheckingCode\<rparr>, [VerifyTotp (ui_confirm_totp u)]))"

definition dismiss_clicked :: "screen \<Rightarrow> screen \<times> request list" where
  "dismiss_clicked u =
     (u\<lparr>ui_reveal := OBSCURED, ui_confirm_totp := [], ui_confirm_result := Blank, ui_confirm_box := False,
        ui_status := UriHidden\<rparr>, [])"

text \<open>The generator runs in the shell and draws from the operating system.\<close>

definition generate_clicked :: "('d, 'm) host_scheme \<Rightarrow> screen \<times> rng \<Rightarrow> (screen \<times> rng) option" where
  "generate_clicked H = (\<lambda>(u, g).
     Option.bind (generate H \<lparr>gr_length = DEFAULT_LENGTH, gr_charset = charset_default_vault, gr_required = one_of_each\<rparr> g)
       (\<lambda>(r, g'). Some (case r of Inr pw \<Rightarrow> u\<lparr>ui_add_pass := pw\<rparr> | Inl e \<Rightarrow> u\<lparr>ui_status := CannotGenerate e\<rparr>, g')))"

text \<open>Enter in an entry of the unlock page emits the click of the button the gate shows.\<close>

definition enter_pressed :: "('d, 'm) host_scheme \<Rightarrow> screen \<Rightarrow> screen \<times> request list" where
  "enter_pressed H u = (if ui_gate u then unlock_clicked u else create_clicked H u)"

section \<open>Responses\<close>

definition apply_totp_checked :: "bool \<Rightarrow> screen \<Rightarrow> screen" where
  "apply_totp_checked valid u =
     (if valid
      then u\<lparr>ui_confirm_error := False, ui_confirm_result := CodeConfirmed, ui_reveal := OBSCURED, ui_confirm_totp := [],
             ui_confirm_box := False, ui_status := BackUpNow\<rparr>
      else u\<lparr>ui_confirm_error := True, ui_confirm_result := CodeDiffers, ui_confirm_totp := []\<rparr>)"

fun confirmation :: "pending_mutation option \<Rightarrow> caption" where
  "confirmation (Some (PendingAdd label)) = AddedNote label"
| "confirmation (Some (PendingRemove label)) = RemovedNote label"
| "confirmation None = Blank"

text \<open>\<open>vault_exists\<close> is what \<open>refresh_gate\<close> finds on the disk.\<close>

fun handle_response :: "('d, 'm) host_scheme \<Rightarrow> bool \<Rightarrow> response \<Rightarrow> screen \<Rightarrow> screen" where
  "handle_response H vault_exists (Created uri hs) u =
     (set_entries hs
        ((set_master H [] (u\<lparr>ui_spinning := False, ui_create_enabled := True\<rparr>))\<lparr>ui_create_confirm := [], ui_create_strength := Blank\<rparr>))
       \<lparr>ui_reveal := uri, ui_backup_banner := True, ui_confirm_totp := [], ui_confirm_result := Blank,
        ui_confirm_error := False, ui_confirm_box := True, ui_status := VaultReady, ui_page := VaultPage\<rparr>"
| "handle_response H vault_exists (CreateFailed message) u =
     u\<lparr>ui_spinning := False, ui_create_enabled := True, ui_unlock_error := FromWorker message\<rparr>"
| "handle_response H vault_exists (Unlocked hs) u =
     (set_entries hs ((set_master H [] (u\<lparr>ui_spinning := False, ui_unlock_enabled := True\<rparr>))\<lparr>ui_totp := []\<rparr>))
       \<lparr>ui_backup_banner := False, ui_confirm_box := False, ui_page := VaultPage\<rparr>"
| "handle_response H vault_exists (UnlockFailed message) u =
     u\<lparr>ui_spinning := False, ui_unlock_enabled := True, ui_unlock_error := FromWorker message\<rparr>"
| "handle_response H vault_exists (Entries hs) u =
     (set_entries hs (u\<lparr>ui_pending := None\<rparr>))\<lparr>ui_status := confirmation (ui_pending u)\<rparr>"
| "handle_response H vault_exists (Revealed field value) u =
     u\<lparr>ui_reveal := value, ui_timers := ui_timers u @ [(REVEAL_HIDE_SECS, HideReveal)]\<rparr>"
| "handle_response H vault_exists (Copied cookie) u =
     u\<lparr>ui_status := CopiedNote, ui_timers := ui_timers u @ [(GTK_CLEAR_SECS, ClearCopied cookie)]\<rparr>"
| "handle_response H vault_exists (Generated password) u = u\<lparr>ui_add_pass := password\<rparr>"
| "handle_response H vault_exists LockedNow u =
     (let u1 = (refresh_gate H vault_exists ((set_entries [] (u\<lparr>ui_user_lock := False\<rparr>))
            \<lparr>ui_status := Blank, ui_backup_banner := False, ui_confirm_box := False\<rparr>))\<lparr>ui_page := UnlockPage\<rparr>
      in if ui_user_lock u then u1 else u1\<lparr>ui_unlock_error := LockedByItself\<rparr>)"
| "handle_response H vault_exists (OpError message) u = u\<lparr>ui_status := FromWorker message\<rparr>"
| "handle_response H vault_exists (RecoveryExportFailed message) u = u\<lparr>ui_status := FromWorker message\<rparr>"
| "handle_response H vault_exists (RecoveryExported file) u = u\<lparr>ui_saves := ui_saves u @ [file]\<rparr>"
| "handle_response H vault_exists (TotpChecked valid) u = apply_totp_checked valid u"

text \<open>The outcome of a save dialog.\<close>

datatype picked = NotPicked | PickedRemote | PickedFile path

definition save_recovery_file :: "write_io \<Rightarrow> picked \<Rightarrow> bytes \<Rightarrow> screen \<times> fs \<Rightarrow> screen \<times> fs" where
  "save_recovery_file io choice b = (\<lambda>(u, fs).
     (case choice of
        NotPicked \<Rightarrow> (u\<lparr>ui_status := BackupNotSaved\<rparr>, fs)
      | PickedRemote \<Rightarrow> (u\<lparr>ui_status := NeedsLocalFile\<rparr>, fs)
      | PickedFile p \<Rightarrow>
          (case write_new_file_0600 io p b fs of
             (Inr _, fs') \<Rightarrow> (u\<lparr>ui_status := BackupSaved, ui_backup_banner := False\<rparr>, fs')
           | (Inl FileExists, fs') \<Rightarrow> (u\<lparr>ui_status := BackupNameTaken\<rparr>, fs')
           | (Inl FileFailed, fs') \<Rightarrow> (u\<lparr>ui_status := BackupWriteFailed\<rparr>, fs'))))"

section \<open>Timers\<close>

fun fire :: "timer \<Rightarrow> screen \<Rightarrow> screen \<times> request list" where
  "fire HideReveal u = (u\<lparr>ui_reveal := OBSCURED\<rparr>, [])"
| "fire (ClearCopied cookie) u = (u\<lparr>ui_status := ClipboardClearedNote\<rparr>, [ClearClipboard cookie])"

fun fire_all :: "timer list \<Rightarrow> screen \<Rightarrow> screen \<times> request list" where
  "fire_all [] u = (u, [])"
| "fire_all (t # ts) u = (case fire t u of (u', rs) \<Rightarrow> case fire_all ts u' of (u'', rs') \<Rightarrow> (u'', rs @ rs'))"

text \<open>One second passes.\<close>

definition tick :: "screen \<Rightarrow> screen \<times> request list" where
  "tick u =
     (let left = map (\<lambda>(n, t). (n - 1, t)) (ui_timers u) in
      fire_all (map snd (filter (\<lambda>(n, t). n = 0) left)) (u\<lparr>ui_timers := filter (\<lambda>(n, t). n \<noteq> 0) left\<rparr>))"

section \<open>Start\<close>

record gtk_opts =
  go_allow_software :: bool
  go_vault_dir :: "path option"

text \<open>The options, and the arguments that were warned about; \<open>None\<close> when the directory is missing.\<close>

fun parse_opts :: "(ustring \<Rightarrow> path) \<Rightarrow> ustring list \<Rightarrow> gtk_opts \<Rightarrow> (gtk_opts \<times> ustring list) option" where
  "parse_opts to_path [] o1 = Some (o1, [])"
| "parse_opts to_path [a] o1 =
     (if a = ustr ''--allow-software-hsm'' then Some (o1\<lparr>go_allow_software := True\<rparr>, [])
      else if a = ustr ''--vault-dir'' then None
      else Some (o1, [a]))"
| "parse_opts to_path (a # b # rest) o1 =
     (if a = ustr ''--allow-software-hsm'' then parse_opts to_path (b # rest) (o1\<lparr>go_allow_software := True\<rparr>)
      else if a = ustr ''--vault-dir'' then parse_opts to_path rest (o1\<lparr>go_vault_dir := Some (to_path b)\<rparr>)
      else map_option (\<lambda>(o2, ws). (o2, a # ws)) (parse_opts to_path (b # rest) o1))"

definition gtk_resolve_paths :: "gtk_opts \<Rightarrow> base_dirs option \<Rightarrow> platform_error + paths" where
  "gtk_resolve_paths o1 base = (case go_vault_dir o1 of Some dir \<Rightarrow> Inr (under_base dir) | None \<Rightarrow> paths_discover base)"

text \<open>The widgets as they are built.\<close>

definition build_ui :: "bool \<Rightarrow> screen" where
  "build_ui vault_exists =
     \<lparr>ui_page = UnlockPage, ui_gate = vault_exists, ui_hint = (if vault_exists then HintUnlock else HintWelcome),
      ui_master = [], ui_create_confirm = [], ui_create_strength = Blank, ui_strength_warning = False, ui_totp = [],
      ui_unlock_enabled = True, ui_create_enabled = True, ui_spinning = False, ui_unlock_error = Blank,
      ui_rows = [], ui_entries = [], ui_selected = None, ui_actions = False, ui_reveal = OBSCURED, ui_status = Blank,
      ui_add_label = [], ui_add_user = [], ui_add_pass = [], ui_add_url = [], ui_add_notes = [],
      ui_backup_banner = False, ui_confirm_box = False, ui_confirm_totp = [], ui_confirm_result = Blank,
      ui_confirm_error = False, ui_user_lock = False, ui_pending = None, ui_export = None, ui_saves = [],
      ui_timers = [], ui_polling = True\<rparr>"

end
