(* ===== verification/GtkDesktop.thy ===== *)
theory GtkDesktop
  imports GtkScreen WorkerSessions
begin

text \<open>
  \<open>passman-gtk\<close> with the worker behind it: the events of a running desktop (input, the poll of the
  response channel, the seconds of the timers, the worker's own moves) as one step function, and the
  start of the program.  \<open>None\<close> is an event that never ends (a generator that draws forever).
\<close>

section \<open>Events\<close>

datatype button =
    UnlockButton | CreateButton | RevealButton | CopyPasswordButton | CopyUserButton | RemoveButton | LockButton
  | AddButton | ExportButton | GenerateButton | SaveButton | CancelButton | ConfirmButton | DismissButton
  | ExportConfirmButton | ExportCancelButton

datatype gtk_field =
    MasterField | CreateConfirmField | TotpField | AddLabelField | AddUserField | AddPassField | AddUrlField | AddNotesField
  | ConfirmTotpField | ExportMasterField | ExportCodeField

datatype gtk_event =
    Click button
  | EnterKey
  | Edit gtk_field ustring
  | ChoosePreset "32 word"
  | SelectRow nat
  | SaveAnswer write_io picked
  | Poll
  | SecondPasses
  | WorkerMove move

text \<open>Shown and sensitive, and not behind the export dialog.\<close>

fun clickable :: "screen \<Rightarrow> button \<Rightarrow> bool" where
  "clickable u ExportConfirmButton = (ui_export u \<noteq> None)"
| "clickable u ExportCancelButton = (ui_export u \<noteq> None)"
| "clickable u b = (ui_export u = None \<and> (case b of
      UnlockButton \<Rightarrow> ui_page u = UnlockPage \<and> ui_gate u \<and> ui_unlock_enabled u
    | CreateButton \<Rightarrow> ui_page u = UnlockPage \<and> \<not> ui_gate u \<and> ui_create_enabled u
    | GenerateButton \<Rightarrow> ui_page u = AddPage
    | SaveButton \<Rightarrow> ui_page u = AddPage
    | CancelButton \<Rightarrow> ui_page u = AddPage
    | LockButton \<Rightarrow> ui_page u = VaultPage
    | AddButton \<Rightarrow> ui_page u = VaultPage
    | ExportButton \<Rightarrow> ui_page u = VaultPage
    | ConfirmButton \<Rightarrow> ui_page u = VaultPage \<and> ui_confirm_box u
    | DismissButton \<Rightarrow> ui_page u = VaultPage \<and> ui_confirm_box u
    | _ \<Rightarrow> ui_page u = VaultPage \<and> ui_actions u))"

text \<open>What a click runs; generating a password is apart, since it draws.\<close>

fun clicked :: "('d, 'm) host_scheme \<Rightarrow> button \<Rightarrow> screen \<Rightarrow> screen \<times> request list" where
  "clicked H UnlockButton u = unlock_clicked u"
| "clicked H CreateButton u = create_clicked H u"
| "clicked H RevealButton u = on_selected (\<lambda>i. Reveal i Password) u"
| "clicked H CopyPasswordButton u = on_selected (\<lambda>i. Copy i Password) u"
| "clicked H CopyUserButton u = on_selected (\<lambda>i. Copy i Username) u"
| "clicked H RemoveButton u = remove_clicked u"
| "clicked H LockButton u = lock_clicked u"
| "clicked H AddButton u = add_clicked u"
| "clicked H ExportButton u = open_export_dialog u"
| "clicked H GenerateButton u = (u, [])"
| "clicked H SaveButton u = save_clicked u"
| "clicked H CancelButton u = cancel_clicked u"
| "clicked H ConfirmButton u = confirm_clicked u"
| "clicked H DismissButton u = dismiss_clicked u"
| "clicked H ExportConfirmButton u = export_confirmed u"
| "clicked H ExportCancelButton u = (u\<lparr>ui_export := None\<rparr>, [])"

text \<open>Typing; the entries for codes take eight characters.\<close>

fun edited :: "('d, 'm) host_scheme \<Rightarrow> gtk_field \<Rightarrow> ustring \<Rightarrow> screen \<Rightarrow> screen" where
  "edited H MasterField t u = (if ui_page u = UnlockPage \<and> ui_export u = None then set_master H t u else u)"
| "edited H CreateConfirmField t u =
     (if ui_page u = UnlockPage \<and> \<not> ui_gate u \<and> ui_export u = None then u\<lparr>ui_create_confirm := t\<rparr> else u)"
| "edited H TotpField t u =
     (if ui_page u = UnlockPage \<and> ui_gate u \<and> ui_export u = None then u\<lparr>ui_totp := take 8 t\<rparr> else u)"
| "edited H AddLabelField t u = (if ui_page u = AddPage \<and> ui_export u = None then u\<lparr>ui_add_label := t\<rparr> else u)"
| "edited H AddUserField t u = (if ui_page u = AddPage \<and> ui_export u = None then u\<lparr>ui_add_user := t\<rparr> else u)"
| "edited H AddPassField t u = (if ui_page u = AddPage \<and> ui_export u = None then u\<lparr>ui_add_pass := t\<rparr> else u)"
| "edited H AddUrlField t u = (if ui_page u = AddPage \<and> ui_export u = None then u\<lparr>ui_add_url := t\<rparr> else u)"
| "edited H AddNotesField t u = (if ui_page u = AddPage \<and> ui_export u = None then u\<lparr>ui_add_notes := t\<rparr> else u)"
| "edited H ConfirmTotpField t u =
     (if ui_page u = VaultPage \<and> ui_confirm_box u \<and> ui_export u = None then u\<lparr>ui_confirm_totp := take 8 t\<rparr> else u)"
| "edited H ExportMasterField t u = u\<lparr>ui_export := map_option (\<lambda>f. f\<lparr>xf_master := t\<rparr>) (ui_export u)\<rparr>"
| "edited H ExportCodeField t u = u\<lparr>ui_export := map_option (\<lambda>f. f\<lparr>xf_code := take 8 t\<rparr>) (ui_export u)\<rparr>"

section \<open>The running desktop\<close>

record ('d, 'c) desktop =
  dt_screen :: screen
  dt_link :: "('d, 'c) link"
  dt_path :: path
  dt_rng :: rng

fun with_app_fs :: "(fs \<Rightarrow> fs) \<Rightarrow> ('d, 'c) worker \<Rightarrow> ('d, 'c) worker" where
  "with_app_fs f (WaitsLocked s c h) = WaitsLocked (s\<lparr>a_fs := f (a_fs s)\<rparr>) c h"
| "with_app_fs f (WaitsUnlocked v) =
     WaitsUnlocked (v\<lparr>sv_session := (case sv_session v of (s, ua) \<Rightarrow> (s\<lparr>a_fs := f (a_fs s)\<rparr>, ua))\<rparr>)"
| "with_app_fs f (Stopped s c h) = Stopped (s\<lparr>a_fs := f (a_fs s)\<rparr>) c h"

text \<open>The files the desktop sees are the worker's.\<close>

definition disk :: "('d, 'c) desktop \<Rightarrow> fs" where
  "disk d = a_fs (app_of (lk_worker (dt_link d)))"

definition send_all :: "screen \<times> request list \<Rightarrow> ('d, 'c) desktop \<Rightarrow> ('d, 'c) desktop" where
  "send_all x d = d\<lparr>dt_screen := fst x, dt_link := fold session_send (snd x) (dt_link d)\<rparr>"

text \<open>One turn of the poll: the next response, an empty channel, or one whose worker has gone.\<close>

definition poll :: "('d, 'm) host_scheme \<Rightarrow> ('d, 'c) desktop \<Rightarrow> ('d, 'c) desktop" where
  "poll H d =
     (if \<not> ui_polling (dt_screen d) then d
      else case drop (lk_read (dt_link d)) (received (lk_worker (dt_link d))) of
        a # _ \<Rightarrow> d\<lparr>dt_screen := handle_response H (disk d (dt_path d) \<noteq> None) a (dt_screen d),
                     dt_link := (dt_link d)\<lparr>lk_read := lk_read (dt_link d) + 1\<rparr>\<rparr>
      | [] \<Rightarrow>
          if has_stopped (lk_worker (dt_link d))
          then d\<lparr>dt_screen := (dt_screen d)\<lparr>ui_unlock_error := WorkerGone, ui_status := WorkerGone, ui_polling := False\<rparr>\<rparr>
          else d)"

definition answer_save :: "write_io \<Rightarrow> picked \<Rightarrow> ('d, 'c) desktop \<Rightarrow> ('d, 'c) desktop" where
  "answer_save io choice d =
     (case ui_saves (dt_screen d) of
        [] \<Rightarrow> d
      | b # bs \<Rightarrow>
          (case save_recovery_file io choice b ((dt_screen d)\<lparr>ui_saves := bs\<rparr>, disk d) of
             (u, files) \<Rightarrow> d\<lparr>dt_screen := u, dt_link := (dt_link d)\<lparr>lk_worker := with_app_fs (\<lambda>_. files) (lk_worker (dt_link d))\<rparr>\<rparr>))"

fun happen :: "('d, 'm) host_scheme \<Rightarrow> 'c shell \<Rightarrow> gtk_event \<Rightarrow> ('d, 'c) desktop \<Rightarrow> ('d, 'c) desktop option" where
  "happen H W (Click b) d =
     (if \<not> clickable (dt_screen d) b then Some d
      else if b = GenerateButton
      then map_option (\<lambda>(u, g). d\<lparr>dt_screen := u, dt_rng := g\<rparr>) (generate_clicked H (dt_screen d, dt_rng d))
      else Some (send_all (clicked H b (dt_screen d)) d))"
| "happen H W EnterKey d =
     Some (if ui_page (dt_screen d) = UnlockPage \<and> ui_export (dt_screen d) = None
       then send_all (enter_pressed H (dt_screen d)) d else d)"
| "happen H W (Edit fd t) d = Some (d\<lparr>dt_screen := edited H fd t (dt_screen d)\<rparr>)"
| "happen H W (ChoosePreset n) d =
     Some (d\<lparr>dt_screen := (dt_screen d)\<lparr>ui_export := map_option (\<lambda>f. f\<lparr>xf_preset := n\<rparr>) (ui_export (dt_screen d))\<rparr>\<rparr>)"
| "happen H W (SelectRow n) d =
     Some (if ui_page (dt_screen d) = VaultPage \<and> ui_export (dt_screen d) = None \<and> n < length (ui_rows (dt_screen d))
       then d\<lparr>dt_screen := row_selected (Some n) (dt_screen d)\<rparr> else d)"
| "happen H W (SaveAnswer io choice) d = Some (answer_save io choice d)"
| "happen H W Poll d = Some (poll H d)"
| "happen H W SecondPasses d = Some (send_all (tick (dt_screen d)) d)"
| "happen H W (WorkerMove m) d = map_option (\<lambda>l. d\<lparr>dt_link := l\<rparr>) (worker_move H W m (dt_link d))"

fun run_desktop :: "('d, 'm) host_scheme \<Rightarrow> 'c shell \<Rightarrow> gtk_event list \<Rightarrow> ('d, 'c) desktop \<Rightarrow> ('d, 'c) desktop option" where
  "run_desktop H W [] d = Some d"
| "run_desktop H W (e # es) d = Option.bind (happen H W e d) (run_desktop H W es)"

section \<open>Start\<close>

datatype gtk_error =
    MissingDirectory
  | GtkPaths platform_error
  | GtkSettings platform_error
  | GtkNoHardware
  | GtkBackend hsm_error
  | GtkOpen core_error

fun gtk_selection_error :: "hsm_error \<Rightarrow> gtk_error" where
  "gtk_selection_error HardwareAbsent = GtkNoHardware"
| "gtk_selection_error e = GtkBackend e"

definition desktop_start :: "'d app \<Rightarrow> 'c \<Rightarrow> path \<Rightarrow> rng \<Rightarrow> ('d, 'c) desktop" where
  "desktop_start app c p g =
     \<lparr>dt_screen = build_ui (a_fs app p \<noteq> None), dt_link = session_spawn app c, dt_path = p, dt_rng = g\<rparr>"

definition gtk_shell :: "'c clipboard \<Rightarrow> settings \<Rightarrow> 'c shell" where
  "gtk_shell K st = \<lparr>sh_clipboard = Some K, sh_fact_overwrite = clipboard_fact_overwrite st,
     sh_prompter = desktop_prompter, sh_listening = (\<lambda>_. True)\<rparr>"

text \<open>\<open>run\<close> up to the main loop: the shell the worker serves and the desktop as it first shows.\<close>

definition gtk_run :: "toml_lib \<Rightarrow> outside \<Rightarrow> (ustring \<Rightarrow> path) \<Rightarrow> 'c clipboard \<Rightarrow> 'c \<Rightarrow> ustring list \<Rightarrow> rng \<Rightarrow> ('d, 'c) system \<Rightarrow>
    (gtk_error + 'c shell \<times> ('d, 'c) desktop) \<times> fs \<times> lock_table" where
  "gtk_run L U to_path K c args g y =
     (case (and_then (ok_or MissingDirectory (parse_opts to_path args \<lparr>go_allow_software = False, go_vault_dir = None\<rparr>)) (\<lambda>(opts, _).
        and_then (map_err GtkPaths (gtk_resolve_paths opts (ou_base U))) (\<lambda>p.
        and_then (map_err GtkSettings (settings_load L (ou_settings_readable U) (settings_path p) (sy_fs y))) (\<lambda>st.
        and_then (map_err gtk_selection_error (ou_selected U (go_allow_software opts))) (\<lambda>_.
          Inr (opts, p, st)))))) of
        Inl e \<Rightarrow> (Inl e, sy_fs y, sy_locks y)
      | Inr (opts, p, st) \<Rightarrow>
          (case (if go_allow_software opts then app_open_allowing_software_hsm else app_open)
             (ou_lockfile_opens U) (vault_path p) (sy_device y) (sy_rng y) (sy_fs y, sy_locks y) of
             (Inl e, x) \<Rightarrow> (Inl (GtkOpen e), x)
           | (Inr app, x) \<Rightarrow> (Inr (gtk_shell K st, desktop_start app c (vault_path p) g), x)))"

end
