(* ===== verification/GtkProps.thy ===== *)
theory GtkProps
  imports GtkDesktop
begin

text \<open>
  What the graphical shell keeps: its page follows the session as the responses it has read tell it, and
  nothing of the vault is on the screen while it shows the unlock page.
\<close>

section \<open>The responses the worker has sent\<close>

abbreviation told :: "response list \<Rightarrow> bool" where "told \<equiv> foldl track False"

text \<open>Every response but these is sent from inside a session only.\<close>

fun at_the_gate :: "response \<Rightarrow> bool" where
  "at_the_gate (Created _ _) = True"
| "at_the_gate (CreateFailed _) = True"
| "at_the_gate (Unlocked _) = True"
| "at_the_gate (UnlockFailed _) = True"
| "at_the_gate LockedNow = True"
| "at_the_gate _ = False"

definition in_order :: "response list \<Rightarrow> bool" where
  "in_order rs \<longleftrightarrow> (\<forall>n<length rs. at_the_gate (rs ! n) \<or> told (take n rs))"

lemma in_order_Nil [simp]: "in_order []"
  by (simp add: in_order_def)

lemma in_order_snoc [simp]: "in_order (rs @ [a]) \<longleftrightarrow> in_order rs \<and> (at_the_gate a \<or> told rs)"
  by (auto simp: in_order_def nth_append less_Suc_eq)

lemma in_orderD: "in_order rs \<Longrightarrow> drop n rs = a # as \<Longrightarrow> at_the_gate a \<or> told (take n rs)"
  by (metis (no_types, lifting) drop_eq_Nil in_order_def list.simps(3) not_le nth_via_drop)

definition linked :: "('d, 'c) link \<Rightarrow> bool" where
  "linked l \<longleftrightarrow> lk_read l \<le> length (received (lk_worker l)) \<and> in_order (received (lk_worker l)) \<and>
     (\<not> has_stopped (lk_worker l) \<longrightarrow> is_unlocked (lk_worker l) = told (received (lk_worker l)))"

text \<open>What the shell has read, and what it takes from that.\<close>

definition taken :: "('d, 'c) link \<Rightarrow> response list" where
  "taken l = take (lk_read l) (received (lk_worker l))"

lemma gate_fits: "fits r a \<Longrightarrow> (\<exists>m k. r = CreateVault m k) \<or> (\<exists>m k. r = UnlockVault m k) \<Longrightarrow> at_the_gate a"
  by (cases a) auto

lemma resume_linked:
  assumes "listening W" and "resume H W [e] w = Some w'" and "in_order (received w)"
    and "\<not> has_stopped w \<longrightarrow> is_unlocked w = told (received w)"
  shows "in_order (received w') \<and> (\<not> has_stopped w' \<longrightarrow> is_unlocked w' = told (received w')) \<and> (\<exists>rs. received w' = received w @ rs)"
proof (cases "has_stopped w")
  case True
  then show ?thesis using assms(2,3) by (cases w) auto
next
  case False
  then obtain rs where rs: "event_answered e w w' rs" using event_answers [OF assms(1,2)] by blast
  have o: "in_order (received w @ rs)"
  proof (cases e)
    case (Arrived r)
    note a = rs [unfolded event_answered_def Arrived event.case]
    show ?thesis
    proof (cases "silent (is_unlocked w) r")
      case False
      then obtain b where b: "rs = [b]" "fits r b"
        "\<not> is_unlocked w \<longrightarrow> b = LockedNow \<or> (\<exists>m k. r = CreateVault m k) \<or> (\<exists>m k. r = UnlockVault m k)"
        using a by auto
      then show ?thesis using assms(3,4) \<open>\<not> has_stopped w\<close> gate_fits [of r b] by auto
    qed (use a assms(3) in auto)
  qed (use rs assms(3) in \<open>auto simp: event_answered_def\<close>)
  then show ?thesis using rs assms(4) False by (auto simp: event_answered_def)
qed

lemma worker_move_linked:
  assumes "listening W" and "linked l" and "worker_move H W m l = Some l'"
  shows "linked l' \<and> taken l' = taken l"
proof (cases "l' = l")
  case False
  then obtain e w' where e: "resume H W [e] (lk_worker l) = Some w'" "lk_worker l' = w'" "lk_read l' = lk_read l"
    using assms(3) by (cases m) (auto split: list.splits if_splits)
  then obtain rs where "received w' = received (lk_worker l) @ rs" "in_order (received w')"
    "\<not> has_stopped w' \<longrightarrow> is_unlocked w' = told (received w')"
    using resume_linked [OF assms(1) e(1)] assms(2) by (auto simp: linked_def)
  then show ?thesis using e(2,3) assms(2) by (simp add: linked_def taken_def)
qed (use assms in simp)

lemma sent_linked [simp]:
  "linked (fold session_send rs l) = linked l" "taken (fold session_send rs l) = taken l"
  "lk_worker (fold session_send rs l) = lk_worker l" "lk_read (fold session_send rs l) = lk_read l"
  "lk_queue (fold session_send rs l) = lk_queue l @ rs"
  by (induction rs arbitrary: l) (simp_all add: linked_def taken_def session_send_def)

lemma with_app_fs_worker [simp]:
  "received (with_app_fs f w) = received w" "is_unlocked (with_app_fs f w) = is_unlocked w"
  "has_stopped (with_app_fs f w) = has_stopped w"
  by (cases w; simp)+

section \<open>What the screen keeps\<close>

text \<open>Nothing of a vault on the screen; and a text in the reveal label is on its way out.\<close>

definition covered :: "screen \<Rightarrow> bool" where
  "covered u \<longleftrightarrow> ui_reveal u = OBSCURED \<and> ui_rows u = [] \<and> ui_entries u = [] \<and> \<not> ui_actions u \<and> \<not> ui_confirm_box u \<and>
     \<not> ui_backup_banner u"

definition passing :: "screen \<Rightarrow> bool" where
  "passing u \<longleftrightarrow> ui_reveal u \<noteq> OBSCURED \<longrightarrow> ui_confirm_box u \<or> (\<exists>n. 0 < n \<and> n \<le> REVEAL_HIDE_SECS \<and> (n, HideReveal) \<in> set (ui_timers u))"

definition screen_ok :: "bool \<Rightarrow> screen \<Rightarrow> bool" where
  "screen_ok b u \<longleftrightarrow> (ui_page u \<noteq> UnlockPage \<longleftrightarrow> b) \<and> (\<not> b \<longrightarrow> covered u) \<and> passing u"

lemmas screen_defs = screen_ok_def covered_def passing_def

lemma master_fields [simp]:
  "ui_page (set_master H t u) = ui_page u" "ui_reveal (set_master H t u) = ui_reveal u" "ui_rows (set_master H t u) = ui_rows u"
  "ui_entries (set_master H t u) = ui_entries u" "ui_actions (set_master H t u) = ui_actions u"
  "ui_confirm_box (set_master H t u) = ui_confirm_box u" "ui_backup_banner (set_master H t u) = ui_backup_banner u"
  "ui_timers (set_master H t u) = ui_timers u" "ui_selected (set_master H t u) = ui_selected u"
  "ui_user_lock (set_master H t u) = ui_user_lock u" "ui_pending (set_master H t u) = ui_pending u"
  "ui_export (set_master H t u) = ui_export u" "ui_status (set_master H t u) = ui_status u"
  "ui_add_pass (set_master H t u) = ui_add_pass u" "ui_master (set_master H t u) = t" "ui_gate (set_master H t u) = ui_gate u"
  "ui_create_enabled (set_master H t u) = ui_create_enabled u" "ui_create_confirm (set_master H t u) = ui_create_confirm u"
  "ui_totp (set_master H t u) = ui_totp u" "ui_unlock_enabled (set_master H t u) = ui_unlock_enabled u"
  "ui_polling (set_master H t u) = ui_polling u"
  by (auto simp: set_master_def master_changed_def Let_def)

lemma entries_fields [simp]:
  "ui_page (set_entries hs u) = ui_page u" "ui_reveal (set_entries hs u) = OBSCURED" "ui_rows (set_entries hs u) = map eh_label hs"
  "ui_entries (set_entries hs u) = hs" "\<not> ui_actions (set_entries hs u)" "ui_confirm_box (set_entries hs u) = ui_confirm_box u"
  "ui_backup_banner (set_entries hs u) = ui_backup_banner u" "ui_timers (set_entries hs u) = ui_timers u"
  "ui_user_lock (set_entries hs u) = ui_user_lock u" "ui_add_pass (set_entries hs u) = ui_add_pass u"
  "ui_export (set_entries hs u) = ui_export u"
  by (auto simp: set_entries_def row_selected_def)

lemma gate_fields [simp]:
  "ui_page (refresh_gate H ex u) = ui_page u" "ui_reveal (refresh_gate H ex u) = ui_reveal u" "ui_rows (refresh_gate H ex u) = ui_rows u"
  "ui_entries (refresh_gate H ex u) = ui_entries u" "ui_actions (refresh_gate H ex u) = ui_actions u"
  "ui_confirm_box (refresh_gate H ex u) = ui_confirm_box u" "ui_backup_banner (refresh_gate H ex u) = ui_backup_banner u"
  "ui_timers (refresh_gate H ex u) = ui_timers u" "ui_add_pass (refresh_gate H ex u) = ui_add_pass u"
  by (auto simp: refresh_gate_def)

lemma response_ok:
  assumes "screen_ok b u" and "at_the_gate a \<or> b"
  shows "screen_ok (track b a) (handle_response H ex a u)"
  using assms by (cases a) (auto simp: screen_defs Let_def apply_totp_checked_def REVEAL_HIDE_SECS_def)

lemma clicked_ok:
  assumes "screen_ok b u" and "clickable u x"
  shows "screen_ok b (fst (clicked H x u))"
  using assms
  by (cases x)
    (auto simp: screen_defs unlock_clicked_def create_clicked_def on_selected_def remove_clicked_def lock_clicked_def add_clicked_def
      save_clicked_def cancel_clicked_def open_export_dialog_def export_confirmed_def confirm_clicked_def dismiss_clicked_def
      clear_add_form_def Let_def split: create_form.splits option.splits)

lemma edited_ok: "screen_ok b u \<Longrightarrow> screen_ok b (edited H fd t u)"
  by (cases fd) (auto simp: screen_defs)

lemma enter_ok: "screen_ok b u \<Longrightarrow> screen_ok b (fst (enter_pressed H u))"
  by (auto simp: screen_defs enter_pressed_def unlock_clicked_def create_clicked_def Let_def split: create_form.splits)

text \<open>A fired timer hides the label; one that is left has less time.\<close>

lemma fire_fields:
  "fire t u = (u', rs) \<Longrightarrow> ui_page u' = ui_page u \<and> ui_rows u' = ui_rows u \<and> ui_entries u' = ui_entries u \<and>
    ui_actions u' = ui_actions u \<and> ui_confirm_box u' = ui_confirm_box u \<and> ui_backup_banner u' = ui_backup_banner u \<and>
    ui_timers u' = ui_timers u \<and> ui_reveal u' = (if t = HideReveal then OBSCURED else ui_reveal u)"
  by (cases t) auto

lemma fire_all_fields:
  "fire_all ts u = (u', rs) \<Longrightarrow> ui_page u' = ui_page u \<and> ui_rows u' = ui_rows u \<and> ui_entries u' = ui_entries u \<and>
    ui_actions u' = ui_actions u \<and> ui_confirm_box u' = ui_confirm_box u \<and> ui_backup_banner u' = ui_backup_banner u \<and>
    ui_timers u' = ui_timers u \<and> ui_reveal u' = (if HideReveal \<in> set ts then OBSCURED else ui_reveal u)"
proof (induction ts arbitrary: u u' rs)
  case (Cons t ts)
  obtain u1 r1 where f: "fire t u = (u1, r1)" by fastforce
  obtain u2 r2 where g: "fire_all ts u1 = (u2, r2)" by fastforce
  show ?case using Cons.prems fire_fields [OF f] Cons.IH [OF g] f g by simp
qed simp

lemma tick_ok:
  assumes "screen_ok b u"
  shows "screen_ok b (fst (tick u))"
proof -
  let ?left = "map (\<lambda>(n, t). (n - 1, t)) (ui_timers u)"
  let ?ts = "map snd (filter (\<lambda>(n, t). n = 0) ?left)" and ?v = "u\<lparr>ui_timers := filter (\<lambda>(n, t). n \<noteq> 0) ?left\<rparr>"
  obtain u' rs where f: "fire_all ?ts ?v = (u', rs)" by fastforce
  have t: "fst (tick u) = u'" using f by (simp add: tick_def Let_def)
  have "\<exists>n. 0 < n \<and> n \<le> REVEAL_HIDE_SECS \<and> (n, HideReveal) \<in> set (ui_timers ?v)"
    if n: "0 < n" "n \<le> REVEAL_HIDE_SECS" "(n, HideReveal) \<in> set (ui_timers u)" and "HideReveal \<notin> set ?ts" for n
  proof -
    have m: "(n - 1, HideReveal) \<in> set ?left" using n(3) by force
    then have "n - 1 \<noteq> 0" using that(4) by force
    then show ?thesis using n(2) m by (intro exI [of _ "n - 1"]) auto
  qed
  note fields = fire_all_fields [OF f] and old = this
  have "passing u'"
  proof (cases "HideReveal \<in> set ?ts")
    case False
    then show ?thesis using assms fields old unfolding screen_defs by auto
  qed (use fields in \<open>simp add: passing_def\<close>)
  moreover have "ui_page u' = ui_page u" using fields by simp
  moreover have "covered u \<Longrightarrow> covered u'" using fields by (simp add: covered_def)
  ultimately show ?thesis using assms unfolding t by (simp add: screen_ok_def)
qed

lemma generatedE:
  assumes "generate_clicked H (u, g) = Some (u', g')"
  obtains pw where "u' = u\<lparr>ui_add_pass := pw\<rparr>" | e where "u' = u\<lparr>ui_status := CannotGenerate e\<rparr>"
proof -
  obtain r where "u' = (case r of Inr pw \<Rightarrow> u\<lparr>ui_add_pass := pw\<rparr> | Inl e \<Rightarrow> u\<lparr>ui_status := CannotGenerate e\<rparr>)"
    using assms by (auto simp: generate_clicked_def bind_eq_Some_conv)
  then show thesis using that by (cases r) auto
qed

lemma generated_ok: "generate_clicked H (u, g) = Some (u', g') \<Longrightarrow> screen_ok b u \<Longrightarrow> screen_ok b u'"
  by (erule generatedE) (simp_all add: screen_defs)

lemma saved_fields:
  "save_recovery_file io choice b (u, files) = (u', files') \<Longrightarrow> ui_page u' = ui_page u \<and> ui_reveal u' = ui_reveal u \<and>
    ui_rows u' = ui_rows u \<and> ui_entries u' = ui_entries u \<and> ui_actions u' = ui_actions u \<and> ui_confirm_box u' = ui_confirm_box u \<and>
    ui_timers u' = ui_timers u \<and> (ui_backup_banner u' \<longrightarrow> ui_backup_banner u)"
  by (auto simp: save_recovery_file_def split: picked.splits sum.splits prod.splits new_file_error.splits)

section \<open>The running desktop\<close>

definition desktop_ok :: "('d, 'c) desktop \<Rightarrow> bool" where
  "desktop_ok d \<longleftrightarrow> linked (dt_link d) \<and> screen_ok (told (taken (dt_link d))) (dt_screen d)"

lemma poll_reads:
  assumes "drop (lk_read (dt_link d)) (received (lk_worker (dt_link d))) = a # as"
  shows "poll H d = d \<or> taken (dt_link (poll H d)) = taken (dt_link d) @ [a] \<and>
    dt_link (poll H d) = (dt_link d)\<lparr>lk_read := lk_read (dt_link d) + 1\<rparr> \<and>
    dt_screen (poll H d) = handle_response H (disk d (dt_path d) \<noteq> None) a (dt_screen d)"
proof (cases "ui_polling (dt_screen d)")
  case True
  let ?l = "dt_link d"
  have n: "lk_read ?l < length (received (lk_worker ?l))" using assms by (metis drop_eq_Nil list.simps(3) not_le)
  have "take (Suc (lk_read ?l)) (received (lk_worker ?l)) = taken ?l @ [a]"
    using n assms by (simp add: take_Suc_conv_app_nth taken_def nth_via_drop)
  then show ?thesis using True assms by (simp add: poll_def taken_def)
qed (simp add: poll_def)

lemma poll_ok:
  assumes "desktop_ok d"
  shows "desktop_ok (poll H d)"
proof -
  let ?l = "dt_link d"
  show ?thesis
  proof (cases "drop (lk_read ?l) (received (lk_worker ?l))")
    case Nil
    then show ?thesis using assms by (auto simp: poll_def desktop_ok_def screen_defs)
  next
    case (Cons a as)
    have n: "lk_read ?l < length (received (lk_worker ?l))" using Cons by (metis drop_eq_Nil list.simps(3) not_le)
    have "at_the_gate a \<or> told (taken ?l)" using in_orderD [OF _ Cons] assms by (simp add: desktop_ok_def linked_def taken_def)
    then show ?thesis
      using assms n poll_reads [OF Cons, of H] response_ok [of "told (taken ?l)" "dt_screen d" a H "disk d (dt_path d) \<noteq> None"]
      by (auto simp: desktop_ok_def linked_def simp del: not_None_eq)
  qed
qed

lemma happen_ok:
  assumes "listening W" and "desktop_ok d" and "happen H W e d = Some d'"
  shows "desktop_ok d'"
proof (cases e)
  case (Click b)
  show ?thesis
  proof (cases "b = GenerateButton \<and> clickable (dt_screen d) b")
    case True
    then obtain u g where "generate_clicked H (dt_screen d, dt_rng d) = Some (u, g)" "d' = d\<lparr>dt_screen := u, dt_rng := g\<rparr>"
      using assms(3) Click by (auto simp: map_option_eq_Some)
    note g = this
    show ?thesis using generated_ok [OF g(1)] g(2) assms(2) by (simp add: desktop_ok_def)
  next
    case False
    then have "d' = d \<or> clickable (dt_screen d) b \<and> d' = send_all (clicked H b (dt_screen d)) d"
      using assms(3) Click by (simp split: if_splits)
    then show ?thesis using assms(2) clicked_ok [of _ "dt_screen d" b H] by (auto simp: desktop_ok_def send_all_def)
  qed
next
  case EnterKey
  then show ?thesis using assms(2,3) enter_ok [of _ "dt_screen d" H] by (auto simp: desktop_ok_def send_all_def split: if_splits)
next
  case (Edit fd t)
  then show ?thesis using assms(2,3) edited_ok by (auto simp: desktop_ok_def)
next
  case (ChoosePreset n)
  then show ?thesis using assms(2,3) by (auto simp: desktop_ok_def screen_defs)
next
  case (SelectRow n)
  then show ?thesis using assms(2,3) by (auto simp: desktop_ok_def screen_defs row_selected_def split: if_splits)
next
  case (SaveAnswer io choice)
  show ?thesis
  proof (cases "ui_saves (dt_screen d)")
    case (Cons x xs)
    obtain u files where s: "save_recovery_file io choice x ((dt_screen d)\<lparr>ui_saves := xs\<rparr>, disk d) = (u, files)" by fastforce
    have "d' = d\<lparr>dt_screen := u, dt_link := (dt_link d)\<lparr>lk_worker := with_app_fs (\<lambda>_. files) (lk_worker (dt_link d))\<rparr>\<rparr>"
      using assms(3) SaveAnswer Cons s by (simp add: answer_save_def)
    then show ?thesis using assms(2) saved_fields [OF s] by (auto simp: desktop_ok_def linked_def taken_def screen_defs)
  qed (use assms(2,3) SaveAnswer in \<open>simp add: answer_save_def\<close>)
next
  case Poll
  then show ?thesis using assms(2,3) poll_ok by auto
next
  case SecondPasses
  then show ?thesis using assms(2,3) tick_ok by (auto simp: desktop_ok_def send_all_def)
next
  case (WorkerMove m)
  then obtain l where l: "worker_move H W m (dt_link d) = Some l" "d' = d\<lparr>dt_link := l\<rparr>" using assms(3) by auto
  then show ?thesis using worker_move_linked [OF assms(1) _ l(1)] assms(2) by (simp add: desktop_ok_def)
qed

lemma run_desktop_append: "run_desktop H W (es @ fs) d = Option.bind (run_desktop H W es d) (run_desktop H W fs)"
proof (induction es arbitrary: d)
  case (Cons e es)
  then show ?case by (cases "happen H W e d") simp_all
qed simp

lemma run_ok: "listening W \<Longrightarrow> run_desktop H W es d = Some d' \<Longrightarrow> desktop_ok d \<Longrightarrow> desktop_ok d'"
  by (induction es arbitrary: d) (auto simp: bind_eq_Some_conv intro: happen_ok)

lemma start_ok: "desktop_ok (desktop_start app c p g)"
  by (simp add: desktop_start_def desktop_ok_def linked_def taken_def session_spawn_def build_ui_def screen_defs)

section \<open>How long a revealed text stays\<close>

fun revealing :: "response \<Rightarrow> bool" where
  "revealing (Created _ _) = True"
| "revealing (Revealed _ _) = True"
| "revealing _ = False"

text \<open>The label is covered, or will be within \<open>k\<close> seconds.\<close>

definition hides :: "nat \<Rightarrow> screen \<Rightarrow> bool" where
  "hides k u \<longleftrightarrow> ui_reveal u = OBSCURED \<or> (\<exists>n. 0 < n \<and> n \<le> k \<and> (n, HideReveal) \<in> set (ui_timers u))"

text \<open>A handler that shows nothing new and stops no timer.\<close>

definition quiet :: "screen \<Rightarrow> screen \<Rightarrow> bool" where
  "quiet u u' \<longleftrightarrow> (ui_reveal u' = ui_reveal u \<or> ui_reveal u' = OBSCURED) \<and> set (ui_timers u) \<subseteq> set (ui_timers u')"

lemma quiet_hides: "quiet u u' \<Longrightarrow> hides k u \<Longrightarrow> hides k u'"
  by (auto simp: quiet_def hides_def)

lemma quiet_response: "\<not> revealing a \<Longrightarrow> quiet u (handle_response H ex a u)"
  by (cases a) (auto simp: quiet_def Let_def apply_totp_checked_def)

lemma quiet_clicked: "quiet u (fst (clicked H x u))"
  by (cases x)
    (auto simp: quiet_def unlock_clicked_def create_clicked_def on_selected_def remove_clicked_def lock_clicked_def add_clicked_def
      save_clicked_def cancel_clicked_def open_export_dialog_def export_confirmed_def confirm_clicked_def dismiss_clicked_def
      clear_add_form_def Let_def split: create_form.splits option.splits)

lemma quiet_edited: "quiet u (edited H fd t u)"
  by (cases fd) (auto simp: quiet_def)

lemma quiet_enter: "quiet u (fst (enter_pressed H u))"
  by (auto simp: quiet_def enter_pressed_def unlock_clicked_def create_clicked_def Let_def split: create_form.splits)

lemma quiet_refl [simp]: "quiet u u"
  by (simp add: quiet_def)

lemma quiet_generated: "generate_clicked H (u, g) = Some (u', g') \<Longrightarrow> quiet u u'"
  by (erule generatedE) (simp_all add: quiet_def)

lemma tick_hides:
  assumes "hides k u"
  shows "hides (k - 1) (fst (tick u))"
proof -
  let ?left = "map (\<lambda>(n, t). (n - 1, t)) (ui_timers u)"
  let ?ts = "map snd (filter (\<lambda>(n, t). n = 0) ?left)" and ?v = "u\<lparr>ui_timers := filter (\<lambda>(n, t). n \<noteq> 0) ?left\<rparr>"
  obtain u' rs where f: "fire_all ?ts ?v = (u', rs)" by fastforce
  have t: "fst (tick u) = u'" using f by (simp add: tick_def Let_def)
  show ?thesis
  proof (cases "HideReveal \<in> set ?ts \<or> ui_reveal u = OBSCURED")
    case True
    then show ?thesis using fire_all_fields [OF f] unfolding t hides_def by auto
  next
    case False
    then obtain n where n: "0 < n" "n \<le> k" "(n, HideReveal) \<in> set (ui_timers u)" using assms by (auto simp: hides_def)
    then have m: "(n - 1, HideReveal) \<in> set ?left" by force
    then have "n - 1 \<noteq> 0" using False by force
    then have "(n - 1, HideReveal) \<in> set (ui_timers u')" using m fire_all_fields [OF f] by auto
    then show ?thesis using n(2) \<open>n - 1 \<noteq> 0\<close> unfolding t hides_def by (intro disjI2 exI [of _ "n - 1"]) auto
  qed
qed

lemma happen_hides:
  assumes "listening W" and "desktop_ok d" and "happen H W e d = Some d'"
  shows "\<exists>rs. taken (dt_link d') = taken (dt_link d) @ rs \<and>
    ((\<forall>a\<in>set rs. \<not> revealing a) \<and> hides k (dt_screen d) \<longrightarrow> hides (if e = SecondPasses then k - 1 else k) (dt_screen d'))"
proof -
  let ?l = "dt_link d"
  have quiet: ?thesis if "e \<noteq> SecondPasses" "quiet (dt_screen d) (dt_screen d')" "taken (dt_link d') = taken ?l"
    using that quiet_hides by (intro exI [of _ "[]"]) auto
  show ?thesis
  proof (cases e)
    case (Click b)
    have "quiet (dt_screen d) (dt_screen d') \<and> taken (dt_link d') = taken ?l"
    proof (cases "b = GenerateButton \<and> clickable (dt_screen d) b")
      case True
      then obtain u g where "generate_clicked H (dt_screen d, dt_rng d) = Some (u, g)" "d' = d\<lparr>dt_screen := u, dt_rng := g\<rparr>"
        using assms(3) Click by (auto simp: map_option_eq_Some)
      note g = this
      show ?thesis using quiet_generated [OF g(1)] g(2) by simp
    next
      case False
      then have "d' = d \<or> d' = send_all (clicked H b (dt_screen d)) d" using assms(3) Click by (simp split: if_splits)
      then show ?thesis using quiet_clicked [of "dt_screen d" H b] by (auto simp: send_all_def)
    qed
    then show ?thesis using quiet Click by simp
  next
    case EnterKey
    then have "d' = d \<or> d' = send_all (enter_pressed H (dt_screen d)) d" using assms(3) by (simp split: if_splits)
    then have "quiet (dt_screen d) (dt_screen d') \<and> taken (dt_link d') = taken ?l"
      using quiet_enter [of "dt_screen d" H] by (auto simp: send_all_def)
    then show ?thesis using quiet EnterKey by simp
  next
    case (Edit fd t)
    then show ?thesis using quiet assms(3) quiet_edited [of "dt_screen d" H fd t] by auto
  next
    case (ChoosePreset n)
    then show ?thesis using quiet assms(3) by (auto simp: quiet_def)
  next
    case (SelectRow n)
    then show ?thesis using quiet assms(3) by (auto simp: quiet_def row_selected_def)
  next
    case (SaveAnswer io choice)
    have "quiet (dt_screen d) (dt_screen d') \<and> taken (dt_link d') = taken ?l"
    proof (cases "ui_saves (dt_screen d)")
      case (Cons x xs)
      obtain u files where s: "save_recovery_file io choice x ((dt_screen d)\<lparr>ui_saves := xs\<rparr>, disk d) = (u, files)" by fastforce
      have "d' = d\<lparr>dt_screen := u, dt_link := (dt_link d)\<lparr>lk_worker := with_app_fs (\<lambda>_. files) (lk_worker (dt_link d))\<rparr>\<rparr>"
        using assms(3) SaveAnswer Cons s by (simp add: answer_save_def)
      then show ?thesis using saved_fields [OF s] by (simp add: quiet_def taken_def)
    qed (use assms(3) SaveAnswer in \<open>simp add: answer_save_def quiet_def\<close>)
    then show ?thesis using quiet SaveAnswer by simp
  next
    case Poll
    show ?thesis
    proof (cases "drop (lk_read ?l) (received (lk_worker ?l))")
      case Nil
      then have "quiet (dt_screen d) (dt_screen d') \<and> taken (dt_link d') = taken ?l"
        using assms(3) Poll by (auto simp: poll_def quiet_def)
      then show ?thesis using quiet Poll by simp
    next
      case (Cons a as)
      have "d' = d \<or> taken (dt_link d') = taken ?l @ [a] \<and>
          dt_screen d' = handle_response H (disk d (dt_path d) \<noteq> None) a (dt_screen d)"
        using assms(3) Poll poll_reads [OF Cons, of H] by (auto simp del: not_None_eq)
      then show ?thesis
      proof
        assume "d' = d"
        then show ?thesis using quiet Poll by (simp add: quiet_def)
      next
        assume t: "taken (dt_link d') = taken ?l @ [a] \<and> dt_screen d' = handle_response H (disk d (dt_path d) \<noteq> None) a (dt_screen d)"
        then show ?thesis using quiet_hides [OF quiet_response] Poll by (intro exI [of _ "[a]"]) auto
      qed
    qed
  next
    case SecondPasses
    then show ?thesis using assms(3) tick_hides [of k "dt_screen d"] by (intro exI [of _ "[]"]) (auto simp: send_all_def)
  next
    case (WorkerMove m)
    then obtain l where l: "worker_move H W m (dt_link d) = Some l" "d' = d\<lparr>dt_link := l\<rparr>" using assms(3) by auto
    then show ?thesis using worker_move_linked [OF assms(1) _ l(1)] assms(2) WorkerMove
      by (intro exI [of _ "[]"]) (simp add: desktop_ok_def)
  qed
qed

lemma run_hides:
  assumes "listening W"
  shows "desktop_ok d \<Longrightarrow> run_desktop H W es d = Some d' \<Longrightarrow> \<exists>rs. taken (dt_link d') = taken (dt_link d) @ rs \<and>
    ((\<forall>a\<in>set rs. \<not> revealing a) \<and> hides k (dt_screen d) \<longrightarrow> hides (k - count_list es SecondPasses) (dt_screen d'))"
proof (induction es arbitrary: d k)
  case (Cons e es)
  obtain d1 where d1: "happen H W e d = Some d1" "run_desktop H W es d1 = Some d'"
    using Cons.prems(2) by (auto simp: bind_eq_Some_conv)
  obtain rs where rs: "taken (dt_link d1) = taken (dt_link d) @ rs"
    "(\<forall>a\<in>set rs. \<not> revealing a) \<and> hides k (dt_screen d) \<longrightarrow> hides (if e = SecondPasses then k - 1 else k) (dt_screen d1)"
    using happen_hides [OF assms Cons.prems(1) d1(1)] by blast
  obtain rs' where "taken (dt_link d') = taken (dt_link d1) @ rs'"
    "(\<forall>a\<in>set rs'. \<not> revealing a) \<and> hides (if e = SecondPasses then k - 1 else k) (dt_screen d1) \<longrightarrow>
      hides ((if e = SecondPasses then k - 1 else k) - count_list es SecondPasses) (dt_screen d')"
    using Cons.IH [OF happen_ok [OF assms Cons.prems(1) d1(1)] d1(2)] by blast
  then show ?case using rs by (intro exI [of _ "rs @ rs'"]) (auto split: if_splits)
qed simp

lemma hides_0 [simp]: "hides 0 u \<longleftrightarrow> ui_reveal u = OBSCURED"
  by (auto simp: hides_def)

lemma passing_hides: "passing u \<Longrightarrow> \<not> ui_confirm_box u \<Longrightarrow> hides REVEAL_HIDE_SECS u"
  by (auto simp: passing_def hides_def)

text \<open>A run reads a definite piece of the responses.\<close>

lemma run_reads:
  assumes "listening W" and "desktop_ok d" and "run_desktop H W es d = Some d'"
    and "\<forall>a\<in>set (drop (lk_read (dt_link d)) (taken (dt_link d'))). \<not> revealing a" and "hides k (dt_screen d)"
  shows "hides (k - count_list es SecondPasses) (dt_screen d')"
proof -
  obtain rs where rs: "taken (dt_link d') = taken (dt_link d) @ rs"
    "(\<forall>a\<in>set rs. \<not> revealing a) \<and> hides k (dt_screen d) \<longrightarrow> hides (k - count_list es SecondPasses) (dt_screen d')"
    using run_hides [OF assms(1-3)] by blast
  have "length (taken (dt_link d)) = lk_read (dt_link d)" using assms(2) by (simp add: desktop_ok_def linked_def taken_def)
  then show ?thesis using rs assms(4,5) by simp
qed

end
