(* ===== verification/GtkGuarantees.thy ===== *)
theory GtkGuarantees
  imports GtkProps WorkerGuarantees
begin

text \<open>
  The properties of the graphical shell and their witnesses: its page follows the session, the vault
  leaves the screen with the session and a revealed secret within ten seconds, the provisioning URI can
  be lost, and an Enter key that is not held back while an attempt is under way.
\<close>

section \<open>Properties\<close>

text \<open>C27. The screen follows the session.  Whatever is clicked, typed and answered, in whatever order the
  worker and the shell run: the vault is shown exactly while the responses read so far say that a
  session is open, and once they are all read, exactly while the worker has one open.\<close>

theorem screen_follows_session:
  assumes "listening W" and "run_desktop H W es (desktop_start app c p g) = Some d"
  shows "(ui_page (dt_screen d) \<noteq> UnlockPage \<longleftrightarrow> told (taken (dt_link d))) \<and>
    (lk_read (dt_link d) = length (received (lk_worker (dt_link d))) \<and> \<not> has_stopped (lk_worker (dt_link d)) \<longrightarrow>
       (ui_page (dt_screen d) \<noteq> UnlockPage \<longleftrightarrow> is_unlocked (lk_worker (dt_link d))))"
  using run_ok [OF assms start_ok] by (auto simp: desktop_ok_def linked_def screen_ok_def taken_def)

text \<open>C28. The vault leaves the screen.  On the unlock page no entry is listed and nothing is revealed; and
  unless a new vault's URI is being shown, after ten seconds in which nothing else is revealed the
  label is covered, whatever happened meanwhile.\<close>

theorem vault_leaves_screen:
  assumes "listening W" and "run_desktop H W es (desktop_start app c p g) = Some d"
  shows "(ui_page (dt_screen d) = UnlockPage \<longrightarrow> covered (dt_screen d)) \<and>
    (\<forall>fs d'. run_desktop H W fs d = Some d' \<and> REVEAL_HIDE_SECS \<le> count_list fs SecondPasses \<and> \<not> ui_confirm_box (dt_screen d) \<and>
       (\<forall>a\<in>set (drop (lk_read (dt_link d)) (taken (dt_link d'))). \<not> revealing a) \<longrightarrow> ui_reveal (dt_screen d') = OBSCURED)"
proof -
  note ok = run_ok [OF assms start_ok]
  have u: "ui_page (dt_screen d) = UnlockPage \<longrightarrow> covered (dt_screen d)" "passing (dt_screen d)"
    using ok by (auto simp: desktop_ok_def screen_ok_def)
  show ?thesis using u run_reads [OF assms(1) ok] passing_hides by fastforce
qed

text \<open>C29. The provisioning URI can vanish.  It is on the screen after a creation, with the step that confirms
  the authenticator; but \<open>Add entry\<close>, the selection of a row, a listing, and a timer of an earlier reveal
  cover it, the step stays open, and nothing but another creation can show it again.\<close>

theorem uri_vanishes:
  assumes "listening W" and "run_desktop H W es (desktop_start app c p g) = Some d" and "ui_export (dt_screen d) = None"
    and "dt_screen d = handle_response H ex (Created uri hs) u"
  shows "ui_reveal (dt_screen d) = uri \<and> ui_confirm_box (dt_screen d) \<and>
    (\<exists>d1. happen H W (Click AddButton) d = Some d1 \<and> ui_confirm_box (dt_screen d1) \<and>
      (\<forall>fs d'. run_desktop H W fs d1 = Some d' \<and> (\<forall>a\<in>set (drop (lk_read (dt_link d1)) (taken (dt_link d'))). \<not> revealing a) \<longrightarrow>
         ui_reveal (dt_screen d') = OBSCURED)) \<and>
    (\<forall>v\<in>{row_selected (Some n) (dt_screen d), handle_response H ex (Entries hs') (dt_screen d), fst (fire HideReveal (dt_screen d))}.
       ui_reveal v = OBSCURED \<and> ui_confirm_box v)"
proof -
  have s: "ui_reveal (dt_screen d) = uri" "ui_confirm_box (dt_screen d)" "ui_page (dt_screen d) = VaultPage"
    using assms(4) by simp_all
  let ?d1 = "send_all (add_clicked (dt_screen d)) d"
  have h: "happen H W (Click AddButton) d = Some ?d1" using s assms(3) by simp
  have d1: "ui_confirm_box (dt_screen ?d1)" "hides 0 (dt_screen ?d1)"
    using s by (simp_all add: send_all_def add_clicked_def clear_add_form_def)
  have "ui_reveal (dt_screen d') = OBSCURED"
    if "run_desktop H W fs ?d1 = Some d'" "\<forall>a\<in>set (drop (lk_read (dt_link ?d1)) (taken (dt_link d'))). \<not> revealing a" for fs d'
    using run_reads [OF assms(1) happen_ok [OF assms(1) run_ok [OF assms(1,2) start_ok] h] that d1(2)] by simp
  then show ?thesis using s h d1(1) by (auto simp: row_selected_def)
qed

text \<open>Enter is not held back.  While an unlock attempt is under way its button takes no further click,
  but each Enter in an entry of the page sends another attempt with the same password and code.\<close>

lemma enter_resubmits:
  assumes "ui_page (dt_screen d) = UnlockPage" and "ui_gate (dt_screen d)" and "ui_export (dt_screen d) = None"
    and "run_desktop H W (Click UnlockButton # replicate n (Click UnlockButton)) d = Some d1"
    and "run_desktop H W (Click UnlockButton # replicate n EnterKey) d = Some d2"
  shows "lk_queue (dt_link d1) = lk_queue (dt_link d) @
      (if ui_unlock_enabled (dt_screen d) then [UnlockVault (ui_master (dt_screen d)) (ui_totp (dt_screen d))] else []) \<and>
    lk_queue (dt_link d2) = lk_queue (dt_link d1) @ replicate n (UnlockVault (ui_master (dt_screen d)) (ui_totp (dt_screen d)))"
proof -
  let ?r = "UnlockVault (ui_master (dt_screen d)) (ui_totp (dt_screen d))"
  have e: "lk_queue (dt_link z) = lk_queue (dt_link y) @ replicate n ?r"
    if "ui_page (dt_screen y) = UnlockPage" "ui_gate (dt_screen y)" "ui_export (dt_screen y) = None"
      "ui_master (dt_screen y) = ui_master (dt_screen d)" "ui_totp (dt_screen y) = ui_totp (dt_screen d)"
      "run_desktop H W (replicate n EnterKey) y = Some z" for n y z
    using that
  proof (induction n arbitrary: y)
    case (Suc n)
    let ?y = "send_all (enter_pressed H (dt_screen y)) y"
    have "run_desktop H W (replicate n EnterKey) ?y = Some z" using Suc.prems by simp
    then show ?case
      using Suc.IH [of ?y] Suc.prems(1-5) by (simp add: send_all_def enter_pressed_def unlock_clicked_def session_send_def)
  qed simp
  have c: "z = y" if "\<not> ui_unlock_enabled (dt_screen y)" "run_desktop H W (replicate n (Click UnlockButton)) y = Some z" for n y z
    using that by (induction n) auto
  show ?thesis
  proof (cases "ui_unlock_enabled (dt_screen d)")
    case True
    let ?y = "send_all (unlock_clicked (dt_screen d)) d"
    have "happen H W (Click UnlockButton) d = Some ?y" using True assms(1-3) by simp
    then have "d1 = ?y" "lk_queue (dt_link d2) = lk_queue (dt_link ?y) @ replicate n ?r"
      using c [of ?y n d1] e [of ?y n d2] assms by (simp_all add: send_all_def unlock_clicked_def)
    then show ?thesis using True by (simp add: send_all_def unlock_clicked_def session_send_def)
  next
    case False
    have "happen H W (Click UnlockButton) d = Some d" using False by simp
    then show ?thesis using c [of d n d1] e [of d n d2] assms False by simp
  qed
qed

section \<open>Other observations\<close>

text \<open>A session that ends leaves what was being typed into the entry form and the export dialog.\<close>

lemma lock_keeps_typed:
  "ui_add_pass (handle_response H ex LockedNow u) = ui_add_pass u \<and> ui_export (handle_response H ex LockedNow u) = ui_export u"
  by (simp add: Let_def refresh_gate_def)

text \<open>A removal asked for before the answer to an addition: the first listing is reported as the removal,
  the second as nothing.\<close>

lemma first_listing_reports_second:
  assumes "trim (ui_add_label u) \<noteq> []" and "selected_entry u = Some h"
  shows "\<exists>u1 u2 a. save_clicked u = (u1, [a]) \<and> remove_clicked u1 = (u2, [RemoveEntry (eh_id h)]) \<and>
    ui_status (handle_response H ex (Entries hs) u2) = RemovedNote (eh_label h) \<and>
    ui_status (handle_response H ex (Entries hs') (handle_response H ex (Entries hs) u2)) = Blank"
proof -
  let ?u1 = "fst (save_clicked u)"
  have "selected_entry ?u1 = selected_entry u"
    using assms(1) by (simp add: save_clicked_def clear_add_form_def selected_entry_def split: option.split)
  then have s: "selected_id ?u1 = Some (eh_id h)" "selected_label ?u1 = Some (eh_label h)"
    using assms(2) by (simp_all add: selected_id_def selected_label_def)
  have "ui_pending (set_entries hs x) = ui_pending x" for x by (simp add: set_entries_def row_selected_def)
  then show ?thesis using s assms(1) by (simp add: save_clicked_def remove_clicked_def)
qed

section \<open>Witnesses\<close>

definition demo_desktop :: "(unit, ustring option system_clipboard) desktop" where
  "demo_desktop = desktop_start demo_app (system_clipboard_new None) [ustr ''vault''] 0"

text \<open>A vault is created: the password typed twice, the button, the worker, the answer.\<close>

abbreviation demo_creation :: "gtk_event list" where
  "demo_creation \<equiv> [Edit MasterField [97], Edit CreateConfirmField [97], Click CreateButton, WorkerMove Take, Poll]"

lemma demo_derives_medium: "derives demo_host pw KDF_MEDIUM"
  by (simp add: derives_def available_memory_kib_def master_of_def argon2id_within_memory_def demo_argon2
      KDF_MEDIUM_def within_limits_def MAX_P_def MAX_T_def MAX_M_KIB_def sat_mul32_def)

lemma demo_creation_runs:
  obtains d ex uri hs u where "run_desktop demo_host (demo_shell True) demo_creation demo_desktop = Some d"
    "dt_screen d = handle_response demo_host ex (Created uri hs) u" "ui_export (dt_screen d) = None"
    "is_unlocked (lk_worker (dt_link d))" "lk_read (dt_link d) = length (received (lk_worker (dt_link d)))"
proof -
  let ?H = demo_host and ?W = "demo_shell True" and ?c = "system_clipboard_new None :: ustring option system_clipboard"
  let ?h = "\<lparr>ch_received = [], ch_sends = 0\<rparr>"
  have "\<forall>t. write_fine (write_at ?H t)" using demo_app_ready(3) by blast
  then obtain ua uri s where c: "create_vault ?H [97] KDF_MEDIUM totp_config_default demo_prompter demo_app = (Inr (ua, uri), s)"
    using create_vault_total [OF demo_app_ready(1) demo_enrolls demo_derives_medium demo_host_ok(2,1,6) demo_app_ready(2)] by blast
  obtain v l0 where v: "enter_session ?H ?W (Created uri) [] (s, ua) ?c ?h = Some (Inr (WaitsUnlocked v))" "got v = [Created uri l0]"
    using enter_session_Nil [of ?W ?H "Created uri" "(s, ua)" ?c ?h] by fastforce
  have r: "resume ?H ?W [Arrived (CreateVault [97] KDF_MEDIUM)] (WaitsLocked demo_app ?c ?h) = Some (WaitsUnlocked v)"
    using c v(1) by (simp add: run_worker_round)
  let ?u = "(set_master ?H [97] (build_ui False))\<lparr>ui_create_confirm := [97]\<rparr>"
  have b: "ui_page (build_ui False) = UnlockPage" "\<not> ui_gate (build_ui False)" "ui_export (build_ui False) = None"
    "ui_create_enabled (build_ui False)" "ui_polling (build_ui False)"
    by (simp_all add: build_ui_def)
  obtain u3 where u3: "create_clicked ?H ?u = (u3, [CreateVault [97] KDF_MEDIUM])" "ui_polling u3" "ui_export u3 = None"
    using b by (simp add: create_clicked_def validate_create_form_def Let_def)
  let ?d3 = "demo_desktop\<lparr>dt_screen := u3, dt_link := session_send (CreateVault [97] KDF_MEDIUM) (session_spawn demo_app ?c)\<rparr>"
  have "run_desktop ?H ?W [Edit MasterField [97], Edit CreateConfirmField [97], Click CreateButton] demo_desktop = Some ?d3"
    using b u3(1) by (simp add: demo_desktop_def desktop_start_def demo_app_def send_all_def)
  then have run: "run_desktop ?H ?W demo_creation demo_desktop = run_desktop ?H ?W [WorkerMove Take, Poll] ?d3"
    using run_desktop_append [of ?H ?W "[Edit MasterField [97], Edit CreateConfirmField [97], Click CreateButton]"
      "[WorkerMove Take, Poll]" demo_desktop] by (simp only: append.simps Option.bind.simps)
  let ?d4 = "?d3\<lparr>dt_link := \<lparr>lk_worker = WaitsUnlocked v, lk_queue = [], lk_read = 0\<rparr>\<rparr>"
  have "happen ?H ?W (WorkerMove Take) ?d3 = Some ?d4"
    using r by (simp add: session_send_def session_spawn_def)
  then have "run_desktop ?H ?W demo_creation demo_desktop = Some (poll ?H ?d4)"
    unfolding run by (simp only: run_desktop.simps Option.bind.simps happen.simps)
  then show thesis
    using that [of "poll ?H ?d4"] u3(2,3) v(2) by (simp add: poll_def del: not_None_eq)
qed

lemma screen_follows_session_witness:
  "\<exists>d. run_desktop demo_host (demo_shell True) demo_creation demo_desktop = Some d \<and> ui_page (dt_screen d) \<noteq> UnlockPage"
proof -
  obtain d ex uri hs u where d: "run_desktop demo_host (demo_shell True) demo_creation demo_desktop = Some d"
    "dt_screen d = handle_response demo_host ex (Created uri hs) u" "is_unlocked (lk_worker (dt_link d))"
    "lk_read (dt_link d) = length (received (lk_worker (dt_link d)))"
    by (rule demo_creation_runs) blast
  have "\<not> has_stopped (lk_worker (dt_link d))" using d(3) by (cases "lk_worker (dt_link d)") auto
  then have "ui_page (dt_screen d) \<noteq> UnlockPage"
    using screen_follows_session [OF demo_shell_simps(4) d(1) [unfolded demo_desktop_def]] d(3,4) by blast
  then show ?thesis using d(1) by blast
qed

lemma vault_leaves_screen_witness:
  "\<exists>d d'. run_desktop demo_host (demo_shell True) (demo_creation @ [Click DismissButton]) demo_desktop = Some d \<and>
     run_desktop demo_host (demo_shell True) (replicate 10 SecondPasses) d = Some d' \<and> ui_reveal (dt_screen d') = OBSCURED"
proof -
  let ?W = "demo_shell True"
  obtain d ex uri hs u where d: "run_desktop demo_host ?W demo_creation demo_desktop = Some d"
    "dt_screen d = handle_response demo_host ex (Created uri hs) u" "ui_export (dt_screen d) = None"
    by (rule demo_creation_runs) blast
  let ?d = "send_all (dismiss_clicked (dt_screen d)) d"
  have "happen demo_host ?W (Click DismissButton) d = Some ?d" using d(2,3) by simp
  then have r: "run_desktop demo_host ?W (demo_creation @ [Click DismissButton]) demo_desktop = Some ?d"
    unfolding run_desktop_append d(1) by simp
  have s: "\<exists>z'. run_desktop demo_host ?W (replicate n SecondPasses) z = Some z' \<and> taken (dt_link z') = taken (dt_link z)" for n z
  proof (induction n arbitrary: z)
    case (Suc n)
    show ?case using Suc [of "send_all (tick (dt_screen z)) z"] by (simp add: send_all_def)
  qed simp
  obtain d' where d': "run_desktop demo_host ?W (replicate 10 SecondPasses) ?d = Some d'" "taken (dt_link d') = taken (dt_link ?d)"
    using s by blast
  have c: "REVEAL_HIDE_SECS \<le> count_list (replicate 10 SecondPasses) SecondPasses"
    by (simp add: REVEAL_HIDE_SECS_def eval_nat_numeral)
  have "\<not> ui_confirm_box (dt_screen ?d)" by (simp add: send_all_def dismiss_clicked_def)
  moreover have "drop (lk_read (dt_link ?d)) (taken (dt_link d')) = []" unfolding d'(2) by (simp add: taken_def)
  ultimately have "ui_reveal (dt_screen d') = OBSCURED"
    using vault_leaves_screen [OF demo_shell_simps(4) r [unfolded demo_desktop_def]] d'(1) c by auto
  then show ?thesis using r d'(1) by blast
qed

lemma uri_vanishes_witness:
  "\<exists>d uri d1. run_desktop demo_host (demo_shell True) demo_creation demo_desktop = Some d \<and> ui_reveal (dt_screen d) = uri \<and>
     happen demo_host (demo_shell True) (Click AddButton) d = Some d1 \<and> ui_confirm_box (dt_screen d1) \<and> ui_reveal (dt_screen d1) = OBSCURED"
proof -
  let ?W = "demo_shell True"
  obtain d ex uri hs u where d: "run_desktop demo_host ?W demo_creation demo_desktop = Some d" "ui_export (dt_screen d) = None"
    "dt_screen d = handle_response demo_host ex (Created uri hs) u"
    by (rule demo_creation_runs) blast
  obtain d1 where d1: "happen demo_host ?W (Click AddButton) d = Some d1" "ui_confirm_box (dt_screen d1)"
    "\<forall>fs d'. run_desktop demo_host ?W fs d1 = Some d' \<and> (\<forall>a\<in>set (drop (lk_read (dt_link d1)) (taken (dt_link d'))). \<not> revealing a) \<longrightarrow>
       ui_reveal (dt_screen d') = OBSCURED"
    using uri_vanishes [OF demo_shell_simps(4) d(1) [unfolded demo_desktop_def] d(2,3)] by blast
  have "ui_reveal (dt_screen d1) = OBSCURED"
    using d1(3) [rule_format, of "[]" d1] by (simp add: taken_def)
  then show ?thesis using d(1) d1(1,2) by blast
qed

lemma enter_resubmits_witness:
  "\<exists>d2. run_desktop demo_host (demo_shell True) [Click UnlockButton, EnterKey] (demo_desktop\<lparr>dt_screen := build_ui True\<rparr>) = Some d2 \<and>
     lk_queue (dt_link d2) = [UnlockVault [] [], UnlockVault [] []]"
proof -
  let ?d = "demo_desktop\<lparr>dt_screen := build_ui True\<rparr>"
  have p: "ui_page (dt_screen ?d) = UnlockPage" "ui_gate (dt_screen ?d)" "ui_export (dt_screen ?d) = None"
    and f: "ui_unlock_enabled (dt_screen ?d)" "ui_master (dt_screen ?d) = []" "ui_totp (dt_screen ?d) = []" "lk_queue (dt_link ?d) = []"
    by (simp_all add: build_ui_def demo_desktop_def desktop_start_def session_spawn_def)
  have ex: "\<exists>z. run_desktop demo_host (demo_shell True) (Click UnlockButton # replicate 1 x) y = Some z"
    if "x = Click UnlockButton \<or> x = EnterKey" for x and y :: "(unit, ustring option system_clipboard) desktop"
    using that by (elim disjE) (simp_all split: if_split)
  obtain d1 d2 where r: "run_desktop demo_host (demo_shell True) (Click UnlockButton # replicate 1 (Click UnlockButton)) ?d = Some d1"
    "run_desktop demo_host (demo_shell True) (Click UnlockButton # replicate 1 EnterKey) ?d = Some d2"
    using ex by blast
  then have "lk_queue (dt_link d2) = [UnlockVault [] [], UnlockVault [] []]"
    using enter_resubmits [OF p r] f by simp
  then show ?thesis using r(2) by auto
qed

end
