(* ===== verification/Spec2Isabelle.thy ===== *)
theory Spec2Isabelle
  imports Validate VaultCodec Totp RecoveryFile HsmMock HsmAndroid HsmLinux Storage Entropy Provisioning
    SessionTypes WorkerGuarantees ForeignGuarantees Platform CliGuarantees GtkGuarantees
begin

text \<open>
  A verification development for passman, a local, hardware-backed password manager in Rust
  (\<open>src/crates\<close>).  A vault file holds the entries, each sealed under a key of its own; the master key is
  derived from the master password and a secret only the device's hardware can unwrap, and a TOTP code is
  required at unlock.  A recovery file carries the entries to another device under the password alone.

  \<^bold>\<open>How the parts interact.\<close>  A shell (the command line in \<open>passman-cli\<close>, GTK, or Kotlin through
  \<open>passman-uniffi\<close>) opens the \<open>App\<close> of \<open>passman-core\<close>, which owns the vault's path, an instance lock, the
  key store of \<open>passman-hsm\<close>, the advisory lockout and the TOTP verifier.  \<open>create_vault\<close>, \<open>unlock\<close> and
  \<open>import_recovery\<close> end in an \<open>UnlockedApp\<close>, whose operations read the vault file anew, change the vault with
  \<open>passman-vault\<close> and write it back atomically.  The graphical shells do not call it themselves: a worker
  thread owns the application and serves requests from a channel.

  \<^bold>\<open>Conventions.\<close>  A \<open>Result\<close> is a sum (\<open>Inl\<close> the error); \<open>usize\<close> values are naturals, every other machine
  integer is a word of its width; bytes are lists of 8-bit words and strings lists of Unicode scalar
  values (\<open>ustring\<close>).  A stateful operation is a function that returns its result and the new state, also
  on the error paths; \<open>and_then\<close> and \<open>st_then\<close> are the \<open>?\<close> operator.  Randomness is a stream indexed by a
  position that every draw advances.  Answers of the environment (clock, memory, file reads and writes)
  are a function of a count of interactions, so each one may differ.  The state of a device is a type
  variable that the methods of a key store take and return.

  \<^bold>\<open>Parameters.\<close>  Third-party code is an argument: \<open>argon2\<close>, \<open>chacha20poly1305\<close>, \<open>hkdf\<close>, the operating
  system's generator (record \<open>crypto\<close>), \<open>postcard\<close> and UUIDs (\<open>vault_env\<close>), HMAC, \<open>base32\<close>, \<open>zxcvbn\<close>, the
  Android Keystore (\<open>keystore\<close>), \<open>tss-esapi\<close> (\<open>tpm\<close>), \<open>keyring\<close>, \<open>arboard\<close> and SHA-256, \<open>toml\<close> and
  \<open>directories\<close>, the Kotlin callbacks.  What the theorems use of them (a sealed text opens only under its
  key, nonce and associated data; serializers round-trip; a fair generator) are the predicates
  \<open>aead_ok\<close>, \<open>kdf_ok\<close>, \<open>env_ok\<close>, \<open>uuid_ok\<close>, \<open>rng_fair\<close>, \<open>base32_ok\<close>, \<open>keystore_ok\<close>, \<open>arboard_ok\<close>, \<open>toml_ok\<close>;
  each is satisfied by an instance the witnesses run on (\<open>toy_crypto\<close>, \<open>demo_host\<close> and others).

  \<^bold>\<open>Theories, by crate.\<close>
  \<^item> Shared: \<open>Prelude\<close> (results, lists, rewrite collections), \<open>Bytes\<close> (little-endian integers, cursors and
    the locales of their laws), \<open>Utf8\<close>, \<open>Text\<close> (standard-library string operations).
  \<^item> \<open>passman-crypto\<close>: \<open>Crypto\<close> (\<open>kdf.rs\<close>, \<open>aead.rs\<close>, \<open>derive.rs\<close>, \<open>ct.rs\<close>, \<open>rng.rs\<close>).
  \<^item> \<open>passman-policy\<close>: \<open>Policy\<close> (\<open>charset.rs\<close>, \<open>policy.rs\<close>), \<open>Generate\<close> (\<open>generate.rs\<close>), \<open>Validate\<close>
    (\<open>validate.rs\<close>), \<open>Entropy\<close> (\<open>entropy.rs\<close>).
  \<^item> \<open>passman-vault\<close>: \<open>VaultReader\<close>, \<open>EntryRecord\<close>, \<open>VaultIndex\<close>, \<open>Vault\<close> (\<open>vault.rs\<close>, operations),
    \<open>VaultProps\<close> (the map a vault stores), \<open>VaultCodec\<close> (the on-disk layout).
  \<^item> \<open>passman-totp\<close>: \<open>Totp\<close>.  \<open>passman-recovery\<close>: \<open>RecoveryPayload\<close>, \<open>RecoveryFile\<close>.
  \<^item> \<open>passman-hsm\<close>: \<open>Hsm\<close> (trait, blobs, handles, the contract \<open>slot_store\<close>), \<open>HsmWire\<close>, \<open>HsmMock\<close>,
    \<open>HsmAndroid\<close>, \<open>HsmKeyring\<close>, \<open>HsmTpm\<close>, \<open>HsmLinux\<close> (selection).
  \<^item> \<open>passman-core\<close>: \<open>CoreTypes\<close>, \<open>ErrorText\<close> (\<open>error.rs\<close>), \<open>Lockout\<close>, \<open>Storage\<close>, \<open>Provisioning\<close>,
    \<open>Clipboard\<close>, \<open>Host\<close> and \<open>App\<close> (\<open>app.rs\<close>), \<open>Unlocked\<close> (\<open>unlocked.rs\<close>), \<open>Worker\<close> (\<open>worker.rs\<close>).
  \<^item> \<open>passman-platform\<close>: \<open>Platform\<close>.  \<open>passman-uniffi\<close>: \<open>ForeignBridge\<close> (callbacks and adapters), \<open>ForeignApp\<close>
    (the \<open>PassmanApp\<close> object).  \<open>passman-cli\<close>: \<open>Cli\<close> (arguments, terminal, helpers), \<open>CliCommands\<close>.
  \<^item> \<open>passman-gtk\<close>: \<open>GtkScreen\<close> (\<open>ui.rs\<close>: the state of the widgets, the handlers, responses and timers) and
    \<open>GtkDesktop\<close> (the user's, the worker's and the clock's events, one at a time, over the worker's link).

  \<^bold>\<open>What the lemmas show.\<close>
  \<^item> Data: encodings round-trip and the parsers accept exactly the layouts of well-formed values (the
    locales \<open>byte_cursor\<close>, \<open>int_reader\<close>, \<open>vec_reader\<close>, \<open>size_class\<close> carry both crates); a vault is a
    finite map from identifiers to entries under its operations (\<open>entry_store\<close>).
  \<^item> Generation meets its policy, returns on a fair source, and samples without bias; the verifier
    accepts exactly the fresh codes; the lockout schedule is the documented one.
  \<^item> Every backend meets \<open>slot_store\<close>: an enrolled slot unwraps to its secret and to nothing else; the
    theorems about the core assume the contract only.
  \<^item> \<open>AppProps\<close>, \<open>Lifecycle\<close>, \<open>UnlockProps\<close>: the evidence behind a session, the accounting of failures, and
    that a created vault can always be unlocked.
  \<^item> \<open>SessionProps\<close>, \<open>SessionStore\<close>, \<open>Rekey\<close>, \<open>Exchange\<close>, \<open>SessionClaims\<close>, \<open>SessionTotal\<close>, \<open>SessionTypes\<close>,
    \<open>SessionGuarantees\<close>: the reachable states of a session (\<open>session_call\<close>) simulate an abstract store
    with a password (\<open>store_step\<close>); no operation loses an entry, and export followed by import restores.
  \<^item> \<open>WorkerProtocol\<close>, \<open>WorkerSessions\<close>, \<open>WorkerClipboard\<close>, \<open>WorkerGuarantees\<close>: one answer per request, what a
    run does to the vault, and the copied secret when a session ends.
  \<^item> \<open>ForeignGuarantees\<close>: how foreign calls pair up with the worker's answers, and when they do not.
  \<^item> \<open>CliProps\<close>, \<open>CliStore\<close>, \<open>CliGuarantees\<close>: the commands as operations of the same store, by a Hoare
    triple over the steps of a command, the clipboard after \<open>get\<close>, and the exit codes.
  \<^item> \<open>GtkProps\<close>, \<open>GtkGuarantees\<close>: in every run the page follows the session, the vault and what is revealed
    leave the screen, and the observations on a URI that can be covered and an Enter key that repeats.
    The toolkit is taken to behave as documented: a click reaches only a button that is shown and
    sensitive, \<open>emit_clicked\<close> runs the handler whether it is or not, setting a different text runs \<open>changed\<close>,
    removing the selected row reports that none is selected, and the export dialog is modal.
  \<^item> \<open>Entropy\<close>: the tiers that may export, and that an attack through the key derivation is never the
    faster one, for every rounding that keeps doubles and order.

  \<^bold>\<open>Loops and bounds.\<close>  Loops over data are structural; rejection sampling may draw forever and is a
  \<open>partial_function\<close>, with the theorem that it returns on a fair source, so operations that generate
  passwords are partial too.  The worker's loops end when the events that have arrived are used up.  The
  wait of \<open>get\<close> has a measure.  Lengths are bounded where the file formats bound them (16 and 32 bits)
  and the bounds are hypotheses of the theorems that need them.

  \<^bold>\<open>Not modelled.\<close>  The construction and layout of \<open>passman-gtk\<close>'s widgets, the wording of its labels and
  the start-up error window, for they decide nothing; the newtypes of \<open>key.rs\<close> and \<open>secret.rs\<close> beyond the
  bytes they hold, and the erasure of memory (no value of the program depends on it); \<open>progress.rs\<close>
  (notifications nobody reads back); \<open>clap\<close>'s parsing of the command line, the wording of the command
  line's messages, core-dump suppression and the installation of the signal handler, whose flag is an
  input of the model; timing other than the clock's answers; the crates' roots, fuzz targets and tests;
  the Kotlin application.
\<close>

end
